(* ===== verification/JS_Prelude.thy ===== *)
theory JS_Prelude
  imports Main "HOL-Library.Word" "HOL-Library.Char_ord" "HOL-Library.List_Lexorder"
    "HOL-Library.Code_Target_Nat"
begin

text \<open>
  Prelude of the development: the part of the ECMAScript 3 language that the modelled Dojo
  sources rely on, and the generic lemmas that the component theories share.

  \<^item> Numbers. Every number of the modelled code is an integer below \<open>2 ^ 53\<close> in absolute
    value, where IEEE doubles are exact, so a number is an \<^typ>\<open>int\<close>. The bitwise operators
    convert their operands with ToInt32 and ToUint32 (\<open>to_int32\<close>, \<open>to_uint32\<close>), written out
    here operator by operator. The function \<open>w32\<close> reads a number as a 32-bit word, and the
    collection \<open>js_word\<close> says what each operator does to that word.
  \<^item> Arrays are lists, indexed by \<open>js_at\<close> (\<^term>\<open>None\<close> is \<open>undefined\<close>) and edited by
    \<open>js_splice\<close>.
  \<^item> Strings are \<^typ>\<open>string\<close>: sequences of code units below 256.
  \<^item> Exceptions are values of \<open>js_error\<close> in the left summand of a result.
\<close>

unbundle bit_operations_syntax

named_theorems js_word \<open>what the JavaScript operators do to 32-bit words\<close>
named_theorems js_range \<open>range facts about results of the JavaScript operators\<close>

section \<open>Exceptions\<close>

text \<open>
  The exceptions that the modelled code can raise: a property access on \<open>null\<close> or
  \<open>undefined\<close>, a read of an undeclared variable, a failed \<open>dojo.lang.assert\<close> and
  \<open>dojo.raise\<close>.
\<close>

datatype js_error = TypeError | ReferenceError | AssertionError | Raised string

type_synonym 'a result = "js_error + 'a"

definition rbind :: "'a result \<Rightarrow> ('a \<Rightarrow> 'b result) \<Rightarrow> 'b result" where
  "rbind r f = (case r of Inl e \<Rightarrow> Inl e | Inr a \<Rightarrow> f a)"

lemma rbind_simps [simp]:
  "rbind (Inl e) f = Inl e"
  "rbind (Inr a) f = f a"
  by (simp_all add: rbind_def)

lemma rbind_Inr: "rbind r Inr = r"
  by (cases r) simp_all

lemma rbind_Inr_iff: "rbind r f = Inr b \<longleftrightarrow> (\<exists>a. r = Inr a \<and> f a = Inr b)"
  by (cases r) simp_all

section \<open>Numbers and the bitwise operators\<close>

definition to_uint32 :: "int \<Rightarrow> int" where
  "to_uint32 x = x mod 4294967296"

definition to_int32 :: "int \<Rightarrow> int" where
  "to_int32 x = (let m = x mod 4294967296 in if m < 2147483648 then m else m - 4294967296)"

definition js_and :: "int \<Rightarrow> int \<Rightarrow> int" where
  "js_and x y = to_int32 x AND to_int32 y"

definition js_or :: "int \<Rightarrow> int \<Rightarrow> int" where
  "js_or x y = to_int32 x OR to_int32 y"

definition js_xor :: "int \<Rightarrow> int \<Rightarrow> int" where
  "js_xor x y = to_int32 x XOR to_int32 y"

definition js_not :: "int \<Rightarrow> int" where
  "js_not x = - to_int32 x - 1"

definition js_shl :: "int \<Rightarrow> nat \<Rightarrow> int" where
  "js_shl x n = to_int32 (to_int32 x * 2 ^ (n mod 32))"

definition js_shr :: "int \<Rightarrow> nat \<Rightarrow> int" where
  "js_shr x n = to_int32 x div 2 ^ (n mod 32)"

definition js_ushr :: "int \<Rightarrow> nat \<Rightarrow> int" where
  "js_ushr x n = to_uint32 x div 2 ^ (n mod 32)"

definition w32 :: "int \<Rightarrow> 32 word" where
  "w32 x = word_of_int x"

lemma uint_w32: "uint (w32 x) = to_uint32 x"
  by (simp add: w32_def to_uint32_def uint_word_of_int)

lemma to_int32_shift: "to_int32 x = (x + 2147483648) mod 4294967296 - 2147483648"
proof -
  define m where "m = x mod 4294967296"
  have m: "0 \<le> m" "m < 4294967296" by (simp_all add: m_def)
  have "(x + 2147483648) mod 4294967296 = (m + 2147483648) mod 4294967296"
    by (simp add: m_def mod_add_left_eq)
  also have "\<dots> = (if m < 2147483648 then m + 2147483648 else m - 2147483648)"
  proof (cases "m < 2147483648")
    case True
    with m show ?thesis by simp
  next
    case False
    have "(m + 2147483648) mod 4294967296 = (m - 2147483648 + 4294967296) mod 4294967296"
      by (simp add: add.commute)
    also have "\<dots> = (m - 2147483648) mod 4294967296" by (simp only: mod_add_self2)
    finally show ?thesis using False m by simp
  qed
  finally show ?thesis by (simp add: to_int32_def m_def [symmetric] Let_def)
qed

lemma sint_w32: "sint (w32 x) = to_int32 x"
proof -
  have "sint (w32 x) = signed_take_bit 31 x"
    by (simp add: w32_def sint_sbintrunc')
  also have "\<dots> = (x + 2147483648) mod 4294967296 - 2147483648"
    by (simp add: signed_take_bit_eq_take_bit_shift take_bit_eq_mod)
  finally show ?thesis by (simp only: to_int32_shift)
qed

lemma w32_sint [simp]: "w32 (sint w) = w"
  by (simp add: w32_def)

lemma w32_uint [simp]: "w32 (uint w) = w"
  by (simp add: w32_def)

lemma w32_to_int32 [js_word]: "w32 (to_int32 x) = w32 x"
  by (simp flip: sint_w32)

lemma w32_to_uint32 [js_word]: "w32 (to_uint32 x) = w32 x"
  by (simp flip: uint_w32)

lemma to_int32_eq_iff: "to_int32 x = to_int32 y \<longleftrightarrow> w32 x = w32 y"
  by (metis sint_w32 w32_sint)

lemma w32_add [js_word]: "w32 (x + y) = w32 x + w32 y"
  and w32_mult [js_word]: "w32 (x * y) = w32 x * w32 y"
  and w32_minus [js_word]: "w32 (- x) = - w32 x"
  and w32_diff [js_word]: "w32 (x - y) = w32 x - w32 y"
  by (simp_all add: w32_def)

lemma w32_numeral [js_word]: "w32 (numeral k) = numeral k" "w32 0 = 0" "w32 1 = 1"
  by (simp_all add: w32_def)

text \<open>
  Each bitwise operator is the corresponding operation on 32-bit words; all but the unsigned
  shift return the signed reading of the word.
\<close>

lemma js_and_sint: "js_and x y = sint (w32 x AND w32 y)"
  by (simp add: js_and_def signed_and_eq sint_w32)

lemma js_or_sint: "js_or x y = sint (w32 x OR w32 y)"
  by (simp add: js_or_def signed_or_eq sint_w32)

lemma js_xor_sint: "js_xor x y = sint (w32 x XOR w32 y)"
  by (simp add: js_xor_def signed_xor_eq sint_w32)

lemma js_not_sint: "js_not x = sint (NOT (w32 x))"
proof -
  have "- 2147483648 \<le> js_not x \<and> js_not x < 2147483648"
    using pos_mod_bound [of 4294967296 "x + 2147483648"] pos_mod_sign [of 4294967296 "x + 2147483648"]
    unfolding js_not_def to_int32_shift by linarith
  then have "js_not x = to_int32 (js_not x)"
    by (simp add: to_int32_shift)
  then show ?thesis
    by (metis js_not_def not_eq_complement sint_w32 w32_diff w32_minus w32_numeral(3) w32_to_int32)
qed

lemma js_shl_sint: "js_shl x n = sint (push_bit (n mod 32) (w32 x))"
  by (simp add: js_shl_def push_bit_eq_mult js_word flip: sint_w32) (simp add: w32_def)

lemma js_shr_sint: "js_shr x n = sint (signed_drop_bit (n mod 32) (w32 x))"
  by (simp add: js_shr_def sint_signed_drop_bit_eq drop_bit_eq_div sint_w32)

lemma js_ushr_uint: "js_ushr x n = uint (drop_bit (n mod 32) (w32 x))"
proof -
  have "uint (drop_bit (n mod 32) (w32 x)) = drop_bit (n mod 32) (take_bit 32 (uint (w32 x)))"
    using unsigned_drop_bit_eq [of "n mod 32" "w32 x", where 'a = int] by simp
  then show ?thesis
    by (simp add: js_ushr_def drop_bit_eq_div uint_w32 take_bit_eq_mod to_uint32_def)
qed

lemmas js_op_words =
  js_and_sint js_or_sint js_xor_sint js_not_sint js_shl_sint js_shr_sint js_ushr_uint

lemma w32_js_ops [js_word]:
  "w32 (js_and x y) = w32 x AND w32 y"
  "w32 (js_or x y) = w32 x OR w32 y"
  "w32 (js_xor x y) = w32 x XOR w32 y"
  "w32 (js_not x) = NOT (w32 x)"
  "w32 (js_shl x n) = push_bit (n mod 32) (w32 x)"
  "w32 (js_shr x n) = signed_drop_bit (n mod 32) (w32 x)"
  "w32 (js_ushr x n) = drop_bit (n mod 32) (w32 x)"
  by (simp_all add: js_op_words)

definition is_int32 :: "int \<Rightarrow> bool" where
  "is_int32 x \<longleftrightarrow> - 2147483648 \<le> x \<and> x < 2147483648"

lemma to_int32_id: "is_int32 x \<Longrightarrow> to_int32 x = x"
  by (simp add: is_int32_def to_int32_shift)

lemma int32_eqI: "is_int32 x \<Longrightarrow> is_int32 y \<Longrightarrow> w32 x = w32 y \<Longrightarrow> x = y"
  by (metis to_int32_eq_iff to_int32_id)

lemma is_int32_sint [simp]: "is_int32 (sint (w :: 32 word))"
  using sint_range_size [of w] by (simp add: is_int32_def word_size)

lemma is_int32_to_int32 [js_range]: "is_int32 (to_int32 x)"
  by (simp flip: sint_w32)

lemma is_int32_js_ops [js_range]:
  "is_int32 (js_and x y)" "is_int32 (js_or x y)" "is_int32 (js_xor x y)" "is_int32 (js_not x)"
  "is_int32 (js_shl x n)" "is_int32 (js_shr x n)"
  by (simp_all add: js_op_words)

text \<open>Masking and shifting a non-negative number below \<open>2 ^ 32\<close> is division with remainder.\<close>

lemma to_int32_mod: "to_int32 x mod 2 ^ k = x mod 2 ^ k" if "k \<le> 32"
proof -
  have "(2 :: int) ^ k dvd 2 ^ 32" using that by (rule le_imp_power_dvd)
  then have d: "(2 :: int) ^ k dvd 4294967296" by simp
  have "to_int32 x = x - 4294967296 * ((x + 2147483648) div 4294967296)"
    by (simp add: to_int32_shift minus_div_mult_eq_mod [symmetric])
  then have "to_int32 x - x = 4294967296 * - ((x + 2147483648) div 4294967296)" by simp
  with d have "2 ^ k dvd to_int32 x - x" by (metis dvd_mult2)
  then show ?thesis by (simp add: mod_eq_dvd_iff)
qed

lemma js_and_low: "js_and x (2 ^ k - 1) = x mod 2 ^ k" if "k < 32"
proof -
  have "(2 :: int) ^ k \<le> 2 ^ 31" using that by (intro power_increasing) auto
  then have "(2 :: int) ^ k \<le> 2147483648" by simp
  moreover have "(0 :: int) < 2 ^ k" by simp
  ultimately have "is_int32 (2 ^ k - 1)" unfolding is_int32_def by linarith
  then have "to_int32 (2 ^ k - 1) = 2 ^ k - 1" by (rule to_int32_id)
  then have "js_and x (2 ^ k - 1) = take_bit k (to_int32 x)"
    by (simp add: js_and_def take_bit_eq_mask mask_eq_exp_minus_1)
  also have "\<dots> = x mod 2 ^ k"
    using that by (simp add: take_bit_eq_mod to_int32_mod)
  finally show ?thesis .
qed

lemma js_and_mask:
  "js_and x 65535 = x mod 65536" "js_and x 255 = x mod 256"
  "js_and x 15 = x mod 16" "js_and x 63 = x mod 64"
  using js_and_low [of 16 x] js_and_low [of 8 x] js_and_low [of 4 x] js_and_low [of 6 x]
  by simp_all

lemma js_ushr_div: "0 \<le> x \<Longrightarrow> x < 4294967296 \<Longrightarrow> n < 32 \<Longrightarrow> js_ushr x n = x div 2 ^ n"
  by (simp add: js_ushr_def to_uint32_def)

section \<open>Arrays\<close>

text \<open>
  A dense array is the list of its elements. Reading outside the array gives \<open>undefined\<close>.
  \<open>js_splice xs s d ins\<close> is the array after \<open>xs.splice(s, d, ...ins)\<close>, with the clamping of
  the start and of the delete count that the language specifies.
\<close>

definition js_at :: "'a list \<Rightarrow> int \<Rightarrow> 'a option" where
  "js_at xs i = (if 0 \<le> i \<and> i < int (length xs) then Some (xs ! nat i) else None)"

definition js_splice :: "'a list \<Rightarrow> int \<Rightarrow> int \<Rightarrow> 'a list \<Rightarrow> 'a list" where
  "js_splice xs s d ins =
     (let n = int (length xs);
          st = nat (if s < 0 then max (n + s) 0 else min s n);
          dc = nat (min (max d 0) (n - int st))
      in take st xs @ ins @ drop (st + dc) xs)"

lemma js_at_nat [simp]: "js_at xs (int i) = (if i < length xs then Some (xs ! i) else None)"
  by (simp add: js_at_def)

lemma js_at_Some_iff: "js_at xs i = Some x \<longleftrightarrow> 0 \<le> i \<and> nat i < length xs \<and> xs ! nat i = x"
  by (auto simp: js_at_def)

lemma js_splice_delete: "i < length xs \<Longrightarrow> js_splice xs (int i) 1 [] = take i xs @ drop (Suc i) xs"
  by (simp add: js_splice_def Let_def)

lemma js_splice_insert: "i \<le> length xs \<Longrightarrow> js_splice xs (int i) 0 ys = take i xs @ ys @ drop i xs"
  by (simp add: js_splice_def Let_def)

lemma js_splice_clear: "js_splice xs 0 (int (length xs)) [] = []"
  by (simp add: js_splice_def Let_def)

text \<open>
  The search loop that many of the sources share:
  \<open>for(i = 0; i < xs.length; i++) if(p(xs[i])) return i; return -1\<close>.
\<close>

fun scan_index :: "('a \<Rightarrow> bool) \<Rightarrow> 'a list \<Rightarrow> int \<Rightarrow> int" where
  "scan_index p [] i = - 1"
| "scan_index p (x # xs) i = (if p x then i else scan_index p xs (i + 1))"

lemma scan_index_none: "(\<forall>x \<in> set xs. \<not> p x) \<Longrightarrow> scan_index p xs i = - 1"
  by (induction xs arbitrary: i) auto

lemma scan_index_split:
  "\<exists>x \<in> set xs. p x \<Longrightarrow>
   \<exists>us x vs. xs = us @ x # vs \<and> p x \<and> (\<forall>u \<in> set us. \<not> p u) \<and> scan_index p xs i = i + int (length us)"
proof (induction xs arbitrary: i)
  case (Cons y ys)
  show ?case
  proof (cases "p y")
    case True
    then show ?thesis by (intro exI [of _ "[]"]) auto
  next
    case False
    with Cons.prems have "\<exists>x \<in> set ys. p x" by auto
    then obtain us x vs where "ys = us @ x # vs" "p x" "\<forall>u \<in> set us. \<not> p u"
      "scan_index p ys (i + 1) = i + 1 + int (length us)"
      using Cons.IH by blast
    with False show ?thesis by (intro exI [of _ "y # us"]) auto
  qed
qed simp

lemma scan_index_nonneg_iff: "0 \<le> i \<Longrightarrow> 0 \<le> scan_index p xs i \<longleftrightarrow> (\<exists>x \<in> set xs. p x)"
  using scan_index_none [of xs p i] scan_index_split [of xs p i] by fastforce

end
