(* ===== verification/JS_Strings.thy ===== *)
theory JS_Strings
  imports JS_Prelude
begin

text \<open>
  The string functions of the language that the sources call: \<open>toString(16)\<close>,
  \<open>parseInt(s, 16)\<close>, \<open>toLowerCase\<close>, \<open>split\<close> on one character, \<open>join\<close>, \<open>charAt\<close> and
  \<open>substring\<close>; and the lemmas about hexadecimal numerals that the UUID theories share.
\<close>

section \<open>Hexadecimal numerals\<close>

definition hex_digit :: "nat \<Rightarrow> char" where
  "hex_digit n = ''0123456789abcdef'' ! n"

fun to_hex :: "nat \<Rightarrow> string" where
  "to_hex n = (if n < 16 then [hex_digit n] else to_hex (n div 16) @ [hex_digit (n mod 16)])"

declare to_hex.simps [simp del]

definition hex_val :: "char \<Rightarrow> nat option" where
  "hex_val c =
     (let k = of_char c :: nat
      in if 48 \<le> k \<and> k \<le> 57 then Some (k - 48)
         else if 97 \<le> k \<and> k \<le> 102 then Some (k - 87)
         else if 65 \<le> k \<and> k \<le> 70 then Some (k - 55)
         else None)"

text \<open>The digits at the front of a string, and the number they denote.\<close>

fun hex_prefix :: "string \<Rightarrow> nat list" where
  "hex_prefix [] = []"
| "hex_prefix (c # cs) = (case hex_val c of None \<Rightarrow> [] | Some d \<Rightarrow> d # hex_prefix cs)"

definition from_digits :: "nat list \<Rightarrow> nat" where
  "from_digits ds = foldl (\<lambda>v d. 16 * v + d) 0 ds"

definition is_space :: "char \<Rightarrow> bool" where
  "is_space c \<longleftrightarrow> of_char c \<in> {9, 10, 11, 12, 13, 32, 160 :: nat}"

text \<open>
  \<open>parseInt(s, 16)\<close>: leading white space, a sign and \<open>0x\<close> are skipped, digits are read as far
  as they go, and the result is NaN (\<^term>\<open>None\<close>) when there is none.
\<close>

definition strip_0x :: "string \<Rightarrow> string" where
  "strip_0x s = (if take 2 s = ''0x'' \<or> take 2 s = ''0X'' then drop 2 s else s)"

definition parse_int16 :: "string \<Rightarrow> int option" where
  "parse_int16 s =
     (let t = dropWhile is_space s;
          neg = (take 1 t = ''-'');
          u = (if take 1 t = ''-'' \<or> take 1 t = ''+'' then drop 1 t else t);
          ds = hex_prefix (strip_0x u)
      in if ds = [] then None
         else Some (if neg then - int (from_digits ds) else int (from_digits ds)))"

definition hex_char :: "char \<Rightarrow> bool" where
  "hex_char c \<longleftrightarrow> c \<in> set ''0123456789abcdef''"

definition is_hex :: "string \<Rightarrow> bool" where
  "is_hex s \<longleftrightarrow> list_all hex_char s"

lemma is_hex_simps [simp]:
  "is_hex []" "is_hex (c # s) \<longleftrightarrow> hex_char c \<and> is_hex s" "is_hex (s @ t) \<longleftrightarrow> is_hex s \<and> is_hex t"
  by (simp_all add: is_hex_def)

lemma is_hex_take [simp]: "is_hex s \<Longrightarrow> is_hex (take n s)"
  and is_hex_drop [simp]: "is_hex s \<Longrightarrow> is_hex (drop n s)"
  unfolding is_hex_def list_all_iff by (auto dest: in_set_takeD in_set_dropD)

lemma is_hex_nth [simp]: "is_hex s \<Longrightarrow> i < length s \<Longrightarrow> hex_char (s ! i)"
  by (simp add: is_hex_def list_all_length)

lemma hex_digit_char [simp]: "n < 16 \<Longrightarrow> hex_char (hex_digit n)"
  unfolding hex_digit_def hex_char_def by (rule nth_mem) simp

lemma hex_val_digit [simp]: "n < 16 \<Longrightarrow> hex_val (hex_digit n) = Some n"
proof -
  assume "n < 16"
  then have "n \<in> set [0..<16]" by simp
  then show ?thesis by (auto simp: hex_val_def hex_digit_def upt_rec numeral_nat)
qed

lemma hex_char_cases: "hex_char c \<Longrightarrow> \<exists>n < 16. c = hex_digit n"
proof -
  assume "hex_char c"
  then obtain n where "n < length ''0123456789abcdef''" "c = ''0123456789abcdef'' ! n"
    unfolding hex_char_def in_set_conv_nth by blast
  then have "n < 16 \<and> c = hex_digit n" by (simp add: hex_digit_def)
  then show ?thesis by blast
qed

lemma hex_char_val: "hex_char c \<Longrightarrow> \<exists>d < 16. hex_val c = Some d"
  using hex_char_cases hex_val_digit by blast

lemma to_hex_nonempty [simp]: "to_hex n \<noteq> []"
  by (subst to_hex.simps) simp

lemma is_hex_to_hex [simp]: "is_hex (to_hex n)"
proof (induction n rule: to_hex.induct)
  case (1 n)
  then show ?case
    by (cases "n < 16") (simp_all add: to_hex.simps [of n])
qed

lemma length_to_hex: "0 < k \<Longrightarrow> n < 16 ^ k \<Longrightarrow> length (to_hex n) \<le> k"
proof (induction n arbitrary: k rule: to_hex.induct)
  case (1 n)
  show ?case
  proof (cases "n < 16")
    case True
    with 1 show ?thesis by (subst to_hex.simps) simp
  next
    case False
    with 1 obtain j where k: "k = Suc j" "0 < j"
      by (cases k; cases "k - 1") auto
    with 1 have "n div 16 < 16 ^ j" by (simp add: less_mult_imp_div_less mult.commute)
    with 1 False k have "length (to_hex (n div 16)) \<le> j" by blast
    with False k show ?thesis by (subst to_hex.simps) simp
  qed
qed

lemma from_digits_snoc [simp]: "from_digits (ds @ [d]) = 16 * from_digits ds + d"
  by (simp add: from_digits_def)

lemma from_digits_zeros: "from_digits (replicate n 0 @ ds) = from_digits ds"
  by (induction n) (simp_all add: from_digits_def)

lemma hex_prefix_append: "is_hex s \<Longrightarrow> hex_prefix (s @ t) = hex_prefix s @ hex_prefix t"
  by (induction s) (auto dest: hex_char_val)

lemma hex_prefix_length: "is_hex s \<Longrightarrow> length (hex_prefix s) = length s"
  by (induction s) (auto dest: hex_char_val)

lemma from_to_hex: "from_digits (hex_prefix (to_hex n)) = n"
proof (induction n rule: to_hex.induct)
  case (1 n)
  then show ?case
    by (cases "n < 16") (simp_all add: to_hex.simps [of n] hex_prefix_append from_digits_def)
qed

section \<open>Case, splitting and joining\<close>

definition lower_char :: "char \<Rightarrow> char" where
  "lower_char c =
     (let k = of_char c :: nat
      in if 65 \<le> k \<and> k \<le> 90 \<or> 192 \<le> k \<and> k \<le> 222 \<and> k \<noteq> 215 then char_of (k + 32) else c)"

definition to_lower :: "string \<Rightarrow> string" where
  "to_lower s = map lower_char s"

lemma to_lower_simps [simp]:
  "to_lower [] = []" "to_lower (c # s) = lower_char c # to_lower s"
  "to_lower (s @ t) = to_lower s @ to_lower t" "length (to_lower s) = length s"
  by (simp_all add: to_lower_def)

lemma lower_hex [simp]: "hex_char c \<Longrightarrow> lower_char c = c"
proof -
  assume "hex_char c"
  then obtain n where "n < 16" "c = hex_digit n" using hex_char_cases by blast
  then have "n \<in> set [0..<16]" by simp
  then show ?thesis unfolding \<open>c = hex_digit n\<close>
    by (auto simp: lower_char_def hex_digit_def upt_rec numeral_nat)
qed

lemma to_lower_hex [simp]: "is_hex s \<Longrightarrow> to_lower s = s"
  by (induction s) auto

fun split_on :: "char \<Rightarrow> string \<Rightarrow> string list" where
  "split_on d [] = [[]]"
| "split_on d (c # cs) =
     (if c = d then [] # split_on d cs
      else (case split_on d cs of [] \<Rightarrow> [[c]] | w # ws \<Rightarrow> (c # w) # ws))"

fun join_with :: "string \<Rightarrow> string list \<Rightarrow> string" where
  "join_with sep [] = []"
| "join_with sep [w] = w"
| "join_with sep (w # v # ws) = w @ sep @ join_with sep (v # ws)"

lemma split_on_nonempty [simp]: "split_on d s \<noteq> []"
  by (induction s) (auto split: list.split)

lemma split_on_none: "d \<notin> set s \<Longrightarrow> split_on d s = [s]"
  by (induction s) auto

lemma split_on_append: "d \<notin> set s \<Longrightarrow> split_on d (s @ d # t) = s # split_on d t"
  by (induction s) auto

lemma join_split: "join_with [d] (split_on d s) = s"
proof (induction s)
  case (Cons c s)
  then show ?case
    by (cases "split_on d s" rule: remdups_adj.cases) auto
qed simp

lemma is_hex_member: "is_hex s \<Longrightarrow> c \<in> set s \<Longrightarrow> hex_char c"
  by (simp add: is_hex_def list_all_iff)

lemma hyphen_not_hex: "\<not> hex_char CHR ''-''"
  by (simp add: hex_char_def)

lemma is_hex_no_hyphen: "is_hex s \<Longrightarrow> CHR ''-'' \<notin> set s"
  using is_hex_member hyphen_not_hex by blast

definition char_at :: "string \<Rightarrow> nat \<Rightarrow> string" where
  "char_at s i = (if i < length s then [s ! i] else [])"

definition substring :: "string \<Rightarrow> nat \<Rightarrow> nat \<Rightarrow> string" where
  "substring s i j = take (j - i) (drop i s)"

section \<open>Decimal numerals\<close>

definition dec_digit :: "nat \<Rightarrow> char" where
  "dec_digit n = ''0123456789'' ! n"

fun to_dec :: "nat \<Rightarrow> string" where
  "to_dec n = (if n < 10 then [dec_digit n] else to_dec (n div 10) @ [dec_digit (n mod 10)])"

declare to_dec.simps [simp del]

end
