(* ===== verification/Uuid.thy ===== *)
theory Uuid
  imports JS_Strings
begin

text \<open>
  The class \<open>dojo.uuid.Uuid\<close> of \<open>src/uuid/Uuid.js\<close>: validation, formatting, comparison, and
  the accessors for the variant, the version, the node and the hexadecimal timestamp, with the
  fields in which the accessors cache their results. A UUID generator is an interface of this
  class: the locale \<open>uuid_generator\<close> states what a generator promises, and the theories of the
  generators interpret it.
\<close>

section \<open>The object and its operations\<close>

record uuid =
  uuidString :: string
  versionNumber :: "int option"
  nodeString :: "string option"
  timestampAsHexString :: "string option"

definition NIL_UUID :: string where
  "NIL_UUID = ''00000000-0000-0000-0000-000000000000''"

definition Variant_NCS :: string where "Variant_NCS = ''0''"
definition Variant_DCE :: string where "Variant_DCE = ''10''"
definition Variant_MICROSOFT :: string where "Variant_MICROSOFT = ''110''"
definition Variant_UNKNOWN :: string where "Variant_UNKNOWN = ''111''"

definition Version_TIME_BASED :: int where "Version_TIME_BASED = 1"
definition Version_RANDOM :: int where "Version_RANDOM = 4"

definition mk_uuid :: "string \<Rightarrow> uuid" where
  "mk_uuid s = \<lparr>uuidString = s, versionNumber = None, nodeString = None, timestampAsHexString = None\<rparr>"

lemma mk_uuid_simps [simp]:
  "uuidString (mk_uuid s) = s" "versionNumber (mk_uuid s) = None"
  "nodeString (mk_uuid s) = None" "timestampAsHexString (mk_uuid s) = None"
  by (simp_all add: mk_uuid_def)

text \<open>\<open>isValid\<close>: every failed assertion inside the \<open>try\<close> block makes the result \<open>false\<close>.\<close>

definition isValid :: "string \<Rightarrow> bool" where
  "isValid s \<longleftrightarrow>
     length s = 36 \<and> s = to_lower s \<and>
     (let parts = split_on CHR ''-'' s
      in length parts = 5 \<and> length (parts ! 0) = 8 \<and> length (parts ! 1) = 4
         \<and> length (parts ! 2) = 4 \<and> length (parts ! 3) = 4 \<and> length (parts ! 4) = 12
         \<and> list_all (\<lambda>part. parse_int16 part \<noteq> None) parts)"

text \<open>
  The constructor's argument: nothing (or a falsy value), a string, an object with a
  \<open>generate\<close> method (represented by what that method returns), or anything else. The first
  parameter of \<open>Uuid_new\<close> is the default generator \<open>dojo.uuid.Uuid._ourGenerator\<close>.
\<close>

datatype uuid_input = No_Input | In_String string | In_Generator "string result" | In_Other

definition checked_uuid :: "string \<Rightarrow> uuid result" where
  "checked_uuid s = (if isValid s then Inr (mk_uuid s) else Inl AssertionError)"

definition default_uuid :: "string result option \<Rightarrow> uuid result" where
  "default_uuid ourGenerator =
     (case ourGenerator of
        None \<Rightarrow> Inr (mk_uuid NIL_UUID)
      | Some gen \<Rightarrow> rbind gen checked_uuid)"

fun Uuid_new :: "string result option \<Rightarrow> uuid_input \<Rightarrow> uuid result" where
  "Uuid_new ourGenerator No_Input = default_uuid ourGenerator"
| "Uuid_new ourGenerator (In_String s) =
     (if s = [] then default_uuid ourGenerator else checked_uuid (to_lower s))"
| "Uuid_new ourGenerator (In_Generator gen) = rbind gen checked_uuid"
| "Uuid_new ourGenerator In_Other = Inl AssertionError"

definition uuid_compare :: "string \<Rightarrow> string \<Rightarrow> int" where
  "uuid_compare uuidStringOne uuidStringTwo =
     (if uuidStringOne > uuidStringTwo then 1
      else if uuidStringOne < uuidStringTwo then - 1 else 0)"

definition isEqual :: "uuid \<Rightarrow> uuid \<Rightarrow> bool" where
  "isEqual u v \<longleftrightarrow> uuid_compare (uuidString u) (uuidString v) = 0"

definition uuid_toString :: "uuid \<Rightarrow> string option \<Rightarrow> string result" where
  "uuid_toString u format =
     (case format of
        None \<Rightarrow> Inr (uuidString u)
      | Some f \<Rightarrow>
          if f = [] then Inr (uuidString u)
          else if f = ''{}'' then Inr (''{'' @ uuidString u @ ''}'')
          else if f = ''()'' then Inr (''('' @ uuidString u @ '')'')
          else if f = [CHR 0x22, CHR 0x22] then Inr ([CHR 0x22] @ uuidString u @ [CHR 0x22])
          else if f = [CHR 0x27, CHR 0x27] then Inr ([CHR 0x27] @ uuidString u @ [CHR 0x27])
          else if f = ''urn'' then Inr (''urn:uuid:'' @ uuidString u)
          else if f = ''!-'' then Inr (join_with [] (split_on CHR ''-'' (uuidString u)))
          else Inl AssertionError)"

definition variantLookupTable :: "string list" where
  "variantLookupTable =
     [Variant_NCS, Variant_NCS, Variant_NCS, Variant_NCS,
      Variant_NCS, Variant_NCS, Variant_NCS, Variant_NCS,
      Variant_DCE, Variant_DCE, Variant_DCE, Variant_DCE,
      Variant_MICROSOFT, Variant_MICROSOFT, Variant_UNKNOWN, Variant_UNKNOWN]"

text \<open>\<open>getVariant\<close> returns \<^term>\<open>None\<close> where the lookup table has no entry.\<close>

definition getVariant :: "uuid \<Rightarrow> string option result" where
  "getVariant u =
     (case parse_int16 (char_at (uuidString u) 19) of
        None \<Rightarrow> Inl AssertionError
      | Some n \<Rightarrow> if 0 \<le> n \<and> n \<le> 16 then Inr (js_at variantLookupTable n) else Inl AssertionError)"

text \<open>
  The accessors return the object with its caches filled. A version number is \<^term>\<open>None\<close>
  where \<open>parseInt\<close> gives NaN; zero and NaN are falsy, so they are computed again.
\<close>

definition truthy_number :: "int option \<Rightarrow> bool" where
  "truthy_number n \<longleftrightarrow> n \<noteq> None \<and> n \<noteq> Some 0"

definition getVersion :: "uuid \<Rightarrow> (uuid \<times> int option) result" where
  "getVersion u =
     (if truthy_number (versionNumber u) then Inr (u, versionNumber u)
      else rbind (getVariant u) (\<lambda>variant.
        if variant = Some Variant_DCE
        then (let v = parse_int16 (char_at (uuidString u) 14)
              in Inr (u\<lparr>versionNumber := v\<rparr>, v))
        else Inl AssertionError))"

definition getNode :: "uuid \<Rightarrow> (uuid \<times> string) result" where
  "getNode u =
     (case nodeString u of
        Some n \<Rightarrow> Inr (u, n)
      | None \<Rightarrow>
          rbind (getVersion u) (\<lambda>(u, version).
            if version = Some Version_TIME_BASED
            then (case js_at (split_on CHR ''-'' (uuidString u)) 4 of
                    Some n \<Rightarrow> Inr (u\<lparr>nodeString := Some n\<rparr>, n)
                  | None \<Rightarrow> Inl TypeError)
            else Inl AssertionError))"

definition getTimestamp_hex :: "uuid \<Rightarrow> (uuid \<times> string) result" where
  "getTimestamp_hex u =
     rbind (getVersion u) (\<lambda>(u, version).
       if version = Some Version_TIME_BASED
       then (case timestampAsHexString u of
               Some t \<Rightarrow> Inr (u, t)
             | None \<Rightarrow>
                 (let parts = split_on CHR ''-'' (uuidString u);
                      hexTimeLow = parts ! 0; hexTimeMid = parts ! 1; hexTimeHigh = drop 1 (parts ! 2);
                      t = hexTimeHigh @ hexTimeMid @ hexTimeLow
                  in if length t = 15 then Inr (u\<lparr>timestampAsHexString := Some t\<rparr>, t)
                     else Inl AssertionError))
       else Inl AssertionError)"

section \<open>UUID texts\<close>

definition uuid_text :: "string \<Rightarrow> string \<Rightarrow> string \<Rightarrow> string \<Rightarrow> string \<Rightarrow> string" where
  "uuid_text a b c d e = a @ ''-'' @ b @ ''-'' @ c @ ''-'' @ d @ ''-'' @ e"

definition uuid_fields :: "string \<Rightarrow> string \<Rightarrow> string \<Rightarrow> string \<Rightarrow> string \<Rightarrow> bool" where
  "uuid_fields a b c d e \<longleftrightarrow>
     is_hex a \<and> is_hex b \<and> is_hex c \<and> is_hex d \<and> is_hex e \<and>
     length a = 8 \<and> length b = 4 \<and> length c = 4 \<and> length d = 4 \<and> length e = 12"

lemma hex_char_not_special:
  assumes "hex_char c"
  shows "\<not> is_space c" "c \<noteq> CHR ''-''" "c \<noteq> CHR ''+''" "c \<noteq> CHR ''x''" "c \<noteq> CHR ''X''"
  using assms unfolding hex_char_def by (auto simp: is_space_def)

lemma take1_hex: "is_hex s \<Longrightarrow> take (Suc 0) s \<noteq> ''-''" "is_hex s \<Longrightarrow> take (Suc 0) s \<noteq> ''+''"
  by (cases s; auto dest: hex_char_not_special)+

lemma strip_0x_hex: "is_hex s \<Longrightarrow> strip_0x s = s"
  unfolding strip_0x_def by (cases s; cases "tl s") (auto dest: hex_char_not_special)

lemma dropWhile_hex: "is_hex s \<Longrightarrow> dropWhile is_space s = s"
  by (cases s) (auto dest: hex_char_not_special)

lemma hex_prefix_Nil: "is_hex s \<Longrightarrow> hex_prefix s = [] \<longleftrightarrow> s = []"
  using hex_prefix_length [of s] by auto

lemma parse_int16_hex:
  "is_hex s \<Longrightarrow> s \<noteq> [] \<Longrightarrow> parse_int16 s = Some (int (from_digits (hex_prefix s)))"
  by (simp add: parse_int16_def dropWhile_hex take1_hex strip_0x_hex hex_prefix_Nil Let_def)

lemma split_uuid_text:
  "uuid_fields a b c d e \<Longrightarrow> split_on CHR ''-'' (uuid_text a b c d e) = [a, b, c, d, e]"
  by (simp add: uuid_text_def uuid_fields_def split_on_append split_on_none is_hex_no_hyphen)

lemma lower_hyphen [simp]: "lower_char CHR ''-'' = CHR ''-''"
  by (simp add: lower_char_def)

lemma to_lower_uuid_text [simp]:
  "uuid_fields a b c d e \<Longrightarrow> to_lower (uuid_text a b c d e) = uuid_text a b c d e"
  by (simp add: uuid_text_def uuid_fields_def)

lemma length_uuid_text [simp]: "uuid_fields a b c d e \<Longrightarrow> length (uuid_text a b c d e) = 36"
  by (simp add: uuid_text_def uuid_fields_def)

lemma isValid_uuid_text:
  assumes "uuid_fields a b c d e" shows "isValid (uuid_text a b c d e)"
proof -
  have "list_all (\<lambda>p. is_hex p \<and> p \<noteq> []) [a, b, c, d, e]"
    using assms by (auto simp: uuid_fields_def)
  then have "list_all (\<lambda>p. parse_int16 p \<noteq> None) [a, b, c, d, e]"
    by (rule list.pred_mono_strong) (simp add: parse_int16_hex)
  then show ?thesis
    using assms unfolding isValid_def
    by (simp add: split_uuid_text) (simp add: uuid_fields_def numeral_nat)
qed

lemma uuid_text_chars:
  assumes "uuid_fields a b c d e"
  shows "char_at (uuid_text a b c d e) 14 = [c ! 0]" "char_at (uuid_text a b c d e) 19 = [d ! 0]"
  using assms unfolding char_at_def
  by (simp_all add: uuid_text_def uuid_fields_def nth_append nth_Cons')

definition digit_of :: "char \<Rightarrow> int" where
  "digit_of c = (case hex_val c of None \<Rightarrow> 0 | Some d \<Rightarrow> int d)"

lemma digit_of_hex_digit [simp]: "n < 16 \<Longrightarrow> digit_of (hex_digit n) = int n"
  by (simp add: digit_of_def)

lemma parse_int16_char: "hex_char c \<Longrightarrow> parse_int16 [c] = Some (digit_of c)"
  using hex_char_val [of c] by (auto simp: parse_int16_hex digit_of_def from_digits_def)

lemma digit_of_bounds: "hex_char c \<Longrightarrow> 0 \<le> digit_of c \<and> digit_of c < 16"
  using hex_char_val [of c] by (auto simp: digit_of_def)

lemma getVariant_uuid_text:
  assumes "uuid_fields a b c d e"
  shows "getVariant (mk_uuid (uuid_text a b c d e)) =
    Inr (Some (variantLookupTable ! nat (digit_of (d ! 0))))"
proof -
  have "hex_char (d ! 0)" using assms by (simp add: uuid_fields_def)
  then show ?thesis
    using assms digit_of_bounds [of "d ! 0"]
    by (simp add: getVariant_def mk_uuid_def uuid_text_chars parse_int16_char js_at_def)
      (simp add: variantLookupTable_def)
qed

lemma variant_DCE_iff:
  assumes "hex_char c"
  shows "variantLookupTable ! nat (digit_of c) = Variant_DCE \<longleftrightarrow> 8 \<le> digit_of c \<and> digit_of c < 12"
proof -
  have "nat (digit_of c) \<in> set [0..<16]" using digit_of_bounds [OF assms] by auto
  then show ?thesis
    by (auto simp: upt_rec variantLookupTable_def Variant_NCS_def Variant_DCE_def
        Variant_MICROSOFT_def Variant_UNKNOWN_def numeral_nat)
qed

lemma getVersion_uuid_text:
  assumes "uuid_fields a b c d e"
  shows "getVersion (mk_uuid (uuid_text a b c d e)) =
    (if 8 \<le> digit_of (d ! 0) \<and> digit_of (d ! 0) < 12
     then Inr ((mk_uuid (uuid_text a b c d e))\<lparr>versionNumber := Some (digit_of (c ! 0))\<rparr>,
               Some (digit_of (c ! 0)))
     else Inl AssertionError)"
proof -
  have "hex_char (d ! 0)" "hex_char (c ! 0)" using assms by (simp_all add: uuid_fields_def)
  with assms show ?thesis
    unfolding getVersion_def getVariant_uuid_text [OF assms]
    by (simp add: variant_DCE_iff) (simp add: truthy_number_def mk_uuid_def uuid_text_chars parse_int16_char Let_def)
qed

section \<open>The caches are transparent\<close>

definition result_value :: "(uuid \<times> 'a) result \<Rightarrow> 'a result" where
  "result_value r = (case r of Inl e \<Rightarrow> Inl e | Inr (u, x) \<Rightarrow> Inr x)"

lemma result_value_simps [simp]:
  "result_value (Inl e) = Inl e" "result_value (Inr (u, x)) = Inr x"
  by (simp_all add: result_value_def)

definition fresh :: "uuid \<Rightarrow> uuid" where
  "fresh u = mk_uuid (uuidString u)"

definition cache_ok :: "uuid \<Rightarrow> bool" where
  "cache_ok u \<longleftrightarrow>
     (\<forall>v. versionNumber u = Some v \<longrightarrow> result_value (getVersion (fresh u)) = Inr (Some v)) \<and>
     (\<forall>n. nodeString u = Some n \<longrightarrow> result_value (getNode (fresh u)) = Inr n) \<and>
     (\<forall>t. timestampAsHexString u = Some t \<longrightarrow> result_value (getTimestamp_hex (fresh u)) = Inr t)"

lemma cache_ok_mk_uuid: "cache_ok (mk_uuid s)"
  by (simp add: cache_ok_def mk_uuid_def)

lemma getVariant_fresh: "getVariant (fresh u) = getVariant u"
  by (simp add: getVariant_def fresh_def mk_uuid_def)

lemma fresh_simps [simp]:
  "uuidString (fresh u) = uuidString u" "versionNumber (fresh u) = None"
  "nodeString (fresh u) = None" "timestampAsHexString (fresh u) = None" "fresh (fresh u) = fresh u"
  "fresh (u\<lparr>versionNumber := v\<rparr>) = fresh u" "fresh (u\<lparr>nodeString := n\<rparr>) = fresh u"
  "fresh (u\<lparr>timestampAsHexString := t\<rparr>) = fresh u"
  by (simp_all add: fresh_def mk_uuid_def)

lemma getVersion_cached:
  assumes "cache_ok u"
  shows "result_value (getVersion u) = result_value (getVersion (fresh u))"
proof (cases "truthy_number (versionNumber u)")
  case True
  then obtain v where "versionNumber u = Some v" by (auto simp: truthy_number_def)
  with True assms show ?thesis by (simp add: getVersion_def cache_ok_def)
next
  case False
  moreover have "\<not> truthy_number (versionNumber (fresh u))" by (simp add: truthy_number_def)
  ultimately show ?thesis
    by (cases "getVariant u") (simp_all add: getVersion_def getVariant_fresh Let_def)
qed

lemma getVersion_object:
  "getVersion u = Inr (u', v) \<Longrightarrow> u' = u \<or> u' = u\<lparr>versionNumber := v\<rparr>"
  by (auto simp: getVersion_def rbind_Inr_iff Let_def split: if_splits)

lemma getVersion_cache_ok:
  assumes "cache_ok u" "getVersion u = Inr (u', v)" shows "cache_ok u'"
proof -
  have "result_value (getVersion (fresh u)) = Inr v"
    using getVersion_cached [OF assms(1)] assms(2) by simp
  with assms getVersion_object [OF assms(2)] show ?thesis
    by (auto simp: cache_ok_def)
qed

text \<open>What the node and timestamp accessors do after the version check.\<close>

lemma getVersion_string: "getVersion u = Inr (u', v) \<Longrightarrow> uuidString u' = uuidString u"
  and getVersion_frame: "getVersion u = Inr (u', v) \<Longrightarrow>
    nodeString u' = nodeString u \<and> timestampAsHexString u' = timestampAsHexString u"
  by (auto dest: getVersion_object)

lemma getNode_cached:
  assumes "cache_ok u"
  shows "result_value (getNode u) = result_value (getNode (fresh u))"
proof (cases "nodeString u")
  case None
  with getVersion_cached [OF assms] show ?thesis
    by (cases "getVersion u"; cases "getVersion (fresh u)")
      (auto simp: getNode_def split: option.splits dest!: getVersion_string)
next
  case (Some n)
  with assms show ?thesis by (simp add: getNode_def cache_ok_def)
qed

lemma getTimestamp_hex_cached:
  assumes "cache_ok u"
  shows "result_value (getTimestamp_hex u) = result_value (getTimestamp_hex (fresh u))"
proof (cases "getVersion u")
  case (Inl e)
  with getVersion_cached [OF assms] show ?thesis
    by (cases "getVersion (fresh u)") (auto simp: getTimestamp_hex_def)
next
  case (Inr p)
  obtain u' v where p: "getVersion u = Inr (u', v)" using Inr by (cases p) auto
  with getVersion_cached [OF assms] obtain w where w: "getVersion (fresh u) = Inr (w, v)"
    by (cases "getVersion (fresh u)") auto
  show ?thesis
  proof (cases "timestampAsHexString u")
    case None
    with p w getVersion_string [OF p] getVersion_string [OF w] getVersion_frame [OF p]
      getVersion_frame [OF w]
    show ?thesis by (simp add: getTimestamp_hex_def Let_def)
  next
    case (Some t)
    with assms have "result_value (getTimestamp_hex (fresh u)) = Inr t" by (simp add: cache_ok_def)
    moreover from this w have "v = Some Version_TIME_BASED"
      by (auto simp: getTimestamp_hex_def split: if_splits)
    ultimately show ?thesis
      using p Some getVersion_frame [OF p] by (simp add: getTimestamp_hex_def)
  qed
qed

section \<open>The generator interface\<close>

text \<open>
  What \<open>Uuid\<close> relies on when it is handed a generator: for an admissible state of the generator
  and its environment, \<open>generate\<close> returns a valid string of the DCE variant, and the version
  digit is the generator's.
\<close>

locale uuid_generator =
  fixes generate :: "'s \<Rightarrow> string result" and admissible :: "'s \<Rightarrow> bool" and version :: int
  assumes generate_fields: "admissible r \<Longrightarrow>
    \<exists>a b c d e. generate r = Inr (uuid_text a b c d e) \<and> uuid_fields a b c d e \<and>
      digit_of (c ! 0) = version \<and> 8 \<le> digit_of (d ! 0) \<and> digit_of (d ! 0) < 12"
begin

lemma new_accepts:
  assumes "admissible r"
  obtains s where "generate r = Inr s" "isValid s"
    "Uuid_new gen (In_Generator (generate r)) = Inr (mk_uuid s)"
    "Uuid_new (Some (generate r)) No_Input = Inr (mk_uuid s)"
    "result_value (getVersion (mk_uuid s)) = Inr (Some version)"
proof -
  obtain a b c d e where g: "generate r = Inr (uuid_text a b c d e)" "uuid_fields a b c d e"
    "digit_of (c ! 0) = version" "8 \<le> digit_of (d ! 0)" "digit_of (d ! 0) < 12"
    using generate_fields [OF assms] by blast
  show thesis
    by (rule that [of "uuid_text a b c d e"])
      (use g isValid_uuid_text [OF g(2)] getVersion_uuid_text [OF g(2)] in
        \<open>simp_all add: checked_uuid_def default_uuid_def\<close>)
qed

end

section \<open>Properties of the class\<close>

text \<open>
  The accessors may be called in any order: on an object whose caches were filled by
  earlier calls, \<open>getVersion\<close>, \<open>getNode\<close> and \<open>getTimestamp("hex")\<close> return (or raise) exactly
  what they do on a freshly constructed object of the same string.
\<close>

theorem accessors_ignore_caches:
  assumes "cache_ok u"
  shows "result_value (getVersion u) = result_value (getVersion (mk_uuid (uuidString u))) \<and>
    result_value (getNode u) = result_value (getNode (mk_uuid (uuidString u))) \<and>
    result_value (getTimestamp_hex u) = result_value (getTimestamp_hex (mk_uuid (uuidString u))) \<and>
    (\<forall>u' v. getVersion u = Inr (u', v) \<longrightarrow> cache_ok u')"
  using getVersion_cached [OF assms] getNode_cached [OF assms] getTimestamp_hex_cached [OF assms]
    getVersion_cache_ok [OF assms]
  by (auto simp: fresh_def)

theorem accessors_ignore_caches_witness:
  "cache_ok ((mk_uuid ''b4308fb0-86cd-11da-a72b-0800200c9a66'')\<lparr>versionNumber := Some 1\<rparr>) \<and>
   result_value (getTimestamp_hex
     ((mk_uuid ''b4308fb0-86cd-11da-a72b-0800200c9a66'')\<lparr>versionNumber := Some 1\<rparr>)) = Inr ''1da86cdb4308fb0''"
    (is "cache_ok ?u \<and> _")
proof -
  have "getVersion (mk_uuid ''b4308fb0-86cd-11da-a72b-0800200c9a66'') = Inr (?u, Some 1)"
    by code_simp
  with cache_ok_mk_uuid have c: "cache_ok ?u" by (rule getVersion_cache_ok)
  have "result_value (getTimestamp_hex (mk_uuid ''b4308fb0-86cd-11da-a72b-0800200c9a66'')) = Inr ''1da86cdb4308fb0''"
    by code_simp
  moreover have "result_value (getTimestamp_hex ?u) = result_value (getTimestamp_hex (mk_uuid (uuidString ?u)))"
    using accessors_ignore_caches [OF c] by blast
  ultimately show ?thesis using c by simp
qed

text \<open>
  The constructor normalises: an object built from a non-empty string holds the valid,
  lower-case form of that string, and building an object from that form again gives the same
  object.
\<close>

theorem constructor_normalises:
  assumes "s \<noteq> []" "Uuid_new gen (In_String s) = Inr u"
  shows "uuidString u = to_lower s \<and> isValid (uuidString u) \<and>
    Uuid_new gen (In_String (uuidString u)) = Inr u \<and> getVersion u = getVersion (mk_uuid (to_lower s))"
proof -
  have u: "u = mk_uuid (to_lower s)" "isValid (to_lower s)"
    using assms by (auto simp: checked_uuid_def split: if_splits)
  then have "to_lower (to_lower s) = to_lower s" "to_lower s \<noteq> []"
    by (auto simp: isValid_def)
  with u show ?thesis by (simp add: checked_uuid_def)
qed

theorem constructor_normalises_witness:
  "Uuid_new None (In_String ''3B12F1DF-5232-4804-897E-917BF397618A'') =
     Inr (mk_uuid ''3b12f1df-5232-4804-897e-917bf397618a'') \<and>
   isValid ''3b12f1df-5232-4804-897e-917bf397618a''"
proof -
  have n: "''3B12F1DF-5232-4804-897E-917BF397618A'' \<noteq> []" by simp
  have u: "Uuid_new None (In_String ''3B12F1DF-5232-4804-897E-917BF397618A'') =
     Inr (mk_uuid ''3b12f1df-5232-4804-897e-917bf397618a'')" by code_simp
  have "isValid (uuidString (mk_uuid ''3b12f1df-5232-4804-897e-917bf397618a''))"
    using constructor_normalises [OF n u] by blast
  with u show ?thesis unfolding mk_uuid_simps by blast
qed

text \<open>
  \<open>isValid\<close> is weaker than its description: \<open>parseInt\<close> stops at the first character
  that is no digit, so a string whose groups only begin with a hexadecimal digit is accepted.
\<close>

theorem isValid_accepts_non_hex:
  "isValid ''3zzzzzzz-5zzz-4zzz-8zzz-9zzzzzzzzzzz'' \<and> \<not> is_hex ''3zzzzzzz'' \<and>
   Uuid_new None (In_String ''3zzzzzzz-5zzz-4zzz-8zzz-9zzzzzzzzzzz'') =
     Inr (mk_uuid ''3zzzzzzz-5zzz-4zzz-8zzz-9zzzzzzzzzzz'')"
  by code_simp

end
