(* ===== verification/Uuid_Arith.thy ===== *)
theory Uuid_Arith
  imports JS_Strings
begin

text \<open>
  The 64-bit arithmetic of \<open>src/uuid/TimeBasedGenerator.js\<close>: a number is an array of four
  16-bit elements, most significant first, and \<open>_carry\<close> moves the excess bits of each element
  into the next and asserts that nothing is lost. The theory shows that addition and
  multiplication are exact below \<open>2 ^ 64\<close> and that exactly the results that do not fit are
  refused.
\<close>

section \<open>The operations of the source\<close>

text \<open>
  \<open>carry_step i\<close> is one of the three pairs of statements
  \<open>arrayA[i] += arrayA[i+1] >>> 16; arrayA[i+1] &= 0xFFFF\<close> of \<open>_carry\<close>, which runs them for
  the indices 2, 1 and 0 and then asserts that the first element has no excess bits.
\<close>

definition carry_step :: "nat \<Rightarrow> int list \<Rightarrow> int list" where
  "carry_step i arrayA =
     arrayA[i := arrayA ! i + js_ushr (arrayA ! Suc i) 16, Suc i := js_and (arrayA ! Suc i) 0xFFFF]"

definition carry_check :: "int list \<Rightarrow> int list result" where
  "carry_check arrayA = (if js_ushr (arrayA ! 0) 16 = 0 then Inr arrayA else Inl AssertionError)"

definition carry :: "int list \<Rightarrow> int list result" where
  "carry arrayA = carry_check (carry_step 0 (carry_step 1 (carry_step 2 arrayA)))"

text \<open>The remainder operator truncates towards zero; the division of the source is exact.\<close>

definition js_rem :: "int \<Rightarrow> int \<Rightarrow> int" where
  "js_rem x m = (if x < 0 then - ((- x) mod m) else x mod m)"

definition get64bitArrayFromFloat :: "int \<Rightarrow> int list" where
  "get64bitArrayFromFloat x =
     (let r3 = js_rem x 0x10000; x = (x - r3) div 0x10000;
          r2 = js_rem x 0x10000; x = (x - r2) div 0x10000;
          r1 = js_rem x 0x10000; x = (x - r1) div 0x10000
      in [x, r1, r2, r3])"

definition addTwo64bitArrays :: "int list \<Rightarrow> int list \<Rightarrow> int list result" where
  "addTwo64bitArrays arrayA arrayB =
     (if length arrayA \<noteq> 4 then Inl AssertionError
      else if length arrayB \<noteq> 4 then Inl AssertionError
      else carry [arrayA ! 0 + arrayB ! 0, arrayA ! 1 + arrayB ! 1,
                  arrayA ! 2 + arrayB ! 2, arrayA ! 3 + arrayB ! 3])"

text \<open>
  The multiplication adds ten products to the elements of the result, carrying after each:
  \<open>add_products\<close> runs a list of statement pairs \<open>result[i] += p; _carry(result)\<close>.
\<close>

definition add_carry :: "nat \<Rightarrow> int \<Rightarrow> int list \<Rightarrow> int list result" where
  "add_carry i p r = carry (r[i := r ! i + p])"

fun add_products :: "(nat \<times> int) list \<Rightarrow> int list \<Rightarrow> int list result" where
  "add_products [] r = Inr r"
| "add_products ((i, p) # ips) r = rbind (add_carry i p r) (add_products ips)"

definition multiplyTwo64bitArrays :: "int list \<Rightarrow> int list \<Rightarrow> int list result" where
  "multiplyTwo64bitArrays arrayA arrayB =
     (if length arrayA \<noteq> 4 then Inl AssertionError
      else if length arrayB \<noteq> 4 then Inl AssertionError
      else if arrayA ! 0 * arrayB ! 0 \<noteq> 0 \<or> arrayA ! 0 * arrayB ! 1 \<noteq> 0
            \<or> arrayA ! 0 * arrayB ! 2 \<noteq> 0 \<or> arrayA ! 1 * arrayB ! 0 \<noteq> 0
            \<or> arrayA ! 1 * arrayB ! 1 \<noteq> 0 \<or> arrayA ! 2 * arrayB ! 0 \<noteq> 0
      then Inl AssertionError
      else add_products
        [(0, arrayA ! 0 * arrayB ! 3), (0, arrayA ! 1 * arrayB ! 2), (0, arrayA ! 2 * arrayB ! 1),
         (0, arrayA ! 3 * arrayB ! 0), (1, arrayA ! 1 * arrayB ! 3), (1, arrayA ! 2 * arrayB ! 2),
         (1, arrayA ! 3 * arrayB ! 1), (2, arrayA ! 2 * arrayB ! 3), (2, arrayA ! 3 * arrayB ! 2),
         (3, arrayA ! 3 * arrayB ! 3)] [0, 0, 0, 0])"

function padWithLeadingZeros :: "string \<Rightarrow> nat \<Rightarrow> string" where
  "padWithLeadingZeros s desiredLength =
     (if length s < desiredLength then padWithLeadingZeros (CHR ''0'' # s) desiredLength else s)"
  by pat_completeness auto
termination
  by (relation "measure (\<lambda>(s, n). n - length s)") auto

declare padWithLeadingZeros.simps [simp del]

section \<open>The number that an array denotes\<close>

definition value64 :: "int list \<Rightarrow> int" where
  "value64 a = ((a ! 0 * 65536 + a ! 1) * 65536 + a ! 2) * 65536 + a ! 3"

definition limbs64 :: "int \<Rightarrow> int list" where
  "limbs64 v =
     (let q2 = v div 65536; q1 = q2 div 65536; q0 = q1 div 65536
      in [q0, q1 mod 65536, q2 mod 65536, v mod 65536])"

definition limbs_ok :: "int list \<Rightarrow> bool" where
  "limbs_ok a \<longleftrightarrow> length a = 4 \<and> (\<forall>x \<in> set a. 0 \<le> x \<and> x < 65536)"

lemma length_4_cases: "length a = 4 \<Longrightarrow> (\<And>w x y z. a = [w, x, y, z] \<Longrightarrow> P) \<Longrightarrow> P"
  by (auto simp: numeral_eq_Suc length_Suc_conv)

lemma limbs_okE:
  assumes "limbs_ok a"
  obtains w x y z where "a = [w, x, y, z]" "0 \<le> w" "w < 65536" "0 \<le> x" "x < 65536"
    "0 \<le> y" "y < 65536" "0 \<le> z" "z < 65536"
  using assms by (auto simp: limbs_ok_def elim!: length_4_cases)

lemma shift16:
  "0 \<le> r \<Longrightarrow> r < 65536 \<Longrightarrow> (q * 65536 + r) div 65536 = (q :: int)"
  "0 \<le> r \<Longrightarrow> r < 65536 \<Longrightarrow> (q * 65536 + r) mod 65536 = (r :: int)"
  by simp_all

lemma value64_limbs64 [simp]: "value64 (limbs64 v) = v"
  by (simp add: value64_def limbs64_def Let_def)

lemma limbs64_value64: "limbs_ok a \<Longrightarrow> limbs64 (value64 a) = a"
proof (elim limbs_okE)
  fix w x y z
  assume "a = [w, x, y, z]" "0 \<le> w" "w < 65536" "0 \<le> x" "x < 65536" "0 \<le> y" "y < 65536"
    "0 \<le> z" "z < 65536"
  moreover from this have "limbs64 (((w * 65536 + x) * 65536 + y) * 65536 + z) = [w, x, y, z]"
    by (simp only: limbs64_def Let_def shift16)
  ultimately show ?thesis by (simp add: value64_def)
qed

lemma limbs_ok_limbs64: "0 \<le> v \<Longrightarrow> v < 2 ^ 64 \<Longrightarrow> limbs_ok (limbs64 v)"
  unfolding limbs_ok_def limbs64_def
  by (auto simp: Let_def pos_imp_zdiv_nonneg_iff zdiv_zmult2_eq [symmetric] div_less_iff_less_mult)

lemma value64_bounds: "limbs_ok a \<Longrightarrow> 0 \<le> value64 a \<and> value64 a < 2 ^ 64"
  by (elim limbs_okE) (simp add: value64_def)

text \<open>
  An element of an array that is about to be carried is a 16-bit element plus at most one
  product of two 16-bit numbers, so it is at most \<open>65535 * 65536\<close>.
\<close>

lemma carry_spec:
  assumes "0 \<le> w" "w \<le> 4294901760" "0 \<le> x" "x \<le> 4294901760"
    and "0 \<le> y" "y \<le> 4294901760" "0 \<le> z" "z \<le> 4294901760"
  shows "carry [w, x, y, z] =
    (let v = value64 [w, x, y, z] in if v < 2 ^ 64 then Inr (limbs64 v) else Inl AssertionError)"
proof -
  define y' where "y' = y + z div 65536"
  define x' where "x' = x + y' div 65536"
  define w' where "w' = w + x' div 65536"
  have z: "z div 65536 \<le> 65535" "0 \<le> z div 65536" using assms by (auto simp: pos_imp_zdiv_nonneg_iff)
  then have y: "0 \<le> y'" "y' < 4294967296" "y' div 65536 \<le> 65535" using assms by (auto simp: y'_def)
  then have x: "0 \<le> x'" "x' < 4294967296" "x' div 65536 \<le> 65535"
    using assms by (auto simp: x'_def pos_imp_zdiv_nonneg_iff)
  then have w: "0 \<le> w'" "w' < 4294967296"
    using assms by (auto simp: w'_def pos_imp_zdiv_nonneg_iff)
  have "carry [w, x, y, z] =
    (if w' div 65536 = 0 then Inr [w', x' mod 65536, y' mod 65536, z mod 65536] else Inl AssertionError)"
    using assms w x y
    by (simp add: carry_def carry_step_def carry_check_def js_and_mask js_ushr_div numeral_2_eq_2 numeral_3_eq_3 flip: y'_def x'_def w'_def)
  moreover have "value64 [w, x, y, z] = value64 [w', x' mod 65536, y' mod 65536, z mod 65536]"
    by (simp add: value64_def w'_def x'_def y'_def)
  moreover have "w' div 65536 = 0 \<longleftrightarrow> value64 [w', x' mod 65536, y' mod 65536, z mod 65536] < 2 ^ 64"
    using w by (simp add: value64_def div_eq_0_iff) linarith
  moreover have "limbs_ok [w', x' mod 65536, y' mod 65536, z mod 65536]" if "w' div 65536 = 0"
    using w that by (simp add: limbs_ok_def div_eq_0_iff)
  ultimately show ?thesis
    by (simp add: Let_def limbs64_value64)
qed

lemma add_carry_limbs64:
  assumes "0 \<le> v" "v < 2 ^ 64" "i < 4" "0 \<le> p" "p \<le> 65535 * 65535"
  shows "add_carry i p (limbs64 v) =
    (let u = v + p * 65536 ^ (3 - i) in if u < 2 ^ 64 then Inr (limbs64 u) else Inl AssertionError)"
proof -
  obtain w x y z where l: "limbs64 v = [w, x, y, z]" "0 \<le> w" "w < 65536" "0 \<le> x" "x < 65536"
    "0 \<le> y" "y < 65536" "0 \<le> z" "z < 65536"
    using limbs_ok_limbs64 [OF assms(1,2)] by (elim limbs_okE)
  have v: "v = value64 [w, x, y, z]" using l(1) value64_limbs64 [of v] by simp
  from \<open>i < 4\<close> have i: "i = 0 \<or> i = 1 \<or> i = 2 \<or> i = 3" by linarith
  let ?a = "[w, x, y, z][i := [w, x, y, z] ! i + p]"
  have "add_carry i p (limbs64 v) =
    (let u = value64 ?a in if u < 2 ^ 64 then Inr (limbs64 u) else Inl AssertionError)"
    unfolding add_carry_def l(1) using i assms(4,5) l(2-)
    by (elim disjE) (simp_all add: numeral_2_eq_2 numeral_3_eq_3 carry_spec)
  moreover have "value64 ?a = v + p * 65536 ^ (3 - i)"
    unfolding v using i
    by (elim disjE) (simp_all add: numeral_2_eq_2 numeral_3_eq_3 value64_def algebra_simps)
  ultimately show ?thesis by simp
qed

lemma addTwo64bitArrays_exact:
  assumes "limbs_ok a" "limbs_ok b"
  shows "addTwo64bitArrays a b =
    (let s = value64 a + value64 b in if s < 2 ^ 64 then Inr (limbs64 s) else Inl AssertionError)"
proof -
  obtain w x y z where a: "a = [w, x, y, z]" "0 \<le> w" "w < 65536" "0 \<le> x" "x < 65536"
    "0 \<le> y" "y < 65536" "0 \<le> z" "z < 65536"
    using assms(1) by (elim limbs_okE)
  obtain p q r s where b: "b = [p, q, r, s]" "0 \<le> p" "p < 65536" "0 \<le> q" "q < 65536"
    "0 \<le> r" "r < 65536" "0 \<le> s" "s < 65536"
    using assms(2) by (elim limbs_okE)
  have "value64 a + value64 b = value64 [w + p, x + q, y + r, z + s]"
    by (simp add: a(1) b(1) value64_def algebra_simps)
  then show ?thesis
    using a b by (simp add: addTwo64bitArrays_def carry_spec numeral_2_eq_2 numeral_3_eq_3)
qed

text \<open>
  A chain of additions to one array is one addition of the sum: the array is refused as soon as
  the running total leaves the 64-bit range, which it then never re-enters.
\<close>

definition weight64 :: "(nat \<times> int) list \<Rightarrow> int" where
  "weight64 ips = sum_list (map (\<lambda>(i, p). p * 65536 ^ (3 - i)) ips)"

definition products_ok :: "(nat \<times> int) list \<Rightarrow> bool" where
  "products_ok ips \<longleftrightarrow> (\<forall>(i, p) \<in> set ips. i < 4 \<and> 0 \<le> p \<and> p \<le> 65535 * 65535)"

lemma weight64_nonneg: "products_ok ips \<Longrightarrow> 0 \<le> weight64 ips"
  by (induction ips) (auto simp: products_ok_def weight64_def)

lemma add_products_limbs64:
  assumes "products_ok ips" "0 \<le> v" "v < 2 ^ 64"
  shows "add_products ips (limbs64 v) =
    (let u = v + weight64 ips in if u < 2 ^ 64 then Inr (limbs64 u) else Inl AssertionError)"
  using assms
proof (induction ips arbitrary: v)
  case Nil
  then show ?case by (simp add: weight64_def)
next
  case (Cons ip ips)
  obtain i p where ip: "ip = (i, p)" by force
  from Cons.prems have ok: "products_ok ips" "i < 4" "0 \<le> p" "p \<le> 65535 * 65535"
    by (auto simp: products_ok_def ip)
  let ?u = "v + p * 65536 ^ (3 - i)"
  have u: "0 \<le> ?u" using Cons.prems(2) ok(3) by simp
  have w: "v + weight64 (ip # ips) = ?u + weight64 ips" by (simp add: weight64_def ip)
  show ?case
  proof (cases "?u < 2 ^ 64")
    case True
    then show ?thesis
      using Cons.IH [OF ok(1) u True] Cons.prems ok(2-)
      by (simp only: ip add_products.simps add_carry_limbs64 Let_def if_True rbind_simps w [unfolded ip])
  next
    case False
    moreover have "0 \<le> weight64 ips" using ok(1) by (rule weight64_nonneg)
    ultimately have "\<not> ?u + weight64 ips < 2 ^ 64" by linarith
    with False show ?thesis
      using Cons.prems ok(2-)
      by (simp only: ip add_products.simps add_carry_limbs64 Let_def if_False rbind_simps w [unfolded ip])
  qed
qed

lemma mult16_le:
  "0 \<le> a \<Longrightarrow> a < 65536 \<Longrightarrow> 0 \<le> b \<Longrightarrow> b < 65536 \<Longrightarrow> a * b \<le> (4294836225 :: int)"
  using mult_mono [of a 65535 b 65535] by simp

lemma high_part_positive:
  fixes a :: int
  assumes "0 \<le> a" "0 \<le> b" "0 \<le> c" "0 \<le> d" "0 \<le> e" "0 \<le> f"
    and "a \<noteq> 0 \<or> b \<noteq> 0 \<or> c \<noteq> 0 \<or> d \<noteq> 0 \<or> e \<noteq> 0 \<or> f \<noteq> 0"
  shows "1 \<le> a * 4294967296 + (b + d) * 65536 + (c + e + f)"
proof -
  have "1 \<le> a \<or> 1 \<le> b \<or> 1 \<le> c \<or> 1 \<le> d \<or> 1 \<le> e \<or> 1 \<le> f" using assms by linarith
  moreover have "0 \<le> a * 4294967296" "0 \<le> (b + d) * 65536" "0 \<le> c + e + f"
    "a \<le> a * 4294967296" "b + d \<le> (b + d) * 65536"
    using assms(1-6) by simp_all
  ultimately show ?thesis using assms(1-6) by linarith
qed

lemma multiplyTwo64bitArrays_exact:
  assumes "limbs_ok a" "limbs_ok b"
  shows "multiplyTwo64bitArrays a b =
    (let m = value64 a * value64 b in if m < 2 ^ 64 then Inr (limbs64 m) else Inl AssertionError)"
proof -
  obtain w x y z where a: "a = [w, x, y, z]" "0 \<le> w" "w < 65536" "0 \<le> x" "x < 65536"
    "0 \<le> y" "y < 65536" "0 \<le> z" "z < 65536"
    using assms(1) by (elim limbs_okE)
  obtain p q r s where b: "b = [p, q, r, s]" "0 \<le> p" "p < 65536" "0 \<le> q" "q < 65536"
    "0 \<le> r" "r < 65536" "0 \<le> s" "s < 65536"
    using assms(2) by (elim limbs_okE)
  let ?ips = "[(0, w * s), (0, x * r), (0, y * q), (0, z * p), (1, x * s), (1, y * r), (1, z * q),
    (2, y * s), (2, z * r), (3, z * s)]"
  let ?high = "w * p * 4294967296 + (w * q + x * p) * 65536 + (w * r + x * q + y * p)"
  have ok: "products_ok ?ips"
    unfolding products_ok_def using a(2-) b(2-)
    by (simp del: zero_le_mult_iff add: mult16_le mult_nonneg_nonneg)
  have split: "value64 a * value64 b = weight64 ?ips + ?high * 2 ^ 64"
    by (simp add: a(1) b(1) value64_def weight64_def algebra_simps)
  let ?flag = "w * p \<noteq> 0 \<or> w * q \<noteq> 0 \<or> w * r \<noteq> 0 \<or> x * p \<noteq> 0 \<or> x * q \<noteq> 0 \<or> y * p \<noteq> 0"
  have nonneg: "0 \<le> w * p" "0 \<le> w * q" "0 \<le> w * r" "0 \<le> x * p" "0 \<le> x * q" "0 \<le> y * p"
    using a b by simp_all
  have code: "multiplyTwo64bitArrays a b =
    (if ?flag then Inl AssertionError else add_products ?ips (limbs64 0))"
    by (simp add: a(1) b(1) multiplyTwo64bitArrays_def limbs64_def numeral_2_eq_2
        numeral_3_eq_3 del: add_products.simps)
  show ?thesis
  proof (cases ?flag)
    case True
    with nonneg have "1 \<le> ?high" by (intro high_part_positive)
    with weight64_nonneg [OF ok] have "\<not> value64 a * value64 b < 2 ^ 64"
      unfolding split by simp
    with True show ?thesis unfolding code by simp
  next
    case False
    then have "w * p = 0" "w * q = 0" "w * r = 0" "x * p = 0" "x * q = 0" "y * p = 0" by blast+
    then have "?high = 0" by (simp only:) simp
    then have "value64 a * value64 b = weight64 ?ips" unfolding split by (simp only: mult_zero_left add_0_right add_0_left)
    with False show ?thesis
      unfolding code using add_products_limbs64 [OF ok, of 0] by simp
  qed
qed

lemma js_rem_nonneg: "0 \<le> x \<Longrightarrow> js_rem x m = x mod m"
  by (simp add: js_rem_def)

lemma drop16: "(x - x mod 65536) div 65536 = x div (65536 :: int)"
  by (simp add: minus_mod_eq_mult_div)

lemma get64bitArrayFromFloat_limbs64: "0 \<le> x \<Longrightarrow> get64bitArrayFromFloat x = limbs64 x"
  by (simp only: get64bitArrayFromFloat_def limbs64_def Let_def js_rem_nonneg drop16
      pos_imp_zdiv_nonneg_iff zero_less_numeral)

lemma padWithLeadingZeros_eq: "padWithLeadingZeros s n = replicate (n - length s) CHR ''0'' @ s"
proof (induction s n rule: padWithLeadingZeros.induct)
  case (1 s n)
  then show ?case
    by (cases "length s < n")
      (simp_all add: padWithLeadingZeros.simps [of s n] Suc_diff_Suc [symmetric] replicate_append_same)
qed

section \<open>The arithmetic is exact\<close>

text \<open>
  Claim C39. The product of two arrays of 16-bit elements is the product of the numbers they
  denote whenever that fits into 64 bits, again as an array of 16-bit elements; every other
  product is refused by an assertion, whichever of the overflow checks catches it.
\<close>

theorem multiply_arrays_exact:
  assumes "limbs_ok a" "limbs_ok b"
  shows "case multiplyTwo64bitArrays a b of
      Inr r \<Rightarrow> limbs_ok r \<and> value64 r = value64 a * value64 b
    | Inl e \<Rightarrow> e = AssertionError \<and> 2 ^ 64 \<le> value64 a * value64 b"
proof -
  have "0 \<le> value64 a * value64 b" using value64_bounds assms by simp
  with assms show ?thesis by (simp add: multiplyTwo64bitArrays_exact limbs_ok_limbs64 Let_def)
qed

theorem multiply_arrays_exact_witness:
  "limbs_ok [0, 2, 0xFFFF, 1] \<and> limbs_ok [0, 0, 3, 0xFFFF] \<and>
   multiplyTwo64bitArrays [0, 2, 0xFFFF, 1] [0, 0, 0, 3] = Inr [0, 8, 0xFFFD, 3] \<and>
   value64 [0, 8, 0xFFFD, 3] = value64 [0, 2, 0xFFFF, 1] * value64 [0, 0, 0, 3] \<and>
   multiplyTwo64bitArrays [0, 2, 0xFFFF, 1] [0, 1, 0, 0] = Inl AssertionError"
proof -
  have a: "limbs_ok [0, 2, 0xFFFF, 1]" "limbs_ok [0, 0, 3, 0xFFFF]" "limbs_ok [0, 0, 0, 3]"
    by (simp_all add: limbs_ok_def)
  have m: "multiplyTwo64bitArrays [0, 2, 0xFFFF, 1] [0, 0, 0, 3] = Inr [0, 8, 0xFFFD, 3]"
    "multiplyTwo64bitArrays [0, 2, 0xFFFF, 1] [0, 1, 0, 0] = Inl AssertionError"
    by code_simp+
  show ?thesis using a m multiply_arrays_exact [OF a(1) a(3)] by simp
qed

text \<open>
  The sum of two arrays of 16-bit elements is the sum of the numbers, or refused
  when it does not fit into 64 bits.
\<close>

theorem add_arrays_exact:
  assumes "limbs_ok a" "limbs_ok b"
  shows "case addTwo64bitArrays a b of
      Inr r \<Rightarrow> limbs_ok r \<and> value64 r = value64 a + value64 b
    | Inl e \<Rightarrow> e = AssertionError \<and> 2 ^ 64 \<le> value64 a + value64 b"
proof -
  have "0 \<le> value64 a + value64 b" using value64_bounds assms by simp
  with assms show ?thesis by (simp add: addTwo64bitArrays_exact limbs_ok_limbs64 Let_def)
qed

theorem add_arrays_exact_witness:
  "limbs_ok [0, 0, 0xFFFF, 0xFFFF] \<and> limbs_ok [0, 0, 0, 1] \<and>
   addTwo64bitArrays [0, 0, 0xFFFF, 0xFFFF] [0, 0, 0, 1] = Inr [0, 1, 0, 0] \<and>
   value64 [0, 1, 0, 0] = value64 [0, 0, 0xFFFF, 0xFFFF] + value64 [0, 0, 0, 1]"
proof -
  have a: "limbs_ok [0, 0, 0xFFFF, 0xFFFF]" "limbs_ok [0, 0, 0, 1]"
    by (simp_all add: limbs_ok_def)
  have m: "addTwo64bitArrays [0, 0, 0xFFFF, 0xFFFF] [0, 0, 0, 1] = Inr [0, 1, 0, 0]" by code_simp
  show ?thesis using a m add_arrays_exact [OF a] by simp
qed

end
