(* ===== verification/Uuid_Generators.thy ===== *)
theory Uuid_Generators
  imports Uuid Uuid_Arith
begin

text \<open>
  The UUID generators: \<open>src/uuid/LightweightGenerator.js\<close>, \<open>src/uuid/NilGenerator.js\<close> and
  \<open>src/uuid/TimeBasedGenerator.js\<close>. The results of \<open>Math.random\<close> (scaled and floored to a
  number of bits, as the code does) and the readings of the clock are arguments. The theory
  shows that both generators satisfy the generator interface of \<open>Uuid\<close>, and that the
  timestamps of successive time-based UUIDs grow strictly while the clock does not run
  backwards.
\<close>

section \<open>The lightweight generator\<close>

definition generateRandomEightCharacterHexString :: "nat \<Rightarrow> string" where
  "generateRandomEightCharacterHexString random32bitNumber =
     padWithLeadingZeros (to_hex random32bitNumber) 8"

definition Lightweight_generate :: "nat \<Rightarrow> nat \<Rightarrow> nat \<Rightarrow> nat \<Rightarrow> string" where
  "Lightweight_generate ra rb rc rd =
     (let hyphen = ''-'';
          a = generateRandomEightCharacterHexString ra;
          b = generateRandomEightCharacterHexString rb;
          b = substring b 0 4 @ hyphen @ ''4'' @ substring b 5 8;
          c = generateRandomEightCharacterHexString rc;
          c = ''8'' @ substring c 1 4 @ hyphen @ substring c 4 8;
          d = generateRandomEightCharacterHexString rd
      in to_lower (a @ hyphen @ b @ hyphen @ c @ d))"

definition Nil_generate :: string where
  "Nil_generate = ''00000000-0000-0000-0000-000000000000''"

section \<open>The time-based generator\<close>

definition GREGORIAN_CHANGE_OFFSET_IN_HOURS :: int where
  "GREGORIAN_CHANGE_OFFSET_IN_HOURS = 3394248"

record time_generator =
  uuidPseudoNodeString :: "string option"
  uuidClockSeqString :: "string option"
  dateValueOfPreviousUuid :: "int option"
  nextIntraMillisecondIncrement :: int
  cachedMillisecondsBetween1582and1970 :: "int list option"
  cachedHundredNanosecondIntervalsPerMillisecond :: "int list option"
  uniformNode :: "string option"

definition time_generator_new :: time_generator where
  "time_generator_new =
     \<lparr>uuidPseudoNodeString = None, uuidClockSeqString = None, dateValueOfPreviousUuid = None,
      nextIntraMillisecondIncrement = 0, cachedMillisecondsBetween1582and1970 = None,
      cachedHundredNanosecondIntervalsPerMillisecond = None, uniformNode = None\<rparr>"

text \<open>The random numbers that one call may draw: 15, 32 and 14 bits.\<close>

record random_draws =
  random15 :: nat
  random32 :: nat
  random14 :: nat

definition setNode :: "string option \<Rightarrow> time_generator \<Rightarrow> time_generator result" where
  "setNode node g =
     (if (case node of None \<Rightarrow> True | Some n \<Rightarrow> length n = 12) then Inr (g\<lparr>uniformNode := node\<rparr>)
      else Inl AssertionError)"

text \<open>Lines 178 to 193: which node goes into the UUID.\<close>

definition choose_node ::
  "string option \<Rightarrow> random_draws \<Rightarrow> time_generator \<Rightarrow> (time_generator \<times> string) result" where
  "choose_node node rnd g =
     (if node \<noteq> None \<and> node \<noteq> Some []
      then (if length (the node) = 12 then Inr (g, the node) else Inl AssertionError)
      else
        (case uniformNode g of
           Some n \<Rightarrow> Inr (g, n)
         | None \<Rightarrow>
             (case uuidPseudoNodeString g of
                Some n \<Rightarrow> Inr (g, n)
              | None \<Rightarrow>
                  (let leftmost4HexCharacters = to_hex (nat (js_or 0x8000 (int (random15 rnd))));
                       n = leftmost4HexCharacters @ generateRandomEightCharacterHexString (random32 rnd)
                   in Inr (g\<lparr>uuidPseudoNodeString := Some n\<rparr>, n)))))"

text \<open>Lines 194 to 198: the clock sequence is drawn once.\<close>

definition choose_clock_seq :: "random_draws \<Rightarrow> time_generator \<Rightarrow> time_generator \<times> string" where
  "choose_clock_seq rnd g =
     (case uuidClockSeqString g of
        Some c \<Rightarrow> (g, c)
      | None \<Rightarrow> (let c = to_hex (nat (js_or 0x8000 (int (random14 rnd))))
                in (g\<lparr>uuidClockSeqString := Some c\<rparr>, c)))"

text \<open>Lines 208 to 215: the two cached constants.\<close>

definition fill_caches :: "time_generator \<Rightarrow> (time_generator \<times> int list \<times> int list) result" where
  "fill_caches g =
     (case cachedMillisecondsBetween1582and1970 g of
        Some ms \<Rightarrow>
          (case cachedHundredNanosecondIntervalsPerMillisecond g of
             Some hns \<Rightarrow> Inr (g, ms, hns)
           | None \<Rightarrow> Inl AssertionError)
      | None \<Rightarrow>
          rbind (multiplyTwo64bitArrays
                   (get64bitArrayFromFloat GREGORIAN_CHANGE_OFFSET_IN_HOURS)
                   (get64bitArrayFromFloat (60 * 60)))
            (\<lambda>seconds.
          rbind (multiplyTwo64bitArrays seconds (get64bitArrayFromFloat 1000))
            (\<lambda>ms. let hns = get64bitArrayFromFloat 10000
                  in Inr (g\<lparr>cachedMillisecondsBetween1582and1970 := Some ms,
                            cachedHundredNanosecondIntervalsPerMillisecond := Some hns\<rparr>, ms, hns))))"

text \<open>
  Lines 231 to 233: the busy wait. The list holds the further readings of the clock;
  \<^term>\<open>None\<close> says that the loop is still running when they are used up.
\<close>

fun busy_wait :: "int \<Rightarrow> int option \<Rightarrow> int list \<Rightarrow> int list option" where
  "busy_wait now prev clock =
     (if Some now = prev
      then (case clock of [] \<Rightarrow> None | t # clock' \<Rightarrow> busy_wait t prev clock')
      else Some clock)"

declare busy_wait.simps [simp del]

text \<open>
  Lines 220 to 238: UUIDs of the same millisecond are told apart by an increment. The result
  is the new state, the array and the clock readings that are left.
\<close>

definition same_millisecond ::
  "int \<Rightarrow> int list \<Rightarrow> int list \<Rightarrow> time_generator \<Rightarrow> (time_generator \<times> int list \<times> int list) result option" where
  "same_millisecond now arr clock g =
     (if Some now = dateValueOfPreviousUuid g
      then (case carry (arr[3 := arr ! 3 + nextIntraMillisecondIncrement g]) of
              Inl e \<Rightarrow> Some (Inl e)
            | Inr arr' \<Rightarrow>
                (let g' = g\<lparr>nextIntraMillisecondIncrement := nextIntraMillisecondIncrement g + 1\<rparr>
                 in if nextIntraMillisecondIncrement g' = 10000
                    then (case busy_wait now (dateValueOfPreviousUuid g') clock of
                            None \<Rightarrow> None
                          | Some clock' \<Rightarrow> Some (Inr (g', arr', clock')))
                    else Some (Inr (g', arr', clock))))
      else Some (Inr (g\<lparr>dateValueOfPreviousUuid := Some now, nextIntraMillisecondIncrement := 1\<rparr>,
                      arr, clock)))"

text \<open>Lines 240 to 253: the text of the UUID.\<close>

definition hex_limb :: "int list \<Rightarrow> nat \<Rightarrow> nat \<Rightarrow> string" where
  "hex_limb arr i width = padWithLeadingZeros (to_hex (nat (arr ! i))) width"

definition format_uuid :: "int list \<Rightarrow> string \<Rightarrow> string \<Rightarrow> string" where
  "format_uuid arr clockSeq node =
     (let hexTimeLow = hex_limb arr 2 4 @ hex_limb arr 3 4;
          hexTimeMid = hex_limb arr 1 4;
          hexTimeHigh = hex_limb arr 0 3;
          hyphen = ''-''
      in to_lower (hexTimeLow @ hyphen @ hexTimeMid @ hyphen @ ''1'' @ hexTimeHigh @ hyphen
                   @ clockSeq @ hyphen @ node))"

text \<open>
  \<open>_generateUuidString\<close>: the first clock reading is \<open>now\<close>; the readings that the busy wait
  left over are returned.
\<close>

definition generateUuidString ::
  "string option \<Rightarrow> random_draws \<Rightarrow> int \<Rightarrow> int list \<Rightarrow> time_generator \<Rightarrow>
   (time_generator \<times> string \<times> int list) result option" where
  "generateUuidString node rnd now clock g =
     (case choose_node node rnd g of
        Inl e \<Rightarrow> Some (Inl e)
      | Inr (g, nodeStr) \<Rightarrow>
          (let (g, clockSeq) = choose_clock_seq rnd g;
               nowArray = get64bitArrayFromFloat now
           in case fill_caches g of
                Inl e \<Rightarrow> Some (Inl e)
              | Inr (g, ms1582, hnsPerMs) \<Rightarrow>
                  (case rbind (addTwo64bitArrays ms1582 nowArray)
                          (\<lambda>ms. multiplyTwo64bitArrays ms hnsPerMs) of
                     Inl e \<Rightarrow> Some (Inl e)
                   | Inr arr \<Rightarrow>
                       (case same_millisecond now arr clock g of
                          None \<Rightarrow> None
                        | Some (Inl e) \<Rightarrow> Some (Inl e)
                        | Some (Inr (g, arr, clock)) \<Rightarrow>
                            Some (Inr (g, format_uuid arr clockSeq nodeStr, clock))))))"

section \<open>Fixed-width hexadecimal\<close>

fun hex_fixed :: "nat \<Rightarrow> nat \<Rightarrow> string" where
  "hex_fixed 0 n = []"
| "hex_fixed (Suc k) n = hex_fixed k (n div 16) @ [hex_digit (n mod 16)]"

lemma length_hex_fixed [simp]: "length (hex_fixed k n) = k"
  by (induction k arbitrary: n) simp_all

lemma is_hex_hex_fixed [simp]: "is_hex (hex_fixed k n)"
  by (induction k arbitrary: n) simp_all

lemma hex_fixed_zero: "hex_fixed k 0 = replicate k CHR ''0''"
  by (induction k) (simp_all add: hex_digit_def replicate_append_same)

lemma hex_fixed_pad: "0 < k \<Longrightarrow> n < 16 ^ k \<Longrightarrow> padWithLeadingZeros (to_hex n) k = hex_fixed k n"
proof (induction k arbitrary: n)
  case (Suc k)
  show ?case
  proof (cases "n < 16")
    case True
    then show ?thesis
      by (simp add: padWithLeadingZeros_eq to_hex.simps [of n] hex_fixed_zero)
  next
    case False
    with Suc.prems have "0 < k" "n div 16 < 16 ^ k"
      by (auto intro: Nat.gr0I simp: less_mult_imp_div_less mult.commute)
    then have "padWithLeadingZeros (to_hex (n div 16)) k = hex_fixed k (n div 16)" by (rule Suc.IH)
    with False show ?thesis
      by (simp add: padWithLeadingZeros_eq to_hex.simps [of n])
  qed
qed simp

lemma hex_fixed_append: "hex_fixed (j + k) n = hex_fixed j (n div 16 ^ k) @ hex_fixed k (n mod 16 ^ k)"
proof (induction k arbitrary: n)
  case (Suc k)
  have "n mod (16 * 16 ^ k) div 16 = n div 16 mod 16 ^ k"
    using mod_mult2_eq [of n 16 "16 ^ k"] by simp
  moreover have "n mod (16 * 16 ^ k) mod 16 = n mod 16" by (simp add: mod_mod_cancel)
  ultimately show ?case using Suc.IH [of "n div 16"] by (simp add: div_mult2_eq)
qed simp

lemma from_hex_fixed: "n < 16 ^ k \<Longrightarrow> from_digits (hex_prefix (hex_fixed k n)) = n"
proof (induction k arbitrary: n)
  case 0
  then show ?case by (simp add: from_digits_def)
next
  case (Suc k)
  then have "n div 16 < 16 ^ k" by (simp add: less_mult_imp_div_less mult.commute)
  with Suc.IH show ?case by (simp add: hex_prefix_append)
qed

lemma hex_fixed_inj: "m < 16 ^ k \<Longrightarrow> n < 16 ^ k \<Longrightarrow> hex_fixed k m = hex_fixed k n \<Longrightarrow> m = n"
  by (metis from_hex_fixed)

lemma to_hex_full: "16 ^ k \<le> n \<Longrightarrow> n < 16 ^ Suc k \<Longrightarrow> to_hex n = hex_fixed (Suc k) n"
proof (induction k arbitrary: n)
  case (Suc k)
  then have "16 ^ k \<le> n div 16" "n div 16 < 16 ^ Suc k"
    by (simp_all add: less_mult_imp_div_less less_eq_div_iff_mult_less_eq mult.commute)
  with Suc have "to_hex (n div 16) = hex_fixed (Suc k) (n div 16)" by blast
  moreover have "\<not> n < 16" using Suc.prems(1) by (simp add: not_less) (metis le_trans mult_le_mono2 nat_mult_1_right one_le_numeral one_le_power)
  ultimately show ?case by (subst to_hex.simps) simp
qed (subst to_hex.simps, simp)

section \<open>The lightweight generator satisfies the interface\<close>

definition light_draws_ok :: "nat \<times> nat \<times> nat \<times> nat \<Rightarrow> bool" where
  "light_draws_ok = (\<lambda>(ra, rb, rc, rd). ra < 2 ^ 32 \<and> rb < 2 ^ 32 \<and> rc < 2 ^ 32 \<and> rd < 2 ^ 32)"

lemma eight_hex: "r < 2 ^ 32 \<Longrightarrow> generateRandomEightCharacterHexString r = hex_fixed 8 r"
  by (simp add: generateRandomEightCharacterHexString_def hex_fixed_pad)

lemma hex_char_digits [simp]: "hex_char CHR ''0''" "hex_char CHR ''1''" "hex_char CHR ''4''" "hex_char CHR ''8''"
  by (simp_all add: hex_char_def)

lemma digit_of_chars [simp]: "digit_of CHR ''1'' = 1" "digit_of CHR ''4'' = 4" "digit_of CHR ''8'' = 8"
  by (simp_all add: digit_of_def hex_val_def)

lemma Lightweight_generate_text:
  assumes "light_draws_ok (ra, rb, rc, rd)"
  defines "b \<equiv> hex_fixed 8 rb" and "c \<equiv> hex_fixed 8 rc"
  shows "Lightweight_generate ra rb rc rd =
      uuid_text (hex_fixed 8 ra) (take 4 b) (CHR ''4'' # drop 5 b) (CHR ''8'' # take 3 (drop 1 c))
        (drop 4 c @ hex_fixed 8 rd)"
    and "uuid_fields (hex_fixed 8 ra) (take 4 b) (CHR ''4'' # drop 5 b) (CHR ''8'' # take 3 (drop 1 c))
        (drop 4 c @ hex_fixed 8 rd)"
proof -
  have len: "length b = 8" "length c = 8" "is_hex b" "is_hex c" by (simp_all add: b_def c_def)
  then show f: "uuid_fields (hex_fixed 8 ra) (take 4 b) (CHR ''4'' # drop 5 b) (CHR ''8'' # take 3 (drop 1 c))
        (drop 4 c @ hex_fixed 8 rd)"
    by (simp add: uuid_fields_def)
  have "Lightweight_generate ra rb rc rd =
    to_lower (uuid_text (hex_fixed 8 ra) (take 4 b) (CHR ''4'' # drop 5 b) (CHR ''8'' # take 3 (drop 1 c))
        (drop 4 c @ hex_fixed 8 rd))"
    using assms len
    by (simp add: Lightweight_generate_def light_draws_ok_def eight_hex substring_def uuid_text_def Let_def
        del: to_lower_simps flip: b_def c_def)
  with f show "Lightweight_generate ra rb rc rd =
      uuid_text (hex_fixed 8 ra) (take 4 b) (CHR ''4'' # drop 5 b) (CHR ''8'' # take 3 (drop 1 c))
        (drop 4 c @ hex_fixed 8 rd)" by simp
qed

interpretation light: uuid_generator
  "\<lambda>(ra, rb, rc, rd). Inr (Lightweight_generate ra rb rc rd)" light_draws_ok Version_RANDOM
proof unfold_locales
  fix r assume "light_draws_ok r"
  moreover obtain ra rb rc rd where r: "r = (ra, rb, rc, rd)" by (cases r) auto
  ultimately have ok: "light_draws_ok (ra, rb, rc, rd)" by simp
  show "\<exists>a b c d e. (case r of (ra, rb, rc, rd) \<Rightarrow> Inr (Lightweight_generate ra rb rc rd)) =
      Inr (uuid_text a b c d e) \<and> uuid_fields a b c d e \<and>
      digit_of (c ! 0) = Version_RANDOM \<and> 8 \<le> digit_of (d ! 0) \<and> digit_of (d ! 0) < 12"
    unfolding r prod.case sum.inject
    by (rule exI, rule exI, rule exI, rule exI, rule exI, rule conjI,
        rule Lightweight_generate_text(1) [OF ok], rule conjI, rule Lightweight_generate_text(2) [OF ok])
      (simp add: Version_RANDOM_def)
qed

section \<open>The time-based generator\<close>

lemma js_or_high_bit: "0 \<le> r \<Longrightarrow> r < 32768 \<Longrightarrow> js_or 0x8000 r = 32768 + r"
proof -
  assume r: "0 \<le> r" "r < 32768"
  have "\<not> bit r 15" using r by (simp add: bit_iff_odd)
  then have "(2 ^ 15 :: int) AND r = 0"
    by (intro bit_eqI) (auto simp only: bit_and_iff bit_exp_iff bit_0_eq bot_apply bot_bool_def)
  then have "(32768 :: int) AND r = 0" by simp
  then have "(32768 :: int) OR r = 32768 + r" by (simp only: disjunctive_add_eq_or)
  with r show ?thesis by (simp add: js_or_def to_int32_id is_int32_def)
qed

lemma numeral_4_eq_Suc_3: "(4 :: nat) = Suc 3"
  by simp

lemma high_bit_text:
  assumes "r < 32768"
  shows "to_hex (nat (js_or 0x8000 (int r))) = hex_fixed 4 (32768 + r)"
proof -
  have "to_hex (32768 + r) = hex_fixed (Suc 3) (32768 + r)"
    using assms by (intro to_hex_full) simp_all
  moreover have "nat (js_or 0x8000 (int r)) = 32768 + r"
    using assms by (simp add: js_or_high_bit nat_add_distrib)
  ultimately show ?thesis by (simp only: numeral_4_eq_Suc_3)
qed

text \<open>
  The invariant of the generator, and what a request must bring: the draws are in range, and a
  node that the caller supplies consists of 12 lower-case hexadecimal digits.
\<close>

definition ms_1582_1970 :: int where
  "ms_1582_1970 = 12219292800000"

definition node_ok :: "string option \<Rightarrow> bool" where
  "node_ok node \<longleftrightarrow> (case node of None \<Rightarrow> True | Some n \<Rightarrow> is_hex n \<and> length n = 12)"

definition draws_ok :: "random_draws \<Rightarrow> bool" where
  "draws_ok rnd \<longleftrightarrow> random15 rnd < 2 ^ 15 \<and> random32 rnd < 2 ^ 32 \<and> random14 rnd < 2 ^ 14"

definition clock_seq_ok :: "string option \<Rightarrow> bool" where
  "clock_seq_ok c \<longleftrightarrow> (case c of None \<Rightarrow> True
     | Some c \<Rightarrow> is_hex c \<and> length c = 4 \<and> 8 \<le> digit_of (c ! 0) \<and> digit_of (c ! 0) < 12)"

definition caches_ok :: "time_generator \<Rightarrow> bool" where
  "caches_ok g \<longleftrightarrow>
     cachedMillisecondsBetween1582and1970 g \<in> {None, Some (limbs64 ms_1582_1970)} \<and>
     (cachedMillisecondsBetween1582and1970 g \<noteq> None \<longrightarrow>
        cachedHundredNanosecondIntervalsPerMillisecond g = Some (limbs64 10000))"

definition gen_inv :: "time_generator \<Rightarrow> bool" where
  "gen_inv g \<longleftrightarrow>
     node_ok (uniformNode g) \<and> node_ok (uuidPseudoNodeString g) \<and>
     clock_seq_ok (uuidClockSeqString g) \<and> caches_ok g \<and>
     0 \<le> nextIntraMillisecondIncrement g \<and> nextIntraMillisecondIncrement g \<le> 10000"

lemma gen_inv_new: "gen_inv time_generator_new"
  by (simp add: gen_inv_def time_generator_new_def node_ok_def clock_seq_ok_def caches_ok_def)

lemma setNode_inv: "gen_inv g \<Longrightarrow> node_ok node \<Longrightarrow> setNode node g = Inr g' \<Longrightarrow> gen_inv g'"
  by (auto simp: setNode_def gen_inv_def caches_ok_def split: option.splits if_splits)

text \<open>The two parts of the state that a step before the time arithmetic may write.\<close>

definition same_time :: "time_generator \<Rightarrow> time_generator \<Rightarrow> bool" where
  "same_time g g' \<longleftrightarrow> dateValueOfPreviousUuid g' = dateValueOfPreviousUuid g \<and>
     nextIntraMillisecondIncrement g' = nextIntraMillisecondIncrement g"

lemma choose_node_ok:
  assumes "gen_inv g" "draws_ok rnd" "node_ok node"
  shows "\<exists>g' n. choose_node node rnd g = Inr (g', n) \<and> gen_inv g' \<and> same_time g g' \<and>
    is_hex n \<and> length n = 12 \<and> (node \<noteq> None \<longrightarrow> node = Some n)"
proof (cases node)
  case (Some n)
  with assms show ?thesis by (auto simp: choose_node_def node_ok_def same_time_def)
next
  case None
  let ?n = "hex_fixed 4 (32768 + random15 rnd) @ hex_fixed 8 (random32 rnd)"
  have n: "to_hex (nat (js_or 0x8000 (int (random15 rnd)))) = hex_fixed 4 (32768 + random15 rnd)"
    "generateRandomEightCharacterHexString (random32 rnd) = hex_fixed 8 (random32 rnd)"
    using assms(2) by (simp_all add: draws_ok_def high_bit_text eight_hex)
  have "gen_inv (g\<lparr>uuidPseudoNodeString := Some ?n\<rparr>)"
    using assms(1) by (simp add: gen_inv_def node_ok_def caches_ok_def)
  moreover have "node_ok (uniformNode g)" "node_ok (uuidPseudoNodeString g)"
    using assms(1) by (simp_all add: gen_inv_def)
  ultimately show ?thesis
    using None assms(1)
    by (cases "uniformNode g"; cases "uuidPseudoNodeString g")
      (simp_all add: choose_node_def node_ok_def same_time_def Let_def n)
qed

lemma first_digit_high: "r < 16384 \<Longrightarrow>
  8 \<le> digit_of (hex_fixed 4 (32768 + r) ! 0) \<and> digit_of (hex_fixed 4 (32768 + r) ! 0) < 12"
proof -
  assume r: "r < 16384"
  define q where "q = (32768 + r) div 4096"
  have q: "8 \<le> q" "q < 12" using r by (auto simp: q_def)
  have "hex_fixed 4 (32768 + r) = hex_fixed (Suc 0) q @ hex_fixed 3 ((32768 + r) mod 16 ^ 3)"
    unfolding q_def using hex_fixed_append [of "Suc 0" 3 "32768 + r"] by simp
  then have "hex_fixed 4 (32768 + r) ! 0 = hex_digit q" using q by simp
  with q show ?thesis by simp
qed

lemma choose_clock_seq_ok:
  assumes "gen_inv g" "draws_ok rnd"
  shows "\<exists>g' c. choose_clock_seq rnd g = (g', c) \<and> gen_inv g' \<and> same_time g g' \<and>
    is_hex c \<and> length c = 4 \<and> 8 \<le> digit_of (c ! 0) \<and> digit_of (c ! 0) < 12"
proof (cases "uuidClockSeqString g")
  case (Some c)
  with assms show ?thesis
    by (simp add: choose_clock_seq_def gen_inv_def clock_seq_ok_def same_time_def)
next
  case None
  let ?c = "hex_fixed 4 (32768 + random14 rnd)"
  have r: "random14 rnd < 16384" using assms(2) by (simp add: draws_ok_def)
  then have c: "to_hex (nat (js_or 0x8000 (int (random14 rnd)))) = ?c"
    by (intro high_bit_text) simp
  have "gen_inv (g\<lparr>uuidClockSeqString := Some ?c\<rparr>)"
    using assms(1) first_digit_high [OF r] by (simp add: gen_inv_def clock_seq_ok_def caches_ok_def)
  with None first_digit_high [OF r] show ?thesis
    by (simp add: choose_clock_seq_def same_time_def Let_def c)
qed

lemma multiply_limbs64:
  "0 \<le> u \<Longrightarrow> u < 2 ^ 64 \<Longrightarrow> 0 \<le> v \<Longrightarrow> v < 2 ^ 64 \<Longrightarrow> u * v < 2 ^ 64 \<Longrightarrow>
   multiplyTwo64bitArrays (limbs64 u) (limbs64 v) = Inr (limbs64 (u * v))"
  by (simp add: multiplyTwo64bitArrays_exact limbs_ok_limbs64 del: power_numeral)

lemma add_limbs64:
  "0 \<le> u \<Longrightarrow> u < 2 ^ 64 \<Longrightarrow> 0 \<le> v \<Longrightarrow> v < 2 ^ 64 \<Longrightarrow> u + v < 2 ^ 64 \<Longrightarrow>
   addTwo64bitArrays (limbs64 u) (limbs64 v) = Inr (limbs64 (u + v))"
  by (simp add: addTwo64bitArrays_exact limbs_ok_limbs64 del: power_numeral)

lemma fill_caches_ok:
  assumes "gen_inv g"
  shows "\<exists>g'. fill_caches g = Inr (g', limbs64 ms_1582_1970, limbs64 10000) \<and> gen_inv g' \<and> same_time g g'"
proof (cases "cachedMillisecondsBetween1582and1970 g")
  case (Some ms)
  with assms show ?thesis by (auto simp: fill_caches_def gen_inv_def caches_ok_def same_time_def)
next
  case None
  have "gen_inv (g\<lparr>cachedMillisecondsBetween1582and1970 := Some (limbs64 ms_1582_1970),
      cachedHundredNanosecondIntervalsPerMillisecond := Some (limbs64 10000)\<rparr>)"
    using assms by (simp add: gen_inv_def caches_ok_def)
  with None show ?thesis
    by (simp add: fill_caches_def get64bitArrayFromFloat_limbs64 GREGORIAN_CHANGE_OFFSET_IN_HOURS_def
        multiply_limbs64 same_time_def ms_1582_1970_def Let_def)
qed

section \<open>Timestamps\<close>

definition timestamp_at :: "int \<Rightarrow> int \<Rightarrow> int" where
  "timestamp_at now incr = (now + ms_1582_1970) * 10000 + incr"

definition increment_at :: "int \<Rightarrow> time_generator \<Rightarrow> int" where
  "increment_at now g =
     (if Some now = dateValueOfPreviousUuid g then nextIntraMillisecondIncrement g else 0)"

text \<open>A time that leaves room for the increments in the 60 bits of the timestamp field.\<close>

definition time_ok :: "int \<Rightarrow> bool" where
  "time_ok now \<longleftrightarrow> 0 \<le> now \<and> timestamp_at now 10000 < 2 ^ 60"

lemma timestamp_bounds:
  assumes "time_ok now" "0 \<le> i" "i \<le> 10000"
  shows "0 \<le> timestamp_at now i" "timestamp_at now i < 2 ^ 60"
  using assms by (simp_all add: time_ok_def timestamp_at_def ms_1582_1970_def)

lemma carry_limbs64_add:
  assumes "0 \<le> v" "v + i < 2 ^ 64" "0 \<le> i" "i \<le> 10000"
  shows "carry ((limbs64 v)[3 := limbs64 v ! 3 + i]) = Inr (limbs64 (v + i))"
  using add_carry_limbs64 [of v 3 i] assms by (simp add: add_carry_def)

lemma same_millisecond_ok:
  assumes "gen_inv g" "time_ok now"
  shows "same_millisecond now (limbs64 (timestamp_at now 0)) clock g =
    (let i = increment_at now g;
         g' = (if Some now = dateValueOfPreviousUuid g
               then g\<lparr>nextIntraMillisecondIncrement := i + 1\<rparr>
               else g\<lparr>dateValueOfPreviousUuid := Some now, nextIntraMillisecondIncrement := 1\<rparr>)
     in if Some now = dateValueOfPreviousUuid g \<and> i + 1 = 10000
        then map_option (\<lambda>clock'. Inr (g', limbs64 (timestamp_at now i), clock'))
               (busy_wait now (Some now) clock)
        else Some (Inr (g', limbs64 (timestamp_at now i), clock)))"
proof (cases "Some now = dateValueOfPreviousUuid g")
  case True
  let ?i = "nextIntraMillisecondIncrement g"
  have i: "0 \<le> ?i" "?i \<le> 10000" using assms(1) by (simp_all add: gen_inv_def)
  have "carry ((limbs64 (timestamp_at now 0))[3 := limbs64 (timestamp_at now 0) ! 3 + ?i]) =
      Inr (limbs64 (timestamp_at now ?i))"
    using carry_limbs64_add [of "timestamp_at now 0" ?i] timestamp_bounds [OF assms(2) i]
      timestamp_bounds [OF assms(2), of 0] i
    by (simp add: timestamp_at_def)
  with True show ?thesis
    by (simp add: same_millisecond_def increment_at_def Let_def split: option.split)
next
  case False
  then show ?thesis by (simp add: same_millisecond_def increment_at_def Let_def)
qed

lemma limbs64_nat:
  "nat (limbs64 (int n) ! 0) = n div 281474976710656"
  "nat (limbs64 (int n) ! 1) = n div 4294967296 mod 65536"
  "nat (limbs64 (int n) ! 2) = n div 65536 mod 65536"
  "nat (limbs64 (int n) ! 3) = n mod 65536"
proof -
  have "limbs64 (int n) = map int [n div 65536 div 65536 div 65536, n div 65536 div 65536 mod 65536,
      n div 65536 mod 65536, n mod 65536]"
    by (simp add: limbs64_def zdiv_int zmod_int Let_def)
  then show "nat (limbs64 (int n) ! 0) = n div 281474976710656"
    "nat (limbs64 (int n) ! 1) = n div 4294967296 mod 65536"
    "nat (limbs64 (int n) ! 2) = n div 65536 mod 65536"
    "nat (limbs64 (int n) ! 3) = n mod 65536"
    by (simp_all add: numeral_2_eq_2 numeral_3_eq_3 div_mult2_eq [symmetric])
qed

lemma hex_limbs:
  assumes "n < 2 ^ 60"
  defines "a \<equiv> limbs64 (int n)"
  shows "hex_limb a 0 3 = hex_fixed 3 (n div 281474976710656)"
    "hex_limb a 1 4 = hex_fixed 4 (n div 4294967296 mod 65536)"
    "hex_limb a 2 4 = hex_fixed 4 (n div 65536 mod 65536)"
    "hex_limb a 3 4 = hex_fixed 4 (n mod 65536)"
  using assms unfolding hex_limb_def a_def limbs64_nat by (simp_all add: hex_fixed_pad)

lemma hex_fixed_15:
  "hex_fixed 15 n = hex_fixed 3 (n div 281474976710656) @ hex_fixed 4 (n div 4294967296 mod 65536)
     @ hex_fixed 4 (n div 65536 mod 65536) @ hex_fixed 4 (n mod 65536)"
proof -
  have "n mod 281474976710656 div 4294967296 = n div 4294967296 mod 65536"
    using mod_mult2_eq [of n 4294967296 65536] by simp
  moreover have "n mod 4294967296 div 65536 = n div 65536 mod 65536"
    using mod_mult2_eq [of n 65536 65536] by simp
  moreover have "n mod 281474976710656 mod 4294967296 = n mod 4294967296"
    "n mod 4294967296 mod 65536 = n mod 65536" by (simp_all add: mod_mod_cancel)
  ultimately show ?thesis
    using hex_fixed_append [of 3 12 n] hex_fixed_append [of 4 8 "n mod 281474976710656"]
      hex_fixed_append [of 4 4 "n mod 4294967296"] by simp
qed

definition time_fields :: "nat \<Rightarrow> string \<times> string \<times> string" where
  "time_fields n = (hex_fixed 4 (n div 65536 mod 65536) @ hex_fixed 4 (n mod 65536),
     hex_fixed 4 (n div 4294967296 mod 65536), CHR ''1'' # hex_fixed 3 (n div 281474976710656))"

lemma format_uuid_text:
  assumes "n < 2 ^ 60" "is_hex c" "length c = 4" "is_hex nd" "length nd = 12"
    and "time_fields n = (low, mid, high)"
  shows "format_uuid (limbs64 (int n)) c nd = uuid_text low mid high c nd"
    and "uuid_fields low mid high c nd" and "drop 1 high @ mid @ low = hex_fixed 15 n"
    and "digit_of (high ! 0) = 1"
proof -
  show f: "uuid_fields low mid high c nd"
    using assms by (auto simp: time_fields_def uuid_fields_def)
  have "format_uuid (limbs64 (int n)) c nd = to_lower (uuid_text low mid high c nd)"
    using assms by (auto simp: time_fields_def format_uuid_def hex_limbs
        hex_limbs(2) [unfolded One_nat_def] uuid_text_def Let_def)
  with f show "format_uuid (limbs64 (int n)) c nd = uuid_text low mid high c nd" by simp
  show "drop 1 high @ mid @ low = hex_fixed 15 n" "digit_of (high ! 0) = 1"
    using assms(6) by (auto simp: time_fields_def hex_fixed_15)
qed

text \<open>The node and the timestamp that the accessors of \<open>Uuid\<close> read from such a text.\<close>

lemma accessors_time_based:
  assumes "uuid_fields a b c d e" "digit_of (c ! 0) = 1" "8 \<le> digit_of (d ! 0)" "digit_of (d ! 0) < 12"
  shows "result_value (getNode (mk_uuid (uuid_text a b c d e))) = Inr e"
    and "result_value (getTimestamp_hex (mk_uuid (uuid_text a b c d e))) = Inr (drop 1 c @ b @ a)"
proof -
  have len: "length a = 8" "length b = 4" "length c = 4" using assms(1) by (simp_all add: uuid_fields_def)
  show "result_value (getNode (mk_uuid (uuid_text a b c d e))) = Inr e"
    using assms by (simp add: getNode_def getVersion_uuid_text split_uuid_text Version_TIME_BASED_def
        js_at_def)
  show "result_value (getTimestamp_hex (mk_uuid (uuid_text a b c d e))) = Inr (drop 1 c @ b @ a)"
    using assms len
    by (simp add: getTimestamp_hex_def getVersion_uuid_text Version_TIME_BASED_def split_uuid_text Let_def)
qed

section \<open>What one call does\<close>

definition next_time_state :: "int \<Rightarrow> time_generator \<Rightarrow> time_generator \<Rightarrow> bool" where
  "next_time_state now g g' \<longleftrightarrow> dateValueOfPreviousUuid g' = Some now \<and>
     nextIntraMillisecondIncrement g' = increment_at now g + 1"

text \<open>
  The UUID text that a call returns: valid fields, version 1, DCE variant, the requested node,
  and the timestamp of the call.
\<close>

definition time_based_text :: "string option \<Rightarrow> int \<Rightarrow> string \<Rightarrow> bool" where
  "time_based_text node ts s \<longleftrightarrow>
     (\<exists>a b c d e. s = uuid_text a b c d e \<and> uuid_fields a b c d e \<and> digit_of (c ! 0) = 1 \<and>
        8 \<le> digit_of (d ! 0) \<and> digit_of (d ! 0) < 12 \<and> (node \<noteq> None \<longrightarrow> node = Some e) \<and>
        drop 1 c @ b @ a = hex_fixed 15 (nat ts))"

lemma generateUuidString_ok:
  assumes "gen_inv g" "draws_ok rnd" "node_ok node" "time_ok now"
    and "increment_at now g < 10000"
  shows "\<exists>g' s. gen_inv g' \<and> next_time_state now g g' \<and>
      time_based_text node (timestamp_at now (increment_at now g)) s \<and>
      generateUuidString node rnd now clock g =
        (if Some now = dateValueOfPreviousUuid g \<and> increment_at now g + 1 = 10000
         then map_option (\<lambda>clock'. Inr (g', s, clock')) (busy_wait now (Some now) clock)
         else Some (Inr (g', s, clock)))"
proof -
  let ?i = "increment_at now g"
  obtain g1 nd where n: "choose_node node rnd g = Inr (g1, nd)" "gen_inv g1" "same_time g g1"
    "is_hex nd" "length nd = 12" "node \<noteq> None \<longrightarrow> node = Some nd"
    using choose_node_ok [OF assms(1-3)] by blast
  obtain g2 c where c: "choose_clock_seq rnd g1 = (g2, c)" "gen_inv g2" "same_time g1 g2"
    "is_hex c" "length c = 4" "8 \<le> digit_of (c ! 0)" "digit_of (c ! 0) < 12"
    using choose_clock_seq_ok [OF n(2) assms(2)] by blast
  obtain g3 where k: "fill_caches g2 = Inr (g3, limbs64 ms_1582_1970, limbs64 10000)"
    "gen_inv g3" "same_time g2 g3"
    using fill_caches_ok [OF c(2)] by blast
  have g3: "dateValueOfPreviousUuid g3 = dateValueOfPreviousUuid g" "increment_at now g3 = ?i"
    using n(3) c(3) k(3) by (simp_all add: same_time_def increment_at_def)
  have i: "0 \<le> ?i" "?i \<le> 10000" using assms(1) by (simp_all add: increment_at_def gen_inv_def)
  define ts where "ts = nat (timestamp_at now ?i)"
  have ts: "int ts = timestamp_at now ?i" "ts < 2 ^ 60"
    using timestamp_bounds [OF assms(4) i] by (simp_all add: ts_def nat_less_iff)
  obtain low mid high where f: "time_fields ts = (low, mid, high)" by (cases "time_fields ts") auto
  note fmt = format_uuid_text [OF ts(2) c(4,5) n(4,5) f]
  define g4 where "g4 = (if Some now = dateValueOfPreviousUuid g
      then g3\<lparr>nextIntraMillisecondIncrement := ?i + 1\<rparr>
      else g3\<lparr>dateValueOfPreviousUuid := Some now, nextIntraMillisecondIncrement := 1\<rparr>)"
  have "gen_inv g4" using k(2) i assms(5) by (simp add: g4_def gen_inv_def caches_ok_def)
  moreover have "next_time_state now g g4"
    using g3 by (auto simp: g4_def next_time_state_def increment_at_def)
  moreover have "time_based_text node (timestamp_at now ?i) (uuid_text low mid high c nd)"
    unfolding time_based_text_def using fmt(2-) c(6,7) n(6) ts_def by blast
  moreover have "rbind (addTwo64bitArrays (limbs64 ms_1582_1970) (get64bitArrayFromFloat now))
      (\<lambda>ms. multiplyTwo64bitArrays ms (limbs64 10000)) = Inr (limbs64 (timestamp_at now 0))"
    using assms(4) by (simp add: get64bitArrayFromFloat_limbs64 add_limbs64 multiply_limbs64 time_ok_def
        timestamp_at_def ms_1582_1970_def add.commute)
  then have "generateUuidString node rnd now clock g =
        (if Some now = dateValueOfPreviousUuid g \<and> ?i + 1 = 10000
         then map_option (\<lambda>clock'. Inr (g4, uuid_text low mid high c nd, clock')) (busy_wait now (Some now) clock)
         else Some (Inr (g4, uuid_text low mid high c nd, clock)))"
    using n(1) c(1) k(1) same_millisecond_ok [OF k(2) assms(4), of clock] g3 fmt(1) ts(1)
    by (cases "Some now = dateValueOfPreviousUuid g \<and> ?i + 1 = 10000"; cases "busy_wait now (Some now) clock")
      (auto simp: generateUuidString_def g4_def Let_def)
  ultimately show ?thesis by blast
qed

section \<open>Sequences of calls\<close>

lemma busy_wait_simps [simp]:
  "busy_wait p (Some p) [] = None"
  "busy_wait p (Some p) (t # clock) = busy_wait t (Some p) clock"
  "now \<noteq> p \<Longrightarrow> busy_wait now (Some p) clock = Some clock"
  by (simp_all add: busy_wait.simps [of p] busy_wait.simps [of now])

lemma busy_wait_later:
  "sorted (now # clock) \<Longrightarrow> busy_wait now (Some p) clock = Some clock' \<Longrightarrow> p \<le> now \<Longrightarrow>
   (\<forall>t \<in> set clock'. p < t) \<and> (\<exists>us. clock = us @ clock')"
proof (induction clock arbitrary: now)
  case Nil
  then show ?case by (cases "now = p") simp_all
next
  case (Cons t clock)
  show ?case
  proof (cases "now = p")
    case True
    with Cons.prems have "busy_wait t (Some p) clock = Some clock'" "sorted (t # clock)" "p \<le> t"
      by simp_all
    with Cons.IH show ?thesis by (metis append_Cons)
  next
    case False
    with Cons.prems show ?thesis by force
  qed
qed

lemma busy_wait_returns:
  "\<exists>t \<in> set clock. t \<noteq> p \<Longrightarrow> \<exists>clock'. busy_wait now (Some p) clock = Some clock'"
proof (induction clock arbitrary: now)
  case (Cons t clock)
  then show ?case by (cases "now = p"; cases "t = p") auto
qed simp

text \<open>
  A client that asks for one UUID after the other: every call reads the clock, and the busy
  wait may read it further. \<^term>\<open>None\<close> says that the clock readings ran out.
\<close>

fun generate_all ::
  "(string option \<times> random_draws) list \<Rightarrow> int list \<Rightarrow> time_generator \<Rightarrow> string list result option" where
  "generate_all [] clock g = Some (Inr [])"
| "generate_all (rq # rqs) [] g = None"
| "generate_all ((node, rnd) # rqs) (now # clock) g =
     (case generateUuidString node rnd now clock g of
        None \<Rightarrow> None
      | Some (Inl e) \<Rightarrow> Some (Inl e)
      | Some (Inr (g', s, clock')) \<Rightarrow>
          map_option (\<lambda>r. rbind r (\<lambda>ss. Inr (s # ss))) (generate_all rqs clock' g'))"

definition requests_ok :: "(string option \<times> random_draws) list \<Rightarrow> bool" where
  "requests_ok rqs \<longleftrightarrow> (\<forall>(node, rnd) \<in> set rqs. node_ok node \<and> draws_ok rnd)"

definition clock_ok :: "int list \<Rightarrow> bool" where
  "clock_ok clock \<longleftrightarrow> sorted clock \<and> (\<forall>t \<in> set clock. time_ok t)"

text \<open>
  The clock readings that are left are not before the last UUID, and after the last increment
  of a millisecond they are all later.
\<close>

definition ahead :: "int list \<Rightarrow> time_generator \<Rightarrow> bool" where
  "ahead clock g \<longleftrightarrow>
     (\<forall>p. dateValueOfPreviousUuid g = Some p \<longrightarrow>
        (\<forall>t \<in> set clock. p \<le> t) \<and>
        (nextIntraMillisecondIncrement g = 10000 \<longrightarrow> (\<forall>t \<in> set clock. p < t)))"

text \<open>The least timestamp that the generator can still give out.\<close>

definition next_timestamp :: "time_generator \<Rightarrow> int" where
  "next_timestamp g = (case dateValueOfPreviousUuid g of
     None \<Rightarrow> 0 | Some p \<Rightarrow> timestamp_at p (nextIntraMillisecondIncrement g))"

lemma increment_below:
  assumes "gen_inv g" "ahead (now # clock) g"
  shows "increment_at now g < 10000"
proof (cases "dateValueOfPreviousUuid g = Some now")
  case True
  with assms(2) have "nextIntraMillisecondIncrement g \<noteq> 10000" by (auto simp: ahead_def)
  with assms(1) show ?thesis by (simp add: increment_at_def gen_inv_def)
next
  case False
  then have "Some now \<noteq> dateValueOfPreviousUuid g" by metis
  then show ?thesis by (simp add: increment_at_def)
qed

lemma next_timestamp_le:
  assumes "gen_inv g" "ahead (now # clock) g" "time_ok now"
  shows "next_timestamp g \<le> timestamp_at now (increment_at now g)"
proof (cases "dateValueOfPreviousUuid g")
  case None
  with assms(3) show ?thesis
    by (simp add: next_timestamp_def increment_at_def time_ok_def timestamp_at_def ms_1582_1970_def)
next
  case (Some p)
  show ?thesis
  proof (cases "p = now")
    case True
    with Some show ?thesis by (simp add: next_timestamp_def increment_at_def)
  next
    case False
    with Some assms(2) have "p < now" by (auto simp: ahead_def)
    with Some False assms(1) show ?thesis
      by (simp add: next_timestamp_def increment_at_def timestamp_at_def gen_inv_def)
  qed
qed

text \<open>One call of a sequence, with everything the next call relies on.\<close>

lemma generate_step:
  assumes "gen_inv g" "node_ok node" "draws_ok rnd" "clock_ok (now # clock)" "ahead (now # clock) g"
    and "generateUuidString node rnd now clock g = Some r"
  shows "\<exists>g' s clock' ts. r = Inr (g', s, clock') \<and> gen_inv g' \<and> clock_ok clock' \<and> ahead clock' g' \<and>
    next_timestamp g \<le> ts \<and> ts < next_timestamp g' \<and> ts < 2 ^ 60 \<and> 0 \<le> ts \<and> time_based_text node ts s"
proof -
  let ?i = "increment_at now g"
  let ?ts = "timestamp_at now ?i"
  have now: "time_ok now" and srt: "sorted (now # clock)" using assms(4) by (simp_all add: clock_ok_def)
  have i: "?i < 10000" by (rule increment_below [OF assms(1,5)])
  obtain g' s where g': "gen_inv g'" "next_time_state now g g'" "time_based_text node ?ts s"
    and eq: "generateUuidString node rnd now clock g =
        (if Some now = dateValueOfPreviousUuid g \<and> ?i + 1 = 10000
         then map_option (\<lambda>clock'. Inr (g', s, clock')) (busy_wait now (Some now) clock)
         else Some (Inr (g', s, clock)))"
    using generateUuidString_ok [OF assms(1,3,2) now i, of clock] by blast
  have st: "dateValueOfPreviousUuid g' = Some now" "nextIntraMillisecondIncrement g' = ?i + 1"
    using g'(2) by (simp_all add: next_time_state_def)
  have ts: "ts_ok" if "ts_ok = (next_timestamp g \<le> ?ts \<and> ?ts < next_timestamp g' \<and> ?ts < 2 ^ 60 \<and> 0 \<le> ?ts)"
    for ts_ok
    using that next_timestamp_le [OF assms(1,5) now] timestamp_bounds [OF now, of ?i] i assms(1) st
    by (simp add: next_timestamp_def timestamp_at_def increment_at_def gen_inv_def)
  show ?thesis
  proof (cases "Some now = dateValueOfPreviousUuid g \<and> ?i + 1 = 10000")
    case True
    then obtain clock' where c: "busy_wait now (Some now) clock = Some clock'" "r = Inr (g', s, clock')"
      using trans [OF eq [symmetric] assms(6)] unfolding if_P [OF True] by (auto simp: map_option_eq_Some)
    from busy_wait_later [OF srt c(1)] have later: "\<forall>t \<in> set clock'. now < t" "\<exists>us. clock = us @ clock'"
      by simp_all
    then have "clock_ok clock'" using assms(4) by (auto simp: clock_ok_def sorted_append)
    moreover have "ahead clock' g'" using later(1) st by (auto simp: ahead_def)
    ultimately show ?thesis using c(2) g' ts by blast
  next
    case False
    then have r: "r = Inr (g', s, clock)"
      using trans [OF eq [symmetric] assms(6)] unfolding if_not_P [OF False] by simp
    have "clock_ok clock" using assms(4) by (simp add: clock_ok_def)
    moreover have "?i + 1 < 10000"
      using False i st by (cases "Some now = dateValueOfPreviousUuid g") (auto simp: increment_at_def)
    then have "ahead clock g'" using srt st by (auto simp: ahead_def)
    ultimately show ?thesis using r g' ts by blast
  qed
qed

definition timestamp_text :: "string \<Rightarrow> string result" where
  "timestamp_text s = result_value (getTimestamp_hex (mk_uuid s))"

lemma time_based_text_timestamp:
  "time_based_text node ts s \<Longrightarrow> timestamp_text s = Inr (hex_fixed 15 (nat ts))"
  unfolding time_based_text_def timestamp_text_def using accessors_time_based(2) by metis

lemma time_based_text_valid: "time_based_text node ts s \<Longrightarrow> isValid s"
  unfolding time_based_text_def using isValid_uuid_text by blast

lemma generate_all_increasing:
  assumes "gen_inv g" "requests_ok rqs" "clock_ok clock" "ahead clock g"
    and "generate_all rqs clock g = Some r"
  shows "\<exists>ss tss. r = Inr ss \<and> length ss = length rqs \<and>
    list_all2 (\<lambda>s ts. isValid s \<and> timestamp_text s = Inr (hex_fixed 15 (nat ts))) ss tss \<and>
    sorted_wrt (<) tss \<and> (\<forall>ts \<in> set tss. next_timestamp g \<le> ts \<and> 0 \<le> ts \<and> ts < 2 ^ 60)"
  using assms
proof (induction rqs clock g arbitrary: r rule: generate_all.induct)
  case (1 clock g)
  then show ?case by (intro exI [of _ "[]"]) simp
next
  case (2 rq rqs g)
  then show ?case by simp
next
  case (3 node rnd rqs now clock g)
  from "3.prems"(2) have rq: "node_ok node" "draws_ok rnd" "requests_ok rqs"
    by (auto simp: requests_ok_def)
  from "3.prems"(5) obtain r0 where r0: "generateUuidString node rnd now clock g = Some r0"
    by (auto split: option.splits)
  obtain g' s clock' ts where step: "r0 = Inr (g', s, clock')" "gen_inv g'" "clock_ok clock'"
    "ahead clock' g'" "next_timestamp g \<le> ts" "ts < next_timestamp g'" "ts < 2 ^ 60" "0 \<le> ts"
    "time_based_text node ts s"
    using generate_step [OF "3.prems"(1) rq(1,2) "3.prems"(3,4) r0] by blast
  from "3.prems"(5) r0 step(1) obtain r1 where r1: "generate_all rqs clock' g' = Some r1"
    "r = rbind r1 (\<lambda>ss. Inr (s # ss))" by auto
  obtain ss tss where IH: "r1 = Inr ss" "length ss = length rqs"
    "list_all2 (\<lambda>s ts. isValid s \<and> timestamp_text s = Inr (hex_fixed 15 (nat ts))) ss tss"
    "sorted_wrt (<) tss" "\<forall>ts \<in> set tss. next_timestamp g' \<le> ts \<and> 0 \<le> ts \<and> ts < 2 ^ 60"
    using "3.IH" [OF r0 step(1) refl refl step(2) rq(3) step(3,4) r1(1)] by blast
  show ?case
    by (rule exI [of _ "s # ss"], rule exI [of _ "ts # tss"])
      (use r1(2) IH step(5-) time_based_text_timestamp [OF step(9)] time_based_text_valid [OF step(9)]
        in auto)
qed

text \<open>
  Admissible states of the environment for one call: the interface of \<open>Uuid\<close> is met by the
  time-based generator whenever no busy wait is pending.
\<close>

definition time_admissible :: "string option \<times> random_draws \<times> int \<times> int list \<times> time_generator \<Rightarrow> bool" where
  "time_admissible = (\<lambda>(node, rnd, now, clock, g).
     gen_inv g \<and> node_ok node \<and> draws_ok rnd \<and> time_ok now \<and> increment_at now g < 9999)"

definition time_generate :: "string option \<times> random_draws \<times> int \<times> int list \<times> time_generator \<Rightarrow> string result" where
  "time_generate = (\<lambda>(node, rnd, now, clock, g).
     (case generateUuidString node rnd now clock g of
        Some (Inr (g', s, clock')) \<Rightarrow> Inr s
      | Some (Inl e) \<Rightarrow> Inl e
      | None \<Rightarrow> Inl AssertionError))"

interpretation time: uuid_generator time_generate time_admissible Version_TIME_BASED
proof unfold_locales
  fix r assume "time_admissible r"
  moreover obtain node rnd now clock g where r: "r = (node, rnd, now, clock, g)" by (cases r) auto
  ultimately have ok: "gen_inv g" "draws_ok rnd" "node_ok node" "time_ok now" "increment_at now g < 9999"
    by (simp_all add: time_admissible_def)
  then obtain g' s where s: "time_based_text node (timestamp_at now (increment_at now g)) s"
    "generateUuidString node rnd now clock g = Some (Inr (g', s, clock))"
    using generateUuidString_ok [OF ok(1-4), of clock] by auto
  then have "time_generate r = Inr s" by (simp add: time_generate_def r)
  with s(1) show "\<exists>a b c d e. time_generate r = Inr (uuid_text a b c d e) \<and> uuid_fields a b c d e \<and>
      digit_of (c ! 0) = Version_TIME_BASED \<and> 8 \<le> digit_of (d ! 0) \<and> digit_of (d ! 0) < 12"
    unfolding time_based_text_def Version_TIME_BASED_def by blast
qed

section \<open>Properties of the generators\<close>

lemma list_all2_timestamps_distinct:
  assumes "list_all2 (\<lambda>s ts. isValid s \<and> timestamp_text s = Inr (hex_fixed 15 (nat ts))) ss tss"
    and "sorted_wrt (<) tss" "\<forall>ts \<in> set tss. 0 \<le> ts \<and> ts < 2 ^ 60"
  shows "distinct ss"
  using assms
proof (induction rule: list_all2_induct)
  case (Cons s ss ts tss)
  have "timestamp_text s \<noteq> timestamp_text s'" if s': "s' \<in> set ss" for s'
  proof
    assume eq: "timestamp_text s = timestamp_text s'"
    from s' obtain i where i: "i < length ss" "s' = ss ! i" by (auto simp: in_set_conv_nth)
    define ts' where "ts' = tss ! i"
    have "ts' \<in> set tss" using i list_all2_lengthD [OF Cons.hyps(2)] by (simp add: ts'_def)
    moreover have "timestamp_text s' = Inr (hex_fixed 15 (nat ts'))"
      using list_all2_nthD [OF Cons.hyps(2) i(1)] i(2) by (simp add: ts'_def)
    ultimately have ts': "ts' \<in> set tss" "timestamp_text s' = Inr (hex_fixed 15 (nat ts'))" by simp_all
    with Cons.prems have b: "ts < ts'" "0 \<le> ts" "ts' < 2 ^ 60" by auto
    with eq ts'(2) Cons.hyps(1) have "nat ts = nat ts'"
      by (intro hex_fixed_inj [of _ 15]) (auto simp: nat_less_iff)
    with b show False by simp
  qed
  then have "s \<notin> set ss" by blast
  moreover have "distinct ss" using Cons.IH Cons.prems by simp
  ultimately show ?case by simp
qed simp

text \<open>
  Claim C4. Time-based UUIDs are unique: when a generator answers a sequence of requests and the
  clock never runs backwards, every answer is a valid UUID, the timestamps read back by
  \<open>getTimestamp("hex")\<close> grow strictly (through the increments within a millisecond and the busy
  wait after the last of them), and no two UUIDs are equal.
\<close>

theorem time_based_uuids_increase:
  assumes "requests_ok rqs" "clock_ok clock"
    and "generate_all rqs clock time_generator_new = Some r"
  shows "\<exists>ss tss. r = Inr ss \<and> length ss = length rqs \<and> distinct ss \<and> sorted_wrt (<) tss \<and>
    list_all2 (\<lambda>s ts. isValid s \<and> timestamp_text s = Inr (hex_fixed 15 (nat ts))) ss tss"
proof -
  have "ahead clock time_generator_new" by (simp add: ahead_def time_generator_new_def)
  with generate_all_increasing [OF gen_inv_new assms(1,2) _ assms(3)]
  obtain ss tss where "r = Inr ss" "length ss = length rqs" "sorted_wrt (<) tss"
    "list_all2 (\<lambda>s ts. isValid s \<and> timestamp_text s = Inr (hex_fixed 15 (nat ts))) ss tss"
    "\<forall>ts \<in> set tss. 0 \<le> ts \<and> ts < 2 ^ 60" by blast
  with list_all2_timestamps_distinct show ?thesis by blast
qed

definition example_draws :: random_draws where
  "example_draws = \<lparr>random15 = 5, random32 = 77, random14 = 9\<rparr>"

theorem time_based_uuids_increase_witness:
  "requests_ok [(None, example_draws), (Some ''0800200c9a66'', example_draws)] \<and>
   clock_ok [1137442901000, 1137442901000] \<and>
   (\<exists>ss. generate_all [(None, example_draws), (Some ''0800200c9a66'', example_draws)]
          [1137442901000, 1137442901000] time_generator_new = Some (Inr ss) \<and> distinct ss)"
proof -
  have h: "requests_ok [(None, example_draws), (Some ''0800200c9a66'', example_draws)]"
    "clock_ok [1137442901000, 1137442901000]"
    by code_simp+
  have "generate_all [(None, example_draws), (Some ''0800200c9a66'', example_draws)]
          [1137442901000, 1137442901000] time_generator_new \<noteq> None" by code_simp
  then obtain r where r: "generate_all [(None, example_draws), (Some ''0800200c9a66'', example_draws)]
          [1137442901000, 1137442901000] time_generator_new = Some r" by blast
  show ?thesis using h r time_based_uuids_increase [OF h r] by auto
qed

text \<open>
  One call returns: if some later reading of the clock differs from the first, the
  busy wait ends and the call gives a UUID of version 1 and DCE variant, whose node is the
  requested one and whose timestamp counts the 100ns intervals since 1582 plus the increment.
\<close>

theorem time_based_uuid_returned:
  assumes "gen_inv g" "draws_ok rnd" "node_ok (Some nd)" "time_ok now" "increment_at now g < 10000"
    and "\<exists>t \<in> set clock. t \<noteq> now"
  shows "\<exists>g' s clock'. generateUuidString (Some nd) rnd now clock g = Some (Inr (g', s, clock')) \<and>
    gen_inv g' \<and> isValid s \<and>
    result_value (getVersion (mk_uuid s)) = Inr (Some Version_TIME_BASED) \<and>
    result_value (getNode (mk_uuid s)) = Inr nd \<and>
    timestamp_text s = Inr (hex_fixed 15 (nat ((now + 12219292800000) * 10000 + increment_at now g)))"
proof -
  obtain g' s where g': "gen_inv g'" "time_based_text (Some nd) (timestamp_at now (increment_at now g)) s"
    and eq: "generateUuidString (Some nd) rnd now clock g =
        (if Some now = dateValueOfPreviousUuid g \<and> increment_at now g + 1 = 10000
         then map_option (\<lambda>clock'. Inr (g', s, clock')) (busy_wait now (Some now) clock)
         else Some (Inr (g', s, clock)))"
    using generateUuidString_ok [OF assms(1-5), of clock] by blast
  obtain clock' where "busy_wait now (Some now) clock = Some clock'"
    using busy_wait_returns [OF assms(6)] by blast
  with eq have "\<exists>clock'. generateUuidString (Some nd) rnd now clock g = Some (Inr (g', s, clock'))" by auto
  moreover from g'(2) obtain a b c d where "s = uuid_text a b c d nd" "uuid_fields a b c d nd"
    "digit_of (c ! 0) = 1" "8 \<le> digit_of (d ! 0)" "digit_of (d ! 0) < 12"
    unfolding time_based_text_def by auto
  ultimately show ?thesis
    using g' time_based_text_valid [OF g'(2)] time_based_text_timestamp [OF g'(2)]
    by (auto simp: accessors_time_based getVersion_uuid_text Version_TIME_BASED_def timestamp_at_def ms_1582_1970_def)
qed

theorem time_based_uuid_returned_witness:
  "\<exists>g' s clock'. generateUuidString (Some ''0800200c9a66'') example_draws 1137442901000 [1137442901001]
     time_generator_new = Some (Inr (g', s, clock')) \<and> isValid s"
proof -
  have h: "gen_inv time_generator_new" "draws_ok example_draws" "node_ok (Some ''0800200c9a66'')"
    "time_ok 1137442901000" "increment_at 1137442901000 time_generator_new < 10000"
    "\<exists>t \<in> set [1137442901001]. t \<noteq> (1137442901000 :: int)"
    by (rule gen_inv_new) code_simp+
  show ?thesis using time_based_uuid_returned [OF h] by blast
qed

text \<open>
  Whatever 32-bit numbers \<open>Math.random\<close> yields, the lightweight generator returns a
  string that the constructor of \<open>Uuid\<close> accepts unchanged and that reads back as version 4.
\<close>

theorem lightweight_uuid_accepted:
  assumes "ra < 2 ^ 32" "rb < 2 ^ 32" "rc < 2 ^ 32" "rd < 2 ^ 32"
  shows "isValid (Lightweight_generate ra rb rc rd) \<and>
    Uuid_new gen (In_Generator (Inr (Lightweight_generate ra rb rc rd))) =
      Inr (mk_uuid (Lightweight_generate ra rb rc rd)) \<and>
    result_value (getVersion (mk_uuid (Lightweight_generate ra rb rc rd))) = Inr (Some Version_RANDOM)"
proof -
  have "light_draws_ok (ra, rb, rc, rd)" using assms by (simp add: light_draws_ok_def)
  from light.new_accepts [OF this, of gen] show ?thesis by auto
qed

theorem lightweight_uuid_accepted_witness:
  "Lightweight_generate 0x3b12f1df 0x52320804 0x197e917b 0xf397618a = ''3b12f1df-5232-4804-897e-917bf397618a'' \<and>
   isValid ''3b12f1df-5232-4804-897e-917bf397618a''"
proof -
  have e: "Lightweight_generate 0x3b12f1df 0x52320804 0x197e917b 0xf397618a = ''3b12f1df-5232-4804-897e-917bf397618a''"
    by code_simp
  show ?thesis
    using lightweight_uuid_accepted [of "0x3b12f1df" "0x52320804" "0x197e917b" "0xf397618a" None] e by simp
qed

end
