(* ===== verification/Crypto_Words.thy ===== *)
theory Crypto_Words
  imports JS_Strings
begin

text \<open>
  What the digests of \<open>src/crypto/\<close> share: the enumerations of \<open>src/crypto.js\<close>, arrays of
  32-bit words, the conversions between strings and such arrays and the two arithmetic helpers
  of \<open>src/crypto/MD5.js\<close> (\<open>src/crypto/SHA1.js\<close> has the same text).

  The abstraction of a word array is the bit string it holds, least significant bit of the
  first word first; \<open>represents x bs\<close> says that it is the bit string of the bytes \<open>bs\<close>.
\<close>

section \<open>Enumerations\<close>

datatype cipher_mode = ECB | CBC | PCBC | CFB | OFB | CTR

datatype output_type = Base64 | Hex | Out_String | Raw

text \<open>\<open>outputType || dojo.crypto.outputTypes.Base64\<close>\<close>

definition out_or_default :: "output_type option \<Rightarrow> output_type" where
  "out_or_default o_t = (case o_t of None \<Rightarrow> Base64 | Some t \<Rightarrow> t)"

section \<open>Word arrays\<close>

text \<open>
  The arrays of the digests may have holes, and an index may lie past the end: such an element
  is \<open>undefined\<close>. Every element is read by a bitwise operator, which turns \<open>undefined\<close> into 0.
  Writing past the end extends the array.
\<close>

definition wget :: "int list \<Rightarrow> nat \<Rightarrow> int" where
  "wget x i = (if i < length x then x ! i else 0)"

definition wput :: "int list \<Rightarrow> nat \<Rightarrow> int \<Rightarrow> int list" where
  "wput x i v = (x @ replicate (Suc i - length x) 0)[i := v]"

definition code :: "char \<Rightarrow> int" where
  "code c = int (of_char c)"

text \<open>
  \<open>toWord\<close>: the loop variable counts bits, eight for each character; below \<open>2 ^ 31\<close> bits
  \<open>i >> 5\<close> is the division by 32.
\<close>

fun toWord_loop :: "string \<Rightarrow> nat \<Rightarrow> int list \<Rightarrow> int list" where
  "toWord_loop [] i wa = wa"
| "toWord_loop (c # s) i wa =
     toWord_loop s (i + 8)
       (wput wa (i div 32) (js_or (wget wa (i div 32)) (js_shl (js_and (code c) 255) (i mod 32))))"

definition toWord :: "string \<Rightarrow> int list" where
  "toWord s = toWord_loop s 0 []"

definition words_toString :: "int list \<Rightarrow> string" where
  "words_toString wa =
     map (\<lambda>k. char_of (nat (js_and (js_ushr (wget wa (k div 4)) (8 * k mod 32)) 255))) [0 ..< 4 * length wa]"

definition toHex :: "int list \<Rightarrow> string" where
  "toHex wa =
     concat (map (\<lambda>i. [hex_digit (nat (js_and (js_shr (wget wa (i div 4)) (i mod 4 * 8 + 4)) 15)),
                       hex_digit (nat (js_and (js_shr (wget wa (i div 4)) (i mod 4 * 8)) 15))])
       [0 ..< 4 * length wa])"

definition b64_tab :: string where
  "b64_tab = ''ABCDEFGHIJKLMNOPQRSTUVWXYZabcdefghijklmnopqrstuvwxyz0123456789+/''"

definition b64_triple :: "int list \<Rightarrow> nat \<Rightarrow> int" where
  "b64_triple wa i =
     js_or (js_or (js_shl (js_and (js_shr (wget wa (i div 4)) (8 * (i mod 4))) 255) 16)
                  (js_shl (js_and (js_shr (wget wa ((i + 1) div 4)) (8 * ((i + 1) mod 4))) 255) 8))
           (js_and (js_shr (wget wa ((i + 2) div 4)) (8 * ((i + 2) mod 4))) 255)"

definition b64_group :: "int list \<Rightarrow> nat \<Rightarrow> string" where
  "b64_group wa i =
     map (\<lambda>j. if i * 8 + j * 6 > length wa * 32 then CHR ''=''
              else b64_tab ! nat (js_and (js_shr (b64_triple wa i) (6 * (3 - j))) 63)) [0 ..< 4]"

definition toBase64 :: "int list \<Rightarrow> string" where
  "toBase64 wa = concat (map (\<lambda>k. b64_group wa (3 * k)) [0 ..< (4 * length wa + 2) div 3])"

text \<open>Addition by halves and rotation.\<close>

definition add :: "int \<Rightarrow> int \<Rightarrow> int" where
  "add x y =
     (let l = js_and x 0xFFFF + js_and y 0xFFFF;
          m = js_shr x 16 + js_shr y 16 + js_shr l 16
      in js_or (js_shl m 16) (js_and l 0xFFFF))"

definition rotate :: "int \<Rightarrow> nat \<Rightarrow> int" where
  "rotate n c = js_or (js_shl n c) (js_ushr n (32 - c))"

section \<open>Addition and rotation of words\<close>

text \<open>
  The two 16-bit halves of a sum: \<open>add\<close> is addition modulo \<open>2 ^ 32\<close> with a signed result.
\<close>

lemma js_shr_16_split: "to_int32 x = js_shr x 16 * 65536 + js_and x 65535"
proof -
  have "x mod 65536 = to_int32 x mod 65536" using to_int32_mod [of 16 x] by simp
  then show ?thesis by (simp add: js_shr_def js_and_mask)
qed

lemma or_low_add: "0 \<le> l \<Longrightarrow> l < 2 ^ k \<Longrightarrow> (m * 2 ^ k) OR l = m * 2 ^ k + l" for l m :: int
proof -
  assume l: "0 \<le> l" "l < 2 ^ k"
  have "push_bit k m AND take_bit k l = 0"
    by (rule bit_eqI) (auto simp: bit_simps)
  moreover have "take_bit k l = l" using l by (simp add: take_bit_int_eq_self)
  ultimately show ?thesis by (simp add: push_bit_eq_mult disjunctive_add_eq_or)
qed

lemma js_or_disjoint_low:
  assumes "0 \<le> l" "l < 65536"
  shows "js_or (js_shl m 16) l = to_int32 (m * 65536 + l)"
proof -
  have s: "js_shl m 16 = to_int32 (m * 65536)"
    by (simp add: js_shl_def to_int32_eq_iff js_word)
  have l: "to_int32 l = l" using assms by (simp add: to_int32_id is_int32_def)
  have "to_int32 (m * 65536) mod 65536 = 0" using to_int32_mod [of 16 "m * 65536"] by simp
  then obtain q where q: "to_int32 (m * 65536) = q * 65536" by (metis mod_0_imp_dvd dvdE mult.commute)
  have "js_or (js_shl m 16) l = to_int32 (m * 65536) OR l"
    by (simp add: js_or_def s l to_int32_id is_int32_to_int32)
  also have "\<dots> = to_int32 (m * 65536) + l" using or_low_add [of l 16 q] assms by (simp add: q)
  finally have e: "js_or (js_shl m 16) l = to_int32 (m * 65536) + l" .
  then have "w32 (js_or (js_shl m 16) l) = w32 (m * 65536 + l)" by (simp only: js_word)
  then show ?thesis
    using is_int32_js_ops(2) [of "js_shl m 16" l] by (metis to_int32_eq_iff to_int32_id)
qed

lemma add_eq: "add x y = to_int32 (x + y)"
proof -
  define l where "l = js_and x 65535 + js_and y 65535"
  have l: "0 \<le> l" "l < 131072"
    using pos_mod_bound [of 65536 x] pos_mod_bound [of 65536 y] by (auto simp: l_def js_and_mask)
  then have sl: "js_shr l 16 = l div 65536" by (simp add: js_shr_def to_int32_id is_int32_def)
  have "add x y = to_int32 ((js_shr x 16 + js_shr y 16 + l div 65536) * 65536 + l mod 65536)"
    using js_or_disjoint_low [of "l mod 65536" "js_shr x 16 + js_shr y 16 + js_shr l 16"]
    by (simp add: add_def Let_def l_def [symmetric] sl js_and_mask(1) [of l])
  also have "(js_shr x 16 + js_shr y 16 + l div 65536) * 65536 + l mod 65536 = to_int32 x + to_int32 y"
    using js_shr_16_split [of x] js_shr_16_split [of y] div_mult_mod_eq [of l 65536]
    unfolding l_def by (simp add: distrib_right)
  also have "to_int32 (to_int32 x + to_int32 y) = to_int32 (x + y)"
    by (simp add: to_int32_eq_iff js_word)
  finally show ?thesis .
qed

lemma w32_add_halves [js_word]: "w32 (add x y) = w32 x + w32 y"
  by (simp add: add_eq js_word)

lemma is_int32_add [js_range]: "is_int32 (add x y)"
  by (simp add: add_eq js_range)

lemma w32_rotate [js_word]:
  assumes "0 < c" "c < 32"
  shows "w32 (rotate n c) = word_rotl c (w32 n)"
proof (rule bit_word_eqI)
  fix k assume "k < LENGTH(32)"
  then have k: "k < 32" by simp
  show "bit (w32 (rotate n c)) k \<longleftrightarrow> bit (word_rotl c (w32 n)) k"
  proof (cases "c \<le> k")
    case True
    then have "(k + 32 - c) mod 32 = k - c" using k by (simp add: mod_if)
    moreover have "\<not> bit (w32 n) (32 + k - c)"
      using True assms by (intro impossible_bit) simp
    ultimately show ?thesis using True k assms by (auto simp: rotate_def js_word bit_simps)
  next
    case False
    then have "(k + 32 - c) mod 32 = 32 + k - c" using k assms by simp
    with False k assms show ?thesis by (auto simp: rotate_def js_word bit_simps)
  qed
qed

section \<open>The bit string of a word array\<close>

definition wbit :: "int list \<Rightarrow> nat \<Rightarrow> bool" where
  "wbit x i \<longleftrightarrow> bit (w32 (wget x (i div 32))) (i mod 32)"

definition byte_bit :: "nat list \<Rightarrow> nat \<Rightarrow> bool" where
  "byte_bit bs i \<longleftrightarrow> i div 8 < length bs \<and> bit (bs ! (i div 8)) (i mod 8)"

definition bytes_ok :: "nat list \<Rightarrow> bool" where
  "bytes_ok bs \<longleftrightarrow> (\<forall>b \<in> set bs. b < 256)"

definition represents :: "int list \<Rightarrow> nat list \<Rightarrow> bool" where
  "represents x bs \<longleftrightarrow> length x = (length bs + 3) div 4 \<and> bytes_ok bs \<and> (\<forall>i. wbit x i = byte_bit bs i)"

lemma bytes_ok_simps [simp]:
  "bytes_ok []" "bytes_ok (b # bs) \<longleftrightarrow> b < 256 \<and> bytes_ok bs" "bytes_ok (bs @ cs) \<longleftrightarrow> bytes_ok bs \<and> bytes_ok cs"
  by (auto simp: bytes_ok_def)

lemma length_wput [simp]: "length (wput x i v) = max (length x) (Suc i)"
  by (simp add: wput_def)

lemma wget_wput [simp]: "wget (wput x i v) j = (if j = i then v else wget x j)"
  by (auto simp: wget_def wput_def nth_list_update nth_append)

lemma wget_append: "wget (x @ y) i = (if i < length x then wget x i else wget y (i - length x))"
  by (auto simp: wget_def nth_append)

lemma wbit_wput: "wbit (wput x i v) k \<longleftrightarrow> (if k div 32 = i then bit (w32 v) (k mod 32) else wbit x k)"
  by (simp add: wbit_def)

lemma bit_index_split:
  "k mod 32 = 8 * (k div 8 mod 4) + k mod 8" "k div 32 = k div 8 div 4" for k :: nat
  using mod_mult2_eq [of k 8 4] div_mult2_eq [of k 8 4] by simp_all

lemma bit_byte_less: "bit b j \<Longrightarrow> b < 256 \<Longrightarrow> j < 8" for b :: nat
proof -
  assume b: "bit b j" "b < 256"
  then have "take_bit 8 b = b" by (simp add: take_bit_nat_eq_self)
  with b show "j < 8" by (metis bit_take_bit_iff)
qed

lemma wbit_or_byte:
  assumes "b < 256"
  shows "bit (w32 (js_shl (js_and (int b) 255) (8 * n mod 32))) (k mod 32) \<and> k div 32 = 8 * n div 32
     \<longleftrightarrow> k div 8 = n \<and> bit b (k mod 8)"
proof -
  define K where "K = k div 8"
  define r where "r = k mod 8"
  have r: "r < 8" by (simp add: r_def)
  have k: "k mod 32 = 8 * (K mod 4) + r" "k div 32 = K div 4"
    unfolding K_def r_def by (rule bit_index_split)+
  have n: "8 * n mod 32 = 8 * (n mod 4)" "8 * n div 32 = n div 4"
    using bit_index_split [of "8 * n"] by simp_all
  have b: "js_and (int b) 255 = int b" using assms by (simp add: js_and_mask)
  have K: "8 * (K mod 4) + r < 32" using r by (auto intro: less_le_trans [of _ "8 * (K mod 4 + 1)"])
  have e: "8 * (K mod 4) + r - 8 * (n mod 4) = 8 * (K mod 4 - n mod 4) + r" if "n mod 4 \<le> K mod 4"
    using that by (simp add: diff_mult_distrib2)
  have le: "8 * (n mod 4) \<le> 8 * (K mod 4) + r \<longleftrightarrow> n mod 4 \<le> K mod 4" using r by linarith
  have "bit (w32 (js_shl (int b) (8 * (n mod 4)))) (8 * (K mod 4) + r) \<longleftrightarrow>
      n mod 4 \<le> K mod 4 \<and> bit b (8 * (K mod 4 - n mod 4) + r)"
    unfolding w32_js_ops unfolding w32_def using K by (auto simp: bit_simps bit_word_of_int_iff le e)
  also have "\<dots> \<longleftrightarrow> n mod 4 = K mod 4 \<and> bit b r"
    using bit_byte_less [OF _ assms, of "8 * (K mod 4 - n mod 4) + r"] by auto
  finally have "bit (w32 (js_shl (int b) (8 * (n mod 4)))) (8 * (K mod 4) + r) \<longleftrightarrow> n mod 4 = K mod 4 \<and> bit b r" .
  moreover have "n mod 4 = K mod 4 \<and> K div 4 = n div 4 \<longleftrightarrow> K = n" by (metis div_mult_mod_eq)
  ultimately show ?thesis unfolding k n b K_def [symmetric] r_def [symmetric] by blast
qed

lemma represents_snoc:
  assumes "represents x bs" "b < 256"
  shows "represents (wput x (8 * length bs div 32)
    (js_or (wget x (8 * length bs div 32)) (js_shl (js_and (int b) 255) (8 * length bs mod 32)))) (bs @ [b])"
    (is "represents ?y _")
proof -
  have "length ?y = (length (bs @ [b]) + 3) div 4"
    using assms by (auto simp: represents_def max_def)
  moreover have "wbit ?y k = byte_bit (bs @ [b]) k" for k
  proof -
    have "wbit ?y k \<longleftrightarrow> wbit x k \<or> (bit (w32 (js_shl (js_and (int b) 255) (8 * length bs mod 32))) (k mod 32)
        \<and> k div 32 = 8 * length bs div 32)"
      by (auto simp: wbit_wput js_word bit_simps) (auto simp: wbit_def)
    also have "\<dots> \<longleftrightarrow> byte_bit bs k \<or> (k div 8 = length bs \<and> bit b (k mod 8))"
      using assms(1) by (simp only: wbit_or_byte [OF assms(2)] represents_def)
    also have "\<dots> \<longleftrightarrow> byte_bit (bs @ [b]) k" by (auto simp: byte_bit_def nth_append less_Suc_eq)
    finally show ?thesis .
  qed
  ultimately show ?thesis using assms by (simp add: represents_def)
qed

definition bytes_of :: "string \<Rightarrow> nat list" where
  "bytes_of s = map of_char s"

lemma length_bytes_of [simp]: "length (bytes_of s) = length s"
  by (simp add: bytes_of_def)

lemma bytes_ok_bytes_of [simp]: "bytes_ok (bytes_of s)"
  by (auto simp: bytes_ok_def bytes_of_def)

lemma represents_toWord_loop:
  "represents x bs \<Longrightarrow> i = 8 * length bs \<Longrightarrow> represents (toWord_loop s i x) (bs @ bytes_of s)"
proof (induction s arbitrary: i x bs)
  case (Cons c s)
  have "code c = int (of_char c)" by (simp add: code_def)
  with Cons show ?case
    using Cons.IH [OF represents_snoc [OF Cons.prems(1), of "of_char c"], of "8 * length bs + 8"]
    by (simp add: bytes_of_def)
qed (simp add: bytes_of_def)

lemma represents_Nil: "represents [] []"
  by (simp add: represents_def wbit_def byte_bit_def wget_def js_word)

lemma represents_toWord: "represents (toWord s) (bytes_of s)"
  using represents_toWord_loop [OF represents_Nil, of 0 s] by (simp add: toWord_def)

lemma represents_append:
  assumes "represents x bs" "represents y cs" "4 dvd length bs"
  shows "represents (x @ y) (bs @ cs)"
proof -
  obtain m where m: "length bs = 4 * m" using assms(3) by blast
  then have x: "length x = m" using assms(1) by (simp add: represents_def)
  have "wbit (x @ y) i = byte_bit (bs @ cs) i" for i
  proof (cases "i < 32 * m")
    case True
    then have "i div 32 < m" "i div 8 < 4 * m" by (simp_all add: less_mult_imp_div_less mult.commute)
    with assms(1) m x show ?thesis
      by (auto simp: represents_def wbit_def byte_bit_def wget_append nth_append)
  next
    case False
    then obtain j where j: "i = 32 * m + j" by (metis le_Suc_ex not_less)
    have "wbit y j = byte_bit cs j" using assms(2) by (simp add: represents_def)
    moreover have "i div 32 = m + j div 32" "i mod 32 = j mod 32" "i div 8 = 4 * m + j div 8" "i mod 8 = j mod 8"
      using mod_mult_self4 [of 8 "4 * m" j] unfolding j by simp_all
    ultimately show ?thesis using m x by (simp add: wbit_def byte_bit_def wget_append nth_append)
  qed
  with assms m x show ?thesis by (simp add: represents_def)
qed

section \<open>The printed forms\<close>

lemma js_byte_div: "s < 32 \<Longrightarrow> js_and (js_shr v s) 255 = to_int32 v div 2 ^ s mod 256"
  by (simp add: js_and_mask js_shr_def)

lemma bit_to_int32: "k < 32 \<Longrightarrow> bit (to_int32 v) k = bit (w32 v) k"
  by (simp add: bit_sint_iff flip: sint_w32)

lemma js_and_ushr_255: "s + 8 \<le> 32 \<Longrightarrow> js_and (js_ushr v s) 255 = js_and (js_shr v s) 255"
proof -
  assume s: "s + 8 \<le> 32"
  have "js_and (js_ushr v s) 255 = take_bit 8 (drop_bit s (uint (w32 v)))"
    using s by (simp add: js_and_mask js_ushr_def take_bit_eq_mod drop_bit_eq_div uint_w32)
  also have "\<dots> = take_bit 8 (drop_bit s (to_int32 v))"
    using s by (intro bit_eqI) (auto simp: bit_simps bit_to_int32 bit_uint_iff)
  also have "\<dots> = js_and (js_shr v s) 255"
    using s by (simp add: js_byte_div take_bit_eq_mod drop_bit_eq_div)
  finally show ?thesis .
qed

lemma represents_byte:
  assumes "represents x bs"
  shows "js_and (js_shr (wget x (i div 4)) (8 * (i mod 4))) 255 = (if i < length bs then int (bs ! i) else 0)"
proof (rule bit_eqI)
  fix k
  have i: "8 * (i mod 4) < 32" "8 * (i mod 4) + 8 \<le> 32" by simp_all
  let ?v = "wget x (i div 4)"
  have "js_and (js_shr ?v (8 * (i mod 4))) 255 = take_bit 8 (drop_bit (8 * (i mod 4)) (to_int32 ?v))"
    using i by (simp add: js_byte_div take_bit_eq_mod drop_bit_eq_div)
  then have "bit (js_and (js_shr ?v (8 * (i mod 4))) 255) k \<longleftrightarrow> k < 8 \<and> bit (to_int32 ?v) (8 * (i mod 4) + k)"
    by (simp add: bit_simps add.commute)
  also have "\<dots> \<longleftrightarrow> k < 8 \<and> wbit x (8 * i + k)"
  proof -
    have "(8 * i + k) div 32 = i div 4" "(8 * i + k) mod 32 = 8 * (i mod 4) + k" if "k < 8"
      using bit_index_split [of "8 * i + k"] that by simp_all
    then show ?thesis using i(2) by (auto simp: wbit_def bit_to_int32)
  qed
  also have "\<dots> \<longleftrightarrow> k < 8 \<and> i < length bs \<and> bit (bs ! i) k"
    using assms by (auto simp: represents_def byte_bit_def)
  also have "\<dots> \<longleftrightarrow> bit (if i < length bs then int (bs ! i) else 0) k"
    using bit_byte_less [of "bs ! i" k] assms by (auto simp: represents_def bytes_ok_def bit_simps)
  finally show "bit (js_and (js_shr ?v (8 * (i mod 4))) 255) k \<longleftrightarrow> bit (if i < length bs then int (bs ! i) else 0) k" .
qed

lemma represents_length: "represents x bs \<Longrightarrow> 4 dvd length bs \<Longrightarrow> 4 * length x = length bs"
  by (auto simp: represents_def elim!: dvdE)

lemma map_upt_nth: "(\<And>i. i < length xs \<Longrightarrow> f i = g (xs ! i)) \<Longrightarrow> map f [0 ..< length xs] = map g xs"
  by (rule nth_equalityI) simp_all

definition hex_of_bytes :: "nat list \<Rightarrow> string" where
  "hex_of_bytes bs = concat (map (\<lambda>b. [hex_digit (b div 16), hex_digit (b mod 16)]) bs)"

lemma js_nibbles:
  assumes "js_and (js_shr v (8 * q)) 255 = int b" "q < 4"
  shows "js_and (js_shr v (8 * q + 4)) 15 = int (b div 16)" "js_and (js_shr v (8 * q)) 15 = int (b mod 16)"
proof -
  define u where "u = to_int32 v div 2 ^ (8 * q)"
  have "u mod 256 = int b" using assms js_byte_div [of "8 * q" v] by (simp add: u_def)
  moreover have "u mod 256 div 16 = u div 16 mod 16" using zmod_zmult2_eq [of 16 u 16] by simp
  moreover have "u mod 256 mod 16 = u mod 16" by (simp add: mod_mod_cancel)
  ultimately have u: "u div 16 mod 16 = int (b div 16)" "u mod 16 = int (b mod 16)"
    by (simp_all add: zdiv_int zmod_int)
  have "js_shr v (8 * q + 4) = u div 16"
    using assms(2) by (simp add: js_shr_def u_def power_add zdiv_zmult2_eq)
  moreover have "js_shr v (8 * q) = u" using assms(2) by (simp add: js_shr_def u_def)
  ultimately show "js_and (js_shr v (8 * q + 4)) 15 = int (b div 16)" "js_and (js_shr v (8 * q)) 15 = int (b mod 16)"
    using u by (simp_all add: js_and_mask)
qed

lemma toHex_represents: "represents x bs \<Longrightarrow> 4 dvd length bs \<Longrightarrow> toHex x = hex_of_bytes bs"
proof -
  assume x: "represents x bs" "4 dvd length bs"
  have "map (\<lambda>i. [hex_digit (nat (js_and (js_shr (wget x (i div 4)) (i mod 4 * 8 + 4)) 15)),
                       hex_digit (nat (js_and (js_shr (wget x (i div 4)) (i mod 4 * 8)) 15))]) [0 ..< length bs]
     = map (\<lambda>b. [hex_digit (b div 16), hex_digit (b mod 16)]) bs"
    using represents_byte [OF x(1)] by (intro map_upt_nth) (simp add: mult.commute js_nibbles)
  then show ?thesis by (simp only: toHex_def hex_of_bytes_def represents_length [OF x])
qed

lemma words_toString_represents: "represents x bs \<Longrightarrow> 4 dvd length bs \<Longrightarrow> words_toString x = map char_of bs"
proof -
  assume x: "represents x bs" "4 dvd length bs"
  have "8 * i mod 32 = 8 * (i mod 4)" for i :: nat using bit_index_split [of "8 * i"] by simp
  then have "map (\<lambda>i. char_of (nat (js_and (js_ushr (wget x (i div 4)) (8 * i mod 32)) 255))) [0 ..< length bs]
     = map char_of bs"
    using represents_byte [OF x(1)] by (intro map_upt_nth) (simp add: js_and_ushr_255)
  then show ?thesis by (simp only: words_toString_def represents_length [OF x])
qed

text \<open>The Base64 encoding of RFC 4648.\<close>

fun base64 :: "nat list \<Rightarrow> string" where
  "base64 [] = []"
| "base64 [a] = [b64_tab ! (a div 4), b64_tab ! (a mod 4 * 16), CHR ''='', CHR ''='']"
| "base64 [a, b] = [b64_tab ! (a div 4), b64_tab ! (a mod 4 * 16 + b div 16), b64_tab ! (b mod 16 * 4), CHR ''='']"
| "base64 (a # b # c # bs) =
     [b64_tab ! (a div 4), b64_tab ! (a mod 4 * 16 + b div 16), b64_tab ! (b mod 16 * 4 + c div 64), b64_tab ! (c mod 64)]
     @ base64 bs"

text \<open>Four six-bit digits of three bytes, through the 24-bit number of the source.\<close>

lemma b64_digits:
  assumes "a < 256" "b < 256" "c < 256"
  defines "t \<equiv> js_or (js_or (js_shl (int a) 16) (js_shl (int b) 8)) (int c)"
  shows "nat (js_and (js_shr t 18) 63) = a div 4"
    and "nat (js_and (js_shr t 12) 63) = a mod 4 * 16 + b div 16"
    and "nat (js_and (js_shr t 6) 63) = b mod 16 * 4 + c div 64"
    and "nat (js_and (js_shr t 0) 63) = c mod 64"
proof -
  have i: "js_shl (int a) 16 = int a * 65536" "js_shl (int b) 8 = int b * 256"
    using assms by (simp_all add: js_shl_def to_int32_id is_int32_def)
  have "js_or (int a * 65536) (int b * 256) = int a * 65536 + int b * 256"
    using assms or_low_add [of "int b * 256" 16 "int a"] by (simp add: js_or_def to_int32_id is_int32_def)
  moreover have "js_or (int a * 65536 + int b * 256) (int c) = (int a * 256 + int b) * 256 + int c"
    using assms(1-3) or_low_add [of "int c" 8 "int a * 256 + int b"]
    by (simp add: js_or_def to_int32_id is_int32_def distrib_right mult.commute)
  ultimately have "t = int ((a * 256 + b) * 256 + c)" by (simp add: t_def i)
  moreover define n where "n = (a * 256 + b) * 256 + c"
  ultimately have t: "to_int32 t = int n" using assms by (simp add: to_int32_id is_int32_def)
  have d: "nat (js_and (js_shr t k) 63) = n div 2 ^ k mod 64" if "k < 32" for k
  proof -
    have "js_and (js_shr t k) 63 = int (n div 2 ^ k mod 64)"
      using that by (simp add: js_and_mask js_shr_def t zdiv_int zmod_int)
    then show ?thesis by simp
  qed
  have s8: "n div 2 ^ 8 = a * 256 + b" "n div 2 ^ 16 = a" using assms(1-3) by (simp_all add: n_def)
  have "n div 2 ^ 18 = a div 4" using div_mult2_eq [of n "2 ^ 16" 4] s8 by simp
  then show "nat (js_and (js_shr t 18) 63) = a div 4" using assms(1) by (simp add: d)
  have "n div 2 ^ 12 = (a * 256 + b) div 16" using div_mult2_eq [of n "2 ^ 8" 16] s8 by simp
  also have "\<dots> = a * 16 + b div 16" by simp
  also have "\<dots> mod 64 = a mod 4 * 16 + b div 16"
    using assms(2) mod_mult2_eq [of "a * 16 + b div 16" 16 4] by (simp add: div_less_iff_less_mult)
  finally show "nat (js_and (js_shr t 12) 63) = a mod 4 * 16 + b div 16" by (simp add: d)
  have g: "(x * 4 + q) mod 64 = 4 * (x mod 16) + q" if "q < 4" for x q :: nat
    using mod_mult2_eq [of "x * 4 + q" 4 16] that by simp
  have "n div 2 ^ 6 = (a * 256 + b) * 4 + c div 64" by (simp add: n_def)
  also have "\<dots> mod 64 = 4 * ((a * 256 + b) mod 16) + c div 64"
    using assms(3) by (intro g) (simp add: div_less_iff_less_mult)
  also have "(a * 256 + b) mod 16 = b mod 16" using mod_mult_self3 [of "a * 16" 16 b] by (simp add: mult.commute)
  finally show "nat (js_and (js_shr t 6) 63) = b mod 16 * 4 + c div 64" by (simp add: d mult.commute)
  have "n mod 64 = c mod 64"
    using mod_mult_self3 [of "(a * 256 + b) * 4" 64 c] by (simp add: n_def mult.commute)
  then show "nat (js_and (js_shr t 0) 63) = c mod 64" by (simp add: d)
qed

lemma b64_group_represents:
  assumes "represents x bs" "4 dvd length bs"
  shows "b64_group x i =
    (let a = (if i < length bs then bs ! i else 0); b = (if i + 1 < length bs then bs ! (i + 1) else 0);
         c = (if i + 2 < length bs then bs ! (i + 2) else 0)
     in [if i * 8 > length bs * 8 then CHR ''='' else b64_tab ! (a div 4),
         if i * 8 + 6 > length bs * 8 then CHR ''='' else b64_tab ! (a mod 4 * 16 + b div 16),
         if i * 8 + 12 > length bs * 8 then CHR ''='' else b64_tab ! (b mod 16 * 4 + c div 64),
         if i * 8 + 18 > length bs * 8 then CHR ''='' else b64_tab ! (c mod 64)])"
proof -
  have b: "(if j < length bs then bs ! j else 0) < 256" for j
    using assms by (auto simp: represents_def bytes_ok_def)
  have t: "b64_triple x i = js_or (js_or (js_shl (int (if i < length bs then bs ! i else 0)) 16)
      (js_shl (int (if i + 1 < length bs then bs ! (i + 1) else 0)) 8))
      (int (if i + 2 < length bs then bs ! (i + 2) else 0))"
    using represents_byte [OF assms(1), of i] represents_byte [OF assms(1), of "i + 1"]
      represents_byte [OF assms(1), of "i + 2"] by (simp add: b64_triple_def)
  have l: "length x * 32 = length bs * 8" using represents_length [OF assms] by simp
  have u: "[0 ..< 4] = [0, 1, 2, 3 :: nat]" by (simp add: upt_rec)
  show ?thesis
    using b64_digits [OF b b b, of i "i + 1" "i + 2", folded t]
    by (simp add: b64_group_def l u Let_def)
qed

lemma upt_Suc_shift: "map f [0 ..< Suc n] = f 0 # map (\<lambda>k. f (Suc k)) [0 ..< n]"
  by (simp add: upt_conv_Cons map_Suc_upt [symmetric] del: upt_Suc)

text \<open>
  The groups of a byte list that is longer than its suffix \<open>drop i bs\<close>: the group at position
  \<open>3 k\<close> only reads bytes from there on.
\<close>

definition group_of :: "nat list \<Rightarrow> nat \<Rightarrow> string" where
  "group_of bs i =
    (let a = (if i < length bs then bs ! i else 0); b = (if i + 1 < length bs then bs ! (i + 1) else 0);
         c = (if i + 2 < length bs then bs ! (i + 2) else 0)
     in [if i * 8 > length bs * 8 then CHR ''='' else b64_tab ! (a div 4),
         if i * 8 + 6 > length bs * 8 then CHR ''='' else b64_tab ! (a mod 4 * 16 + b div 16),
         if i * 8 + 12 > length bs * 8 then CHR ''='' else b64_tab ! (b mod 16 * 4 + c div 64),
         if i * 8 + 18 > length bs * 8 then CHR ''='' else b64_tab ! (c mod 64)])"

lemma group_of_shift: "group_of (a # b # c # bs) (3 * Suc k) = group_of bs (3 * k)"
  by (simp add: group_of_def Let_def)

lemma groups_base64: "concat (map (\<lambda>k. group_of bs (3 * k)) [0 ..< (length bs + 2) div 3]) = base64 bs"
proof (induction bs rule: base64.induct)
  case (4 a b c bs)
  have "(length (a # b # c # bs) + 2) div 3 = Suc ((length bs + 2) div 3)" by simp
  with 4 show ?case
    by (simp only: upt_Suc_shift group_of_shift concat.simps base64.simps) (simp add: group_of_def)
qed (simp_all add: group_of_def)

lemma toBase64_represents: "represents x bs \<Longrightarrow> 4 dvd length bs \<Longrightarrow> toBase64 x = base64 bs"
proof -
  assume x: "represents x bs" "4 dvd length bs"
  then have "b64_group x = group_of bs"
    by (intro ext) (simp add: b64_group_represents group_of_def)
  then show ?thesis by (simp only: toBase64_def represents_length [OF x] groups_base64)
qed

end
