(* ===== verification/Crypto_MD5.thy ===== *)
theory Crypto_MD5
  imports Crypto_Words
begin

text \<open>
  \<open>src/crypto/MD5.js\<close>: the core of the digest, keyed hashing and the public functions. The
  theory relates them to RFC 1321 and RFC 2104: \<open>core\<close> computes the MD5 digest of the bytes that
  its word array represents, so that \<open>compute\<close> prints that digest and \<open>getHMAC\<close> prints HMAC-MD5.
\<close>

section \<open>The functions of the source\<close>

type_synonym md5_state = "int \<times> int \<times> int \<times> int"
type_synonym md5_fun = "int \<Rightarrow> int \<Rightarrow> int \<Rightarrow> int \<Rightarrow> int \<Rightarrow> nat \<Rightarrow> int \<Rightarrow> int"
type_synonym md5_step = "(nat \<Rightarrow> int) \<Rightarrow> md5_state \<Rightarrow> md5_state"

definition md5_C :: "int \<Rightarrow> int \<Rightarrow> int \<Rightarrow> int \<Rightarrow> nat \<Rightarrow> int \<Rightarrow> int" where
  "md5_C q a b x s t = add (rotate (add (add a q) (add x t)) s) b"

definition FF :: md5_fun where
  "FF a b c d x s t = md5_C (js_or (js_and b c) (js_and (js_not b) d)) a b x s t"

definition GG :: md5_fun where
  "GG a b c d x s t = md5_C (js_or (js_and b d) (js_and c (js_not d))) a b x s t"

definition HH :: md5_fun where
  "HH a b c d x s t = md5_C (js_xor (js_xor b c) d) a b x s t"

definition II :: md5_fun where
  "II a b c d x s t = md5_C (js_xor c (js_or b (js_not d))) a b x s t"

text \<open>
  The assignments of the loop body, for example \<open>step_d FF 1 12 t\<close> for
  \<open>d=FF(d,a,b,c,x[i+1],12,t)\<close>. The first argument gives the words of the block.
\<close>

fun step_a :: "md5_fun \<Rightarrow> nat \<Rightarrow> nat \<Rightarrow> int \<Rightarrow> md5_step" where
  "step_a f k s t x (a, b, c, d) = (f a b c d (x k) s t, b, c, d)"

fun step_d :: "md5_fun \<Rightarrow> nat \<Rightarrow> nat \<Rightarrow> int \<Rightarrow> md5_step" where
  "step_d f k s t x (a, b, c, d) = (a, b, c, f d a b c (x k) s t)"

fun step_c :: "md5_fun \<Rightarrow> nat \<Rightarrow> nat \<Rightarrow> int \<Rightarrow> md5_step" where
  "step_c f k s t x (a, b, c, d) = (a, b, f c d a b (x k) s t, d)"

fun step_b :: "md5_fun \<Rightarrow> nat \<Rightarrow> nat \<Rightarrow> int \<Rightarrow> md5_step" where
  "step_b f k s t x (a, b, c, d) = (a, f b c d a (x k) s t, c, d)"

definition round1 :: "md5_step list" where
  "round1 =
    [step_a FF 0 7 (- 680876936), step_d FF 1 12 (- 389564586), step_c FF 2 17 606105819, step_b FF 3 22 (- 1044525330),
     step_a FF 4 7 (- 176418897), step_d FF 5 12 1200080426, step_c FF 6 17 (- 1473231341), step_b FF 7 22 (- 45705983),
     step_a FF 8 7 1770035416, step_d FF 9 12 (- 1958414417), step_c FF 10 17 (- 42063), step_b FF 11 22 (- 1990404162),
     step_a FF 12 7 1804603682, step_d FF 13 12 (- 40341101), step_c FF 14 17 (- 1502002290), step_b FF 15 22 1236535329]"

definition round2 :: "md5_step list" where
  "round2 =
    [step_a GG 1 5 (- 165796510), step_d GG 6 9 (- 1069501632), step_c GG 11 14 643717713, step_b GG 0 20 (- 373897302),
     step_a GG 5 5 (- 701558691), step_d GG 10 9 38016083, step_c GG 15 14 (- 660478335), step_b GG 4 20 (- 405537848),
     step_a GG 9 5 568446438, step_d GG 14 9 (- 1019803690), step_c GG 3 14 (- 187363961), step_b GG 8 20 1163531501,
     step_a GG 13 5 (- 1444681467), step_d GG 2 9 (- 51403784), step_c GG 7 14 1735328473, step_b GG 12 20 (- 1926607734)]"

definition round3 :: "md5_step list" where
  "round3 =
    [step_a HH 5 4 (- 378558), step_d HH 8 11 (- 2022574463), step_c HH 11 16 1839030562, step_b HH 14 23 (- 35309556),
     step_a HH 1 4 (- 1530992060), step_d HH 4 11 1272893353, step_c HH 7 16 (- 155497632), step_b HH 10 23 (- 1094730640),
     step_a HH 13 4 681279174, step_d HH 0 11 (- 358537222), step_c HH 3 16 (- 722521979), step_b HH 6 23 76029189,
     step_a HH 9 4 (- 640364487), step_d HH 12 11 (- 421815835), step_c HH 15 16 530742520, step_b HH 2 23 (- 995338651)]"

definition round4 :: "md5_step list" where
  "round4 =
    [step_a II 0 6 (- 198630844), step_d II 7 10 1126891415, step_c II 14 15 (- 1416354905), step_b II 5 21 (- 57434055),
     step_a II 12 6 1700485571, step_d II 3 10 (- 1894986606), step_c II 10 15 (- 1051523), step_b II 1 21 (- 2054922799),
     step_a II 8 6 1873313359, step_d II 15 10 (- 30611744), step_c II 6 15 (- 1560198380), step_b II 13 21 1309151649,
     step_a II 4 6 (- 145523070), step_d II 11 10 (- 1120210379), step_c II 2 15 718787259, step_b II 9 21 (- 343485551)]"

fun add_state :: "md5_state \<Rightarrow> md5_state \<Rightarrow> md5_state" where
  "add_state (a, b, c, d) (olda, oldb, oldc, oldd) = (add a olda, add b oldb, add c oldc, add d oldd)"

definition md5_run :: "(nat \<Rightarrow> int) \<Rightarrow> md5_step list \<Rightarrow> md5_state \<Rightarrow> md5_state" where
  "md5_run x steps st = foldl (\<lambda>st f. f x st) st steps"

definition md5_block :: "(nat \<Rightarrow> int) \<Rightarrow> md5_state \<Rightarrow> md5_state" where
  "md5_block x st =
     add_state (md5_run x round4 (md5_run x round3 (md5_run x round2 (md5_run x round1 st)))) st"

function md5_loop :: "int list \<Rightarrow> nat \<Rightarrow> md5_state \<Rightarrow> md5_state" where
  "md5_loop x i st =
     (if i < length x then md5_loop x (i + 16) (md5_block (\<lambda>k. wget x (i + k)) st) else st)"
  by pat_completeness auto
termination
  by (relation "measure (\<lambda>(x, i, st). length x - i)") auto

declare md5_loop.simps [simp del]

definition md5_padded :: "int list \<Rightarrow> nat \<Rightarrow> int list" where
  "md5_padded x len =
     wput (wput x (len div 32) (js_or (wget x (len div 32)) (js_shl 0x80 (len mod 32))))
       ((len + 64) div 512 * 16 + 14) (int len)"

definition md5_init :: md5_state where
  "md5_init = (1732584193, - 271733879, - 1732584194, 271733878)"

fun state_words :: "md5_state \<Rightarrow> int list" where
  "state_words (a, b, c, d) = [a, b, c, d]"

definition md5_core :: "int list \<Rightarrow> nat \<Rightarrow> int list" where
  "md5_core x len = state_words (md5_loop (md5_padded x len) 0 md5_init)"

text \<open>Keyed hashing and the public functions.\<close>

definition xor_pad :: "int \<Rightarrow> int list \<Rightarrow> int list" where
  "xor_pad p wa = map (\<lambda>i. js_xor (wget wa i) p) [0 ..< 16]"

definition hmac_key :: "(int list \<Rightarrow> nat \<Rightarrow> int list) \<Rightarrow> string \<Rightarrow> int list" where
  "hmac_key cor key = (if length (toWord key) > 16 then cor (toWord key) (length key * 8) else toWord key)"

definition md5_hmac :: "string \<Rightarrow> string \<Rightarrow> int list" where
  "md5_hmac data key =
     (let wa = hmac_key md5_core key;
          h = md5_core (xor_pad 0x36363636 wa @ toWord data) (512 + length data * 8)
      in md5_core (xor_pad 0x5c5c5c5c wa @ h) 640)"

definition print_words :: "int list \<Rightarrow> output_type \<Rightarrow> string" where
  "print_words wa out = (case out of Hex \<Rightarrow> toHex wa | Out_String \<Rightarrow> words_toString wa | _ \<Rightarrow> toBase64 wa)"

definition MD5_compute :: "string \<Rightarrow> output_type option \<Rightarrow> string" where
  "MD5_compute data outputType = print_words (md5_core (toWord data) (length data * 8)) (out_or_default outputType)"

definition MD5_getHMAC :: "string \<Rightarrow> string \<Rightarrow> output_type option \<Rightarrow> string" where
  "MD5_getHMAC data key outputType = print_words (md5_hmac data key) (out_or_default outputType)"

section \<open>RFC 1321\<close>

type_synonym md5_words = "32 word \<times> 32 word \<times> 32 word \<times> 32 word"

definition rfc_F :: "nat \<Rightarrow> 32 word \<Rightarrow> 32 word \<Rightarrow> 32 word \<Rightarrow> 32 word" where
  "rfc_F i x y z =
     (if i < 16 then (x AND y) OR (NOT x AND z)
      else if i < 32 then (x AND z) OR (y AND NOT z)
      else if i < 48 then x XOR y XOR z
      else y XOR (x OR NOT z))"

definition rfc_index :: "nat \<Rightarrow> nat" where
  "rfc_index i =
     (if i < 16 then i else if i < 32 then (5 * i + 1) mod 16 else if i < 48 then (3 * i + 5) mod 16 else 7 * i mod 16)"

definition rfc_shift :: "nat \<Rightarrow> nat" where
  "rfc_shift i = [[7, 12, 17, 22], [5, 9, 14, 20], [4, 11, 16, 23], [6, 10, 15, 21]] ! (i div 16) ! (i mod 4)"

definition rfc_T :: "32 word list" where
  "rfc_T =
    [0xd76aa478, 0xe8c7b756, 0x242070db, 0xc1bdceee, 0xf57c0faf, 0x4787c62a, 0xa8304613, 0xfd469501,
     0x698098d8, 0x8b44f7af, 0xffff5bb1, 0x895cd7be, 0x6b901122, 0xfd987193, 0xa679438e, 0x49b40821,
     0xf61e2562, 0xc040b340, 0x265e5a51, 0xe9b6c7aa, 0xd62f105d, 0x02441453, 0xd8a1e681, 0xe7d3fbc8,
     0x21e1cde6, 0xc33707d6, 0xf4d50d87, 0x455a14ed, 0xa9e3e905, 0xfcefa3f8, 0x676f02d9, 0x8d2a4c8a,
     0xfffa3942, 0x8771f681, 0x6d9d6122, 0xfde5380c, 0xa4beea44, 0x4bdecfa9, 0xf6bb4b60, 0xbebfbc70,
     0x289b7ec6, 0xeaa127fa, 0xd4ef3085, 0x04881d05, 0xd9d4d039, 0xe6db99e5, 0x1fa27cf8, 0xc4ac5665,
     0xf4292244, 0x432aff97, 0xab9423a7, 0xfc93a039, 0x655b59c3, 0x8f0ccc92, 0xffeff47d, 0x85845dd1,
     0x6fa87e4f, 0xfe2ce6e0, 0xa3014314, 0x4e0811a1, 0xf7537e82, 0xbd3af235, 0x2ad7d2bb, 0xeb86d391]"

fun rfc_step :: "(nat \<Rightarrow> 32 word) \<Rightarrow> md5_words \<Rightarrow> nat \<Rightarrow> md5_words" where
  "rfc_step M (A, B, C, D) i =
     (D, B + word_rotl (rfc_shift i) (A + rfc_F i B C D + M (rfc_index i) + rfc_T ! i), B, C)"

fun rfc_block :: "(nat \<Rightarrow> 32 word) \<Rightarrow> md5_words \<Rightarrow> md5_words" where
  "rfc_block M (A, B, C, D) =
     (let (A', B', C', D') = foldl (rfc_step M) (A, B, C, D) [0 ..< 64]
      in (A' + A, B' + B, C' + C, D' + D))"

section \<open>The rounds\<close>

fun word_state :: "md5_state \<Rightarrow> md5_words" where
  "word_state (a, b, c, d) = (w32 a, w32 b, w32 c, w32 d)"

text \<open>
  RFC 1321 rotates the roles of the four registers, the source names them in turn. The four
  views read the registers of the RFC off the registers of the source.
\<close>

fun view_a :: "md5_words \<Rightarrow> md5_words" where "view_a (a, b, c, d) = (a, b, c, d)"
fun view_d :: "md5_words \<Rightarrow> md5_words" where "view_d (a, b, c, d) = (d, a, b, c)"
fun view_c :: "md5_words \<Rightarrow> md5_words" where "view_c (a, b, c, d) = (c, d, a, b)"
fun view_b :: "md5_words \<Rightarrow> md5_words" where "view_b (a, b, c, d) = (b, c, d, a)"

definition computes_F :: "md5_fun \<Rightarrow> nat \<Rightarrow> bool" where
  "computes_F f i \<longleftrightarrow> (\<forall>a b c d x s t. 0 < s \<and> s < 32 \<longrightarrow>
     w32 (f a b c d x s t) = w32 b + word_rotl s (w32 a + rfc_F i (w32 b) (w32 c) (w32 d) + w32 x + w32 t))"

lemma computes_F_rounds:
  "i < 16 \<Longrightarrow> computes_F FF i" "16 \<le> i \<Longrightarrow> i < 32 \<Longrightarrow> computes_F GG i"
  "32 \<le> i \<Longrightarrow> i < 48 \<Longrightarrow> computes_F HH i" "48 \<le> i \<Longrightarrow> computes_F II i"
  by (simp_all add: computes_F_def FF_def GG_def HH_def II_def md5_C_def js_word rfc_F_def add_ac xor.assoc)

definition step_ok :: "md5_fun \<Rightarrow> nat \<Rightarrow> nat \<Rightarrow> nat \<Rightarrow> int \<Rightarrow> bool" where
  "step_ok f i k s t \<longleftrightarrow> computes_F f i \<and> 0 < s \<and> s < 32 \<and> rfc_index i = k \<and> rfc_shift i = s \<and> rfc_T ! i = w32 t"

lemma step_views:
  assumes "step_ok f i k s t"
  shows "view_a (word_state st) = S \<Longrightarrow> view_d (word_state (step_a f k s t x st)) = rfc_step (\<lambda>k. w32 (x k)) S i"
    and "view_d (word_state st) = S \<Longrightarrow> view_c (word_state (step_d f k s t x st)) = rfc_step (\<lambda>k. w32 (x k)) S i"
    and "view_c (word_state st) = S \<Longrightarrow> view_b (word_state (step_c f k s t x st)) = rfc_step (\<lambda>k. w32 (x k)) S i"
    and "view_b (word_state st) = S \<Longrightarrow> view_a (word_state (step_b f k s t x st)) = rfc_step (\<lambda>k. w32 (x k)) S i"
  using assms by (cases st; force simp: step_ok_def computes_F_def)+

lemma view_a_id [simp]: "view_a S = S"
  by (cases S) simp

lemma upt_rounds:
  "[0 ..< 16] = [0, 1, 2, 3, 4, 5, 6, 7, 8, 9, 10, 11, 12, 13, 14, 15 :: nat]"
  "[16 ..< 32] = [16, 17, 18, 19, 20, 21, 22, 23, 24, 25, 26, 27, 28, 29, 30, 31 :: nat]"
  "[32 ..< 48] = [32, 33, 34, 35, 36, 37, 38, 39, 40, 41, 42, 43, 44, 45, 46, 47 :: nat]"
  "[48 ..< 64] = [48, 49, 50, 51, 52, 53, 54, 55, 56, 57, 58, 59, 60, 61, 62, 63 :: nat]"
  by code_simp+

lemmas step_table = step_ok_def computes_F_rounds rfc_index_def rfc_shift_def rfc_T_def w32_def

lemma rounds_rfc_views:
  "view_a (word_state (md5_run x round1 st)) = foldl (rfc_step (\<lambda>k. w32 (x k))) (word_state st) [0 ..< 16]"
  "view_a (word_state (md5_run x round2 st)) = foldl (rfc_step (\<lambda>k. w32 (x k))) (word_state st) [16 ..< 32]"
  "view_a (word_state (md5_run x round3 st)) = foldl (rfc_step (\<lambda>k. w32 (x k))) (word_state st) [32 ..< 48]"
  "view_a (word_state (md5_run x round4 st)) = foldl (rfc_step (\<lambda>k. w32 (x k))) (word_state st) [48 ..< 64]"
  unfolding md5_run_def round1_def round2_def round3_def round4_def upt_rounds foldl.simps
  by (intro step_views view_a_id; simp add: step_table)+

lemmas rounds_rfc = rounds_rfc_views [unfolded view_a_id]

lemma upt_64: "[0 ..< 64] = [0 ..< 16] @ [16 ..< 32] @ [32 ..< 48] @ [48 ..< 64 :: nat]"
  by code_simp

lemma word_state_add: "word_state (add_state st st') =
    (case (word_state st, word_state st') of ((a, b, c, d), (a', b', c', d')) \<Rightarrow> (a + a', b + b', c + c', d + d'))"
  by (cases st; cases st') (simp add: js_word)

lemma md5_block_rfc: "word_state (md5_block x st) = rfc_block (\<lambda>k. w32 (x k)) (word_state st)"
proof -
  obtain a b c d where st: "word_state st = (a, b, c, d)" by (cases "word_state st")
  show ?thesis
    unfolding md5_block_def word_state_add rounds_rfc rfc_block.simps st upt_64 foldl_append Let_def
    by simp
qed

section \<open>The message and its padding\<close>

definition byte_at :: "nat list \<Rightarrow> nat \<Rightarrow> nat" where
  "byte_at bs i = (if i < length bs then bs ! i else 0)"

definition word_at :: "nat list \<Rightarrow> nat \<Rightarrow> 32 word" where
  "word_at bs i =
     of_nat (byte_at bs (4 * i)) OR push_bit 8 (of_nat (byte_at bs (4 * i + 1))) OR
     push_bit 16 (of_nat (byte_at bs (4 * i + 2))) OR push_bit 24 (of_nat (byte_at bs (4 * i + 3)))"

definition le_bytes :: "nat \<Rightarrow> nat \<Rightarrow> nat list" where
  "le_bytes k n = map (\<lambda>i. n div 256 ^ i mod 256) [0 ..< k]"

definition rfc_pad :: "nat list \<Rightarrow> nat list" where
  "rfc_pad bs = bs @ [128] @ replicate ((119 - length bs mod 64) mod 64) 0 @ le_bytes 8 (8 * length bs)"

definition rfc_init :: md5_words where
  "rfc_init = (0x67452301, 0xefcdab89, 0x98badcfe, 0x10325476)"

definition rfc_blocks :: "nat list \<Rightarrow> md5_words" where
  "rfc_blocks p = foldl (\<lambda>S j. rfc_block (\<lambda>k. word_at p (16 * j + k)) S) rfc_init [0 ..< length p div 64]"

definition word_bytes :: "32 word \<Rightarrow> nat list" where
  "word_bytes w = le_bytes 4 (unat w)"

definition rfc_md5 :: "nat list \<Rightarrow> nat list" where
  "rfc_md5 bs = (case rfc_blocks (rfc_pad bs) of (a, b, c, d) \<Rightarrow> word_bytes a @ word_bytes b @ word_bytes c @ word_bytes d)"

lemma div_power_256: "n div 256 ^ i mod 256 = take_bit 8 (drop_bit (8 * i) n)" for n :: nat
  by (simp add: take_bit_eq_mod drop_bit_eq_div power_mult)

lemma byte_bit_le_bytes: "byte_bit (le_bytes k n) j \<longleftrightarrow> j < 8 * k \<and> bit n j"
proof -
  have "j div 8 < k \<longleftrightarrow> j < 8 * k" by (simp add: div_less_iff_less_mult mult.commute)
  then show ?thesis by (auto simp: byte_bit_def le_bytes_def div_power_256 bit_simps)
qed

lemma bytes_ok_le_bytes [simp]: "bytes_ok (le_bytes k n)"
  by (auto simp: bytes_ok_def le_bytes_def)

lemma length_le_bytes [simp]: "length (le_bytes k n) = k"
  by (simp add: le_bytes_def)

lemma byte_bit_append:
  "byte_bit (bs @ cs) k \<longleftrightarrow> (if k < 8 * length bs then byte_bit bs k else byte_bit cs (k - 8 * length bs))"
proof (cases "k < 8 * length bs")
  case True
  then have "k div 8 < length bs" by (simp add: div_less_iff_less_mult mult.commute)
  with True show ?thesis by (simp add: byte_bit_def nth_append)
next
  case False
  then obtain j where j: "k = 8 * length bs + j" by (metis le_Suc_ex not_less)
  then have "k div 8 = length bs + j div 8" "k mod 8 = j mod 8" by simp_all
  with j show ?thesis by (simp add: byte_bit_def nth_append)
qed

lemma byte_bit_zeros [simp]: "\<not> byte_bit (replicate z 0) k"
  by (simp add: byte_bit_def)

lemma byte_bit_less: "byte_bit bs k \<Longrightarrow> k < 8 * length bs"
  by (simp add: byte_bit_def div_less_iff_less_mult mult.commute)

lemma bit_shifted_byte:
  assumes "b < 256" "k < 32"
  shows "bit (push_bit (8 * q) (of_nat b :: 32 word)) k \<longleftrightarrow> k div 8 = q \<and> bit b (k mod 8)"
proof -
  have "bit (push_bit (8 * q) (of_nat b :: 32 word)) k \<longleftrightarrow> 8 * q \<le> k \<and> bit b (k - 8 * q)"
    using assms(2) by (auto simp: bit_simps)
  also have "\<dots> \<longleftrightarrow> 8 * q \<le> k \<and> k - 8 * q < 8 \<and> bit b (k - 8 * q)"
    using bit_byte_less [OF _ assms(1)] by blast
  also have "\<dots> \<longleftrightarrow> k div 8 = q \<and> bit b (k mod 8)"
  proof -
    have "8 * q \<le> k \<and> k - 8 * q < 8 \<longleftrightarrow> k div 8 = q" by (auto simp: div_nat_eqI)
    moreover have "k div 8 = q \<Longrightarrow> k - 8 * q = k mod 8" by (metis minus_mult_div_eq_mod)
    ultimately show ?thesis by metis
  qed
  finally show ?thesis .
qed

lemma bit_word_at:
  assumes "bytes_ok bs" "k < 32"
  shows "bit (word_at bs i) k \<longleftrightarrow> byte_bit bs (32 * i + k)"
proof -
  have b: "byte_at bs j < 256" for j using assms(1) by (simp add: byte_at_def bytes_ok_def)
  have sb: "bit (push_bit (8 * q) (of_nat (byte_at bs (4 * i + j)) :: 32 word)) k \<longleftrightarrow>
      k div 8 = q \<and> bit (byte_at bs (4 * i + j)) (k mod 8)" for q j
    by (rule bit_shifted_byte [OF b assms(2)])
  have m: "8 * 0 = (0 :: nat)" "8 * 1 = (8 :: nat)" "8 * 2 = (16 :: nat)" "8 * 3 = (24 :: nat)" by simp_all
  note sbs = sb [of 0 0, unfolded m push_bit_0_id id_apply add_0_right] sb [of 1 1, unfolded m]
    sb [of 2 2, unfolded m] sb [of 3 3, unfolded m]
  have "k div 8 < 4" using assms(2) by (simp add: div_less_iff_less_mult)
  then have "k div 8 = 0 \<or> k div 8 = 1 \<or> k div 8 = 2 \<or> k div 8 = 3" by linarith
  then have "bit (word_at bs i) k \<longleftrightarrow> bit (byte_at bs (4 * i + k div 8)) (k mod 8)"
    unfolding word_at_def bit_or_iff sbs by (elim disjE) (simp_all only:, simp_all)
  also have "\<dots> \<longleftrightarrow> byte_bit bs (32 * i + k)"
  proof -
    have "(32 * i + k) div 8 = 4 * i + k div 8" "(32 * i + k) mod 8 = k mod 8"
      using div_mult_self4 [of 8 "4 * i" k] mod_mult_self4 [of 8 "4 * i" k] by simp_all
    then show ?thesis by (simp add: byte_bit_def byte_at_def)
  qed
  finally show ?thesis .
qed

lemma words_of_bits:
  assumes "bytes_ok p" "\<And>k. wbit x k = byte_bit p k"
  shows "w32 (wget x i) = word_at p i"
proof (rule bit_word_eqI)
  fix k assume "k < LENGTH(32)"
  then have k: "k < 32" by simp
  then have "bit (w32 (wget x i)) k = wbit x (32 * i + k)" by (simp add: wbit_def)
  with assms k show "bit (w32 (wget x i)) k = bit (word_at p i) k" by (simp add: bit_word_at)
qed

lemma pad_length: "n + 1 + (119 - n mod 64) mod 64 = 64 * ((n + 8) div 64) + 56" for n :: nat
proof -
  define a r where "a = n div 64" and "r = n mod 64"
  have n: "n = 64 * a + r" and r: "r < 64" by (simp_all add: a_def r_def)
  show ?thesis
  proof (cases "r \<le> 55")
    case True
    then have "(119 - r) mod 64 = 55 - r" using mod_add_self1 [of 64 "55 - r"] by simp
    moreover have "(n + 8) div 64 = a" using True by (simp add: n)
    ultimately show ?thesis using True n r by simp
  next
    case False
    then have "(119 - r) mod 64 = 119 - r" using r by simp
    moreover have "(n + 8) div 64 = a + 1" using False r div_mult_self4 [of 64 "a + 1" "r - 56"] by (simp add: n)
    ultimately show ?thesis using False n r by simp
  qed
qed

lemma length_rfc_pad: "length (rfc_pad bs) = 64 * ((length bs + 8) div 64 + 1)"
  using pad_length [of "length bs"] by (simp add: rfc_pad_def)

lemma bytes_ok_rfc_pad: "bytes_ok bs \<Longrightarrow> bytes_ok (rfc_pad bs)"
  by (auto simp: rfc_pad_def bytes_ok_def [of "replicate _ _"])

lemma md5_padded_bits:
  assumes "represents x bs" "8 * length bs < 2 ^ 31"
  shows "wbit (md5_padded x (8 * length bs)) k = byte_bit (rfc_pad bs) k"
    and "length (md5_padded x (8 * length bs)) = 16 * ((length bs + 8) div 64) + 15"
proof -
  let ?n = "length bs"
  define Q where "Q = 16 * ((?n + 8) div 64) + 14"
  define z where "z = (119 - ?n mod 64) mod 64"
  define y where "y = wput x (8 * ?n div 32) (js_or (wget x (8 * ?n div 32)) (js_shl 128 (8 * ?n mod 32)))"
  have Q: "?n + 1 + z = 4 * Q" using pad_length [of ?n] by (simp add: Q_def z_def)
  have y: "represents y (bs @ [128])"
    using represents_snoc [OF assms(1), of 128] by (simp add: y_def js_and_mask)
  have X: "md5_padded x (8 * ?n) = wput y Q (int (8 * ?n))"
    using div_mult2_eq [of "8 * ?n + 64" 8 64] by (simp add: md5_padded_def y_def Q_def mult.commute)
  have "length y = (?n + 4) div 4" using y by (simp add: represents_def)
  moreover have "(?n + 4) div 4 \<le> Q + 1" using Q by simp
  ultimately show "length (md5_padded x (8 * ?n)) = 16 * ((?n + 8) div 64) + 15"
    unfolding X by (simp add: Q_def)
  have len: "bit (w32 (int (8 * ?n))) (k mod 32) \<longleftrightarrow> bit (8 * ?n) (k mod 32)"
    by (simp add: w32_def bit_word_of_int_iff bit_of_nat_iff del: of_nat_mult)
  have "take_bit 32 (8 * ?n) = 8 * ?n" using assms(2) by (intro take_bit_nat_eq_self) simp
  then have small: "bit (8 * ?n) j \<Longrightarrow> j < 32" for j by (metis bit_take_bit_iff)
  have p: "byte_bit (rfc_pad bs) k \<longleftrightarrow>
      (if k < 8 * (?n + 1) then byte_bit (bs @ [128]) k else 32 * Q \<le> k \<and> k < 32 * Q + 64 \<and> bit (8 * ?n) (k - 32 * Q))"
  proof -
    have r: "rfc_pad bs = (bs @ [128]) @ replicate z 0 @ le_bytes 8 (8 * ?n)" by (simp add: rfc_pad_def z_def)
    have e: "k - 8 * (?n + 1) - 8 * z = k - 32 * Q" using Q by simp
    have "8 * z + 8 * (?n + 1) = 32 * Q" using Q by simp
    then have l: "k - 8 * (?n + 1) < 8 * z \<longleftrightarrow> k < 32 * Q" if "\<not> k < 8 * (?n + 1)"
      using that by (simp only: not_less less_diff_conv2)
    show ?thesis
      unfolding r byte_bit_append [of "bs @ [128]"] byte_bit_append [of "replicate z 0"] byte_bit_le_bytes
      using l e by (auto simp del: mult_Suc_right)
  qed
  show "wbit (md5_padded x (8 * ?n)) k = byte_bit (rfc_pad bs) k"
  proof (cases "k div 32 = Q")
    case True
    then have "32 * Q \<le> k" "k < 32 * Q + 32" "k - 32 * Q = k mod 32" "\<not> k < 8 * (?n + 1)"
      using Q by (auto simp: modulo_nat_def dest: sym)
    with True show ?thesis unfolding X wbit_wput p len by simp
  next
    case False
    have "wbit y k = byte_bit (bs @ [128]) k" using y by (simp add: represents_def)
    moreover have "\<not> (32 * Q \<le> k \<and> bit (8 * ?n) (k - 32 * Q))"
      using small [of "k - 32 * Q"] False by (auto simp: div_nat_eqI)
    moreover have "byte_bit (bs @ [128]) k \<Longrightarrow> k < 8 * (?n + 1)" using byte_bit_less [of "bs @ [128]" k] by simp
    ultimately show ?thesis using False unfolding X wbit_wput p by auto
  qed
qed

lemma md5_loop_rfc:
  assumes "\<And>i. w32 (wget x i) = word_at p i" "length x + 1 = 16 * m" "j \<le> m"
  shows "word_state (md5_loop x (16 * j) st) =
    foldl (\<lambda>S j. rfc_block (\<lambda>k. word_at p (16 * j + k)) S) (word_state st) [j ..< m]"
  using assms(3)
proof (induction "m - j" arbitrary: j st)
  case 0
  then show ?case using assms(2) by (simp add: md5_loop.simps)
next
  case (Suc d)
  then have j: "j < m" "d = m - Suc j" by auto
  then have "16 * j < length x" using assms(2) by linarith
  then have "md5_loop x (16 * j) st = md5_loop x (16 * Suc j) (md5_block (\<lambda>k. wget x (16 * j + k)) st)"
    by (simp add: md5_loop.simps [of x "16 * j"] add.commute)
  moreover have "[j ..< m] = j # [Suc j ..< m]" using j by (simp add: upt_conv_Cons)
  ultimately show ?case using Suc.hyps(1) [OF j(2)] j(1) by (simp add: md5_block_rfc assms(1))
qed

lemma word_state_init: "word_state md5_init = rfc_init"
  by (simp add: md5_init_def rfc_init_def w32_def)

lemma represents_word_bytes: "represents xs (concat (map (\<lambda>v. word_bytes (w32 v)) xs))"
proof (induction xs)
  case (Cons v xs)
  have "wbit [v] k = byte_bit (word_bytes (w32 v)) k" for k
  proof (cases "k < 32")
    case True
    then show ?thesis by (simp add: wbit_def wget_def word_bytes_def byte_bit_le_bytes bit_unsigned_iff)
  next
    case False
    then have "0 < k div 32" by (simp add: div_greater_zero_iff)
    then have "wget [v] (k div 32) = 0" by (simp add: wget_def)
    with False show ?thesis by (simp add: wbit_def word_bytes_def byte_bit_le_bytes js_word)
  qed
  then have "represents [v] (word_bytes (w32 v))" by (simp add: represents_def word_bytes_def)
  from represents_append [OF this Cons.IH] show ?case by (simp add: word_bytes_def)
qed (simp add: represents_Nil)

lemma length_rfc_md5: "length (rfc_md5 bs) = 16"
  by (simp add: rfc_md5_def word_bytes_def split: prod.split)

lemma md5_core_rfc:
  assumes "represents x bs" "8 * length bs < 2 ^ 31"
  shows "represents (md5_core x (8 * length bs)) (rfc_md5 bs)"
proof -
  let ?X = "md5_padded x (8 * length bs)" and ?p = "rfc_pad bs"
  obtain a b c d where st: "md5_loop ?X 0 md5_init = (a, b, c, d)" by (cases "md5_loop ?X 0 md5_init")
  have "bytes_ok ?p" using assms(1) by (intro bytes_ok_rfc_pad) (simp add: represents_def)
  then have w: "w32 (wget ?X i) = word_at ?p i" for i
    using md5_padded_bits(1) [OF assms] by (rule words_of_bits)
  have l: "length ?p div 64 = (length bs + 8) div 64 + 1" by (simp add: length_rfc_pad)
  have "word_state (md5_loop ?X (16 * 0) md5_init) = rfc_blocks ?p"
    unfolding rfc_blocks_def l word_state_init [symmetric]
    using md5_padded_bits(2) [OF assms] by (intro md5_loop_rfc w) simp_all
  then have "rfc_blocks ?p = (w32 a, w32 b, w32 c, w32 d)" by (simp add: st)
  then have "rfc_md5 bs = concat (map (\<lambda>v. word_bytes (w32 v)) (md5_core x (8 * length bs)))"
    by (simp add: rfc_md5_def md5_core_def st)
  then show ?thesis using represents_word_bytes by simp
qed

section \<open>Keyed hashing\<close>

text \<open>
  RFC 2104 for a hash function with blocks of 64 bytes, and the contract under which the
  \<open>hmac\<close> function of the digests computes it: the core has to digest the bytes that a word array
  represents, and the digest has 16 bytes, the length that the number 640 in \<open>hmac\<close> stands for.
\<close>

definition rfc2104_key :: "(nat list \<Rightarrow> nat list) \<Rightarrow> nat list \<Rightarrow> nat list" where
  "rfc2104_key H key =
     (let k = (if length key > 64 then H key else key) in k @ replicate (64 - length k) 0)"

definition rfc2104 :: "(nat list \<Rightarrow> nat list) \<Rightarrow> nat list \<Rightarrow> nat list \<Rightarrow> nat list" where
  "rfc2104 H key txt =
     H (map (\<lambda>b. b XOR 0x5c) (rfc2104_key H key) @ H (map (\<lambda>b. b XOR 0x36) (rfc2104_key H key) @ txt))"

definition pad_word :: "int \<Rightarrow> nat \<Rightarrow> bool" where
  "pad_word p q \<longleftrightarrow> q < 256 \<and> (\<forall>j \<in> set [0 ..< 32]. bit (w32 p) j = bit q (j mod 8))"

lemma pad_words: "pad_word 0x36363636 0x36" "pad_word 0x5c5c5c5c 0x5c"
  by code_simp+

lemma xor_byte_less: "a < 256 \<Longrightarrow> b < 256 \<Longrightarrow> a XOR b < 256" for a b :: nat
proof -
  assume "a < 256" "b < 256"
  then have "take_bit 8 a = a" "take_bit 8 b = b" by (simp_all add: take_bit_nat_eq_self)
  then have "take_bit 8 (a XOR b) = a XOR b" by (simp add: take_bit_xor)
  then show "a XOR b < 256" using take_bit_nat_less_exp [of 8 "a XOR b"] by simp
qed

lemma xor_pad_represents:
  assumes "represents wa bs" "length bs \<le> 64" "pad_word p q"
  shows "represents (xor_pad p wa) (map (\<lambda>b. b XOR q) (bs @ replicate (64 - length bs) 0))"
    (is "represents _ (map _ ?k)")
proof -
  have bs: "bytes_ok bs" "\<And>k. wbit wa k = byte_bit bs k" using assms(1) by (simp_all add: represents_def)
  then have "bytes_ok ?k" by (auto simp: bytes_ok_def)
  then have "bytes_ok (map (\<lambda>b. b XOR q) ?k)"
    using assms(3) unfolding bytes_ok_def pad_word_def by (auto simp: xor_byte_less)
  moreover have "wbit (xor_pad p wa) k = byte_bit (map (\<lambda>b. b XOR q) ?k) k" for k
  proof (cases "k < 512")
    case True
    then have d: "k div 32 < 16" "k div 8 < 64" by (simp_all add: div_less_iff_less_mult)
    have "bit (w32 p) (k mod 32) = bit q (k mod 32 mod 8)" using assms(3) by (simp add: pad_word_def)
    then have "bit (w32 p) (k mod 32) = bit q (k mod 8)" by (simp add: mod_mod_cancel)
    then have "wbit (xor_pad p wa) k \<longleftrightarrow> byte_bit bs k \<noteq> bit q (k mod 8)"
      using d by (simp add: wbit_def wget_def [of "map _ _"] xor_pad_def js_word bit_simps flip: bs(2))
    also have "\<dots> \<longleftrightarrow> byte_bit (map (\<lambda>b. b XOR q) ?k) k"
      using d assms(2) by (auto simp: byte_bit_def nth_append bit_simps)
    finally show ?thesis .
  next
    case False
    then have d: "\<not> k div 32 < 16" "\<not> k div 8 < 64" by (simp_all add: div_less_iff_less_mult)
    then show ?thesis using assms(2) by (simp add: wbit_def byte_bit_def wget_def xor_pad_def js_word)
  qed
  ultimately show ?thesis using assms(2) by (simp add: represents_def xor_pad_def)
qed

locale word_digest =
  fixes core :: "int list \<Rightarrow> nat \<Rightarrow> int list" and H :: "nat list \<Rightarrow> nat list"
  assumes core_refines: "represents x bs \<Longrightarrow> 8 * length bs < 2 ^ 31 \<Longrightarrow> represents (core x (8 * length bs)) (H bs)"
    and digest_length: "length (H bs) = 16"
begin

lemma hmac_key_represents:
  assumes "8 * length key < 2 ^ 31"
  shows "\<exists>bs. represents (hmac_key core key) bs \<and> length bs \<le> 64 \<and>
    rfc2104_key H (bytes_of key) = bs @ replicate (64 - length bs) 0"
proof -
  have "length (toWord key) = (length key + 3) div 4"
    using represents_toWord [of key] by (simp add: represents_def)
  then have "16 < length (toWord key) \<longleftrightarrow> 64 < length key" by linarith
  moreover have "represents (core (toWord key) (8 * length key)) (H (bytes_of key))"
    using core_refines [OF represents_toWord, of key] assms by simp
  ultimately show ?thesis
    using represents_toWord [of key] digest_length [of "bytes_of key"]
    by (intro exI [of _ "if 64 < length key then H (bytes_of key) else bytes_of key"])
      (simp add: hmac_key_def rfc2104_key_def Let_def mult.commute)
qed

lemma hmac_refines:
  assumes "8 * length key < 2 ^ 31" "8 * (64 + length data) < 2 ^ 31"
  shows "represents (core (xor_pad 0x5c5c5c5c (hmac_key core key) @
      core (xor_pad 0x36363636 (hmac_key core key) @ toWord data) (512 + length data * 8)) 640)
    (rfc2104 H (bytes_of key) (bytes_of data))"
proof -
  obtain bs where k: "represents (hmac_key core key) bs" "length bs \<le> 64"
      "rfc2104_key H (bytes_of key) = bs @ replicate (64 - length bs) 0"
    using hmac_key_represents [OF assms(1)] by blast
  let ?i = "map (\<lambda>b. b XOR 0x36) (rfc2104_key H (bytes_of key))"
    and ?o = "map (\<lambda>b. b XOR 0x5c) (rfc2104_key H (bytes_of key))"
  have l: "length ?i = 64" "length ?o = 64" using k by simp_all
  have "represents (xor_pad 0x36363636 (hmac_key core key)) ?i" "represents (xor_pad 0x5c5c5c5c (hmac_key core key)) ?o"
    unfolding k(3) using xor_pad_represents [OF k(1,2)] pad_words by blast+
  note pads = this
  have "represents (xor_pad 0x36363636 (hmac_key core key) @ toWord data) (?i @ bytes_of data)"
    using pads(1) represents_toWord l by (intro represents_append) simp_all
  from core_refines [OF this] assms(2) l
  have h: "represents (core (xor_pad 0x36363636 (hmac_key core key) @ toWord data) (512 + length data * 8))
      (H (?i @ bytes_of data))" by (simp add: mult.commute)
  have "represents (xor_pad 0x5c5c5c5c (hmac_key core key) @
      core (xor_pad 0x36363636 (hmac_key core key) @ toWord data) (512 + length data * 8))
      (?o @ H (?i @ bytes_of data))"
    using pads(2) h l by (intro represents_append) simp_all
  from core_refines [OF this] l show ?thesis by (simp add: rfc2104_def digest_length)
qed

end

interpretation md5: word_digest md5_core rfc_md5
  by unfold_locales (fact md5_core_rfc length_rfc_md5)+

text \<open>A digest printed in one of the output formats.\<close>

definition print_bytes :: "nat list \<Rightarrow> output_type \<Rightarrow> string" where
  "print_bytes bs out = (case out of Hex \<Rightarrow> hex_of_bytes bs | Out_String \<Rightarrow> map char_of bs | _ \<Rightarrow> base64 bs)"

lemma print_words_represents: "represents x bs \<Longrightarrow> 4 dvd length bs \<Longrightarrow> print_words x out = print_bytes bs out"
  by (cases out) (simp_all add: print_words_def print_bytes_def toHex_represents words_toString_represents toBase64_represents)

section \<open>Properties\<close>

text \<open>
  Claim C3. \<open>MD5.compute\<close> is the MD5 of RFC 1321: for every string below \<open>2 ^ 28\<close> characters it
  prints, in hexadecimal, as a string or in Base64, the digest that the RFC assigns to the bytes
  of the string, with the padding and the four rounds of the RFC.
\<close>

theorem md5_compute_is_rfc1321:
  assumes "8 * length data < 2 ^ 31"
  shows "MD5_compute data out = print_bytes (rfc_md5 (bytes_of data)) (out_or_default out)"
proof -
  have "represents (md5_core (toWord data) (length data * 8)) (rfc_md5 (bytes_of data))"
    using md5.core_refines [OF represents_toWord, of data] assms by (simp add: mult.commute)
  then show ?thesis unfolding MD5_compute_def
    by (rule print_words_represents) (simp add: length_rfc_md5)
qed

theorem md5_compute_is_rfc1321_witness:
  "8 * length ''abc'' < (2 :: nat) ^ 31 \<and>
   MD5_compute ''abc'' (Some Hex) = hex_of_bytes (rfc_md5 [97, 98, 99])"
proof -
  have "8 * length ''abc'' < (2 :: nat) ^ 31" "bytes_of ''abc'' = [97, 98, 99]" by code_simp+
  then show ?thesis
    using md5_compute_is_rfc1321 [of "''abc''" "Some Hex"] by (simp add: out_or_default_def print_bytes_def)
qed

text \<open>
  Claim C35. \<open>MD5.getHMAC\<close> is HMAC-MD5 (RFC 2104 over RFC 1321) of the data under the key: keys
  longer than a block are hashed first, the others are padded with zeros.
\<close>

theorem md5_hmac_is_rfc2104:
  assumes "8 * length key < 2 ^ 31" "8 * (64 + length data) < 2 ^ 31"
  shows "MD5_getHMAC data key out = print_bytes (rfc2104 rfc_md5 (bytes_of key) (bytes_of data)) (out_or_default out)"
proof -
  have "represents (md5_hmac data key) (rfc2104 rfc_md5 (bytes_of key) (bytes_of data))"
    unfolding md5_hmac_def Let_def using assms by (rule md5.hmac_refines)
  then show ?thesis unfolding MD5_getHMAC_def
    by (rule print_words_represents) (simp add: rfc2104_def length_rfc_md5)
qed

theorem md5_hmac_is_rfc2104_witness:
  "MD5_getHMAC ''what do ya want for nothing?'' ''Jefe'' None =
     base64 (rfc2104 rfc_md5 [74, 101, 102, 101] (bytes_of ''what do ya want for nothing?''))"
proof -
  have "8 * length ''Jefe'' < (2 :: nat) ^ 31" "8 * (64 + length ''what do ya want for nothing?'') < (2 :: nat) ^ 31"
    "bytes_of ''Jefe'' = [74, 101, 102, 101]" by code_simp+
  then show ?thesis
    using md5_hmac_is_rfc2104 [of "''Jefe''" "''what do ya want for nothing?''" None]
    by (simp add: out_or_default_def print_bytes_def)
qed

end
