(* ===== verification/Crypto_SHA1.thy ===== *)
theory Crypto_SHA1
  imports Crypto_MD5
begin

text \<open>
  \<open>src/crypto/SHA1.js\<close>. Its conversions, \<open>add\<close>, rotation, \<open>hmac\<close> and public functions have the
  text of \<open>MD5.js\<close>; its core is the compression function of FIPS 180-1. The theory shows that the
  blocks are processed as FIPS 180-1 says, and that the padding, which counts bytes from the other
  end of a word than \<open>toWord\<close> does, overwrites message bits and makes strings collide.
\<close>

section \<open>The functions of the source\<close>

type_synonym sha1_state = "int \<times> int \<times> int \<times> int \<times> int"

definition sha1_toWord :: "string \<Rightarrow> int list" where
  "sha1_toWord s = toWord_loop s 0 []"

definition sha1_f :: "int \<Rightarrow> int \<Rightarrow> int \<Rightarrow> int" where
  "sha1_f u v w = js_or (js_and u v) (js_and (js_not u) w)"

definition sha1_g :: "int \<Rightarrow> int \<Rightarrow> int \<Rightarrow> int" where
  "sha1_g u v w = js_or (js_or (js_and u v) (js_and u w)) (js_and v w)"

definition sha1_h :: "int \<Rightarrow> int \<Rightarrow> int \<Rightarrow> int" where
  "sha1_h u v w = js_xor (js_xor u v) w"

definition sha1_fn :: "nat \<Rightarrow> int \<Rightarrow> int \<Rightarrow> int \<Rightarrow> int" where
  "sha1_fn i u v w =
     (if i < 20 then sha1_f u v w else if i < 40 then sha1_h u v w else if i < 60 then sha1_g u v w else sha1_h u v w)"

definition sha1_cnst :: "nat \<Rightarrow> int" where
  "sha1_cnst i =
     (if i < 20 then 1518500249 else if i < 40 then 1859775393 else if i < 60 then - 1894007588 else - 899497514)"

text \<open>The inner loop; the array \<open>w\<close> lives across the blocks and is overwritten in each.\<close>

definition sha1_word :: "(nat \<Rightarrow> int) \<Rightarrow> int list \<Rightarrow> nat \<Rightarrow> int" where
  "sha1_word x w j =
     (if j < 16 then x j
      else rotate (js_xor (js_xor (js_xor (wget w (j - 3)) (wget w (j - 8))) (wget w (j - 14))) (wget w (j - 16))) 1)"

fun sha1_round :: "nat \<Rightarrow> int \<Rightarrow> sha1_state \<Rightarrow> sha1_state" where
  "sha1_round j wj (a, b, c, d, e) =
     (add (add (rotate a 5) (sha1_fn j b c d)) (add (add e wj) (sha1_cnst j)), a, rotate b 30, c, d)"

fun sha1_step :: "(nat \<Rightarrow> int) \<Rightarrow> int list \<times> sha1_state \<Rightarrow> nat \<Rightarrow> int list \<times> sha1_state" where
  "sha1_step x (w, st) j = (wput w j (sha1_word x w j), sha1_round j (sha1_word x w j) st)"

fun add_state5 :: "sha1_state \<Rightarrow> sha1_state \<Rightarrow> sha1_state" where
  "add_state5 (a, b, c, d, e) (olda, oldb, oldc, oldd, olde) =
     (add a olda, add b oldb, add c oldc, add d oldd, add e olde)"

definition sha1_block :: "(nat \<Rightarrow> int) \<Rightarrow> int list \<times> sha1_state \<Rightarrow> int list \<times> sha1_state" where
  "sha1_block x ws = (case foldl (sha1_step x) ws [0 ..< 80] of (w, st) \<Rightarrow> (w, add_state5 st (snd ws)))"

function sha1_loop :: "int list \<Rightarrow> nat \<Rightarrow> int list \<times> sha1_state \<Rightarrow> int list \<times> sha1_state" where
  "sha1_loop x i ws =
     (if i < length x then sha1_loop x (i + 16) (sha1_block (\<lambda>k. wget x (i + k)) ws) else ws)"
  by pat_completeness auto
termination
  by (relation "measure (\<lambda>(x, i, st). length x - i)") auto

declare sha1_loop.simps [simp del]

text \<open>The padding, for fewer than \<open>2^31\<close> bits. A shift count is taken modulo 32.\<close>

definition sha1_padded :: "int list \<Rightarrow> nat \<Rightarrow> int list" where
  "sha1_padded x len =
     wput (wput x (len div 32) (js_or (wget x (len div 32)) (js_shl 0x80 (nat ((24 - int (len mod 32)) mod 32)))))
       ((len + 64) div 512 * 16 + 15) (int len)"

definition sha1_init :: sha1_state where
  "sha1_init = (1732584193, - 271733879, - 1732584194, 271733878, - 1009589776)"

fun state_words5 :: "sha1_state \<Rightarrow> int list" where
  "state_words5 (a, b, c, d, e) = [a, b, c, d, e]"

definition sha1_core :: "int list \<Rightarrow> nat \<Rightarrow> int list" where
  "sha1_core x len = state_words5 (snd (sha1_loop (sha1_padded x len) 0 ([], sha1_init)))"

definition sha1_hmac :: "string \<Rightarrow> string \<Rightarrow> int list" where
  "sha1_hmac data key =
     (let wa = hmac_key sha1_core key;
          h = sha1_core (xor_pad 0x36363636 wa @ sha1_toWord data) (512 + length data * 8)
      in sha1_core (xor_pad 0x5c5c5c5c wa @ h) 640)"

definition SHA1_compute :: "string \<Rightarrow> output_type option \<Rightarrow> string" where
  "SHA1_compute data outputType =
     print_words (sha1_core (sha1_toWord data) (length data * 8)) (out_or_default outputType)"

definition SHA1_getHMAC :: "string \<Rightarrow> string \<Rightarrow> output_type option \<Rightarrow> string" where
  "SHA1_getHMAC data key outputType = print_words (sha1_hmac data key) (out_or_default outputType)"

section \<open>The compression function of FIPS 180-1\<close>

type_synonym sha1_words = "32 word \<times> 32 word \<times> 32 word \<times> 32 word \<times> 32 word"

fun fips_W :: "(nat \<Rightarrow> 32 word) \<Rightarrow> nat \<Rightarrow> 32 word" where
  "fips_W M t =
     (if t < 16 then M t
      else word_rotl 1 (fips_W M (t - 3) XOR fips_W M (t - 8) XOR fips_W M (t - 14) XOR fips_W M (t - 16)))"

declare fips_W.simps [simp del]

definition fips_f :: "nat \<Rightarrow> 32 word \<Rightarrow> 32 word \<Rightarrow> 32 word \<Rightarrow> 32 word" where
  "fips_f t B C D =
     (if t < 20 then (B AND C) OR (NOT B AND D)
      else if t < 40 then B XOR C XOR D
      else if t < 60 then (B AND C) OR (B AND D) OR (C AND D)
      else B XOR C XOR D)"

definition fips_K :: "nat \<Rightarrow> 32 word" where
  "fips_K t = (if t < 20 then 0x5A827999 else if t < 40 then 0x6ED9EBA1 else if t < 60 then 0x8F1BBCDC else 0xCA62C1D6)"

fun fips_step :: "(nat \<Rightarrow> 32 word) \<Rightarrow> sha1_words \<Rightarrow> nat \<Rightarrow> sha1_words" where
  "fips_step M (A, B, C, D, E) t =
     (word_rotl 5 A + fips_f t B C D + E + fips_W M t + fips_K t, A, word_rotl 30 B, C, D)"

fun fips_block :: "(nat \<Rightarrow> 32 word) \<Rightarrow> sha1_words \<Rightarrow> sha1_words" where
  "fips_block M (A, B, C, D, E) =
     (case foldl (fips_step M) (A, B, C, D, E) [0 ..< 80] of
        (A', B', C', D', E') \<Rightarrow> (A + A', B + B', C + C', D + D', E + E'))"

definition fips_init :: sha1_words where
  "fips_init = (0x67452301, 0xEFCDAB89, 0x98BADCFE, 0x10325476, 0xC3D2E1F0)"

text \<open>The digest words of a message of \<open>m\<close> blocks.\<close>

definition fips_digest :: "(nat \<Rightarrow> 32 word) \<Rightarrow> nat \<Rightarrow> sha1_words" where
  "fips_digest M m = foldl (\<lambda>S j. fips_block (\<lambda>k. M (16 * j + k)) S) fips_init [0 ..< m]"

section \<open>The rounds\<close>

fun word_state5 :: "sha1_state \<Rightarrow> sha1_words" where
  "word_state5 (a, b, c, d, e) = (w32 a, w32 b, w32 c, w32 d, w32 e)"

lemma w32_sha1_fn [js_word]: "w32 (sha1_fn j u v w) = fips_f j (w32 u) (w32 v) (w32 w)"
  by (simp add: sha1_fn_def sha1_f_def sha1_g_def sha1_h_def fips_f_def js_word xor.assoc or.assoc)

lemma w32_sha1_cnst [js_word]: "w32 (sha1_cnst j) = fips_K j"
  by (simp add: sha1_cnst_def fips_K_def w32_def)

lemma sha1_round_fips:
  "w32 wj = fips_W M j \<Longrightarrow> word_state5 (sha1_round j wj st) = fips_step M (word_state5 st) j"
  by (cases st) (simp add: js_word add_ac)

lemma sha1_word_fips:
  assumes "\<forall>k < j. w32 (wget w k) = fips_W (\<lambda>k. w32 (x k)) k"
  shows "w32 (sha1_word x w j) = fips_W (\<lambda>k. w32 (x k)) j"
  using assms by (subst fips_W.simps) (simp add: sha1_word_def js_word xor.assoc)

lemma sha1_steps_fips:
  "\<forall>k < n. w32 (wget (fst (foldl (sha1_step x) ws [0 ..< n])) k) = fips_W (\<lambda>k. w32 (x k)) k"
  "word_state5 (snd (foldl (sha1_step x) ws [0 ..< n])) =
     foldl (fips_step (\<lambda>k. w32 (x k))) (word_state5 (snd ws)) [0 ..< n]"
proof (induction n)
  case (Suc n)
  obtain w st where ws: "foldl (sha1_step x) ws [0 ..< n] = (w, st)" by (cases "foldl (sha1_step x) ws [0 ..< n]")
  {
    case 1
    show ?case using Suc(1) sha1_word_fips [of n w x] by (auto simp: ws less_Suc_eq)
  next
    case 2
    show ?case using Suc sha1_word_fips [of n w x] by (simp add: ws sha1_round_fips)
  }
qed simp_all

lemma sha1_block_fips: "word_state5 (snd (sha1_block x ws)) = fips_block (\<lambda>k. w32 (x k)) (word_state5 (snd ws))"
proof -
  obtain w a b c d e where ws: "ws = (w, a, b, c, d, e)" by (cases ws) auto
  obtain w' a' b' c' d' e' where st: "foldl (sha1_step x) ws [0 ..< 80] = (w', a', b', c', d', e')"
    by (metis prod.collapse)
  show ?thesis
    using sha1_steps_fips(2) [of x ws 80, symmetric] by (simp add: sha1_block_def st [unfolded ws] ws js_word add_ac)
qed

lemma sha1_loop_fips:
  assumes "length x = 16 * m" "j \<le> m"
  shows "word_state5 (snd (sha1_loop x (16 * j) ws)) =
    foldl (\<lambda>S j. fips_block (\<lambda>k. w32 (wget x (16 * j + k))) S) (word_state5 (snd ws)) [j ..< m]"
  using assms(2)
proof (induction "m - j" arbitrary: j ws)
  case 0
  then show ?case using assms(1) by (simp add: sha1_loop.simps)
next
  case (Suc d)
  then have j: "j < m" "d = m - Suc j" by auto
  then have "16 * j < length x" using assms(1) by linarith
  then have "sha1_loop x (16 * j) ws = sha1_loop x (16 * Suc j) (sha1_block (\<lambda>k. wget x (16 * j + k)) ws)"
    by (simp add: sha1_loop.simps [of x "16 * j"] add.commute)
  moreover have "[j ..< m] = j # [Suc j ..< m]" using j by (simp add: upt_conv_Cons)
  ultimately show ?case using Suc.hyps(1) [OF j(2)] j(1) by (simp add: sha1_block_fips)
qed

lemma word_state5_init: "word_state5 sha1_init = fips_init"
  by (simp add: sha1_init_def fips_init_def w32_def)

lemma sha1_padded_blocks:
  assumes "length x \<le> len div 32 + 1"
  shows "length (sha1_padded x len) = 16 * ((len + 64) div 512 + 1)"
proof -
  have "len div 32 \<le> (len + 64) div 512 * 16 + 15"
    using div_mult2_eq [of len 32 16] div_le_mono [of len "len + 64" 512] by simp
  with assms show ?thesis by (simp add: sha1_padded_def)
qed

lemma sha1_core_fips:
  assumes "length x \<le> len div 32 + 1"
  shows "\<exists>st. sha1_core x len = state_words5 st \<and>
    word_state5 st = fips_digest (\<lambda>i. w32 (wget (sha1_padded x len) i)) ((len + 64) div 512 + 1)"
proof -
  let ?X = "sha1_padded x len"
  have "word_state5 (snd (sha1_loop ?X (16 * 0) ([], sha1_init))) =
      fips_digest (\<lambda>i. w32 (wget ?X i)) ((len + 64) div 512 + 1)"
    unfolding fips_digest_def word_state5_init [symmetric]
    using sha1_loop_fips [OF sha1_padded_blocks [OF assms], of 0 "([], sha1_init)"] by simp
  then show ?thesis by (intro exI) (auto simp: sha1_core_def)
qed

section \<open>The padding\<close>

lemma toWord_loop_append: "toWord_loop (s @ t) i x = toWord_loop t (i + 8 * length s) (toWord_loop s i x)"
  by (induction s arbitrary: i x) (simp_all add: add_ac)

text \<open>
  After a string of \<open>4 m + 2\<close> characters the marker byte \<open>0x80\<close> is or-ed onto the last
  character instead of following it.
\<close>

lemma wput_wput [simp]: "wput (wput x i u) i v = wput x i v"
  by (rule nth_equalityI) (auto simp: wput_def nth_list_update nth_append)

lemma overlap_word:
  assumes "b < 256"
  shows "js_or (js_or y (js_shl (js_and (int (b OR 128)) 255) 8)) (js_shl 128 8) =
    js_or (js_or y (js_shl (js_and (int b) 255) 8)) (js_shl 128 8)"
proof (rule int32_eqI)
  have "(128 :: nat) = push_bit 7 1" by (simp add: push_bit_eq_mult)
  then have "take_bit 8 (b OR 128) = b OR 128"
    using assms by (simp add: take_bit_or take_bit_nat_eq_self)
  then have "b OR 128 < 256" using take_bit_nat_less_exp [of 8 "b OR 128"] by simp
  then have m: "js_and (int (b OR 128)) 255 = int (b OR 128)" "js_and (int b) 255 = int b"
    using assms by (simp_all add: js_and_mask)
  have w: "w32 (int (b OR 128)) = w32 (int b) OR 128"
    by (rule bit_word_eqI) (auto simp: w32_def bit_simps bit_word_of_int_iff of_nat_or_eq)
  show "w32 (js_or (js_or y (js_shl (js_and (int (b OR 128)) 255) 8)) (js_shl 128 8)) =
    w32 (js_or (js_or y (js_shl (js_and (int b) 255) 8)) (js_shl 128 8))"
    unfolding m w32_js_ops w by (simp add: js_word push_bit_or or.assoc)
qed (simp_all add: js_range)

definition set_high :: "char \<Rightarrow> char" where
  "set_high c = char_of (of_char c OR 128 :: nat)"

lemma code_set_high: "code (set_high c) = int (of_char c OR 128)"
proof -
  have "take_bit 8 (of_char c OR 128 :: nat) = of_char c OR 128"
    by (simp add: take_bit_or take_bit_nat_eq_self)
  then show ?thesis by (simp add: code_def set_high_def take_bit_eq_mod)
qed

lemma sha1_padded_overlap:
  assumes "length s mod 4 = 1"
  shows "sha1_padded (sha1_toWord (s @ [set_high c])) (8 * (length s + 1)) =
    sha1_padded (sha1_toWord (s @ [c])) (8 * (length s + 1))"
proof -
  obtain m where m: "length s = 4 * m + 1" using assms by (metis mult_div_mod_eq)
  then have n: "8 * length s = 32 * m + 8" by simp
  have i: "8 * length s div 32 = m" "8 * length s mod 32 = 8" unfolding n by simp_all
  have "8 * (length s + 1) = 32 * m + 16" using m by simp
  then have l: "8 * (length s + 1) div 32 = m" "nat ((24 - int (8 * (length s + 1) mod 32)) mod 32) = 8" by simp_all
  have t: "sha1_toWord (s @ [d]) = wput (toWord s) m (js_or (wget (toWord s) m) (js_shl (js_and (code d) 255) 8))" for d
    by (simp only: sha1_toWord_def toWord_def toWord_loop_append toWord_loop.simps add_0 i)
  have c: "code c = int (of_char c)" by (simp add: code_def)
  show ?thesis
    unfolding sha1_padded_def t l wput_wput wget_wput if_True refl
    by (simp add: code_set_high c overlap_word)
qed

section \<open>Properties\<close>

text \<open>
  Claim C36. The core of SHA-1 processes its padded word array as FIPS 180-1 prescribes: the five
  numbers it returns are, as 32-bit words, the digest of the blocks of the array under the message
  schedule, the round functions and the constants of the standard.
\<close>

theorem sha1_core_is_fips180:
  assumes "length x \<le> len div 32 + 1"
  shows "map w32 (sha1_core x len) =
    (case fips_digest (\<lambda>i. w32 (wget (sha1_padded x len) i)) ((len + 64) div 512 + 1) of
       (a, b, c, d, e) \<Rightarrow> [a, b, c, d, e])"
proof -
  obtain st where st: "sha1_core x len = state_words5 st"
    "word_state5 st = fips_digest (\<lambda>i. w32 (wget (sha1_padded x len) i)) ((len + 64) div 512 + 1)"
    using sha1_core_fips [OF assms] by blast
  show ?thesis unfolding st(1) st(2) [symmetric] by (cases st) simp
qed

theorem sha1_core_is_fips180_witness:
  "map w32 (sha1_core [0x636261] 24) =
     (case fips_digest (\<lambda>i. w32 (wget (sha1_padded [0x636261] 24) i)) 1 of (a, b, c, d, e) \<Rightarrow> [a, b, c, d, e])"
  using sha1_core_is_fips180 [of "[0x636261]" 24] by simp

text \<open>
  SHA-1 collides: when the number of characters before the last one is \<open>4 m + 1\<close>, the
  padding sets the highest bit of the last character, so that two strings which differ in that bit
  have the same digest in every output format.
\<close>

theorem sha1_collision:
  assumes "length s mod 4 = 1"
  shows "SHA1_compute (s @ [set_high c]) out = SHA1_compute (s @ [c]) out"
proof -
  have "length (s @ [d]) * 8 = 8 * (length s + 1)" for d by simp
  then show ?thesis
    unfolding SHA1_compute_def sha1_core_def by (simp only: sha1_padded_overlap [OF assms])
qed

theorem sha1_collision_witness:
  "''ab'' \<noteq> [CHR ''a'', CHR 0xE2] \<and> SHA1_compute [CHR ''a'', CHR 0xE2] (Some Hex) = SHA1_compute ''ab'' (Some Hex)"
proof -
  have "length ''a'' mod 4 = 1" "set_high CHR ''b'' = CHR 0xE2" by code_simp+
  then show ?thesis using sha1_collision [of "''a''" "CHR ''b''" "Some Hex"] by simp
qed

end
