(* ===== verification/Blowfish.thy ===== *)
theory Blowfish
  imports Crypto_Words Blowfish_Boxes
begin

text \<open>
  \<open>src/crypto/Blowfish.js\<close>: arithmetic on halves of words, the round function, the encryption and
  decryption of a block, the key schedule, the Base64 conversions and the public functions. The
  state of the object is its initialisation vector.

  The source computes the exclusive or of two numbers from their 16-bit halves, and the halves of
  a negative number whose low half is zero are wrong. \<open>clean\<close> excludes such operands: for clean
  operands \<open>xor\<close> is the exclusive or of 32-bit words, and decryption inverts encryption.
\<close>

section \<open>Arithmetic\<close>

definition bf_add :: "int \<Rightarrow> int \<Rightarrow> int" where
  "bf_add x y =
     (let sum = js_and (x + y) 0xffffffff
      in if sum < 0
         then (let sum = - sum
               in 0x10000 * js_xor (js_shr sum 16) 0xffff + (js_xor (js_and sum 0xffff) 0xffff + 1))
         else sum)"

definition bf_split :: "int \<Rightarrow> int \<times> int" where
  "bf_split x =
     (let r = js_and x 0xffffffff
      in if r < 0
         then (let r = - r in (js_xor (js_and r 0xffff) 0xffff + 1, js_xor (js_shr r 16) 0xffff))
         else (js_and r 0xffff, js_shr r 16))"

definition bf_xor :: "int \<Rightarrow> int \<Rightarrow> int" where
  "bf_xor x y =
     0x10000 * js_xor (snd (bf_split x)) (snd (bf_split y)) + js_xor (fst (bf_split x)) (fst (bf_split y))"

section \<open>Boxes and blocks\<close>

record bf_box =
  box_p :: "int list"
  box_s0 :: "int list"
  box_s1 :: "int list"
  box_s2 :: "int list"
  box_s3 :: "int list"

definition boxes :: bf_box where
  "boxes = \<lparr>box_p = boxes_p, box_s0 = boxes_s0, box_s1 = boxes_s1, box_s2 = boxes_s2, box_s3 = boxes_s3\<rparr>"

text \<open>The function \<open>$\<close>: the four bytes of \<open>v\<close> select one number of each substitution box.\<close>

definition dollar :: "int \<Rightarrow> bf_box \<Rightarrow> int" where
  "dollar v box =
     bf_add (bf_xor (bf_add (box_s0 box ! nat (js_and (js_shr (js_shr (js_shr v 8) 8) 8) 0xff))
                            (box_s1 box ! nat (js_and (js_shr (js_shr v 8) 8) 0xff)))
                    (box_s2 box ! nat (js_and (js_shr v 8) 0xff)))
            (box_s3 box ! nat (js_and v 0xff))"

text \<open>
  The statements \<open>r=xor(r,xor($(l,box),box.p[k]))\<close> and \<open>l=xor(l,xor($(r,box),box.p[k]))\<close>
  on the pair of \<open>l\<close> and \<open>r\<close>.
\<close>

definition round_key :: "bf_box \<Rightarrow> nat \<Rightarrow> int \<Rightarrow> int" where
  "round_key box k v = bf_xor (dollar v box) (box_p box ! k)"

fun upd_r :: "bf_box \<Rightarrow> nat \<Rightarrow> int \<times> int \<Rightarrow> int \<times> int" where
  "upd_r box k (l, r) = (l, bf_xor r (round_key box k l))"

fun upd_l :: "bf_box \<Rightarrow> nat \<Rightarrow> int \<times> int \<Rightarrow> int \<times> int" where
  "upd_l box k (l, r) = (bf_xor l (round_key box k r), r)"

definition start_l :: "bf_box \<Rightarrow> nat \<Rightarrow> int \<times> int \<Rightarrow> int \<times> int" where
  "start_l box k lr = (bf_xor (fst lr) (box_p box ! k), snd lr)"

definition finish :: "bf_box \<Rightarrow> nat \<Rightarrow> int \<times> int \<Rightarrow> int \<times> int" where
  "finish box k lr = (bf_xor (snd lr) (box_p box ! k), fst lr)"

definition run_steps :: "((int \<times> int) \<Rightarrow> (int \<times> int)) list \<Rightarrow> int \<times> int \<Rightarrow> int \<times> int" where
  "run_steps fs lr = foldl (\<lambda>lr f. f lr) lr fs"

definition eb :: "bf_box \<Rightarrow> int \<times> int \<Rightarrow> int \<times> int" where
  "eb box lr =
     finish box 17 (run_steps
       [upd_r box 1, upd_l box 2, upd_r box 3, upd_l box 4, upd_r box 5, upd_l box 6, upd_r box 7, upd_l box 8,
        upd_r box 9, upd_l box 10, upd_r box 11, upd_l box 12, upd_r box 13, upd_l box 14, upd_r box 15, upd_l box 16]
       (start_l box 0 lr))"

definition db :: "bf_box \<Rightarrow> int \<times> int \<Rightarrow> int \<times> int" where
  "db box lr =
     finish box 0 (run_steps
       [upd_r box 16, upd_l box 15, upd_r box 14, upd_l box 13, upd_r box 12, upd_l box 11, upd_r box 10, upd_l box 9,
        upd_r box 8, upd_l box 7, upd_r box 6, upd_l box 5, upd_r box 4, upd_l box 3, upd_r box 2, upd_l box 1]
       (start_l box 17 lr))"

section \<open>The key schedule\<close>

definition key_bytes :: "string \<Rightarrow> int list" where
  "key_bytes key = map (\<lambda>c. js_and (code c) 0xff) key"

text \<open>\<open>data = (data*POW8) | k[pos]; if(++pos==k.length) pos=0;\<close>\<close>

fun mix_byte :: "int list \<Rightarrow> nat \<times> int \<Rightarrow> nat \<times> int" where
  "mix_byte k (pos, data) =
     (if pos + 1 = length k then 0 else pos + 1, js_or (data * 256) (wget k pos))"

fun key_subkeys :: "int list \<Rightarrow> int list \<Rightarrow> nat \<times> int \<Rightarrow> int list" where
  "key_subkeys k [] pd = []"
| "key_subkeys k (p # ps) pd =
     (let pd' = mix_byte k (mix_byte k (mix_byte k (mix_byte k pd)))
      in bf_xor p (snd pd') # key_subkeys k ps pd')"

text \<open>
  The boxes are replaced two numbers at a time by encryptions of the previous result. An update of
  a field is named by \<open>upd\<close>.
\<close>

definition put2 :: "int list \<Rightarrow> nat \<Rightarrow> int \<times> int \<Rightarrow> int list" where
  "put2 xs i lr = xs[i := fst lr, Suc i := snd lr]"

fun schedule :: "((int list \<Rightarrow> int list) \<Rightarrow> bf_box \<Rightarrow> bf_box) \<Rightarrow> nat \<Rightarrow> nat \<Rightarrow> (int \<times> int) \<times> bf_box \<Rightarrow> (int \<times> int) \<times> bf_box" where
  "schedule upd i 0 rb = rb"
| "schedule upd i (Suc n) (res, box) =
     (let res' = eb box res in schedule upd (i + 2) n (res', upd (\<lambda>xs. put2 xs i res') box))"

definition bf_init :: "int list \<Rightarrow> bf_box" where
  "bf_init k =
     (let box = boxes\<lparr>box_p := key_subkeys k (box_p boxes) (0, 0)\<rparr>;
          rb = schedule box_p_update 0 (length (box_p box) div 2) ((0, 0), box);
          rb = schedule box_s0_update 0 (length (box_s0 box) div 2) rb;
          rb = schedule box_s1_update 0 (length (box_s1 box) div 2) rb;
          rb = schedule box_s2_update 0 (length (box_s2 box) div 2) rb;
          rb = schedule box_s3_update 0 (length (box_s3 box) div 2) rb
      in snd rb)"

section \<open>Conversions\<close>

definition pad_char :: char where
  "pad_char = CHR ''=''"

definition b64_char :: "int \<Rightarrow> char" where
  "b64_char i = b64_tab ! nat i"

fun bf_toBase64 :: "int list \<Rightarrow> string" where
  "bf_toBase64 (a # b # c # ba) =
     (let t = js_or (js_or (js_shl a 16) (js_shl b 8)) c
      in [b64_char (js_and (js_ushr t 18) 63), b64_char (js_and (js_ushr t 12) 63),
          b64_char (js_and (js_ushr t 6) 63), b64_char (js_and t 63)] @ bf_toBase64 ba)"
| "bf_toBase64 [a, b] =
     (let t = js_or (js_shl a 16) (js_shl b 8)
      in [b64_char (js_and (js_ushr t 18) 63), b64_char (js_and (js_ushr t 12) 63),
          b64_char (js_and (js_ushr t 6) 63), pad_char])"
| "bf_toBase64 [a] =
     (let t = js_shl a 16
      in [b64_char (js_and (js_ushr t 18) 63), b64_char (js_and (js_ushr t 12) 63), pad_char, pad_char])"
| "bf_toBase64 [] = []"

text \<open>\<open>tab.indexOf(c)\<close>, where a missing element (\<open>undefined\<close>) is not found either.\<close>

definition b64_index :: "string \<Rightarrow> nat \<Rightarrow> int" where
  "b64_index s i = (if i < length s then scan_index ((=) (s ! i)) b64_tab 0 else - 1)"

text \<open>
  \<open>while(s[--l]==p){}\<close> leaves \<open>l\<close> at the last character that is not the padding character (or at
  -1, where the loop below does not run either), and the groups of four are decoded while \<open>i<l\<close>.
\<close>

definition last_index :: "string \<Rightarrow> nat" where
  "last_index s = length (dropWhile ((=) pad_char) (rev s)) - 1"

function decode_groups :: "string \<Rightarrow> nat \<Rightarrow> nat \<Rightarrow> int list" where
  "decode_groups s l i =
     (if i < l
      then (let t = js_or (js_or (js_or (js_shl (b64_index s i) 18) (js_shl (b64_index s (i + 1)) 12))
                                 (js_shl (b64_index s (i + 2)) 6)) (b64_index s (i + 3))
            in [js_and (js_ushr t 16) 0xff, js_and (js_ushr t 8) 0xff, js_and t 0xff] @ decode_groups s l (i + 4))
      else [])"
  by pat_completeness auto
termination
  by (relation "measure (\<lambda>(s, l, i). l - i)") auto

declare decode_groups.simps [simp del]

definition bf_fromBase64 :: "string \<Rightarrow> int list" where
  "bf_fromBase64 s = decode_groups s (last_index s) 0"

section \<open>The public functions\<close>

text \<open>
  Data is text or an array of bytes. Which of the two a call takes depends on the output type:
  \<open>Raw\<close> goes with arrays, the others with text; other uses have no model (\<^term>\<open>None\<close>).
\<close>

datatype cipher_data = Text string | Bytes "int list"

fun hex_pairs :: "string \<Rightarrow> int list" where
  "hex_pairs (a # b # s) = (case parse_int16 [a, b] of None \<Rightarrow> 0 | Some n \<Rightarrow> n) # hex_pairs s"
| "hex_pairs s = []"

fun decode_data :: "output_type \<Rightarrow> cipher_data \<Rightarrow> int list option" where
  "decode_data Hex (Text s) = Some (hex_pairs s)"
| "decode_data Out_String (Text s) = Some (map code s)"
| "decode_data Raw (Bytes b) = Some b"
| "decode_data Base64 (Text s) = Some (bf_fromBase64 s)"
| "decode_data _ _ = None"

fun encode_data :: "output_type \<Rightarrow> int list \<Rightarrow> cipher_data" where
  "encode_data Hex cipher = Text (concat (map (\<lambda>n. to_hex (nat n)) cipher))"
| "encode_data Out_String cipher = Text (concat (map (\<lambda>n. to_dec (nat n)) cipher))"
| "encode_data Raw cipher = Bytes cipher"
| "encode_data Base64 cipher = Text (bf_toBase64 cipher)"

text \<open>\<open>b0*POW24|b1*POW16|b2*POW8|b3\<close> of four elements of an array\<close>

definition word4 :: "int list \<Rightarrow> nat \<Rightarrow> int" where
  "word4 b i =
     js_or (js_or (js_or (wget b i * 2 ^ 24) (wget b (i + 1) * 2 ^ 16)) (wget b (i + 2) * 2 ^ 8)) (wget b (i + 3))"

definition setIV :: "cipher_data \<Rightarrow> output_type option \<Rightarrow> (int \<times> int) option" where
  "setIV data inputType = map_option (\<lambda>ba. (word4 ba 0, word4 ba 4)) (decode_data (out_or_default inputType) data)"

text \<open>
  The vector is an object with two fields and has no length: the loops of \<open>getIV\<close> do not run, and
  \<open>iv.join\<close> is not a function. \<open>Inr None\<close> is the object itself.
\<close>

definition getIV :: "int \<times> int \<Rightarrow> output_type option \<Rightarrow> string option result" where
  "getIV iv outputType =
     (case out_or_default outputType of
        Hex \<Rightarrow> Inr (Some [])
      | Out_String \<Rightarrow> Inl TypeError
      | Raw \<Rightarrow> Inr None
      | Base64 \<Rightarrow> Inr (Some []))"

definition word_to_bytes :: "int \<Rightarrow> int list" where
  "word_to_bytes v = [js_and (js_shr v 24) 0xff, js_and (js_shr v 16) 0xff, js_and (js_shr v 8) 0xff, js_and v 0xff]"

definition block_bytes :: "int \<times> int \<Rightarrow> int list" where
  "block_bytes o_b = word_to_bytes (fst o_b) @ word_to_bytes (snd o_b)"

text \<open>The vector holds 0 where the source has \<open>null\<close>; \<open>split\<close> treats both alike.\<close>

definition mask_block :: "bool \<Rightarrow> int \<times> int \<Rightarrow> int \<times> int \<Rightarrow> int \<times> int" where
  "mask_block isCBC vec o_b = (if isCBC then (bf_xor (fst o_b) (fst vec), bf_xor (snd o_b) (snd vec)) else o_b)"

fun encrypt_blocks :: "bf_box \<Rightarrow> bool \<Rightarrow> int list \<Rightarrow> nat \<Rightarrow> nat \<Rightarrow> int \<times> int \<Rightarrow> int list" where
  "encrypt_blocks bx isCBC txt pos 0 vec = []"
| "encrypt_blocks bx isCBC txt pos (Suc count) vec =
     (let o_b = eb bx (mask_block isCBC vec (word4 txt pos, word4 txt (pos + 4)))
      in block_bytes o_b @ encrypt_blocks bx isCBC txt (pos + 8) count (if isCBC then o_b else vec))"

definition pad_text :: "string \<Rightarrow> string" where
  "pad_text s = (let padding = 8 - length s mod 8 in s @ replicate padding (char_of padding))"

definition encrypt_with :: "bf_box \<Rightarrow> bool \<Rightarrow> int \<times> int \<Rightarrow> string \<Rightarrow> int list" where
  "encrypt_with bx isCBC iv plaintext =
     (let t = pad_text plaintext in encrypt_blocks bx isCBC (map code t) 0 (length t div 8) iv)"

fun decrypt_blocks :: "bf_box \<Rightarrow> bool \<Rightarrow> int list \<Rightarrow> nat \<Rightarrow> nat \<Rightarrow> int \<times> int \<Rightarrow> int list" where
  "decrypt_blocks bx isCBC c pos 0 vec = []"
| "decrypt_blocks bx isCBC c pos (Suc count) vec =
     (let o_b = (word4 c pos, word4 c (pos + 4))
      in block_bytes (mask_block isCBC vec (db bx o_b))
         @ decrypt_blocks bx isCBC c (pos + 8) count (if isCBC then o_b else vec))"

definition unpad :: "int list \<Rightarrow> int list" where
  "unpad pt =
     (if pt = [] then []
      else let n = wget pt (length pt - 1)
           in if n = wget pt (length pt - 2) \<or> n = 1 then js_splice pt (int (length pt) - n) n [] else pt)"

definition decrypt_with :: "bf_box \<Rightarrow> bool \<Rightarrow> int \<times> int \<Rightarrow> int list \<Rightarrow> string" where
  "decrypt_with bx isCBC iv c =
     map (\<lambda>n. char_of (nat n)) (unpad (decrypt_blocks bx isCBC c 0 (length c div 8) iv))"

text \<open>
  The default mode of the source is \<open>cipherModes.EBC\<close>, which does not exist (\<^term>\<open>None\<close>); what
  matters is whether the mode is CBC.
\<close>

definition Blowfish_encrypt ::
  "int \<times> int \<Rightarrow> string \<Rightarrow> string \<Rightarrow> output_type option \<Rightarrow> cipher_mode option \<Rightarrow> cipher_data" where
  "Blowfish_encrypt iv plaintext key outputType mode =
     encode_data (out_or_default outputType)
       (encrypt_with (bf_init (key_bytes key)) (mode = Some CBC) iv plaintext)"

definition Blowfish_decrypt ::
  "int \<times> int \<Rightarrow> cipher_data \<Rightarrow> string \<Rightarrow> output_type option \<Rightarrow> cipher_mode option \<Rightarrow> string option" where
  "Blowfish_decrypt iv ciphertext key outputType mode =
     map_option (decrypt_with (bf_init (key_bytes key)) (mode = Some CBC) iv)
       (decode_data (out_or_default outputType) ciphertext)"

section \<open>Addition and exclusive or on words\<close>

definition clean :: "int \<Rightarrow> bool" where
  "clean x \<longleftrightarrow> \<not> (to_int32 x < 0 \<and> x mod 65536 = 0)"

lemma xor_mask: "0 \<le> h \<Longrightarrow> h < 2 ^ k \<Longrightarrow> h XOR (2 ^ k - 1) = 2 ^ k - 1 - h" for h :: int
proof -
  assume h: "0 \<le> h" "h < 2 ^ k"
  then have t: "take_bit k h = h" by (simp add: take_bit_int_eq_self)
  have "take_bit k h AND (take_bit k h XOR mask k) = 0" "take_bit k h OR (take_bit k h XOR mask k) = mask k"
    by (rule bit_eqI, auto simp: bit_simps)+
  then have "h + (h XOR mask k) = mask k"
    using plus_and_or [of h "h XOR mask k"] by (simp add: t)
  then show ?thesis by (simp add: mask_eq_exp_minus_1)
qed

lemma js_xor_65535: "0 \<le> h \<Longrightarrow> h < 65536 \<Longrightarrow> js_xor h 65535 = 65535 - h"
  using xor_mask [of h 16] by (simp add: js_xor_def to_int32_id is_int32_def)

lemma js_and_all: "js_and x 4294967295 = to_int32 x"
proof -
  have "to_int32 4294967295 = - 1" by (simp add: to_int32_def)
  then show ?thesis by (simp add: js_and_def)
qed

lemma js_shr_pos: "0 \<le> s \<Longrightarrow> s < 2147483648 \<Longrightarrow> js_shr s 16 = s div 65536"
  by (simp add: js_shr_def to_int32_id is_int32_def)

lemma negated_halves:
  "u = - m \<Longrightarrow> 65536 * (65535 - u div 65536) + (65535 - u mod 65536 + 1) = 4294967296 + m" for u m :: int
  using div_mult_mod_eq [of u 65536] by (simp only: right_diff_distrib mult.commute [of 65536])

lemma w32_bf_add [js_word]: "w32 (bf_add x y) = w32 x + w32 y"
proof -
  define m where "m = to_int32 (x + y)"
  have m: "is_int32 m" by (simp add: m_def js_range)
  have "w32 (bf_add x y) = w32 m"
  proof (cases "m < 0 \<and> m \<noteq> - 2147483648")
    case True
    define u where "u = - m"
    have u: "0 \<le> u" "u < 2147483648" using True m by (auto simp: u_def is_int32_def)
    have h: "0 \<le> u div 65536" "u div 65536 < 65536" using u by auto
    have "bf_add x y = 65536 * (65535 - u div 65536) + (65535 - u mod 65536 + 1)"
      using True u h by (simp add: bf_add_def js_and_all m_def [symmetric] u_def [symmetric] Let_def
          js_shr_pos js_and_mask js_xor_65535)
    also have "\<dots> = 4294967296 + m" by (rule negated_halves) (simp add: u_def)
    finally show ?thesis by (simp add: js_word)
  next
    case False
    then show ?thesis
    proof (cases "m < 0")
      case True
      with False have e: "m = - 2147483648" by simp
      then have "bf_add x y = - 2147483648"
        unfolding bf_add_def js_and_all m_def [symmetric] e by code_simp
      with e show ?thesis by simp
    qed (simp add: bf_add_def js_and_all m_def [symmetric] Let_def)
  qed
  also have "\<dots> = w32 x + w32 y" by (simp add: m_def js_word)
  finally show ?thesis .
qed

lemma bf_split_clean:
  assumes "clean x"
  obtains lo hi where "bf_split x = (lo, hi)" "0 \<le> lo" "lo < 65536" "0 \<le> hi" "hi < 65536"
    "w32 x = w32 (hi * 65536 + lo)"
proof -
  define m where "m = to_int32 x"
  have m: "is_int32 m" by (simp add: m_def js_range)
  have mm: "m mod 65536 = x mod 65536" using to_int32_mod [of 16 x] by (simp add: m_def)
  have w: "w32 x = w32 m" by (simp add: m_def js_word)
  show thesis
  proof (cases "m < 0")
    case True
    define u where "u = - m"
    have x0: "m mod 65536 \<noteq> 0" using True assms by (simp add: clean_def m_def [symmetric] mm)
    then have "m \<noteq> - 2147483648" by auto
    then have u: "0 \<le> u" "u < 2147483648" using True m by (auto simp: u_def is_int32_def)
    have h: "0 \<le> u div 65536" "u div 65536 < 65536" using u by auto
    have l: "u mod 65536 \<noteq> 0" using x0 by (simp add: u_def zmod_zminus1_not_zero)
    have e: "65536 * (65535 - u div 65536) + (65535 - u mod 65536 + 1) = 4294967296 + m"
      by (rule negated_halves) (simp add: u_def)
    have s: "bf_split x = (65535 - u mod 65536 + 1, 65535 - u div 65536)"
      using True u h by (simp add: bf_split_def js_and_all m_def [symmetric] u_def [symmetric] Let_def
          js_shr_pos js_and_mask js_xor_65535)
    have r: "0 \<le> 65535 - u mod 65536 + 1" "65535 - u mod 65536 + 1 < 65536"
      using pos_mod_bound [of 65536 u] pos_mod_sign [of 65536 u] l by linarith+
    have wx: "w32 x = w32 ((65535 - u div 65536) * 65536 + (65535 - u mod 65536 + 1))"
      unfolding e [unfolded mult.commute [of 65536]] w by (simp add: js_word)
    show ?thesis using h by (intro that [OF s r _ _ wx]) simp_all
  next
    case False
    with m have u: "0 \<le> m" "m < 2147483648" by (auto simp: is_int32_def)
    then have "bf_split x = (m mod 65536, m div 65536)"
      by (simp add: bf_split_def js_and_all m_def [symmetric] js_shr_pos js_and_mask)
    moreover have "m div 65536 < 65536" using u by auto
    ultimately show ?thesis using u w by (intro that [of "m mod 65536" "m div 65536"]) auto
  qed
qed

lemma w32_xor: "w32 (a XOR b) = w32 a XOR w32 b"
  by (rule bit_word_eqI) (auto simp: w32_def bit_simps bit_word_of_int_iff)

lemma xor_halves:
  assumes "0 \<le> l" "l < 65536" "0 \<le> l'" "l' < 65536"
  shows "w32 (h * 65536 + l) XOR w32 (h' * 65536 + l') = w32 ((h XOR h') * 65536 + (l XOR l'))"
proof -
  have t: "take_bit 16 l = l" "take_bit 16 l' = l'" using assms by (simp_all add: take_bit_int_eq_self)
  then have t': "take_bit 16 (l XOR l') = l XOR l'" by (simp add: take_bit_xor)
  then have b: "0 \<le> l XOR l'" "l XOR l' < 65536"
    using take_bit_int_less_exp [of 16 "l XOR l'"] take_bit_nonnegative [of 16 "l XOR l'"] by simp_all
  have e: "a * 65536 + c = push_bit 16 a OR take_bit 16 c" if "0 \<le> c" "c < 65536" for a c :: int
    using that or_low_add [of c 16 a] by (simp add: push_bit_eq_mult take_bit_int_eq_self)
  have "(h * 65536 + l) XOR (h' * 65536 + l') = (h XOR h') * 65536 + (l XOR l')"
    unfolding e [OF assms(1,2)] e [OF assms(3,4)] e [OF b]
    by (rule bit_eqI) (auto simp: bit_simps)
  then have "w32 ((h * 65536 + l) XOR (h' * 65536 + l')) = w32 ((h XOR h') * 65536 + (l XOR l'))" by simp
  then show ?thesis unfolding w32_xor .
qed

lemma w32_bf_xor [js_word]: "clean x \<Longrightarrow> clean y \<Longrightarrow> w32 (bf_xor x y) = w32 x XOR w32 y"
proof -
  assume c: "clean x" "clean y"
  from c(1) obtain l h where x: "bf_split x = (l, h)" "0 \<le> l" "l < 65536" "0 \<le> h" "h < 65536"
    "w32 x = w32 (h * 65536 + l)" by (rule bf_split_clean)
  from c(2) obtain l' h' where y: "bf_split y = (l', h')" "0 \<le> l'" "l' < 65536" "0 \<le> h'" "h' < 65536"
    "w32 y = w32 (h' * 65536 + l')" by (rule bf_split_clean)
  have "bf_xor x y = (h XOR h') * 65536 + (l XOR l')"
    using x y by (simp add: bf_xor_def js_xor_def to_int32_id is_int32_def)
  with x y show ?thesis by (simp only: xor_halves)
qed

lemma clean_w32: "w32 x = w32 y \<Longrightarrow> clean x = clean y"
proof -
  assume "w32 x = w32 y"
  then have "to_int32 x = to_int32 y" by (simp add: to_int32_eq_iff)
  moreover from this have "x mod 65536 = y mod 65536"
    using to_int32_mod [of 16 x] to_int32_mod [of 16 y] by simp
  ultimately show ?thesis by (simp add: clean_def)
qed

section \<open>Encryption and decryption of a block\<close>

lemma dollar_w32: "w32 u = w32 v \<Longrightarrow> dollar u box = dollar v box"
proof -
  assume "w32 u = w32 v"
  then have "to_int32 u = to_int32 v" by (simp add: to_int32_eq_iff)
  then show ?thesis by (simp add: dollar_def js_and_def js_shr_def)
qed

lemma round_key_w32: "w32 u = w32 v \<Longrightarrow> round_key box k u = round_key box k v"
  by (simp add: round_key_def dollar_w32 [of u v])

text \<open>
  A round reads one half and changes the other; written with the halves exchanged, encryption and
  decryption are runs of the same round with the subkeys in opposite orders.
\<close>

fun bf_round :: "bf_box \<Rightarrow> int \<times> int \<Rightarrow> nat \<Rightarrow> int \<times> int" where
  "bf_round box (x, y) k = (bf_xor y (round_key box k x), x)"

lemma upd_round:
  "upd_r box k s = prod.swap (bf_round box s k)"
  "upd_l box k (prod.swap s) = bf_round box s k"
  by (cases s; simp)+

lemma eb_rounds: "eb box lr = finish box 17 (foldl (bf_round box) (start_l box 0 lr) [1 ..< 17])"
proof -
  have u: "[1 ..< 17] = [1, 2, 3, 4, 5, 6, 7, 8, 9, 10, 11, 12, 13, 14, 15, 16 :: nat]" by code_simp
  show ?thesis unfolding eb_def run_steps_def u foldl.simps upd_round ..
qed

lemma db_rounds: "db box lr = finish box 0 (foldl (bf_round box) (start_l box 17 lr) (rev [1 ..< 17]))"
proof -
  have u: "rev [1 ..< 17] = [16, 15, 14, 13, 12, 11, 10, 9, 8, 7, 6, 5, 4, 3, 2, 1 :: nat]" by code_simp
  show ?thesis unfolding db_def run_steps_def u foldl.simps upd_round ..
qed

fun word_pair :: "int \<times> int \<Rightarrow> 32 word \<times> 32 word" where
  "word_pair (l, r) = (w32 l, w32 r)"

fun clean_rounds :: "bf_box \<Rightarrow> nat list \<Rightarrow> int \<times> int \<Rightarrow> bool" where
  "clean_rounds box [] s = True"
| "clean_rounds box (k # ks) (x, y) \<longleftrightarrow>
     clean y \<and> clean (round_key box k x) \<and> clean (fst (bf_round box (x, y) k)) \<and> clean_rounds box ks (bf_round box (x, y) k)"

lemma bf_round_undo:
  assumes "clean_rounds box [k] (x, y)" "word_pair t = word_pair (prod.swap (bf_round box (x, y) k))"
  shows "word_pair (bf_round box t k) = word_pair (y, x)"
proof -
  obtain a b where t: "t = (a, b)" by (cases t)
  let ?q = "round_key box k x"
  have w: "w32 a = w32 x" "w32 b = w32 (bf_xor y ?q)" using assms(2) t by simp_all
  have c: "clean y" "clean ?q" "clean b" using assms(1) clean_w32 [OF w(2)] by simp_all
  have "round_key box k a = ?q" using w(1) by (rule round_key_w32)
  then have "w32 (bf_xor b (round_key box k a)) = (w32 y XOR w32 ?q) XOR w32 ?q"
    using c w(2) by (simp add: js_word)
  then show ?thesis using w(1) t by (simp add: xor.assoc)
qed

lemma rounds_undo:
  assumes "clean_rounds box ks s" "word_pair t = word_pair (prod.swap (foldl (bf_round box) s ks))"
  shows "word_pair (foldl (bf_round box) t (rev ks)) = word_pair (prod.swap s)"
  using assms
proof (induction ks arbitrary: s)
  case (Cons k ks)
  obtain x y where s: "s = (x, y)" by (cases s)
  have "word_pair (foldl (bf_round box) t (rev ks)) = word_pair (prod.swap (bf_round box (x, y) k))"
    using Cons.IH [of "bf_round box (x, y) k"] Cons.prems unfolding s by simp
  then show ?case using bf_round_undo [of box k x y] Cons.prems(1) s by simp
qed simp

definition clean_block :: "bf_box \<Rightarrow> int \<times> int \<Rightarrow> bool" where
  "clean_block box lr \<longleftrightarrow>
     clean (fst lr) \<and> clean (box_p box ! 0) \<and> clean (box_p box ! 17) \<and> clean (fst (start_l box 0 lr)) \<and>
     clean_rounds box [1 ..< 17] (start_l box 0 lr) \<and>
     (let s = foldl (bf_round box) (start_l box 0 lr) [1 ..< 17] in clean (snd s) \<and> clean (fst (finish box 17 s)))"

lemma db_eb:
  assumes "clean_block box lr" "word_pair t = word_pair (eb box lr)"
  shows "word_pair (db box t) = word_pair lr"
proof -
  define s where "s = foldl (bf_round box) (start_l box 0 lr) [1 ..< 17]"
  obtain l r where lr: "lr = (l, r)" by (cases lr)
  obtain x y where xy: "s = (x, y)" by (cases s)
  obtain a b where ab: "t = (a, b)" by (cases t)
  have c: "clean l" "clean (box_p box ! 0)" "clean (box_p box ! 17)" "clean (bf_xor l (box_p box ! 0))"
      "clean_rounds box [1 ..< 17] (start_l box 0 lr)" "clean y" "clean (bf_xor y (box_p box ! 17))"
    using assms(1) unfolding clean_block_def Let_def s_def [symmetric]
    by (simp_all add: start_l_def finish_def lr xy)
  have w: "w32 a = w32 (bf_xor y (box_p box ! 17))" "w32 b = w32 x"
    using assms(2) unfolding eb_rounds s_def [symmetric] by (simp_all add: finish_def xy ab)
  have "clean a" using clean_w32 [OF w(1)] c(7) by simp
  then have "word_pair (start_l box 17 t) = word_pair (prod.swap s)"
    using c(3,6) w by (simp add: start_l_def ab xy js_word xor.assoc)
  then have "word_pair (foldl (bf_round box) (start_l box 17 t) (rev [1 ..< 17])) = word_pair (prod.swap (start_l box 0 lr))"
    using rounds_undo [OF c(5)] by (simp add: s_def)
  moreover obtain u v where uv: "foldl (bf_round box) (start_l box 17 t) (rev [1 ..< 17]) = (u, v)"
    by (cases "foldl (bf_round box) (start_l box 17 t) (rev [1 ..< 17])")
  ultimately have uv': "w32 u = w32 r" "w32 v = w32 (bf_xor l (box_p box ! 0))"
    by (simp_all add: start_l_def lr)
  then have "clean v" using clean_w32 c(4) by blast
  then show ?thesis
    unfolding db_rounds uv using c(1,2) uv' by (simp add: finish_def lr js_word xor.assoc)
qed

section \<open>Bytes and words\<close>

definition byte_range :: "int list \<Rightarrow> bool" where
  "byte_range b \<longleftrightarrow> (\<forall>n \<in> set b. 0 \<le> n \<and> n < 256)"

lemma w32_or: "w32 (a OR b) = w32 a OR w32 b"
  by (rule bit_word_eqI) (auto simp: w32_def bit_simps bit_word_of_int_iff)

lemma or_four_bytes:
  assumes "0 \<le> b" "b < 256" "0 \<le> c" "c < 256" "0 \<le> d" "d < 256"
  shows "((a * 2 ^ 24) OR (b * 2 ^ 16)) OR (c * 2 ^ 8) OR d = ((a * 256 + b) * 256 + c) * 256 + (d :: int)"
proof -
  have "(a * 2 ^ 24) OR (b * 2 ^ 16) = (a * 256 + b) * 2 ^ 16" using or_low_add [of "b * 2 ^ 16" 24 a] assms by simp
  moreover have "((a * 256 + b) * 2 ^ 16) OR (c * 2 ^ 8) = ((a * 256 + b) * 256 + c) * 2 ^ 8"
    using or_low_add [of "c * 2 ^ 8" 16 "a * 256 + b"] assms by simp
  moreover have "(((a * 256 + b) * 256 + c) * 2 ^ 8) OR d = ((a * 256 + b) * 256 + c) * 256 + d"
    using or_low_add [of d 8 "(a * 256 + b) * 256 + c"] assms by simp
  ultimately show ?thesis by (simp only: or.assoc [symmetric])
qed

lemma wget_byte_range: "byte_range b \<Longrightarrow> 0 \<le> wget b i \<and> wget b i < 256"
  by (auto simp: byte_range_def wget_def)

lemma four_bytes_less:
  assumes "a < 256" "b < 256" "c < 256" "d < (256 :: int)"
  shows "((a * 256 + b) * 256 + c) * 256 + d < 4294967296"
proof -
  have step: "x * 256 + y \<le> m * 256 + 255" if "x \<le> m" "y < 256" for x y m :: int using that by linarith
  have "a \<le> 255" using assms by simp
  from step [OF step [OF step [OF this assms(2)] assms(3)] assms(4)] show ?thesis by simp
qed

lemma to_uint32_word4:
  assumes "byte_range b"
  shows "to_uint32 (word4 b i) = ((wget b i * 256 + wget b (i + 1)) * 256 + wget b (i + 2)) * 256 + wget b (i + 3)"
    (is "_ = ?v")
proof -
  have r: "0 \<le> wget b j" "wget b j < 256" for j using wget_byte_range [OF assms] by blast+
  have "w32 (word4 b i) = w32 ?v"
    unfolding word4_def w32_js_ops or_four_bytes [OF r r r, symmetric] by (simp only: w32_or or.assoc)
  then have "to_uint32 (word4 b i) = to_uint32 ?v" by (simp flip: uint_w32)
  moreover have "0 \<le> ?v" using r [of i] r [of "i + 1"] r [of "i + 2"] r [of "i + 3"] by simp
  moreover have "?v < 4294967296" by (rule four_bytes_less [OF r(2) r(2) r(2) r(2)])
  ultimately show ?thesis by (simp add: to_uint32_def)
qed

lemma word_to_bytes_uint:
  "word_to_bytes v = [to_uint32 v div 2 ^ 24 mod 256, to_uint32 v div 2 ^ 16 mod 256, to_uint32 v div 2 ^ 8 mod 256, to_uint32 v mod 256]"
proof -
  have "js_and (js_shr v k) 255 = to_uint32 v div 2 ^ k mod 256" if "k + 8 \<le> 32" for k
    using js_and_ushr_255 [OF that, of v] that by (simp add: js_and_mask js_ushr_def)
  from this [of 24] this [of 16] this [of 8]
  have "js_and (js_shr v 24) 255 = to_uint32 v div 2 ^ 24 mod 256" "js_and (js_shr v 16) 255 = to_uint32 v div 2 ^ 16 mod 256"
    "js_and (js_shr v 8) 255 = to_uint32 v div 2 ^ 8 mod 256" by simp_all
  moreover have "js_and v 255 = to_uint32 v mod 256" by (simp add: js_and_mask to_uint32_def mod_mod_cancel)
  ultimately show ?thesis by (simp only: word_to_bytes_def)
qed

lemma word_to_bytes_w32: "w32 u = w32 v \<Longrightarrow> word_to_bytes u = word_to_bytes v"
  by (simp add: word_to_bytes_uint flip: uint_w32)

lemma length_word_to_bytes [simp]: "length (word_to_bytes v) = 4"
  by (simp add: word_to_bytes_def)

lemma byte_range_word_to_bytes: "byte_range (word_to_bytes v)"
  by (simp add: byte_range_def word_to_bytes_uint)

lemma four_digits:
  assumes "0 \<le> b" "b < 256" "0 \<le> c" "c < 256" "0 \<le> d" "d < 256" "0 \<le> a" "a < (256 :: int)"
  defines "v \<equiv> ((a * 256 + b) * 256 + c) * 256 + d"
  shows "v div 2 ^ 24 mod 256 = a" "v div 2 ^ 16 mod 256 = b" "v div 2 ^ 8 mod 256 = c" "v mod 256 = d"
proof -
  have 8: "v div 2 ^ 8 = (a * 256 + b) * 256 + c" using assms by (simp add: v_def)
  have 16: "v div 2 ^ 16 = a * 256 + b" using zdiv_zmult2_eq [of "2 ^ 8" v "2 ^ 8"] 8 assms by simp
  have 24: "v div 2 ^ 24 = a" using zdiv_zmult2_eq [of "2 ^ 8" v "2 ^ 16"] 16 assms by simp
  show "v div 2 ^ 24 mod 256 = a" "v div 2 ^ 16 mod 256 = b" "v div 2 ^ 8 mod 256 = c" "v mod 256 = d"
    unfolding 8 16 24 unfolding v_def using assms(1-8) by (simp_all only: mod_mult_self3 mod_pos_pos_trivial)
qed

lemma digits_value:
  assumes "0 \<le> u" "u < 4294967296"
  shows "((u div 2 ^ 24 mod 256 * 256 + u div 2 ^ 16 mod 256) * 256 + u div 2 ^ 8 mod 256) * 256 + u mod 256 = (u :: int)"
proof -
  define p q r where "p = u div 256" and "q = p div 256" and "r = q div 256"
  have "u div 2 ^ 16 = q" using zdiv_zmult2_eq [of 256 u 256] by (simp add: p_def q_def)
  moreover have "u div 2 ^ 24 = r" using zdiv_zmult2_eq [of 256 u 65536] calculation
    by (simp add: r_def)
  moreover have "r mod 256 = r" using assms calculation(2) by (intro mod_pos_pos_trivial) auto
  moreover have "u div 2 ^ 8 = p" by (simp add: p_def)
  moreover have "r * 256 + q mod 256 = q" "q * 256 + p mod 256 = p" "p * 256 + u mod 256 = u"
    by (simp_all only: r_def q_def p_def div_mult_mod_eq)
  ultimately show ?thesis by (simp only:)
qed

lemma word4_word_to_bytes: "w32 (word4 (pre @ word_to_bytes v @ rest) (length pre)) = w32 v"
proof -
  let ?b = "word_to_bytes v"
  have g: "wget (pre @ ?b @ rest) (length pre + j) = wget ?b j" if "j < 4" for j
    using that length_word_to_bytes [of v] by (simp add: wget_append)
  have "word4 (pre @ ?b @ rest) (length pre) = word4 ?b 0"
    using g [of 0] g [of 1] g [of 2] g [of 3] by (simp add: word4_def numeral_2_eq_2)
  moreover have "to_uint32 (word4 ?b 0) = to_uint32 v"
  proof -
    have u: "0 \<le> to_uint32 v" "to_uint32 v < 4294967296" by (simp_all add: to_uint32_def)
    have "wget ?b 0 = to_uint32 v div 2 ^ 24 mod 256" "wget ?b (0 + 1) = to_uint32 v div 2 ^ 16 mod 256"
      "wget ?b (0 + 2) = to_uint32 v div 2 ^ 8 mod 256" "wget ?b (0 + 3) = to_uint32 v mod 256"
      by (simp_all add: word_to_bytes_uint wget_def numeral_2_eq_2 numeral_3_eq_3)
    then show ?thesis unfolding to_uint32_word4 [OF byte_range_word_to_bytes] by (simp only: digits_value [OF u])
  qed
  ultimately show ?thesis by (metis w32_to_uint32)
qed

lemma word_to_bytes_word4:
  assumes "byte_range b" "i + 4 \<le> length b"
  shows "word_to_bytes (word4 b i) = take 4 (drop i b)"
proof -
  have r: "0 \<le> wget b j" "wget b j < 256" for j using wget_byte_range [OF assms(1)] by blast+
  have "word_to_bytes (word4 b i) = [wget b i, wget b (i + 1), wget b (i + 2), wget b (i + 3)]"
    unfolding word_to_bytes_uint to_uint32_word4 [OF assms(1)] four_digits [OF r r r r] ..
  also have "\<dots> = take 4 (drop i b)"
    using assms(2) by (intro nth_equalityI) (auto simp: wget_def less_Suc_eq numeral_eq_Suc)
  finally show ?thesis .
qed

section \<open>Encryption and decryption of a text\<close>

fun clean_message :: "bf_box \<Rightarrow> bool \<Rightarrow> int list \<Rightarrow> nat \<Rightarrow> nat \<Rightarrow> int \<times> int \<Rightarrow> bool" where
  "clean_message bx isCBC txt pos 0 vec = True"
| "clean_message bx isCBC txt pos (Suc count) vec =
     (let o_b = (word4 txt pos, word4 txt (pos + 4)); m_b = mask_block isCBC vec o_b
      in (isCBC \<longrightarrow> clean (fst o_b) \<and> clean (snd o_b) \<and> clean (fst vec) \<and> clean (snd vec) \<and> clean (fst m_b) \<and> clean (snd m_b)) \<and>
         clean_block bx m_b \<and>
         clean_message bx isCBC txt (pos + 8) count (if isCBC then eb bx m_b else vec))"

lemma mask_block_undo:
  assumes "isCBC \<longrightarrow> clean (fst b) \<and> clean (snd b) \<and> clean (fst vec) \<and> clean (snd vec) \<and>
      clean (fst (mask_block isCBC vec b)) \<and> clean (snd (mask_block isCBC vec b))"
    and "word_pair t = word_pair (mask_block isCBC vec b)" "word_pair vec' = word_pair vec"
  shows "word_pair (mask_block isCBC vec' t) = word_pair b"
proof (cases isCBC)
  case True
  obtain x y where b: "b = (x, y)" by (cases b)
  obtain u v where vec: "vec = (u, v)" by (cases vec)
  obtain u' v' where vec': "vec' = (u', v')" by (cases vec')
  obtain a c where t: "t = (a, c)" by (cases t)
  have w: "w32 a = w32 (bf_xor x u)" "w32 c = w32 (bf_xor y v)" "w32 u' = w32 u" "w32 v' = w32 v"
    using assms(2,3) True by (simp_all add: b vec vec' t mask_block_def)
  have "clean a" "clean c" "clean u'" "clean v'" "clean x" "clean y" "clean u" "clean v"
    using assms(1) True clean_w32 [OF w(1)] clean_w32 [OF w(2)] clean_w32 [OF w(3)] clean_w32 [OF w(4)]
    by (simp_all add: b vec mask_block_def)
  with True w show ?thesis by (simp add: b vec vec' t mask_block_def js_word xor.assoc)
qed (use assms(2) in \<open>simp add: mask_block_def\<close>)

lemma block_bytes_word_pair: "word_pair s = word_pair t \<Longrightarrow> block_bytes s = block_bytes t"
  using word_to_bytes_w32 [of "fst s" "fst t"] word_to_bytes_w32 [of "snd s" "snd t"]
  by (cases s; cases t) (simp add: block_bytes_def)

lemma length_block_bytes [simp]: "length (block_bytes b) = 8"
  by (simp add: block_bytes_def)

lemma word_pair_block_bytes:
  "word_pair (word4 (pre @ block_bytes b @ rest) (length pre), word4 (pre @ block_bytes b @ rest) (length pre + 4)) = word_pair b"
proof -
  obtain l r where b: "b = (l, r)" by (cases b)
  have "w32 (word4 (pre @ word_to_bytes l @ (word_to_bytes r @ rest)) (length pre)) = w32 l"
    by (rule word4_word_to_bytes)
  moreover have "w32 (word4 ((pre @ word_to_bytes l) @ word_to_bytes r @ rest) (length (pre @ word_to_bytes l))) = w32 r"
    by (rule word4_word_to_bytes)
  ultimately show ?thesis by (simp add: b block_bytes_def)
qed

lemma block_bytes_word4:
  "byte_range b \<Longrightarrow> i + 8 \<le> length b \<Longrightarrow> block_bytes (word4 b i, word4 b (i + 4)) = take 8 (drop i b)"
proof -
  assume "byte_range b" "i + 8 \<le> length b"
  then have "block_bytes (word4 b i, word4 b (i + 4)) = take 4 (drop i b) @ take 4 (drop (i + 4) b)"
    by (simp add: block_bytes_def word_to_bytes_word4)
  also have "\<dots> = take (4 + 4) (drop i b)" by (simp only: take_add drop_drop add.commute)
  finally show ?thesis by simp
qed

lemma decrypt_encrypt_blocks:
  assumes "byte_range txt" "pos + 8 * count \<le> length txt" "clean_message bx isCBC txt pos count vec"
    and "word_pair vec' = word_pair vec"
  shows "decrypt_blocks bx isCBC (pre @ encrypt_blocks bx isCBC txt pos count vec) (length pre) count vec' =
    take (8 * count) (drop pos txt)"
  using assms(2-)
proof (induction count arbitrary: pos pre vec vec')
  case (Suc count)
  define o_b where "o_b = (word4 txt pos, word4 txt (pos + 4))"
  define m_b where "m_b = mask_block isCBC vec o_b"
  define vec1 where "vec1 = (if isCBC then eb bx m_b else vec)"
  define rest where "rest = encrypt_blocks bx isCBC txt (pos + 8) count vec1"
  define c where "c = pre @ block_bytes (eb bx m_b) @ rest"
  define t where "t = (word4 c (length pre), word4 c (length pre + 4))"
  have cm: "isCBC \<longrightarrow> clean (fst o_b) \<and> clean (snd o_b) \<and> clean (fst vec) \<and> clean (snd vec) \<and> clean (fst m_b) \<and> clean (snd m_b)"
      "clean_block bx m_b" "clean_message bx isCBC txt (pos + 8) count vec1"
    using Suc.prems(2)
    unfolding clean_message.simps Let_def o_b_def [symmetric] m_b_def [symmetric] vec1_def [symmetric] by blast+
  have t: "word_pair t = word_pair (eb bx m_b)" unfolding t_def c_def by (rule word_pair_block_bytes)
  have "word_pair (mask_block isCBC vec' (db bx t)) = word_pair o_b"
    using cm(1) db_eb [OF cm(2) t] Suc.prems(3) unfolding m_b_def by (rule mask_block_undo)
  then have "block_bytes (mask_block isCBC vec' (db bx t)) = block_bytes o_b" by (rule block_bytes_word_pair)
  also have "\<dots> = take 8 (drop pos txt)"
    unfolding o_b_def using Suc.prems(1) by (intro block_bytes_word4 assms(1)) simp
  finally have "block_bytes (mask_block isCBC vec' (db bx t)) = take 8 (drop pos txt)" .
  moreover have "decrypt_blocks bx isCBC ((pre @ block_bytes (eb bx m_b)) @ rest) (length (pre @ block_bytes (eb bx m_b)))
      count (if isCBC then t else vec') = take (8 * count) (drop (pos + 8) txt)"
    unfolding rest_def using Suc.prems cm(3) t by (intro Suc.IH) (auto simp: vec1_def)
  then have "decrypt_blocks bx isCBC c (length pre + 8) count (if isCBC then t else vec') =
      take (8 * count) (drop (pos + 8) txt)"
    by (simp add: c_def split del: if_split)
  moreover have "pre @ encrypt_blocks bx isCBC txt pos (Suc count) vec = c"
    by (simp add: c_def rest_def vec1_def m_b_def o_b_def Let_def)
  ultimately have "decrypt_blocks bx isCBC (pre @ encrypt_blocks bx isCBC txt pos (Suc count) vec) (length pre) (Suc count) vec' =
      take 8 (drop pos txt) @ take (8 * count) (drop (pos + 8) txt)"
    by (simp only: decrypt_blocks.simps Let_def t_def [symmetric])
  also have "\<dots> = take (8 + 8 * count) (drop pos txt)" by (simp only: take_add drop_drop add.commute)
  finally show ?case by simp
qed simp

lemma length_encrypt_blocks: "length (encrypt_blocks bx isCBC txt pos count vec) = 8 * count"
  by (induction count arbitrary: pos vec) (simp_all add: Let_def)

lemma byte_range_code: "byte_range (map code s)"
  by (auto simp: byte_range_def code_def)

lemma char_of_code: "char_of (nat (code c)) = c"
  by (simp add: code_def)

lemma length_pad_text: "8 dvd length (pad_text s)"
proof -
  have "length s + (8 - length s mod 8) = 8 * (length s div 8 + 1)"
    using mod_less_divisor [of 8 "length s", OF zero_less_numeral] div_mult_mod_eq [of "length s" 8] by arith
  then show ?thesis by (simp add: pad_text_def Let_def)
qed

lemma unpad_pad_text: "unpad (map code (pad_text s)) = map code s"
proof -
  define k where "k = 8 - length s mod 8"
  have k: "0 < k" "k \<le> 8" by (simp_all add: k_def)
  let ?pt = "map code s @ replicate k (int k)"
  have "code (char_of k) = int k" using k by (simp add: code_def)
  then have e: "map code (pad_text s) = ?pt" by (simp add: pad_text_def Let_def k_def)
  have tail: "wget ?pt (length s + j) = int k" if "j < k" for j using that by (simp add: wget_def nth_append)
  have l: "wget ?pt (length ?pt - 1) = int k" using k tail [of "k - 1"] by simp
  have "k = 1 \<or> wget ?pt (length ?pt - 2) = int k"
  proof (cases "k = 1")
    case False
    then have "length ?pt - 2 = length s + (k - 2)" "k - 2 < k" using k by auto
    then show ?thesis using tail [of "k - 2"] by simp
  qed simp
  moreover have "?pt \<noteq> []" using k by simp
  moreover have "js_splice ?pt (int (length ?pt) - int k) (int k) [] = map code s"
    by (simp add: js_splice_def Let_def)
  ultimately show ?thesis unfolding e unpad_def l Let_def by auto
qed

lemma decrypt_with_encrypt_with:
  assumes "clean_message bx isCBC (map code (pad_text s)) 0 (length (pad_text s) div 8) iv"
  shows "decrypt_with bx isCBC iv (encrypt_with bx isCBC iv s) = s"
proof -
  let ?t = "pad_text s"
  let ?e = "encrypt_blocks bx isCBC (map code ?t) 0 (length ?t div 8) iv"
  have l: "8 * (length ?t div 8) = length ?t" using length_pad_text [of s] by simp
  have "decrypt_blocks bx isCBC ([] @ ?e) (length ([] :: int list)) (length ?t div 8) iv
      = take (8 * (length ?t div 8)) (drop 0 (map code ?t))"
    using assms l by (intro decrypt_encrypt_blocks byte_range_code) simp_all
  then have "decrypt_blocks bx isCBC ?e 0 (length ?t div 8) iv = map code ?t"
    unfolding l by simp
  then show ?thesis
    by (simp add: decrypt_with_def encrypt_with_def Let_def length_encrypt_blocks unpad_pad_text char_of_code o_def)
qed

section \<open>Base64\<close>

lemma b64_index_table: "\<forall>n \<in> set [0 ..< 64]. scan_index ((=) (b64_tab ! n)) b64_tab 0 = int n \<and> b64_tab ! n \<noteq> pad_char"
  by code_simp

lemma b64_char_index:
  assumes "0 \<le> d" "d < 64"
  shows "scan_index ((=) (b64_char d)) b64_tab 0 = d" "b64_char d \<noteq> pad_char"
proof -
  have "nat d \<in> set [0 ..< 64]" using assms by auto
  with b64_index_table assms show "scan_index ((=) (b64_char d)) b64_tab 0 = d" "b64_char d \<noteq> pad_char"
    by (auto simp only: b64_char_def nat_0_le)
qed

lemma pad_char_index: "scan_index ((=) pad_char) b64_tab 0 = - 1"
  by code_simp

lemma b64_index_append: "b64_index (pre @ s) (length pre + j) = b64_index s j"
  by (simp add: b64_index_def nth_append)

text \<open>Three bytes and four six-bit digits are the same 24-bit number.\<close>

definition six_bits :: "int \<Rightarrow> nat \<Rightarrow> int" where
  "six_bits t k = js_and (js_ushr t k) 63"

lemma six_bits_range: "0 \<le> six_bits t k" "six_bits t k < 64"
  by (simp_all add: six_bits_def js_and_mask)

lemma or_three_bytes:
  assumes "0 \<le> a" "a < 256" "0 \<le> b" "b < 256" "0 \<le> c" "c < 256"
  shows "js_or (js_or (js_shl a 16) (js_shl b 8)) c = (a * 256 + b) * 256 + c"
proof -
  have i: "js_shl a 16 = a * 65536" "js_shl b 8 = b * 256"
    using assms by (simp_all add: js_shl_def to_int32_id is_int32_def)
  have "js_or (a * 65536) (b * 256) = (a * 256 + b) * 256"
    using assms or_low_add [of "b * 256" 16 a] by (simp add: js_or_def to_int32_id is_int32_def)
  moreover have "js_or ((a * 256 + b) * 256) c = (a * 256 + b) * 256 + c"
    using assms or_low_add [of c 8 "a * 256 + b"] by (simp add: js_or_def to_int32_id is_int32_def)
  ultimately show ?thesis by (simp add: i)
qed

lemma or_four_digits:
  assumes "0 \<le> a" "a < 64" "0 \<le> b" "b < 64" "0 \<le> c" "c < 64" "0 \<le> d" "d < 64"
  shows "js_or (js_or (js_or (js_shl a 18) (js_shl b 12)) (js_shl c 6)) d = ((a * 64 + b) * 64 + c) * 64 + d"
proof -
  have i: "js_shl a 18 = a * 262144" "js_shl b 12 = b * 4096" "js_shl c 6 = c * 64"
    using assms by (simp_all add: js_shl_def to_int32_id is_int32_def)
  have "js_or (a * 262144) (b * 4096) = (a * 64 + b) * 4096"
    using assms or_low_add [of "b * 4096" 18 a] by (simp add: js_or_def to_int32_id is_int32_def)
  moreover have "js_or ((a * 64 + b) * 4096) (c * 64) = ((a * 64 + b) * 64 + c) * 64"
    using assms or_low_add [of "c * 64" 12 "a * 64 + b"] by (simp add: js_or_def to_int32_id is_int32_def)
  moreover have "js_or (((a * 64 + b) * 64 + c) * 64) d = ((a * 64 + b) * 64 + c) * 64 + d"
    using assms or_low_add [of d 6 "(a * 64 + b) * 64 + c"] by (simp add: js_or_def to_int32_id is_int32_def)
  ultimately show ?thesis by (simp add: i)
qed

lemma six_bits_value:
  assumes "0 \<le> t" "t < 16777216"
  shows "((six_bits t 18 * 64 + six_bits t 12) * 64 + six_bits t 6) * 64 + js_and t 63 = t"
proof -
  define p q r where "p = t div 64" and "q = p div 64" and "r = q div 64"
  have u: "js_ushr t k = t div 2 ^ k" if "k < 32" for k using assms that by (simp add: js_ushr_div)
  have "js_ushr t 6 = p" by (simp add: u p_def)
  moreover have "js_ushr t 12 = q" using zdiv_zmult2_eq [of 64 t 64] by (simp add: u p_def q_def)
  moreover from this have "js_ushr t 18 = r" using zdiv_zmult2_eq [of 64 t 4096] by (simp add: u r_def)
  moreover have "r mod 64 = r"
    using assms \<open>js_ushr t 18 = r\<close> by (intro mod_pos_pos_trivial) (auto simp: u)
  moreover have "r * 64 + q mod 64 = q" "q * 64 + p mod 64 = p" "p * 64 + t mod 64 = t"
    by (simp_all only: r_def q_def p_def div_mult_mod_eq)
  ultimately show ?thesis by (simp only: six_bits_def js_and_mask)
qed

lemma decode_group:
  assumes "i < l"
  shows "decode_groups s l i =
    (let t = js_or (js_or (js_or (js_shl (b64_index s i) 18) (js_shl (b64_index s (i + 1)) 12))
                                 (js_shl (b64_index s (i + 2)) 6)) (b64_index s (i + 3))
     in [js_and (js_ushr t 16) 255, js_and (js_ushr t 8) 255, js_and t 255]) @ decode_groups s l (i + 4)"
  using assms by (subst decode_groups.simps) (simp add: Let_def)

lemma decode_triple:
  assumes "0 \<le> a" "a < 256" "0 \<le> b" "b < 256" "0 \<le> c" "c < 256" "length pre < l"
  shows "decode_groups (pre @ bf_toBase64 [a, b, c] @ rest) l (length pre) =
    [a, b, c] @ decode_groups (pre @ bf_toBase64 [a, b, c] @ rest) l (length pre + 4)"
proof -
  let ?s = "bf_toBase64 [a, b, c] @ rest"
  define t where "t = (a * 256 + b) * 256 + c"
  have r: "0 \<le> t" "t < 16777216" using assms(1-6) by (auto simp: t_def)
  have g: "bf_toBase64 [a, b, c] =
      [b64_char (six_bits t 18), b64_char (six_bits t 12), b64_char (six_bits t 6), b64_char (js_and t 63)]"
    using or_three_bytes [OF assms(1-6)] by (simp add: Let_def t_def six_bits_def)
  have "0 \<le> js_and t 63" "js_and t 63 < 64" by (simp_all add: js_and_mask)
  then have i: "b64_index ?s 0 = six_bits t 18" "b64_index ?s 1 = six_bits t 12"
      "b64_index ?s 2 = six_bits t 6" "b64_index ?s 3 = js_and t 63"
    unfolding g by (simp_all add: b64_index_def b64_char_index six_bits_range)
  have "js_or (js_or (js_or (js_shl (b64_index ?s 0) 18) (js_shl (b64_index ?s 1) 12)) (js_shl (b64_index ?s 2) 6)) (b64_index ?s 3) = t"
    unfolding i
    using or_four_digits [OF six_bits_range six_bits_range six_bits_range, of "js_and t 63" t 18 t 12 t 6]
      six_bits_value [OF r] by (simp add: js_and_mask)
  moreover have "js_and (js_ushr t 16) 255 = a" "js_and (js_ushr t 8) 255 = b" "js_and t 255 = c"
  proof -
    have t4: "t = ((0 * 256 + a) * 256 + b) * 256 + c" by (simp add: t_def)
    have u: "js_ushr t 16 = t div 2 ^ 16" "js_ushr t 8 = t div 2 ^ 8" using r by (simp_all add: js_ushr_div)
    show "js_and (js_ushr t 16) 255 = a" "js_and (js_ushr t 8) 255 = b" "js_and t 255 = c"
      unfolding js_and_mask u unfolding t4
      using four_digits [of a b c 0] assms(1-6) by simp_all
  qed
  moreover have "b64_index (pre @ ?s) (length pre) = b64_index ?s 0" "b64_index (pre @ ?s) (length pre + 1) = b64_index ?s 1"
      "b64_index (pre @ ?s) (length pre + 2) = b64_index ?s 2" "b64_index (pre @ ?s) (length pre + 3) = b64_index ?s 3"
    using b64_index_append [of pre ?s 0] by (simp_all only: b64_index_append add_0_right)
  ultimately show ?thesis by (simp only: decode_group [OF assms(7)] Let_def)
qed

lemma decode_padded:
  assumes "length s = 4" "s ! 3 = pad_char" "length pre < l" "l \<le> length pre + 4"
  shows "decode_groups (pre @ s) l (length pre) = [255, 255, 255]"
proof -
  have "b64_index s 3 = - 1" using assms(1,2) by (simp add: b64_index_def pad_char_index)
  then have i: "b64_index (pre @ s) (length pre + 3) = - 1" using b64_index_append [of pre s 3] by simp
  have o_m: "js_or x (- 1) = - 1" for x
    by (rule int32_eqI) (simp_all add: js_range js_word, simp add: is_int32_def)
  have "decode_groups (pre @ s) l (length pre + 4) = []" using assms(4) by (simp add: decode_groups.simps)
  moreover have "js_and (js_ushr (- 1) 16) 255 = 255" "js_and (js_ushr (- 1) 8) 255 = 255" "js_and (- 1) 255 = 255"
    by code_simp+
  ultimately show ?thesis by (simp only: decode_group [OF assms(3)] Let_def i o_m append_Nil2)
qed

lemma dropWhile_rev_append:
  assumes "\<exists>x \<in> set e. \<not> p x"
  shows "length (dropWhile p (rev (g @ e))) - 1 = length g + (length (dropWhile p (rev e)) - 1)"
proof -
  obtain x where x: "x \<in> set (rev e)" "\<not> p x" using assms by auto
  then have "dropWhile p (rev e) \<noteq> []" by (auto simp: dropWhile_eq_Nil_conv)
  moreover have "dropWhile p (rev e @ rev g) = dropWhile p (rev e) @ rev g"
    using x by (rule dropWhile_append1)
  ultimately show ?thesis by (simp add: Suc_le_eq)
qed

lemma last_index_append:
  "\<exists>x \<in> set e. x \<noteq> pad_char \<Longrightarrow> last_index (g @ e) = length g + last_index e"
  unfolding last_index_def by (rule dropWhile_rev_append) metis

lemma toBase64_heads: "0 \<le> js_and t 63" "js_and t 63 < 64"
  by (simp_all add: js_and_mask)

lemma b64_char_not_pad: "b64_char (js_and t 63) \<noteq> pad_char"
  by (rule b64_char_index(2)) (rule toBase64_heads)+

lemma toBase64_nonempty: "ba \<noteq> [] \<Longrightarrow> \<exists>x \<in> set (bf_toBase64 ba). x \<noteq> pad_char"
  by (cases ba rule: bf_toBase64.cases) (auto simp: Let_def b64_char_not_pad)

lemma last_index_short:
  "last_index (bf_toBase64 [a, b, c]) = 3" "last_index (bf_toBase64 [a, b]) = 2" "last_index (bf_toBase64 [a]) = 1"
  by (simp_all add: last_index_def Let_def b64_char_not_pad [THEN not_sym])

lemma decode_toBase64:
  assumes "byte_range ba"
  shows "decode_groups (pre @ bf_toBase64 ba) (length pre + last_index (bf_toBase64 ba)) (length pre) =
    (if 3 dvd length ba then ba else take (3 * (length ba div 3)) ba @ [255, 255, 255])"
  using assms
proof (induction ba arbitrary: pre rule: bf_toBase64.induct)
  case (1 a b c ba)
  have r: "0 \<le> a" "a < 256" "0 \<le> b" "b < 256" "0 \<le> c" "c < 256" "byte_range ba"
    using "1.prems" by (simp_all add: byte_range_def)
  have e: "bf_toBase64 (a # b # c # ba) = bf_toBase64 [a, b, c] @ bf_toBase64 ba" by (simp add: Let_def)
  have l4: "length (bf_toBase64 [a, b, c]) = 4" by (simp add: Let_def)
  show ?case
  proof (cases "ba = []")
    case True
    then show ?thesis
      using decode_triple [OF r(1-6), of pre "length pre + 3" "[]"]
      by (simp only: last_index_short append_Nil2)
        (simp add: decode_groups.simps [of _ "length pre + 3" "length pre + 4"] numeral_3_eq_3 [symmetric])
  next
    case False
    let ?l = "length pre + (4 + last_index (bf_toBase64 ba))"
    have l: "last_index (bf_toBase64 (a # b # c # ba)) = 4 + last_index (bf_toBase64 ba)"
      unfolding e using last_index_append [OF toBase64_nonempty [OF False]] l4 by simp
    have "decode_groups (pre @ bf_toBase64 [a, b, c] @ bf_toBase64 ba) ?l (length pre) =
        [a, b, c] @ decode_groups ((pre @ bf_toBase64 [a, b, c]) @ bf_toBase64 ba)
          (length (pre @ bf_toBase64 [a, b, c]) + last_index (bf_toBase64 ba)) (length (pre @ bf_toBase64 [a, b, c]))"
      using decode_triple [OF r(1-6), of pre ?l "bf_toBase64 ba"] l4 by (simp add: add.assoc)
    also have "\<dots> = [a, b, c] @ (if 3 dvd length ba then ba else take (3 * (length ba div 3)) ba @ [255, 255, 255])"
      using "1.IH" [OF refl r(7), of "pre @ bf_toBase64 [a, b, c]"] by simp
    finally have f: "decode_groups (pre @ bf_toBase64 (a # b # c # ba)) (length pre + last_index (bf_toBase64 (a # b # c # ba)))
        (length pre) = [a, b, c] @ (if 3 dvd length ba then ba else take (3 * (length ba div 3)) ba @ [255, 255, 255])"
      unfolding l unfolding e .
    have n: "length (a # b # c # ba) = length ba + 3" by simp
    have d: "3 dvd length ba + 3 \<longleftrightarrow> 3 dvd length ba" by simp
    have "(length ba + 3) div 3 = length ba div 3 + 1" using div_add_self2 [of 3 "length ba"] by simp
    then have k: "3 * ((length ba + 3) div 3) = Suc (Suc (Suc (3 * (length ba div 3))))" by linarith
    have t: "take (3 * ((length ba + 3) div 3)) (a # b # c # ba) = [a, b, c] @ take (3 * (length ba div 3)) ba"
      unfolding k take_Suc_Cons append.simps ..
    show ?thesis unfolding f n d t by simp
  qed
next
  case (2 a b)
  have "decode_groups (pre @ bf_toBase64 [a, b]) (length pre + 2) (length pre) = [255, 255, 255]"
    by (rule decode_padded) (simp_all add: Let_def)
  moreover have "\<not> 3 dvd length [a, b]" "length [a, b] div 3 = 0" by (simp_all add: numeral_2_eq_2 [symmetric])
  ultimately show ?case by (simp only: last_index_short) simp
next
  case (3 a)
  have "decode_groups (pre @ bf_toBase64 [a]) (length pre + 1) (length pre) = [255, 255, 255]"
    by (rule decode_padded) (simp_all add: Let_def)
  then show ?case by (simp add: last_index_short del: bf_toBase64.simps)
next
  case 4
  show ?case by (simp add: last_index_def decode_groups.simps)
qed

section \<open>Properties\<close>

text \<open>
  Decryption inverts encryption of a whole text, in CBC mode and otherwise, with the
  padding added and removed, for the same boxes (any boxes, those of the key schedule among them) and
  initialisation vector, as long as no operand of an exclusive or on the way is a negative number
  with a zero low half (\<open>clean_message\<close>). For the functions \<open>encrypt\<close> and \<open>decrypt\<close> of the source this is
  stated for raw output; the default output type loses bytes (\<open>blowfish_base64\<close>).
\<close>

theorem blowfish_roundtrip:
  assumes "clean_message bx isCBC (map code (pad_text s)) 0 (length (pad_text s) div 8) iv"
  shows "decrypt_with bx isCBC iv (encrypt_with bx isCBC iv s) = s \<and>
    (\<forall>key mode. bx = bf_init (key_bytes key) \<and> isCBC = (mode = Some CBC) \<longrightarrow>
       Blowfish_decrypt iv (Blowfish_encrypt iv s key (Some Raw) mode) key (Some Raw) mode = Some s)"
  using decrypt_with_encrypt_with [OF assms]
  by (auto simp: Blowfish_decrypt_def Blowfish_encrypt_def out_or_default_def)

definition flat_box :: bf_box where
  "flat_box = \<lparr>box_p = boxes_p, box_s0 = replicate 256 0x24a19947, box_s1 = replicate 256 0x3f54989a,
     box_s2 = replicate 256 0x14214f74, box_s3 = replicate 256 0x6dfc511f\<rparr>"

lemma dollar_flat_box: "dollar v flat_box = 3855863732"
proof -
  have n: "replicate 256 x ! nat (js_and u 255) = x" for x u :: int
    by (rule nth_replicate) (simp add: js_and_mask nat_less_iff)
  have "bf_add (bf_xor (bf_add 0x24a19947 0x3f54989a) 0x14214f74) 0x6dfc511f = 3855863732" by code_simp
  then show ?thesis by (simp add: dollar_def flat_box_def n)
qed

definition flat_key :: "nat \<Rightarrow> int" where
  "flat_key k = bf_xor 3855863732 (boxes_p ! k)"

fun flat_round :: "int \<times> int \<Rightarrow> nat \<Rightarrow> int \<times> int" where
  "flat_round (x, y) k = (bf_xor y (flat_key k), x)"

fun flat_clean :: "nat list \<Rightarrow> int \<times> int \<Rightarrow> bool" where
  "flat_clean [] s = True"
| "flat_clean (k # ks) (x, y) \<longleftrightarrow>
     clean y \<and> clean (flat_key k) \<and> clean (fst (flat_round (x, y) k)) \<and> flat_clean ks (flat_round (x, y) k)"

lemma flat_box_p: "box_p flat_box = boxes_p"
  by (simp add: flat_box_def)

lemma flat_round_key: "round_key flat_box k v = flat_key k"
  by (simp add: round_key_def dollar_flat_box flat_key_def flat_box_p)

lemma flat_bf_round: "bf_round flat_box s k = flat_round s k"
  by (cases s) (simp add: flat_round_key)

lemmas flat_box_simps = flat_box_p flat_round_key flat_bf_round

lemma flat_clean_rounds: "clean_rounds flat_box ks s = flat_clean ks s"
  by (induction ks s rule: flat_clean.induct) (simp_all add: flat_box_simps del: bf_round.simps)

lemma clean_flat_block: "clean_block flat_box (1685023343, 67372035)"
proof -
  have f: "bf_round flat_box = flat_round" by (intro ext) (rule flat_bf_round)
  show ?thesis
    unfolding clean_block_def start_l_def finish_def f flat_clean_rounds flat_box_simps by code_simp
qed

theorem blowfish_roundtrip_witness:
  "decrypt_with flat_box True (0, 7) (encrypt_with flat_box True (0, 7) ''dojo'') = ''dojo''"
proof -
  have m: "mask_block True (0, 7) (word4 (map code (pad_text ''dojo'')) 0, word4 (map code (pad_text ''dojo'')) (0 + 4)) =
      (1685023343, 67372035)" "length (pad_text ''dojo'') div 8 = Suc 0"
    and c: "clean (word4 (map code (pad_text ''dojo'')) 0) \<and> clean (word4 (map code (pad_text ''dojo'')) (0 + 4)) \<and>
      clean 0 \<and> clean 7 \<and> clean 1685023343 \<and> clean 67372035"
    by code_simp+
  have "clean_message flat_box True (map code (pad_text ''dojo'')) 0 (length (pad_text ''dojo'') div 8) (0, 7)"
    unfolding m(2) clean_message.simps Let_def m(1) fst_conv snd_conv using c clean_flat_block by blast
  from blowfish_roundtrip [OF this] show ?thesis by blast
qed

text \<open>
  The exclusive or of the source is not its own inverse: the first statement of \<open>eb\<close> and
  the last one of \<open>db\<close>, which combine the left half with the first subkey, turn a block that starts
  with the bytes 128, 1, 0, 0 into one that starts with 128, 127, 0, 0.
\<close>

theorem blowfish_block_lost:
  "\<not> clean (word4 [128, 1, 0, 0] 0) \<and>
   word_to_bytes (bf_xor (bf_xor (word4 [128, 1, 0, 0] 0) (boxes_p ! 0)) (boxes_p ! 0)) = [128, 127, 0, 0]"
  by code_simp

text \<open>
  The Base64 decoder inverts the encoder exactly on arrays whose length is a multiple
  of three; for every other length the last group is replaced by three bytes 255, so a ciphertext
  (whose length is a multiple of 8) only survives the default output type when it has a multiple
  of 24 bytes.
\<close>

theorem blowfish_base64:
  assumes "byte_range ba"
  shows "bf_fromBase64 (bf_toBase64 ba) = (if 3 dvd length ba then ba else take (3 * (length ba div 3)) ba @ [255, 255, 255])"
  using decode_toBase64 [OF assms, of "[]"] by (simp add: bf_fromBase64_def)

theorem blowfish_base64_witness:
  "bf_fromBase64 (bf_toBase64 [1, 2, 3]) = [1, 2, 3] \<and>
   bf_fromBase64 (bf_toBase64 [1, 2, 3, 4, 5, 6, 7, 8]) = [1, 2, 3, 4, 5, 6, 255, 255, 255]"
proof -
  have b: "byte_range [1, 2, 3]" "byte_range [1, 2, 3, 4, 5, 6, 7, 8]" by code_simp+
  have i: "3 dvd length [1, 2, 3 :: int]" "\<not> 3 dvd length [1, 2, 3, 4, 5, 6, 7, 8 :: int]"
    "take (3 * (length [1, 2, 3, 4, 5, 6, 7, 8 :: int] div 3)) [1, 2, 3, 4, 5, 6, 7, 8 :: int] @ [255, 255, 255]
     = [1, 2, 3, 4, 5, 6, 255, 255, 255]" by code_simp+
  show ?thesis using blowfish_base64 [OF b(1)] blowfish_base64 [OF b(2)] unfolding i(3) by (simp only: i if_True if_False)
qed

text \<open>
  \<open>getIV\<close> does not return what \<open>setIV\<close> stored: whatever the vector, the default and
  the hexadecimal form are the empty string and the string form raises an error.
\<close>

lemma getIV_loses_vector:
  "getIV iv None = Inr (Some []) \<and> getIV iv (Some Hex) = Inr (Some []) \<and> getIV iv (Some Out_String) = Inl TypeError \<and>
   setIV (Text ''0000000000000001'') (Some Hex) = Some (0, 1)"
proof -
  have "setIV (Text ''0000000000000001'') (Some Hex) = Some (0, 1)" by code_simp
  then show ?thesis by (simp add: getIV_def out_or_default_def)
qed

end
