(* ===== verification/Collections.thy ===== *)
theory Collections
  imports JS_Strings
begin

text \<open>
  \<open>src/collections/Collections.js\<close>: dictionary entries and the two iterators, after a model of the
  plain objects that the collections use as hash tables.

  The elements of a collection have an arbitrary type. Where the source compares elements with
  \<open>==\<close> the definitions take that relation as a parameter \<open>eq\<close>, and where it tests an element in a
  condition they take a predicate \<open>truthy\<close>; the theorems hold for all of them.
\<close>

section \<open>Objects as hash tables\<close>

text \<open>
  An object made by \<open>{}\<close> is the list of its own properties, in the order in which \<open>for in\<close> visits
  them. The properties of \<open>Object.prototype\<close> (ECMAScript 3, 15.2.4) are found by \<open>in\<close> and by a
  property read on every object, but \<open>for in\<close> does not visit them.
\<close>

type_synonym 'v obj = "(string \<times> 'v) list"

definition proto_names :: "string list" where
  "proto_names = [''constructor'', ''toString'', ''toLocaleString'', ''valueOf'', ''hasOwnProperty'',
     ''isPrototypeOf'', ''propertyIsEnumerable'']"

datatype 'v prop_value = Undefined | Inherited string | Own 'v

definition inherited :: "string \<Rightarrow> bool" where
  "inherited k \<longleftrightarrow> k \<in> set proto_names"

definition obj_in :: "string \<Rightarrow> 'v obj \<Rightarrow> bool" where
  "obj_in k ob \<longleftrightarrow> map_of ob k \<noteq> None \<or> inherited k"

definition obj_get :: "'v obj \<Rightarrow> string \<Rightarrow> 'v prop_value" where
  "obj_get ob k =
     (case map_of ob k of Some v \<Rightarrow> Own v | None \<Rightarrow> if inherited k then Inherited k else Undefined)"

fun obj_set :: "'v obj \<Rightarrow> string \<Rightarrow> 'v \<Rightarrow> 'v obj" where
  "obj_set [] k v = [(k, v)]"
| "obj_set ((k', v') # ob) k v = (if k' = k then (k, v) # ob else (k', v') # obj_set ob k v)"

definition obj_delete :: "'v obj \<Rightarrow> string \<Rightarrow> 'v obj" where
  "obj_delete ob k = filter (\<lambda>(k', _). k' \<noteq> k) ob"

definition obj_ok :: "'v obj \<Rightarrow> bool" where
  "obj_ok ob \<longleftrightarrow> distinct (map fst ob)"

lemma map_of_obj_set: "map_of (obj_set ob k v) = (map_of ob)(k \<mapsto> v)"
  by (induction ob k v rule: obj_set.induct) auto

lemma map_of_obj_delete: "map_of (obj_delete ob k) = (map_of ob)(k := None)"
  unfolding obj_delete_def by (induction ob) auto

lemma keys_obj_set: "set (map fst (obj_set ob k v)) = insert k (set (map fst ob))"
  by (induction ob k v rule: obj_set.induct) auto

lemma obj_ok_set: "obj_ok ob \<Longrightarrow> obj_ok (obj_set ob k v)"
proof (induction ob k v rule: obj_set.induct)
  case (2 k' v' ob k v)
  then show ?case using keys_obj_set [of ob k v] by (auto simp: obj_ok_def)
qed (simp add: obj_ok_def)

lemma obj_ok_delete: "obj_ok ob \<Longrightarrow> obj_ok (obj_delete ob k)"
  unfolding obj_ok_def obj_delete_def by (induction ob) auto

lemma length_obj_set: "length (obj_set ob k v) = (if map_of ob k = None then Suc (length ob) else length ob)"
  by (induction ob k v rule: obj_set.induct) auto

lemma obj_delete_absent: "map_of ob k = None \<Longrightarrow> obj_delete ob k = ob"
  unfolding obj_delete_def by (induction ob) (auto split: if_splits)

lemma length_obj_delete:
  "obj_ok ob \<Longrightarrow> length (obj_delete ob k) = (if map_of ob k = None then length ob else length ob - 1)"
proof (induction ob)
  case (Cons p ob)
  obtain k' v where p: "p = (k', v)" by (cases p)
  show ?case
  proof (cases "k' = k")
    case True
    with Cons.prems p have "map_of ob k = None" by (auto simp: obj_ok_def map_of_eq_None_iff image_iff)
    with True p obj_delete_absent [of ob k] show ?thesis by (simp add: obj_delete_def)
  next
    case False
    have "map_of ob k \<noteq> None \<Longrightarrow> ob \<noteq> []" by auto
    with False p Cons show ?thesis by (auto simp: obj_ok_def obj_delete_def Suc_diff_le Suc_le_eq length_greater_0_conv)
  qed
qed (simp add: obj_delete_def)

lemma card_dom_obj: "obj_ok ob \<Longrightarrow> card (dom (map_of ob)) = length ob"
  unfolding obj_ok_def dom_map_of_conv_image_fst
  by (metis distinct_card length_map set_map)

section \<open>Entries and iterators\<close>

record 'v entry =
  ekey :: string
  evalue :: 'v

definition DictionaryEntry :: "string \<Rightarrow> 'v \<Rightarrow> 'v entry" where
  "DictionaryEntry k v = \<lparr>ekey = k, evalue = v\<rparr>"

definition entry_valueOf :: "'v entry \<Rightarrow> 'v" where
  "entry_valueOf e = evalue e"

text \<open>
  An iterator shares the array of its collection: the operations take the array as it is when
  they are called. \<^term>\<open>None\<close> is \<open>null\<close> or \<open>undefined\<close>.
\<close>

record 'a iterator =
  position :: nat
  element :: "'a option"

definition Iterator_new :: "('a \<Rightarrow> bool) \<Rightarrow> 'a list \<Rightarrow> 'a iterator" where
  "Iterator_new truthy a =
     \<lparr>position = 0,
      element = (case js_at a 0 of Some x \<Rightarrow> if truthy x then Some x else None | None \<Rightarrow> None)\<rparr>"

definition it_atEnd :: "'a list \<Rightarrow> 'a iterator \<Rightarrow> bool" where
  "it_atEnd a it \<longleftrightarrow> position it \<ge> length a"

definition it_get :: "'a list \<Rightarrow> 'a iterator \<Rightarrow> 'a iterator \<times> 'a option" where
  "it_get a it =
     (if it_atEnd a it then (it, None)
      else let x = a ! position it
           in (it\<lparr>position := position it + 1, element := Some x\<rparr>, Some x))"

fun it_map_loop :: "('a \<Rightarrow> 'b) \<Rightarrow> 'a list \<Rightarrow> 'b list \<Rightarrow> 'b list" where
  "it_map_loop fn [] arr = arr"
| "it_map_loop fn (x # a) arr = it_map_loop fn a (arr @ [fn x])"

definition it_map :: "('a \<Rightarrow> 'b) \<Rightarrow> 'a list \<Rightarrow> 'b list" where
  "it_map fn a = it_map_loop fn a []"

definition it_reset :: "'a list \<Rightarrow> 'a iterator \<Rightarrow> 'a iterator" where
  "it_reset a it = it\<lparr>position := 0, element := js_at a 0\<rparr>"

text \<open>
  The loop \<open>while(!e.atEnd()){ ... e.get() ... }\<close> of the clients: the elements it reads, while the
  loop body does not change the array.
\<close>

function it_drain :: "'a list \<Rightarrow> 'a iterator \<Rightarrow> 'a list" where
  "it_drain a it =
     (if it_atEnd a it then []
      else case it_get a it of (it', x) \<Rightarrow> (case x of Some y \<Rightarrow> [y] | None \<Rightarrow> []) @ it_drain a it')"
  by pat_completeness auto
termination
  by (relation "measure (\<lambda>(a, it). length a - position it)") (auto simp: it_get_def it_atEnd_def Let_def)

declare it_drain.simps [simp del]

lemma it_drain_drop: "it_drain a it = drop (position it) a"
proof (induction a it rule: it_drain.induct)
  case (1 a it)
  show ?case
  proof (cases "it_atEnd a it")
    case False
    let ?it = "it\<lparr>position := position it + 1, element := Some (a ! position it)\<rparr>"
    have g: "it_get a it = (?it, Some (a ! position it))" using False by (simp add: it_get_def Let_def)
    have "it_drain a ?it = drop (position it + 1) a" using 1 [OF False g [symmetric]] by simp
    moreover have "position it < length a" using False by (simp add: it_atEnd_def)
    ultimately show ?thesis using False g by (simp add: it_drain.simps [of a it] Cons_nth_drop_Suc)
  qed (simp add: it_drain.simps it_atEnd_def)
qed

lemma it_drain_new [simp]: "it_drain a (Iterator_new truthy a) = a"
  by (simp add: it_drain_drop Iterator_new_def)

lemma it_map_eq [simp]: "it_map fn a = map fn a"
proof -
  have "it_map_loop fn a arr = arr @ map fn a" for arr by (induction a arbitrary: arr) auto
  then show ?thesis by (simp add: it_map_def)
qed

text \<open>
  \<open>DictionaryIterator\<close> copies the values of the object into an array of its own, leaving out the
  properties whose name \<open>Object.prototype\<close> has too; from then on it is an iterator over that array.
\<close>

definition dict_iter_array :: "'v obj \<Rightarrow> 'v list" where
  "dict_iter_array ob = map snd (filter (\<lambda>(p, _). \<not> inherited p) ob)"

definition DictionaryIterator_new :: "'v obj \<Rightarrow> 'v list \<times> 'v iterator" where
  "DictionaryIterator_new ob = (dict_iter_array ob, Iterator_new (\<lambda>_. True) (dict_iter_array ob))"

text \<open>
  An iterator visits every element once and in order, and the loop over it ends: reading
  \<open>get\<close> until \<open>atEnd\<close> gives the elements from the cursor on; after \<open>reset\<close> it gives all of them
  again, however far the iterator had advanced.
\<close>

lemma iterator_visits_all:
  "it_drain a (Iterator_new truthy a) = a \<and>
   it_drain a (it_reset a it) = a \<and>
   it_drain a it = drop (position it) a \<and>
   (case it_get a it of (it', x) \<Rightarrow>
      if it_atEnd a it then x = None \<and> it' = it else x = Some (a ! position it) \<and> element it' = x \<and>
        it_drain a it = a ! position it # it_drain a it')"
proof -
  have "\<not> it_atEnd a it \<Longrightarrow> drop (position it) a = a ! position it # drop (Suc (position it)) a"
    by (simp add: it_atEnd_def Cons_nth_drop_Suc)
  then show ?thesis by (simp add: it_drain_drop it_reset_def it_get_def Let_def Iterator_new_def)
qed

end
