(* ===== verification/Array_Collections.thy ===== *)
theory Array_Collections
  imports Collections
begin

text \<open>
  \<open>src/collections/ArrayList.js\<close>, \<open>Queue.js\<close>, \<open>Stack.js\<close> and \<open>Set.js\<close>: the collections over an
  array. Each object keeps its array and a public \<open>count\<close>; the contract \<open>counted\<close> says that the
  two agree after every operation, and \<open>fifo\<close> and \<open>lifo\<close> say in which order elements come back.
\<close>

section \<open>ArrayList\<close>

record 'a array_list =
  al_items :: "'a list"
  al_count :: int

definition al_put :: "'a list \<Rightarrow> 'a array_list \<Rightarrow> 'a array_list" where
  "al_put xs l = l\<lparr>al_items := xs, al_count := int (length xs)\<rparr>"

definition ArrayList_new :: "'a list option \<Rightarrow> 'a array_list" where
  "ArrayList_new arr =
     (let items = (case arr of None \<Rightarrow> [] | Some a \<Rightarrow> [] @ a)
      in \<lparr>al_items = items, al_count = int (length items)\<rparr>)"

definition al_add :: "'a \<Rightarrow> 'a array_list \<Rightarrow> 'a array_list" where
  "al_add ob l = al_put (al_items l @ [ob]) l"

text \<open>
  \<open>addRange\<close> takes a collection with an iterator or an array; the two branches add the elements one
  by one.
\<close>

fun al_add_all :: "'a list \<Rightarrow> 'a array_list \<Rightarrow> 'a array_list" where
  "al_add_all [] l = l"
| "al_add_all (x # xs) l = al_add_all xs (al_add x l)"

definition al_addRange_iter :: "'a list \<Rightarrow> 'a iterator \<Rightarrow> 'a array_list \<Rightarrow> 'a array_list" where
  "al_addRange_iter a e l = (let l' = al_add_all (it_drain a e) l in al_put (al_items l') l')"

definition al_addRange :: "'a list \<Rightarrow> 'a array_list \<Rightarrow> 'a array_list" where
  "al_addRange a l = al_put (foldl (\<lambda>items x. items @ [x]) (al_items l) a) l"

definition al_clear :: "'a array_list \<Rightarrow> 'a array_list" where
  "al_clear l = l\<lparr>al_items := js_splice (al_items l) 0 (int (length (al_items l))) [], al_count := 0\<rparr>"

definition al_clone :: "'a array_list \<Rightarrow> 'a array_list" where
  "al_clone l = ArrayList_new (Some (al_items l))"

definition al_contains :: "('a \<Rightarrow> 'a \<Rightarrow> bool) \<Rightarrow> 'a \<Rightarrow> 'a array_list \<Rightarrow> bool" where
  "al_contains eq ob l \<longleftrightarrow> list_ex (\<lambda>x. eq x ob) (al_items l)"

text \<open>A callback works on a state of its own and sees the element and its index.\<close>

fun for_each :: "('a \<Rightarrow> nat \<Rightarrow> 's \<Rightarrow> 's) \<Rightarrow> 'a list \<Rightarrow> nat \<Rightarrow> 's \<Rightarrow> 's" where
  "for_each fn [] i s = s"
| "for_each fn (x # xs) i s = for_each fn xs (i + 1) (fn x i s)"

definition al_forEach :: "('a \<Rightarrow> nat \<Rightarrow> 's \<Rightarrow> 's) \<Rightarrow> 'a array_list \<Rightarrow> 's \<Rightarrow> 's" where
  "al_forEach fn l s = for_each fn (al_items l) 0 s"

definition al_getIterator :: "('a \<Rightarrow> bool) \<Rightarrow> 'a array_list \<Rightarrow> 'a iterator" where
  "al_getIterator truthy l = Iterator_new truthy (al_items l)"

definition al_indexOf :: "('a \<Rightarrow> 'a \<Rightarrow> bool) \<Rightarrow> 'a \<Rightarrow> 'a array_list \<Rightarrow> int" where
  "al_indexOf eq ob l = scan_index (\<lambda>x. eq x ob) (al_items l) 0"

definition al_insert :: "int \<Rightarrow> 'a \<Rightarrow> 'a array_list \<Rightarrow> 'a array_list" where
  "al_insert i ob l = al_put (js_splice (al_items l) i 0 [ob]) l"

definition al_item :: "int \<Rightarrow> 'a array_list \<Rightarrow> 'a option" where
  "al_item i l = js_at (al_items l) i"

definition al_remove :: "('a \<Rightarrow> 'a \<Rightarrow> bool) \<Rightarrow> 'a \<Rightarrow> 'a array_list \<Rightarrow> 'a array_list" where
  "al_remove eq ob l =
     (let i = al_indexOf eq ob l
      in al_put (if i \<ge> 0 then js_splice (al_items l) i 1 [] else al_items l) l)"

definition al_removeAt :: "int \<Rightarrow> 'a array_list \<Rightarrow> 'a array_list" where
  "al_removeAt i l = al_put (js_splice (al_items l) i 1 []) l"

definition al_reverse :: "'a array_list \<Rightarrow> 'a array_list" where
  "al_reverse l = l\<lparr>al_items := rev (al_items l)\<rparr>"

text \<open>
  \<open>items.sort(fn)\<close>: the language leaves the order of elements that compare equal open, the model
  keeps it. \<open>fn a b\<close> is positive when \<open>a\<close> belongs after \<open>b\<close>.
\<close>

fun sort_insert :: "('a \<Rightarrow> 'a \<Rightarrow> int) \<Rightarrow> 'a \<Rightarrow> 'a list \<Rightarrow> 'a list" where
  "sort_insert fn x [] = [x]"
| "sort_insert fn x (y # ys) = (if fn x y > 0 then y # sort_insert fn x ys else x # y # ys)"

definition js_sort :: "('a \<Rightarrow> 'a \<Rightarrow> int) \<Rightarrow> 'a list \<Rightarrow> 'a list" where
  "js_sort fn xs = foldr (sort_insert fn) xs []"

definition al_sort :: "('a \<Rightarrow> 'a \<Rightarrow> int) \<Rightarrow> 'a array_list \<Rightarrow> 'a array_list" where
  "al_sort fn l = l\<lparr>al_items := js_sort fn (al_items l)\<rparr>"

text \<open>
  An assignment past the end leaves holes, whose value is the parameter \<open>undef\<close>; a negative index
  names a property and does not change the elements.
\<close>

definition al_setByIndex :: "'a \<Rightarrow> int \<Rightarrow> 'a \<Rightarrow> 'a array_list \<Rightarrow> 'a array_list" where
  "al_setByIndex undef i ob l =
     (if i < 0 then al_put (al_items l) l
      else al_put ((al_items l @ replicate (Suc (nat i) - length (al_items l)) undef)[nat i := ob]) l)"

definition al_toArray :: "'a array_list \<Rightarrow> 'a list" where
  "al_toArray l = [] @ al_items l"

definition al_toString :: "('a \<Rightarrow> string) \<Rightarrow> string option \<Rightarrow> 'a array_list \<Rightarrow> string" where
  "al_toString str delim l =
     join_with (case delim of Some d \<Rightarrow> if d = [] then '','' else d | None \<Rightarrow> '','') (map str (al_items l))"

section \<open>Queue and Stack\<close>

record 'a array_queue =
  q_items :: "'a list"
  q_count :: int

definition Queue_new :: "'a list option \<Rightarrow> 'a array_queue" where
  "Queue_new arr =
     (let q = (case arr of None \<Rightarrow> [] | Some a \<Rightarrow> [] @ a) in \<lparr>q_items = q, q_count = int (length q)\<rparr>)"

definition q_clear :: "'a array_queue \<Rightarrow> 'a array_queue" where
  "q_clear q = q\<lparr>q_items := [], q_count := int (length ([] :: 'a list))\<rparr>"

definition q_clone :: "'a array_queue \<Rightarrow> 'a array_queue" where
  "q_clone q = Queue_new (Some (q_items q))"

definition q_contains :: "('a \<Rightarrow> 'a \<Rightarrow> bool) \<Rightarrow> 'a \<Rightarrow> 'a array_queue \<Rightarrow> bool" where
  "q_contains eq ob q \<longleftrightarrow> list_ex (\<lambda>x. eq x ob) (q_items q)"

text \<open>
  \<open>arr.splice(i,0,q)\<close> inserts the array itself as one element. The elements of \<open>arr\<close> are
  therefore elements or arrays of elements.
\<close>

datatype 'a nested = Elem 'a | Arr "'a list"

definition q_copyTo :: "'a nested list \<Rightarrow> int \<Rightarrow> 'a array_queue \<Rightarrow> 'a nested list" where
  "q_copyTo arr i q = js_splice arr i 0 [Arr (q_items q)]"

definition q_dequeue :: "'a array_queue \<Rightarrow> 'a array_queue \<times> 'a option" where
  "q_dequeue q =
     (case q_items q of
        [] \<Rightarrow> (q\<lparr>q_count := int (length (q_items q))\<rparr>, None)
      | r # rest \<Rightarrow> (q\<lparr>q_items := rest, q_count := int (length rest)\<rparr>, Some r))"

definition q_enqueue :: "'a \<Rightarrow> 'a array_queue \<Rightarrow> 'a array_queue" where
  "q_enqueue ob q = q\<lparr>q_items := q_items q @ [ob], q_count := int (length (q_items q @ [ob]))\<rparr>"

definition q_forEach :: "('a \<Rightarrow> nat \<Rightarrow> 's \<Rightarrow> 's) \<Rightarrow> 'a array_queue \<Rightarrow> 's \<Rightarrow> 's" where
  "q_forEach fn q s = for_each fn (q_items q) 0 s"

definition q_getIterator :: "('a \<Rightarrow> bool) \<Rightarrow> 'a array_queue \<Rightarrow> 'a iterator" where
  "q_getIterator truthy q = Iterator_new truthy (q_items q)"

definition q_peek :: "'a array_queue \<Rightarrow> 'a option" where
  "q_peek q = js_at (q_items q) 0"

definition q_toArray :: "'a array_queue \<Rightarrow> 'a list" where
  "q_toArray q = [] @ q_items q"

record 'a array_stack =
  st_items :: "'a list"
  st_count :: int

definition Stack_new :: "'a list option \<Rightarrow> 'a array_stack" where
  "Stack_new arr =
     (let q = (case arr of None \<Rightarrow> [] | Some a \<Rightarrow> [] @ a) in \<lparr>st_items = q, st_count = int (length q)\<rparr>)"

definition st_clear :: "'a array_stack \<Rightarrow> 'a array_stack" where
  "st_clear s = s\<lparr>st_items := [], st_count := int (length ([] :: 'a list))\<rparr>"

definition st_clone :: "'a array_stack \<Rightarrow> 'a array_stack" where
  "st_clone s = Stack_new (Some (st_items s))"

definition st_contains :: "('a \<Rightarrow> 'a \<Rightarrow> bool) \<Rightarrow> 'a \<Rightarrow> 'a array_stack \<Rightarrow> bool" where
  "st_contains eq ob s \<longleftrightarrow> list_ex (\<lambda>x. eq x ob) (st_items s)"

definition st_copyTo :: "'a nested list \<Rightarrow> int \<Rightarrow> 'a array_stack \<Rightarrow> 'a nested list" where
  "st_copyTo arr i s = js_splice arr i 0 [Arr (st_items s)]"

definition st_forEach :: "('a \<Rightarrow> nat \<Rightarrow> 's \<Rightarrow> 's) \<Rightarrow> 'a array_stack \<Rightarrow> 's \<Rightarrow> 's" where
  "st_forEach fn q s = for_each fn (st_items q) 0 s"

definition st_getIterator :: "('a \<Rightarrow> bool) \<Rightarrow> 'a array_stack \<Rightarrow> 'a iterator" where
  "st_getIterator truthy s = Iterator_new truthy (st_items s)"

definition st_peek :: "'a array_stack \<Rightarrow> 'a option" where
  "st_peek s = js_at (st_items s) (int (length (st_items s)) - 1)"

definition st_pop :: "'a array_stack \<Rightarrow> 'a array_stack \<times> 'a option" where
  "st_pop s =
     (if st_items s = [] then (s\<lparr>st_count := int (length (st_items s))\<rparr>, None)
      else (s\<lparr>st_items := butlast (st_items s), st_count := int (length (butlast (st_items s)))\<rparr>,
            Some (last (st_items s))))"

definition st_push :: "'a \<Rightarrow> 'a array_stack \<Rightarrow> 'a array_stack" where
  "st_push ob s = s\<lparr>st_items := st_items s @ [ob], st_count := int (length (st_items s @ [ob]))\<rparr>"

definition st_toArray :: "'a array_stack \<Rightarrow> 'a list" where
  "st_toArray s = [] @ st_items s"

section \<open>Set\<close>

text \<open>
  The operations work on array-based collections, here lists of the elements (\<open>toArray\<close>); an
  argument without \<open>toArray\<close> is \<^term>\<open>None\<close> and raises.
\<close>

definition set_args :: "'a list option \<Rightarrow> 'a list option \<Rightarrow> ('a list \<Rightarrow> 'a list \<Rightarrow> 'b) \<Rightarrow> 'b result" where
  "set_args setA setB f =
     (case (setA, setB) of
        (Some a, Some b) \<Rightarrow> Inr (f a b)
      | _ \<Rightarrow> Inl (Raised ''Set operations can only be performed on array-based collections.''))"

fun union_loop :: "('a \<Rightarrow> 'a \<Rightarrow> bool) \<Rightarrow> 'a list \<Rightarrow> 'a array_list \<Rightarrow> 'a array_list" where
  "union_loop eq [] result = result"
| "union_loop eq (item # e) result =
     union_loop eq e (if \<not> al_contains eq item result then al_add item result else result)"

definition Set_union :: "('a \<Rightarrow> 'a \<Rightarrow> bool) \<Rightarrow> 'a list option \<Rightarrow> 'a list option \<Rightarrow> 'a array_list result" where
  "Set_union eq setA setB = set_args setA setB (\<lambda>a b. union_loop eq b (ArrayList_new (Some a)))"

fun select_loop :: "('a \<Rightarrow> bool) \<Rightarrow> 'a list \<Rightarrow> 'a array_list \<Rightarrow> 'a array_list" where
  "select_loop p [] result = result"
| "select_loop p (item # e) result = select_loop p e (if p item then al_add item result else result)"

definition Set_intersection :: "('a \<Rightarrow> 'a \<Rightarrow> bool) \<Rightarrow> 'a list option \<Rightarrow> 'a list option \<Rightarrow> 'a array_list result" where
  "Set_intersection eq setA setB =
     set_args setA setB (\<lambda>a b. select_loop (\<lambda>x. al_contains eq x (ArrayList_new (Some a))) b (ArrayList_new None))"

definition Set_difference :: "('a \<Rightarrow> 'a \<Rightarrow> bool) \<Rightarrow> 'a list option \<Rightarrow> 'a list option \<Rightarrow> 'a array_list result" where
  "Set_difference eq setA setB =
     set_args setA setB (\<lambda>a b. select_loop (\<lambda>x. \<not> al_contains eq x (ArrayList_new (Some b))) a (ArrayList_new None))"

fun all_contained :: "('a \<Rightarrow> 'a \<Rightarrow> bool) \<Rightarrow> 'a list \<Rightarrow> 'a array_list \<Rightarrow> bool" where
  "all_contained eq [] other = True"
| "all_contained eq (x # e) other = (if \<not> al_contains eq x other then False else all_contained eq e other)"

definition Set_isSubSet :: "('a \<Rightarrow> 'a \<Rightarrow> bool) \<Rightarrow> 'a list option \<Rightarrow> 'a list option \<Rightarrow> bool result" where
  "Set_isSubSet eq setA setB = set_args setA setB (\<lambda>a b. all_contained eq a (ArrayList_new (Some b)))"

definition Set_isSuperSet :: "('a \<Rightarrow> 'a \<Rightarrow> bool) \<Rightarrow> 'a list option \<Rightarrow> 'a list option \<Rightarrow> bool result" where
  "Set_isSuperSet eq setA setB = set_args setA setB (\<lambda>a b. all_contained eq b (ArrayList_new (Some a)))"

section \<open>The count\<close>

text \<open>
  A collection is counted when its public \<open>count\<close> is the number of its elements. An operation
  that keeps this keeps it through every sequence of operations.
\<close>

locale counted =
  fixes apply_op :: "'op \<Rightarrow> 's \<Rightarrow> 's" and contents :: "'s \<Rightarrow> 'a list" and count :: "'s \<Rightarrow> int"
  assumes op_counts: "count s = int (length (contents s)) \<Longrightarrow>
    count (apply_op oper s) = int (length (contents (apply_op oper s)))"
begin

lemma run_counts:
  "count s = int (length (contents s)) \<Longrightarrow> count (fold apply_op ops s) = int (length (contents (fold apply_op ops s)))"
  by (induction ops arbitrary: s) (simp_all add: op_counts)

end

datatype 'a al_op =
  Al_Add 'a | Al_AddRange "'a list" | Al_Clear | Al_Insert int 'a | Al_Remove 'a | Al_RemoveAt int
  | Al_Reverse | Al_Sort "'a \<Rightarrow> 'a \<Rightarrow> int" | Al_SetByIndex int 'a

fun al_apply :: "('a \<Rightarrow> 'a \<Rightarrow> bool) \<Rightarrow> 'a \<Rightarrow> 'a al_op \<Rightarrow> 'a array_list \<Rightarrow> 'a array_list" where
  "al_apply eq undef (Al_Add x) l = al_add x l"
| "al_apply eq undef (Al_AddRange xs) l = al_addRange xs l"
| "al_apply eq undef Al_Clear l = al_clear l"
| "al_apply eq undef (Al_Insert i x) l = al_insert i x l"
| "al_apply eq undef (Al_Remove x) l = al_remove eq x l"
| "al_apply eq undef (Al_RemoveAt i) l = al_removeAt i l"
| "al_apply eq undef Al_Reverse l = al_reverse l"
| "al_apply eq undef (Al_Sort fn) l = al_sort fn l"
| "al_apply eq undef (Al_SetByIndex i x) l = al_setByIndex undef i x l"

lemma al_put_simps [simp]: "al_items (al_put xs l) = xs" "al_count (al_put xs l) = int (length xs)"
  by (simp_all add: al_put_def)

lemma length_sort_insert: "length (sort_insert fn x ys) = Suc (length ys)"
  by (induction ys) auto

lemma length_js_sort [simp]: "length (js_sort fn xs) = length xs"
  by (induction xs) (simp_all add: js_sort_def length_sort_insert)

lemma al_apply_counts:
  "al_count l = int (length (al_items l)) \<Longrightarrow>
   al_count (al_apply eq undef oper l) = int (length (al_items (al_apply eq undef oper l)))"
  by (cases oper) (simp_all add: al_add_def al_addRange_def al_clear_def al_insert_def al_remove_def
      al_removeAt_def al_reverse_def al_sort_def al_setByIndex_def js_splice_clear Let_def)

interpretation al: counted "al_apply eq undef" al_items al_count for eq undef
  by unfold_locales (rule al_apply_counts)

datatype 'a q_op = Q_Enqueue 'a | Q_Dequeue | Q_Clear

fun q_apply :: "'a q_op \<Rightarrow> 'a array_queue \<Rightarrow> 'a array_queue" where
  "q_apply (Q_Enqueue x) q = q_enqueue x q"
| "q_apply Q_Dequeue q = fst (q_dequeue q)"
| "q_apply Q_Clear q = q_clear q"

interpretation queue: counted q_apply q_items q_count
proof unfold_locales
  fix s :: "'a array_queue" and oper
  show "q_count (q_apply oper s) = int (length (q_items (q_apply oper s)))"
    by (cases oper) (simp_all add: q_enqueue_def q_dequeue_def q_clear_def split: list.split)
qed

datatype 'a st_op = St_Push 'a | St_Pop | St_Clear

fun st_apply :: "'a st_op \<Rightarrow> 'a array_stack \<Rightarrow> 'a array_stack" where
  "st_apply (St_Push x) s = st_push x s"
| "st_apply St_Pop s = fst (st_pop s)"
| "st_apply St_Clear s = st_clear s"

interpretation stack: counted st_apply st_items st_count
proof unfold_locales
  fix s :: "'a array_stack" and oper
  show "st_count (st_apply oper s) = int (length (st_items (st_apply oper s)))"
    by (cases oper) (simp_all add: st_push_def st_pop_def st_clear_def)
qed

section \<open>The order of elements\<close>

text \<open>\<open>take_out rm n s\<close> is what \<open>n\<close> calls of the removing operation \<open>rm\<close> return.\<close>

fun take_out :: "('s \<Rightarrow> 's \<times> 'a option) \<Rightarrow> nat \<Rightarrow> 's \<Rightarrow> 'a option list" where
  "take_out rm 0 s = []"
| "take_out rm (Suc n) s = (case rm s of (s', r) \<Rightarrow> r # take_out rm n s')"

text \<open>A container from which elements leave in the order of the list \<open>order\<close>.\<close>

locale ordered_container =
  fixes rm :: "'s \<Rightarrow> 's \<times> 'a option" and order :: "'s \<Rightarrow> 'a list"
  assumes rm_some: "order s = x # xs \<Longrightarrow> snd (rm s) = Some x \<and> order (fst (rm s)) = xs"
    and rm_none: "order s = [] \<Longrightarrow> snd (rm s) = None \<and> order (fst (rm s)) = []"
begin

lemma take_out_order:
  "take_out rm n s = map Some (take n (order s)) @ replicate (n - length (order s)) None"
proof (induction n arbitrary: s)
  case (Suc n)
  obtain s' r where s': "rm s = (s', r)" by (cases "rm s")
  show ?case
  proof (cases "order s")
    case Nil
    then show ?thesis using rm_none [of s] Suc [of s'] s' by simp
  next
    case (Cons x xs)
    then show ?thesis using rm_some [of s x xs] Suc [of s'] s' by simp
  qed
qed simp

end

locale fifo = ordered_container rm order for rm :: "'s \<Rightarrow> 's \<times> 'a option" and order +
  fixes ins :: "'a \<Rightarrow> 's \<Rightarrow> 's"
  assumes ins_last: "order (ins x s) = order s @ [x]"
begin

lemma order_fold: "order (fold ins xs s) = order s @ xs"
  by (induction xs arbitrary: s) (simp_all add: ins_last)

lemma take_out_fifo:
  "take_out rm n (fold ins xs s) = map Some (take n (order s @ xs)) @ replicate (n - length (order s @ xs)) None"
  by (simp add: take_out_order order_fold)

end

locale lifo = ordered_container rm order for rm :: "'s \<Rightarrow> 's \<times> 'a option" and order +
  fixes ins :: "'a \<Rightarrow> 's \<Rightarrow> 's"
  assumes ins_first: "order (ins x s) = x # order s"
begin

lemma order_fold: "order (fold ins xs s) = rev xs @ order s"
  by (induction xs arbitrary: s) (simp_all add: ins_first)

lemma take_out_lifo:
  "take_out rm n (fold ins xs s) = map Some (take n (rev xs @ order s)) @ replicate (n - length (rev xs @ order s)) None"
  by (simp add: take_out_order order_fold)

end

interpretation queue_fifo: fifo q_dequeue q_items q_enqueue
  by unfold_locales (simp_all add: q_dequeue_def q_enqueue_def)

lemma rev_Cons_last: "rev xs = y # ys \<Longrightarrow> xs \<noteq> [] \<and> last xs = y \<and> rev (butlast xs) = ys"
  by (cases xs rule: rev_cases) auto

interpretation stack_lifo: lifo st_pop "\<lambda>s. rev (st_items s)" st_push
  by unfold_locales (auto simp: st_pop_def st_push_def dest: rev_Cons_last)

section \<open>Set operations\<close>

fun firsts :: "'a list \<Rightarrow> 'a list" where
  "firsts [] = []"
| "firsts (x # xs) = x # filter (\<lambda>y. y \<noteq> x) (firsts xs)"

lemma firsts_set: "set (firsts xs) = set xs" "distinct (firsts xs)"
  by (induction xs) auto

lemma contains_eq: "al_contains (=) x l \<longleftrightarrow> x \<in> set (al_items l)"
  by (auto simp: al_contains_def list_ex_iff)

lemma union_loop_items:
  "al_items (union_loop (=) b r) = al_items r @ filter (\<lambda>x. x \<notin> set (al_items r)) (firsts b)"
proof (induction b arbitrary: r)
  case (Cons x b)
  have f: "filter (\<lambda>y. y \<noteq> x \<and> y \<notin> set (al_items r)) (firsts b) = filter (\<lambda>y. y \<notin> set (al_items r)) (filter (\<lambda>y. y \<noteq> x) (firsts b))"
    by (simp add: conj_commute)
  show ?case
  proof (cases "x \<in> set (al_items r)")
    case True
    then have "filter (\<lambda>y. y \<notin> set (al_items r)) (filter (\<lambda>y. y \<noteq> x) (firsts b)) = filter (\<lambda>y. y \<notin> set (al_items r)) (firsts b)"
      by (auto intro!: filter_cong)
    with True Cons show ?thesis by (simp add: contains_eq)
  next
    case False
    with Cons show ?thesis by (simp add: contains_eq al_add_def conj_commute)
  qed
qed simp

lemma select_loop_items: "al_items (select_loop p e r) = al_items r @ filter p e"
  by (induction e arbitrary: r) (simp_all add: al_add_def)

lemma all_contained_eq: "all_contained (=) e other \<longleftrightarrow> set e \<subseteq> set (al_items other)"
  by (induction e) (auto simp: contains_eq)

lemma ArrayList_new_items [simp]: "al_items (ArrayList_new (Some a)) = a" "al_items (ArrayList_new None) = []"
  by (simp_all add: ArrayList_new_def)

section \<open>Properties\<close>

text \<open>
  The public \<open>count\<close> of an array list is the number of its elements, from its creation
  and through every sequence of its operations, indices out of range included.
\<close>

lemma array_list_count:
  "al_count (fold (al_apply eq undef) ops (ArrayList_new arr)) =
   int (length (al_items (fold (al_apply eq undef) ops (ArrayList_new arr))))"
  by (rule al.run_counts) (simp add: ArrayList_new_def Let_def)

text \<open>
  \<open>remove\<close> deletes exactly the first element that the comparison accepts and keeps all
  others in order; when there is none the list does not change. \<open>indexOf\<close> is the index of that
  element, or -1.
\<close>

theorem array_list_remove_first:
  "al_items (al_remove eq ob l) =
     takeWhile (\<lambda>x. \<not> eq x ob) (al_items l) @ tl (dropWhile (\<lambda>x. \<not> eq x ob) (al_items l)) \<and>
   al_indexOf eq ob l = (if al_contains eq ob l then int (length (takeWhile (\<lambda>x. \<not> eq x ob) (al_items l))) else - 1)"
proof (cases "\<exists>x \<in> set (al_items l). eq x ob")
  case True
  then obtain us x vs where s: "al_items l = us @ x # vs" "eq x ob" "\<forall>u \<in> set us. \<not> eq u ob"
    "al_indexOf eq ob l = int (length us)"
    using scan_index_split [of "al_items l" "\<lambda>x. eq x ob" 0] by (auto simp: al_indexOf_def)
  then have "al_items (al_remove eq ob l) = us @ vs"
    using js_splice_delete [of "length us" "al_items l"] by (simp add: al_remove_def)
  with s show ?thesis by (simp add: al_contains_def)
next
  case False
  then have "al_indexOf eq ob l = - 1" "\<not> al_contains eq ob l"
    using scan_index_none [of "al_items l" "\<lambda>x. eq x ob" 0] by (auto simp: al_indexOf_def al_contains_def list_ex_iff)
  moreover from this have "al_items (al_remove eq ob l) = al_items l" by (simp add: al_remove_def)
  moreover have "takeWhile (\<lambda>x. \<not> eq x ob) (al_items l) = al_items l" "dropWhile (\<lambda>x. \<not> eq x ob) (al_items l) = []"
    using False by (auto simp: takeWhile_eq_all_conv dropWhile_eq_Nil_conv)
  ultimately show ?thesis by (simp only: if_False list.sel append_Nil2 simp_thms)
qed

text \<open>
  A queue is first in, first out: after the elements \<open>ys\<close> of its constructor and any
  number of \<open>enqueue\<close> calls, \<open>n\<close> calls of \<open>dequeue\<close> return the first \<open>n\<close> elements in the order in
  which they came, then \<open>undefined\<close>.
\<close>

theorem queue_first_in_first_out:
  "take_out q_dequeue n (fold q_enqueue xs (Queue_new (Some ys))) =
   map Some (take n (ys @ xs)) @ replicate (n - length (ys @ xs)) None"
  using queue_fifo.take_out_fifo [of n xs "Queue_new (Some ys)"] by (simp add: Queue_new_def)

text \<open>A stack is last in, first out, with \<open>undefined\<close> once it is empty.\<close>

theorem stack_last_in_first_out:
  "take_out st_pop n (fold st_push xs (Stack_new (Some ys))) =
   map Some (take n (rev xs @ rev ys)) @ replicate (n - length (rev xs @ rev ys)) None"
  using stack_lifo.take_out_lifo [of n xs "Stack_new (Some ys)"] by (simp add: Stack_new_def)

text \<open>
  The set operations, for elements compared by equality: the union appends to the first
  set the elements of the second that it lacks, each once; intersection and difference select in
  order; \<open>isSubSet\<close> tests whether the first set is contained in the second, and an argument that is
  not array-based raises.
\<close>

theorem set_operations:
  "\<exists>u i d. Set_union (=) (Some a) (Some b) = Inr u \<and> al_items u = a @ filter (\<lambda>x. x \<notin> set a) (firsts b) \<and>
     set (al_items u) = set a \<union> set b \<and>
     Set_intersection (=) (Some a) (Some b) = Inr i \<and> al_items i = filter (\<lambda>x. x \<in> set a) b \<and>
     Set_difference (=) (Some a) (Some b) = Inr d \<and> al_items d = filter (\<lambda>x. x \<notin> set b) a \<and>
     Set_isSubSet (=) (Some a) (Some b) = Inr (set a \<subseteq> set b) \<and>
     Set_isSuperSet (=) (Some a) (Some b) = Inr (set b \<subseteq> set a) \<and>
     Set_union (=) None (Some b) = Inl (Raised ''Set operations can only be performed on array-based collections.'')"
  by (auto simp: Set_union_def Set_intersection_def Set_difference_def Set_isSubSet_def Set_isSuperSet_def set_args_def
      union_loop_items select_loop_items all_contained_eq contains_eq firsts_set)

end
