(* ===== verification/Dictionaries.thy ===== *)
theory Dictionaries
  imports Array_Collections "HOL-Library.Multiset"
begin

text \<open>
  \<open>src/collections/Dictionary.js\<close> and \<open>SortedList.js\<close>: tables from strings to values in a plain
  object. Keys that \<open>Object.prototype\<close> has too are special; the other keys are ordinary. The
  contract \<open>keyed_store\<close> is that of a finite map on ordinary keys.
\<close>

section \<open>Dictionary\<close>

record 'v dictionary =
  d_items :: "'v entry obj"
  d_count :: int

definition Dictionary_empty :: "'v dictionary" where
  "Dictionary_empty = \<lparr>d_items = [], d_count = 0\<rparr>"

definition dict_add :: "string \<Rightarrow> 'v \<Rightarrow> 'v dictionary \<Rightarrow> 'v dictionary" where
  "dict_add k v d =
     (let b = obj_in k (d_items d)
      in d\<lparr>d_items := obj_set (d_items d) k (DictionaryEntry k v),
           d_count := (if \<not> b then d_count d + 1 else d_count d)\<rparr>)"

definition dict_clear :: "'v dictionary \<Rightarrow> 'v dictionary" where
  "dict_clear d = d\<lparr>d_items := [], d_count := 0\<rparr>"

definition dict_getIterator :: "'v dictionary \<Rightarrow> 'v entry list \<times> 'v entry iterator" where
  "dict_getIterator d = DictionaryIterator_new (d_items d)"

text \<open>\<open>while(e.get())\<close>: entries are objects, so the loop runs until the end of the array.\<close>

definition dict_entries :: "'v dictionary \<Rightarrow> 'v entry list" where
  "dict_entries d = (case dict_getIterator d of (a, e) \<Rightarrow> it_drain a e)"

definition Dictionary_new :: "'v dictionary option \<Rightarrow> 'v dictionary" where
  "Dictionary_new dic =
     (case dic of None \<Rightarrow> Dictionary_empty
      | Some d \<Rightarrow> fold (\<lambda>e. dict_add (ekey e) (evalue e)) (dict_entries d) Dictionary_empty)"

definition dict_clone :: "'v dictionary \<Rightarrow> 'v dictionary" where
  "dict_clone d = Dictionary_new (Some d)"

definition dict_containsKey :: "string \<Rightarrow> 'v dictionary \<Rightarrow> bool" where
  "dict_containsKey k d \<longleftrightarrow>
     (if inherited k then False else case obj_get (d_items d) k of Undefined \<Rightarrow> False | _ \<Rightarrow> True)"

definition dict_containsValue :: "('v \<Rightarrow> 'v \<Rightarrow> bool) \<Rightarrow> 'v \<Rightarrow> 'v dictionary \<Rightarrow> bool" where
  "dict_containsValue eq v d \<longleftrightarrow> list_ex (\<lambda>e. eq (evalue e) v) (dict_entries d)"

definition dict_entry :: "string \<Rightarrow> 'v dictionary \<Rightarrow> 'v entry prop_value" where
  "dict_entry k d = obj_get (d_items d) k"

definition dict_forEach :: "('v entry \<Rightarrow> nat \<Rightarrow> 's \<Rightarrow> 's) \<Rightarrow> 'v dictionary \<Rightarrow> 's \<Rightarrow> 's" where
  "dict_forEach fn d s = for_each fn (dict_iter_array (d_items d)) 0 s"

definition dict_getKeyList :: "'v dictionary \<Rightarrow> string list" where
  "dict_getKeyList d = it_map ekey (fst (dict_getIterator d))"

definition dict_getValueList :: "'v dictionary \<Rightarrow> 'v list" where
  "dict_getValueList d = it_map evalue (fst (dict_getIterator d))"

text \<open>\<open>valueOf\<close> of an entry is its value; \<open>valueOf\<close> of an inherited function is the function.\<close>

definition dict_item :: "string \<Rightarrow> 'v dictionary \<Rightarrow> 'v prop_value" where
  "dict_item k d =
     (if obj_in k (d_items d)
      then (case obj_get (d_items d) k of
              Own e \<Rightarrow> Own (entry_valueOf e) | Inherited f \<Rightarrow> Inherited f | Undefined \<Rightarrow> Undefined)
      else Undefined)"

definition dict_remove :: "string \<Rightarrow> 'v dictionary \<Rightarrow> 'v dictionary \<times> bool" where
  "dict_remove k d =
     (if obj_in k (d_items d) \<and> \<not> inherited k
      then (d\<lparr>d_items := obj_delete (d_items d) k, d_count := d_count d - 1\<rparr>, True)
      else (d, False))"

section \<open>SortedList\<close>

record 'v sorted_list =
  s_items :: "'v entry obj"
  s_q :: "'v entry list"
  s_count :: int

definition sorter :: "'v entry \<Rightarrow> 'v entry \<Rightarrow> int" where
  "sorter a b = (if ekey a > ekey b then 1 else if ekey a < ekey b then - 1 else 0)"

definition sl_entries :: "'v sorted_list \<Rightarrow> 'v entry list" where
  "sl_entries s = (case DictionaryIterator_new (s_items s) of (a, e) \<Rightarrow> it_drain a e)"

definition sl_build :: "'v sorted_list \<Rightarrow> 'v sorted_list" where
  "sl_build s = s\<lparr>s_q := js_sort sorter (sl_entries s)\<rparr>"

definition SortedList_empty :: "'v sorted_list" where
  "SortedList_empty = \<lparr>s_items = [], s_q = [], s_count = 0\<rparr>"

text \<open>The constructor fills both collections from the entries of its argument and sorts.\<close>

fun sl_fill :: "'v entry list \<Rightarrow> 'v sorted_list \<Rightarrow> 'v sorted_list" where
  "sl_fill [] s = s"
| "sl_fill (item # es) s =
     (let e = DictionaryEntry (ekey item) (evalue item)
      in sl_fill es (s\<lparr>s_items := obj_set (s_items s) (ekey item) e, s_q := s_q s @ [e]\<rparr>))"

definition SortedList_new :: "'v entry list option \<Rightarrow> 'v sorted_list" where
  "SortedList_new dic =
     (case dic of None \<Rightarrow> SortedList_empty
      | Some es \<Rightarrow> (let s = sl_fill es SortedList_empty in s\<lparr>s_q := js_sort sorter (s_q s)\<rparr>))"

definition sl_add :: "string \<Rightarrow> 'v \<Rightarrow> 'v sorted_list \<Rightarrow> 'v sorted_list" where
  "sl_add k v s =
     (case obj_get (s_items s) k of
        Undefined \<Rightarrow>
          (let e = DictionaryEntry k v; q = s_q s @ [e]
           in s\<lparr>s_items := obj_set (s_items s) k e, s_q := js_sort sorter q, s_count := int (length q)\<rparr>)
      | _ \<Rightarrow> s)"

definition sl_clear :: "'v sorted_list \<Rightarrow> 'v sorted_list" where
  "sl_clear s = s\<lparr>s_items := [], s_q := [], s_count := int (length ([] :: 'v entry list))\<rparr>"

definition sl_clone :: "'v sorted_list \<Rightarrow> 'v sorted_list" where
  "sl_clone s = SortedList_new (Some (sl_entries s))"

definition sl_containsKey :: "string \<Rightarrow> 'v sorted_list \<Rightarrow> bool" where
  "sl_containsKey k s \<longleftrightarrow>
     (if inherited k then False else case obj_get (s_items s) k of Undefined \<Rightarrow> False | _ \<Rightarrow> True)"

definition sl_containsValue :: "('v \<Rightarrow> 'v \<Rightarrow> bool) \<Rightarrow> 'v \<Rightarrow> 'v sorted_list \<Rightarrow> bool" where
  "sl_containsValue eq v s \<longleftrightarrow> list_ex (\<lambda>e. eq (evalue e) v) (sl_entries s)"

fun copy_loop :: "'a list \<Rightarrow> 'a list \<Rightarrow> int \<Rightarrow> 'a list" where
  "copy_loop [] arr idx = arr"
| "copy_loop (e # es) arr idx = copy_loop es (js_splice arr idx 0 [e]) (idx + 1)"

definition sl_copyTo :: "'v entry list \<Rightarrow> int \<Rightarrow> 'v sorted_list \<Rightarrow> 'v entry list" where
  "sl_copyTo arr i s = copy_loop (sl_entries s) arr i"

definition sl_entry :: "string \<Rightarrow> 'v sorted_list \<Rightarrow> 'v entry prop_value" where
  "sl_entry k s = obj_get (s_items s) k"

definition sl_forEach :: "('v entry \<Rightarrow> nat \<Rightarrow> 's \<Rightarrow> 's) \<Rightarrow> 'v sorted_list \<Rightarrow> 's \<Rightarrow> 's" where
  "sl_forEach fn l s = for_each fn (s_q l) 0 s"

text \<open>Reading a property of a missing element of \<open>q\<close> is an error.\<close>

definition q_at :: "'v sorted_list \<Rightarrow> int \<Rightarrow> 'v entry result" where
  "q_at s i = (case js_at (s_q s) i of Some e \<Rightarrow> Inr e | None \<Rightarrow> Inl TypeError)"

definition sl_getByIndex :: "int \<Rightarrow> 'v sorted_list \<Rightarrow> 'v result" where
  "sl_getByIndex i s = rbind (q_at s i) (\<lambda>e. Inr (entry_valueOf e))"

definition sl_getKey :: "int \<Rightarrow> 'v sorted_list \<Rightarrow> string result" where
  "sl_getKey i s = rbind (q_at s i) (\<lambda>e. Inr (ekey e))"

definition sl_getKeyList :: "'v sorted_list \<Rightarrow> string list" where
  "sl_getKeyList s = map ekey (sl_entries s)"

definition sl_getValueList :: "'v sorted_list \<Rightarrow> 'v list" where
  "sl_getValueList s = map evalue (sl_entries s)"

definition sl_indexOfKey :: "string \<Rightarrow> 'v sorted_list \<Rightarrow> int" where
  "sl_indexOfKey k s = scan_index (\<lambda>e. ekey e = k) (s_q s) 0"

definition sl_indexOfValue :: "('v \<Rightarrow> 'v \<Rightarrow> bool) \<Rightarrow> 'v \<Rightarrow> 'v sorted_list \<Rightarrow> int" where
  "sl_indexOfValue eq v s = scan_index (\<lambda>e. eq (evalue e) v) (s_q s) 0"

definition sl_item :: "string \<Rightarrow> 'v sorted_list \<Rightarrow> 'v option" where
  "sl_item k s =
     (if obj_in k (s_items s) \<and> \<not> inherited k
      then (case obj_get (s_items s) k of Own e \<Rightarrow> Some (entry_valueOf e) | _ \<Rightarrow> None) else None)"

definition sl_recount :: "'v sorted_list \<Rightarrow> 'v sorted_list" where
  "sl_recount s = s\<lparr>s_count := int (length (s_q s))\<rparr>"

definition sl_remove :: "string \<Rightarrow> 'v sorted_list \<Rightarrow> 'v sorted_list" where
  "sl_remove k s = sl_recount (sl_build (s\<lparr>s_items := obj_delete (s_items s) k\<rparr>))"

definition sl_removeAt :: "int \<Rightarrow> 'v sorted_list \<Rightarrow> 'v sorted_list result" where
  "sl_removeAt i s = rbind (q_at s i) (\<lambda>e. Inr (sl_remove (ekey e) s))"

definition sl_replace :: "string \<Rightarrow> 'v \<Rightarrow> 'v sorted_list \<Rightarrow> 'v sorted_list \<times> bool" where
  "sl_replace k v s =
     (case obj_get (s_items s) k of
        Undefined \<Rightarrow> (sl_add k v s, False)
      | _ \<Rightarrow> (s\<lparr>s_items := obj_set (s_items s) k (DictionaryEntry k v), s_q := js_sort sorter (s_q s)\<rparr>, True))"

definition sl_setByIndex :: "int \<Rightarrow> 'v \<Rightarrow> 'v sorted_list \<Rightarrow> 'v sorted_list result" where
  "sl_setByIndex i v s =
     rbind (q_at s i) (\<lambda>e.
       case obj_get (s_items s) (ekey e) of
         Own e' \<Rightarrow> Inr (sl_recount (sl_build (s\<lparr>s_items := obj_set (s_items s) (ekey e) (e'\<lparr>evalue := v\<rparr>)\<rparr>)))
       | _ \<Rightarrow> Inl TypeError)"

section \<open>Facts about iteration and sorting\<close>

lemma dict_entries_eq [simp]: "dict_entries d = dict_iter_array (d_items d)"
  by (simp add: dict_entries_def dict_getIterator_def DictionaryIterator_new_def)

lemma sl_entries_eq [simp]: "sl_entries s = dict_iter_array (s_items s)"
  by (simp add: sl_entries_def DictionaryIterator_new_def)

lemma map_ekey_sort_insert: "map ekey (sort_insert sorter e es) = insort (ekey e) (map ekey es)"
  by (induction es) (auto simp: sorter_def)

lemma map_ekey_js_sort: "map ekey (js_sort sorter es) = sort (map ekey es)"
  by (induction es) (simp_all add: js_sort_def map_ekey_sort_insert)

lemma mset_sort_insert: "mset (sort_insert fn x ys) = add_mset x (mset ys)"
  by (induction ys) auto

lemma mset_js_sort [simp]: "mset (js_sort fn xs) = mset xs"
  by (induction xs) (simp_all add: js_sort_def mset_sort_insert)

lemma obj_set_absent: "map_of ob k = None \<Longrightarrow> obj_set ob k v = ob @ [(k, v)]"
  by (induction ob k v rule: obj_set.induct) (auto split: if_splits)

lemma keys_obj_set_present: "map_of ob k \<noteq> None \<Longrightarrow> map fst (obj_set ob k v) = map fst ob"
  by (induction ob k v rule: obj_set.induct) auto

definition keyed :: "'v entry obj \<Rightarrow> bool" where
  "keyed ob \<longleftrightarrow> (\<forall>(k, e) \<in> set ob. ekey e = k)"

lemma set_obj_set: "set (obj_set ob k v) \<subseteq> insert (k, v) (set ob)"
  by (induction ob k v rule: obj_set.induct) auto

lemma keyed_obj_set: "keyed ob \<Longrightarrow> ekey e = k \<Longrightarrow> keyed (obj_set ob k e)"
  using set_obj_set [of ob k e] by (auto simp: keyed_def)

lemma keyed_obj_delete: "keyed ob \<Longrightarrow> keyed (obj_delete ob k)"
  by (auto simp: keyed_def obj_delete_def)

lemma keyed_get: "keyed ob \<Longrightarrow> map_of ob k = Some e \<Longrightarrow> ekey e = k"
  by (auto simp: keyed_def dest: map_of_SomeD)

lemma keys_dict_iter_array:
  "keyed ob \<Longrightarrow> map ekey (dict_iter_array ob) = filter (\<lambda>k. \<not> inherited k) (map fst ob)"
  unfolding keyed_def dict_iter_array_def by (induction ob) (auto split: if_splits)

section \<open>Finite maps on ordinary keys\<close>

locale keyed_store =
  fixes lookup :: "'s \<Rightarrow> string \<Rightarrow> 'v option" and put :: "string \<Rightarrow> 'v \<Rightarrow> 's \<Rightarrow> 's" and del :: "string \<Rightarrow> 's \<Rightarrow> 's"
    and ok :: "'s \<Rightarrow> bool"
  assumes lookup_put: "ok s \<Longrightarrow> \<not> inherited k \<Longrightarrow> lookup (put k v s) = (lookup s)(k \<mapsto> v)"
    and lookup_del: "ok s \<Longrightarrow> \<not> inherited k \<Longrightarrow> lookup (del k s) = (lookup s)(k := None)"
    and ok_put: "ok s \<Longrightarrow> \<not> inherited k \<Longrightarrow> ok (put k v s)"
    and ok_del: "ok s \<Longrightarrow> \<not> inherited k \<Longrightarrow> ok (del k s)"
begin

lemma put_all:
  "ok s \<Longrightarrow> \<forall>(k, v) \<in> set kvs. \<not> inherited k \<Longrightarrow>
   lookup (fold (\<lambda>(k, v). put k v) kvs s) = lookup s ++ map_of (rev kvs) \<and> ok (fold (\<lambda>(k, v). put k v) kvs s)"
proof (induction kvs arbitrary: s)
  case (Cons kv kvs)
  obtain k v where kv: "kv = (k, v)" by (cases kv)
  then have "\<not> inherited k" using Cons.prems by auto
  then show ?case
    using Cons.IH [of "put k v s"] Cons.prems kv by (auto simp: ok_put lookup_put map_add_def fun_eq_iff split: option.splits)
qed simp

lemma del_put: "ok s \<Longrightarrow> \<not> inherited k \<Longrightarrow> lookup s k = None \<Longrightarrow> lookup (del k (put k v s)) = lookup s"
  by (auto simp: lookup_put lookup_del ok_put)

end

section \<open>Dictionary as a finite map\<close>

definition dict_ok :: "'v dictionary \<Rightarrow> bool" where
  "dict_ok d \<longleftrightarrow> obj_ok (d_items d) \<and> keyed (d_items d) \<and> d_count d = int (length (dict_iter_array (d_items d)))"

definition dict_lookup :: "'v dictionary \<Rightarrow> string \<Rightarrow> 'v option" where
  "dict_lookup d k = (case dict_item k d of Own v \<Rightarrow> Some v | _ \<Rightarrow> None)"

lemma dict_lookup_eq: "dict_lookup d = map_option evalue \<circ> map_of (d_items d)"
  by (rule ext) (auto simp: dict_lookup_def dict_item_def obj_in_def obj_get_def entry_valueOf_def split: option.splits)

lemma length_iter_obj_set:
  "length (dict_iter_array (obj_set ob k v)) = length (dict_iter_array ob) + (if obj_in k ob then 0 else 1)"
  unfolding dict_iter_array_def obj_in_def by (induction ob k v rule: obj_set.induct) auto

lemma obj_delete_Cons: "obj_delete ((k', v) # ob) k = (if k' = k then obj_delete ob k else (k', v) # obj_delete ob k)"
  by (simp add: obj_delete_def)

lemma dict_iter_array_Cons:
  "dict_iter_array ((k', v) # ob) = (if inherited k' then dict_iter_array ob else v # dict_iter_array ob)"
  by (simp add: dict_iter_array_def)

lemma length_iter_obj_delete:
  assumes "obj_ok ob" "\<not> inherited k"
  shows "int (length (dict_iter_array (obj_delete ob k))) = int (length (dict_iter_array ob)) - (if map_of ob k = None then 0 else 1)"
  using assms
proof (induction ob)
  case (Cons p ob)
  obtain k' v where p: "p = (k', v)" by (cases p)
  show ?case
  proof (cases "k' = k")
    case True
    with Cons.prems p have "map_of ob k = None" by (auto simp: obj_ok_def map_of_eq_None_iff image_iff)
    with True p Cons.prems obj_delete_absent [of ob k] show ?thesis
      by (simp add: obj_delete_Cons dict_iter_array_Cons)
  next
    case False
    have "obj_ok ob" using Cons.prems by (simp add: obj_ok_def)
    with False Cons p show ?thesis
      by (cases "map_of ob k") (simp_all add: obj_delete_Cons dict_iter_array_Cons)
  qed
qed (simp add: obj_delete_def dict_iter_array_def)

lemma dict_ok_add: "dict_ok d \<Longrightarrow> dict_ok (dict_add k v d)"
  by (auto simp: dict_ok_def dict_add_def Let_def obj_ok_set keyed_obj_set DictionaryEntry_def length_iter_obj_set)

lemma dict_ok_remove: "dict_ok d \<Longrightarrow> dict_ok (fst (dict_remove k d))"
  by (auto simp: dict_ok_def dict_remove_def obj_ok_delete keyed_obj_delete length_iter_obj_delete obj_in_def)

lemma dict_ok_empty: "dict_ok Dictionary_empty"
  by (simp add: dict_ok_def Dictionary_empty_def obj_ok_def keyed_def dict_iter_array_def)

lemma dict_lookup_add: "dict_lookup (dict_add k v d) = (dict_lookup d)(k \<mapsto> v)"
  by (rule ext) (simp add: dict_lookup_eq dict_add_def Let_def map_of_obj_set DictionaryEntry_def)

lemma dict_lookup_remove: "\<not> inherited k \<Longrightarrow> dict_lookup (fst (dict_remove k d)) = (dict_lookup d)(k := None)"
  by (rule ext) (auto simp: dict_lookup_eq dict_remove_def obj_in_def map_of_obj_delete)

interpretation dictionary: keyed_store dict_lookup dict_add "\<lambda>k d. fst (dict_remove k d)" dict_ok
  by unfold_locales (simp_all add: dict_lookup_add dict_lookup_remove dict_ok_add dict_ok_remove)

datatype 'v dict_op = D_Add string 'v | D_Remove string | D_Clear

fun dict_apply :: "'v dict_op \<Rightarrow> 'v dictionary \<Rightarrow> 'v dictionary" where
  "dict_apply (D_Add k v) d = dict_add k v d"
| "dict_apply (D_Remove k) d = fst (dict_remove k d)"
| "dict_apply D_Clear d = dict_clear d"

lemma dict_ok_apply: "dict_ok d \<Longrightarrow> dict_ok (dict_apply oper d)"
proof (cases oper)
  case D_Clear
  then show ?thesis by (simp add: dict_ok_def dict_clear_def obj_ok_def keyed_def dict_iter_array_def)
qed (simp_all add: dict_ok_add dict_ok_remove)

lemma dict_ok_run: "dict_ok d \<Longrightarrow> dict_ok (fold dict_apply ops d)"
  by (induction ops arbitrary: d) (simp_all add: dict_ok_apply)

lemma dict_key_list: "dict_ok d \<Longrightarrow> dict_getKeyList d = filter (\<lambda>k. \<not> inherited k) (map fst (d_items d))"
  by (simp add: dict_getKeyList_def dict_getIterator_def DictionaryIterator_new_def keys_dict_iter_array dict_ok_def)

section \<open>SortedList as a sorted finite map\<close>

definition sl_ok :: "'v sorted_list \<Rightarrow> bool" where
  "sl_ok s \<longleftrightarrow> obj_ok (s_items s) \<and> keyed (s_items s) \<and> (\<forall>k \<in> set (map fst (s_items s)). \<not> inherited k) \<and>
     map ekey (s_q s) = sort (map fst (s_items s)) \<and> s_count s = int (length (s_q s))"

text \<open>No entry of the index is out of date.\<close>

definition sl_current :: "'v sorted_list \<Rightarrow> bool" where
  "sl_current s \<longleftrightarrow> mset (s_q s) = mset (map snd (s_items s))"

lemma iter_ordinary: "\<forall>k \<in> set (map fst ob). \<not> inherited k \<Longrightarrow> dict_iter_array ob = map snd ob"
  unfolding dict_iter_array_def by (induction ob) auto

lemma sort_snoc_sort: "sort (sort xs @ [x]) = sort (xs @ [x])" for xs :: "'a :: linorder list"
  by (rule properties_for_sort) simp_all

lemma sort_idem: "sort (sort xs) = sort xs" for xs :: "'a :: linorder list"
  by (rule properties_for_sort) simp_all

lemma sl_ok_rebuild:
  assumes "obj_ok ob" "keyed ob" "\<forall>k \<in> set (map fst ob). \<not> inherited k"
  shows "sl_ok (sl_recount (sl_build (s\<lparr>s_items := ob\<rparr>)))" "sl_current (sl_recount (sl_build (s\<lparr>s_items := ob\<rparr>)))"
proof -
  have "map ekey (js_sort sorter (dict_iter_array ob)) = sort (map fst ob)"
    using assms by (simp add: map_ekey_js_sort keys_dict_iter_array filter_True)
  then show "sl_ok (sl_recount (sl_build (s\<lparr>s_items := ob\<rparr>)))"
    using assms by (simp add: sl_ok_def sl_recount_def sl_build_def)
  show "sl_current (sl_recount (sl_build (s\<lparr>s_items := ob\<rparr>)))"
    using assms(3) by (simp add: sl_current_def sl_recount_def sl_build_def iter_ordinary)
qed

lemma obj_get_cases:
  "obj_get ob k = Undefined \<longleftrightarrow> map_of ob k = None \<and> \<not> inherited k"
  "obj_get ob k = Own v \<longleftrightarrow> map_of ob k = Some v"
  by (auto simp: obj_get_def split: option.splits)

lemma sl_ok_add: "sl_ok s \<Longrightarrow> sl_ok (sl_add k v s)"
proof (cases "obj_get (s_items s) k")
  case Undefined
  then have u: "map_of (s_items s) k = None" "\<not> inherited k" by (simp_all add: obj_get_cases)
  assume s: "sl_ok s"
  let ?e = "DictionaryEntry k v"
  have "obj_ok (obj_set (s_items s) k ?e)" "keyed (obj_set (s_items s) k ?e)"
    using s by (simp_all add: sl_ok_def obj_ok_set keyed_obj_set DictionaryEntry_def)
  moreover have "ekey ?e = k" by (simp add: DictionaryEntry_def)
  ultimately show ?thesis
    using s u sort_snoc_sort [of "map fst (s_items s)" k]
    by (auto simp: sl_add_def Undefined Let_def sl_ok_def obj_set_absent map_ekey_js_sort)
qed (simp_all add: sl_add_def)

lemma sl_current_add: "sl_current s \<Longrightarrow> sl_current (sl_add k v s)"
  by (auto simp: sl_current_def sl_add_def obj_get_cases obj_set_absent Let_def split: prop_value.split)

lemma sl_ok_remove:
  assumes "sl_ok s"
  shows "sl_ok (sl_remove k s)" "sl_current (sl_remove k s)"
proof -
  let ?ob = "obj_delete (s_items s) k"
  have ob: "obj_ok ?ob" "keyed ?ob" "\<forall>k \<in> set (map fst ?ob). \<not> inherited k"
    using assms by (auto simp: sl_ok_def obj_ok_delete keyed_obj_delete) (auto simp: obj_delete_def)
  then show "sl_ok (sl_remove k s)" "sl_current (sl_remove k s)"
    unfolding sl_remove_def by (rule sl_ok_rebuild)+
qed

lemma sl_ok_setByIndex:
  assumes "sl_ok s" "sl_setByIndex i v s = Inr s'"
  shows "sl_ok s' \<and> sl_current s'"
proof -
  obtain e where e: "q_at s i = Inr e" using assms(2) by (cases "q_at s i") (simp_all add: sl_setByIndex_def)
  obtain e' where e': "obj_get (s_items s) (ekey e) = Own e'"
    using assms(2) e by (cases "obj_get (s_items s) (ekey e)") (simp_all add: sl_setByIndex_def)
  let ?ob = "obj_set (s_items s) (ekey e) (e'\<lparr>evalue := v\<rparr>)"
  have p: "map_of (s_items s) (ekey e) = Some e'" using e' by (simp add: obj_get_cases)
  then have "ekey e' = ekey e" using assms(1) keyed_get [of "s_items s" "ekey e" e'] by (simp add: sl_ok_def)
  then have ob: "obj_ok ?ob" "keyed ?ob" "\<forall>k \<in> set (map fst ?ob). \<not> inherited k"
    using assms(1) p keys_obj_set_present [of "s_items s" "ekey e" "e'\<lparr>evalue := v\<rparr>"]
    by (simp_all only: sl_ok_def obj_ok_set keyed_obj_set) (simp_all add: keyed_obj_set)
  have "s' = sl_recount (sl_build (s\<lparr>s_items := ?ob\<rparr>))" using assms(2) e e' by (simp add: sl_setByIndex_def)
  with sl_ok_rebuild [OF ob] show ?thesis by simp
qed

lemma sl_ok_replace: "sl_ok s \<Longrightarrow> \<not> inherited k \<Longrightarrow> sl_ok (fst (sl_replace k v s))"
proof (cases "obj_get (s_items s) k")
  case (Own e)
  then have "map_of (s_items s) k \<noteq> None" by (simp add: obj_get_cases)
  then show "sl_ok s \<Longrightarrow> ?thesis"
    by (auto simp: sl_replace_def Own sl_ok_def obj_ok_set keyed_obj_set DictionaryEntry_def keys_obj_set_present
        map_ekey_js_sort sort_idem)
next
  case (Inherited f)
  then show "\<not> inherited k \<Longrightarrow> ?thesis" by (auto simp: obj_get_def split: option.splits if_splits)
qed (simp add: sl_replace_def sl_ok_add)

lemma sl_item_eq: "\<not> inherited k \<Longrightarrow> sl_item k s = map_option evalue (map_of (s_items s) k)"
  by (auto simp: sl_item_def obj_in_def obj_get_def entry_valueOf_def split: option.splits)

lemma sl_item_inherited: "inherited k \<Longrightarrow> sl_item k s = None"
  by (simp add: sl_item_def)

lemma sl_item_add:
  assumes "map_of (s_items s) k = None" "\<not> inherited k"
  shows "sl_item k' (sl_add k v s) = (if k' = k then Some v else sl_item k' s)"
proof (cases "inherited k'")
  case False
  then show ?thesis using assms
    by (auto simp: sl_item_eq sl_add_def obj_get_def Let_def map_of_obj_set DictionaryEntry_def)
qed (use assms in \<open>auto simp: sl_item_inherited\<close>)

lemma sl_item_replace:
  "\<not> inherited k \<Longrightarrow> sl_item k' (fst (sl_replace k v s)) = (if k' = k then Some v else sl_item k' s)"
proof (cases "inherited k'")
  case True
  then show "\<not> inherited k \<Longrightarrow> ?thesis" by (auto simp: sl_item_inherited)
next
  case False
  assume k: "\<not> inherited k"
  show ?thesis
  proof (cases "map_of (s_items s) k")
    case None
    then show ?thesis using k sl_item_add [of s k k' v] by (simp add: sl_replace_def obj_get_def)
  next
    case (Some e)
    then show ?thesis using k False
      by (simp add: sl_replace_def obj_get_def sl_item_eq map_of_obj_set DictionaryEntry_def)
  qed
qed

lemma sl_item_remove: "sl_item k' (sl_remove k s) = (if k' = k then None else sl_item k' s)"
proof (cases "inherited k'")
  case False
  then show ?thesis
    by (simp add: sl_item_eq sl_remove_def sl_recount_def sl_build_def map_of_obj_delete)
qed (simp add: sl_item_inherited)

interpretation sorted_list: keyed_store "\<lambda>s k. sl_item k s" "\<lambda>k v s. fst (sl_replace k v s)" sl_remove sl_ok
  by unfold_locales (auto simp: sl_item_replace sl_item_remove sl_ok_replace sl_ok_remove fun_eq_iff)

datatype 'v sl_op = S_Add string 'v | S_Remove string | S_RemoveAt int | S_Replace string 'v | S_SetByIndex int 'v | S_Clear

definition keep_on_error :: "'s \<Rightarrow> 's result \<Rightarrow> 's" where
  "keep_on_error s r = (case r of Inl _ \<Rightarrow> s | Inr s' \<Rightarrow> s')"

fun sl_apply :: "'v sl_op \<Rightarrow> 'v sorted_list \<Rightarrow> 'v sorted_list" where
  "sl_apply (S_Add k v) s = sl_add k v s"
| "sl_apply (S_Remove k) s = sl_remove k s"
| "sl_apply (S_RemoveAt i) s = keep_on_error s (sl_removeAt i s)"
| "sl_apply (S_Replace k v) s = fst (sl_replace k v s)"
| "sl_apply (S_SetByIndex i v) s = keep_on_error s (sl_setByIndex i v s)"
| "sl_apply S_Clear s = sl_clear s"

fun sl_op_ok :: "'v sl_op \<Rightarrow> bool" where
  "sl_op_ok (S_Replace k v) = (\<not> inherited k)"
| "sl_op_ok _ = True"

lemma sl_ok_apply: "sl_ok s \<Longrightarrow> sl_op_ok oper \<Longrightarrow> sl_ok (sl_apply oper s)"
proof (cases oper)
  case (S_RemoveAt i)
  assume "sl_ok s"
  then show ?thesis
    using sl_ok_remove(1) [of s] by (cases "q_at s i") (simp_all add: S_RemoveAt keep_on_error_def sl_removeAt_def)
next
  case (S_SetByIndex i v)
  assume "sl_ok s"
  then show ?thesis
    using sl_ok_setByIndex [of s i v] by (cases "sl_setByIndex i v s") (simp_all add: S_SetByIndex keep_on_error_def)
next
  case S_Clear
  then show ?thesis by (simp add: sl_clear_def sl_ok_def obj_ok_def keyed_def)
qed (simp_all add: sl_ok_add sl_ok_remove sl_ok_replace)

lemma sl_ok_run: "sl_ok s \<Longrightarrow> \<forall>oper \<in> set ops. sl_op_ok oper \<Longrightarrow> sl_ok (fold sl_apply ops s)"
  by (induction ops arbitrary: s) (simp_all add: sl_ok_apply)

lemma sl_ok_empty: "sl_ok SortedList_empty"
  by (simp add: sl_ok_def SortedList_empty_def obj_ok_def keyed_def)

lemma sort_insert_first: "(\<forall>y \<in> set ys. ekey x \<le> ekey y) \<Longrightarrow> sort_insert sorter x ys = x # ys"
  by (cases ys) (auto simp: sorter_def)

lemma js_sort_sorted: "sorted (map ekey es) \<Longrightarrow> js_sort sorter es = es"
  by (induction es) (simp_all add: js_sort_def sort_insert_first)

lemma sl_fill_count: "s_count (sl_fill es s) = s_count s"
  by (induction es s rule: sl_fill.induct) (simp_all add: Let_def)

lemma sl_clone_count: "s_count (sl_clone s) = 0"
  by (simp add: sl_clone_def SortedList_new_def Let_def sl_fill_count SortedList_empty_def)

section \<open>Properties\<close>

lemma dict_count_card:
  assumes "dict_ok d" "\<forall>k \<in> set (map fst (d_items d)). \<not> inherited k"
  shows "d_count d = int (card (dom (dict_lookup d)))"
proof -
  have "dom (dict_lookup d) = dom (map_of (d_items d))" by (auto simp: dict_lookup_eq)
  with assms show ?thesis by (simp add: dict_ok_def iter_ordinary card_dom_obj)
qed

lemma keys_fold_add:
  "\<forall>(k, v) \<in> set kvs. \<not> inherited k \<Longrightarrow> \<forall>k \<in> set (map fst (d_items d)). \<not> inherited k \<Longrightarrow>
   \<forall>k \<in> set (map fst (d_items (fold (\<lambda>(k, v). dict_add k v) kvs d))). \<not> inherited k"
proof (induction kvs arbitrary: d)
  case (Cons kv kvs)
  obtain k v where kv: "kv = (k, v)" by (cases kv)
  have "\<not> inherited k" using Cons.prems(1) kv by simp
  moreover have "set (map fst (d_items (dict_add k v d))) = insert k (set (map fst (d_items d)))"
    using keys_obj_set [of "d_items d" k "DictionaryEntry k v"] by (simp add: dict_add_def Let_def del: set_map)
  ultimately have "\<forall>k \<in> set (map fst (d_items (dict_add k v d))). \<not> inherited k"
    using Cons.prems(2) by (simp only: ball_simps simp_thms)
  moreover have "\<forall>(k, v) \<in> set kvs. \<not> inherited k" using Cons.prems(1) by simp
  ultimately have "\<forall>k \<in> set (map fst (d_items (fold (\<lambda>(k, v). dict_add k v) kvs (dict_add k v d)))). \<not> inherited k"
    by (rule Cons.IH [rotated])
  then show ?case by (simp only: kv fold_Cons o_apply prod.case)
qed simp

text \<open>
  Claim C23. A dictionary is the finite map of its additions: after adding entries under ordinary
  keys to a new dictionary, \<open>item\<close> returns for each key the value added last, and \<open>count\<close> is the
  number of keys.
\<close>

theorem dictionary_is_map:
  assumes "\<forall>(k, v) \<in> set kvs. \<not> inherited k"
  defines "d \<equiv> fold (\<lambda>(k, v). dict_add k v) kvs (Dictionary_new None)"
  shows "dict_lookup d = map_of (rev kvs) \<and> d_count d = int (card (dom (map_of (rev kvs))))"
proof -
  have d: "d = fold (\<lambda>(k, v). dict_add k v) kvs Dictionary_empty" by (simp add: d_def Dictionary_new_def)
  have e: "dict_lookup Dictionary_empty = Map.empty" by (auto simp: dict_lookup_eq Dictionary_empty_def)
  have l: "dict_lookup d = map_of (rev kvs)" "dict_ok d"
    using dictionary.put_all [OF dict_ok_empty assms(1)] by (simp_all add: d e)
  moreover have "\<forall>k \<in> set (map fst (d_items d)). \<not> inherited k"
    unfolding d using assms(1) by (rule keys_fold_add) (simp add: Dictionary_empty_def)
  ultimately show ?thesis using dict_count_card [of d] by simp
qed

theorem dictionary_is_map_witness:
  "(let kvs = [(''a'', 1), (''b'', 2), (''a'', 3 :: int)]; d = fold (\<lambda>(k, v). dict_add k v) kvs (Dictionary_new None)
    in dict_lookup d = map_of (rev kvs) \<and> d_count d = 2)"
proof -
  let ?kvs = "[(''a'', 1), (''b'', 2), (''a'', 3 :: int)]"
  have "\<forall>(k, v) \<in> set ?kvs. \<not> inherited k" by (simp add: inherited_def proto_names_def)
  from dictionary_is_map [OF this]
  have "dict_lookup (fold (\<lambda>(k, v). dict_add k v) ?kvs (Dictionary_new None)) = map_of (rev ?kvs)" by (rule conjunct1)
  moreover have "d_count (fold (\<lambda>(k, v). dict_add k v) ?kvs (Dictionary_new None)) = 2" by code_simp
  ultimately show ?thesis by (simp only: Let_def)
qed

text \<open>
  Whatever sequence of additions, removals and clearings a dictionary goes through, with
  any keys at all, its \<open>count\<close> is the length of its key list, which has no duplicates and holds
  exactly the keys that \<open>containsKey\<close> accepts.
\<close>

theorem dictionary_count_keys:
  "let d = fold dict_apply ops (Dictionary_new None)
   in d_count d = int (length (dict_getKeyList d)) \<and> distinct (dict_getKeyList d) \<and>
      (\<forall>k. dict_containsKey k d = (k \<in> set (dict_getKeyList d)))"
proof -
  define d where "d = fold dict_apply ops (Dictionary_new None)"
  have ok: "dict_ok d" unfolding d_def by (rule dict_ok_run) (simp add: Dictionary_new_def dict_ok_empty)
  have "dict_containsKey k d = (k \<in> set (dict_getKeyList d))" for k
    using map_of_eq_None_iff [of "d_items d" k]
    by (auto simp: dict_key_list [OF ok] dict_containsKey_def obj_get_def split: option.splits)
  moreover have "length (dict_getKeyList d) = length (dict_iter_array (d_items d))"
    by (simp add: dict_getKeyList_def dict_getIterator_def DictionaryIterator_new_def)
  ultimately show ?thesis
    using ok by (simp add: d_def [symmetric] Let_def dict_key_list dict_ok_def obj_ok_def)
qed

text \<open>
  The names of \<open>Object.prototype\<close> do not work as keys: a new dictionary already answers
  \<open>item("toString")\<close> with the inherited function, and an entry added under such a name can be read
  but is neither counted nor listed nor found nor removed.
\<close>

theorem dictionary_prototype_names:
  "dict_item ''toString'' (Dictionary_new None) = (Inherited ''toString'' :: 'v prop_value) \<and>
   (let d = dict_add ''toString'' v (Dictionary_new None)
    in dict_item ''toString'' d = Own v \<and> d_count d = 0 \<and> dict_getKeyList d = [] \<and>
       \<not> dict_containsKey ''toString'' d \<and> dict_remove ''toString'' d = (d, False))"
proof -
  have i: "inherited ''toString''" by code_simp
  then show ?thesis
    by (simp add: Dictionary_new_def Dictionary_empty_def dict_item_def obj_in_def obj_get_def dict_add_def
        DictionaryEntry_def entry_valueOf_def dict_getKeyList_def dict_getIterator_def DictionaryIterator_new_def
        dict_iter_array_def dict_containsKey_def dict_remove_def)
qed

lemma sl_current_empty: "sl_current SortedList_empty"
  by (simp add: sl_current_def SortedList_empty_def)

lemma sl_current_run:
  "sl_ok s \<Longrightarrow> sl_current s \<Longrightarrow> \<forall>k v. S_Replace k v \<notin> set ops \<Longrightarrow> sl_current (fold sl_apply ops s)"
proof (induction ops arbitrary: s)
  case (Cons oper ops)
  have "sl_op_ok oper" using Cons.prems(3) by (cases oper) auto
  moreover have "sl_current (sl_apply oper s)"
  proof (cases oper)
    case (S_RemoveAt i)
    then show ?thesis using Cons.prems(1,2) sl_ok_remove(2) by (cases "q_at s i") (simp_all add: keep_on_error_def sl_removeAt_def)
  next
    case (S_SetByIndex i v)
    then show ?thesis using Cons.prems(2) sl_ok_setByIndex [OF Cons.prems(1), of i v]
      by (cases "sl_setByIndex i v s") (simp_all add: keep_on_error_def)
  next
    case S_Clear
    then show ?thesis by (simp add: sl_clear_def sl_current_def)
  qed (use Cons.prems sl_current_add sl_ok_remove(2) in auto)
  ultimately show ?case using Cons sl_ok_apply [OF Cons.prems(1)] by simp
qed simp

lemma sl_current_values:
  assumes "sl_ok s" "sl_current s" "sl_getKey i s = Inr k"
  shows "sl_getByIndex i s = Inr v \<longleftrightarrow> sl_item k s = Some v"
proof -
  obtain e where e: "q_at s i = Inr e" "ekey e = k" using assms(3) by (cases "q_at s i") (auto simp: sl_getKey_def)
  then have "e \<in> set (s_q s)" by (auto simp: q_at_def js_at_def nat_less_iff split: option.splits if_splits)
  then have "e \<in> set (map snd (s_items s))" using assms(2) unfolding sl_current_def by (metis set_mset_mset)
  then obtain k' where k': "(k', e) \<in> set (s_items s)" by auto
  have "k' = k" using k' assms(1) e(2) by (auto simp: sl_ok_def keyed_def)
  moreover have "k' \<in> set (map fst (s_items s))" using k' by force
  ultimately have "k' = k" "\<not> inherited k" using assms(1) unfolding sl_ok_def by blast+
  then have "map_of (s_items s) k = Some e" using k' assms(1) by (auto simp: sl_ok_def obj_ok_def)
  then show ?thesis using \<open>\<not> inherited k\<close> e(1) by (simp add: sl_getByIndex_def sl_item_def obj_in_def obj_get_def)
qed

text \<open>
  Claim C5. The index of a sorted list stays sorted: after any sequence of operations on a new list
  (replacing only under ordinary keys) the keys of the index are strictly increasing, they are the
  keys of the table, \<open>count\<close> is their number and \<open>getKey(i)\<close> is the \<open>i\<close>-th smallest key or an
  error. As long as \<open>replace\<close> was not used, the values agree as well: \<open>getByIndex(i)\<close> is the value that the table has under the \<open>i\<close>-th key.
\<close>

theorem sorted_list_sorted:
  assumes "\<forall>oper \<in> set ops. sl_op_ok oper"
  defines "s \<equiv> fold sl_apply ops (SortedList_new None)"
  shows "sorted_wrt (<) (map ekey (s_q s)) \<and> set (map ekey (s_q s)) = {k. sl_item k s \<noteq> None} \<and>
    s_count s = int (length (s_q s)) \<and>
    sl_getKey i s = (if 0 \<le> i \<and> i < s_count s then Inr (sort (map fst (s_items s)) ! nat i) else Inl TypeError) \<and>
    ((\<forall>k v. S_Replace k v \<notin> set ops) \<longrightarrow> (\<forall>j k v. sl_getKey j s = Inr k \<longrightarrow> sl_getByIndex j s = Inr v \<longleftrightarrow> sl_item k s = Some v))"
proof -
  have ok: "sl_ok s" unfolding s_def by (rule sl_ok_run) (simp_all add: SortedList_new_def sl_ok_empty assms(1))
  then have k: "map ekey (s_q s) = sort (map fst (s_items s))" "distinct (map fst (s_items s))"
    by (simp_all add: sl_ok_def obj_ok_def)
  have "{k. sl_item k s \<noteq> None} = set (map fst (s_items s))"
    using ok map_of_eq_None_iff [of "s_items s"]
    by (auto simp: sl_ok_def sl_item_def obj_in_def obj_get_def split: option.splits if_splits)
  moreover have "sl_getKey i s = (if 0 \<le> i \<and> i < s_count s then Inr (sort (map fst (s_items s)) ! nat i) else Inl TypeError)"
    using ok by (auto simp: sl_getKey_def q_at_def js_at_def sl_ok_def nat_less_iff simp flip: k(1))
  moreover have "sl_current s" if "\<forall>k v. S_Replace k v \<notin> set ops"
    unfolding s_def by (rule sl_current_run [OF _ _ that]) (simp_all add: SortedList_new_def sl_ok_empty sl_current_empty)
  then have "(\<forall>k v. S_Replace k v \<notin> set ops) \<longrightarrow> (\<forall>j k v. sl_getKey j s = Inr k \<longrightarrow> sl_getByIndex j s = Inr v \<longleftrightarrow> sl_item k s = Some v)"
    using sl_current_values [OF ok] by blast
  ultimately show ?thesis using ok k by (auto simp: sl_ok_def strict_sorted_iff)
qed

theorem sorted_list_sorted_witness:
  "map ekey (s_q (fold sl_apply [S_Add ''b'' 1, S_Add ''a'' 2, S_Replace ''b'' 3, S_Add ''c'' (4 :: int), S_RemoveAt 1] (SortedList_new None)))
     = [''a'', ''c''] \<and>
   sorted_wrt (<) [''a'', ''c''] \<and>
   (let s = fold sl_apply [S_Add ''b'' 1, S_Add ''a'' (2 :: int), S_SetByIndex 0 5] (SortedList_new None)
    in sl_getKey 0 s = Inr ''a'' \<and> sl_getByIndex 0 s = Inr 5)"
proof -
  let ?ops = "[S_Add ''b'' 1, S_Add ''a'' 2, S_Replace ''b'' 3, S_Add ''c'' (4 :: int), S_RemoveAt 1]"
  have "\<forall>oper \<in> set ?ops. sl_op_ok oper" by (simp add: inherited_def proto_names_def)
  from sorted_list_sorted [OF this]
  have "sorted_wrt (<) (map ekey (s_q (fold sl_apply ?ops (SortedList_new None))))" by blast
  moreover have "map ekey (s_q (fold sl_apply ?ops (SortedList_new None))) = [''a'', ''c'']" by code_simp
  moreover
  let ?ops' = "[S_Add ''b'' 1, S_Add ''a'' (2 :: int), S_SetByIndex 0 5]"
  let ?s = "fold sl_apply ?ops' (SortedList_new None)"
  have "\<forall>oper \<in> set ?ops'. sl_op_ok oper" "\<forall>k v. S_Replace k v \<notin> set ?ops'" by simp_all
  with sorted_list_sorted [of ?ops']
  have "\<forall>j k v. sl_getKey j ?s = Inr k \<longrightarrow> sl_getByIndex j ?s = Inr v \<longleftrightarrow> sl_item k ?s = Some v" by blast
  moreover have "sl_getKey 0 ?s = Inr ''a''" "sl_item ''a'' ?s = Some 5" by code_simp+
  ultimately show ?thesis unfolding Let_def by simp
qed

text \<open>
  Replacing the value of a key that a sorted list already has brings the table and the
  index apart: \<open>item\<close> returns the new value, while \<open>getByIndex\<close> keeps returning the old one, at every
  index. The copy that \<open>clone\<close> makes of any list reports a \<open>count\<close> of zero.
\<close>

theorem sorted_list_replace_stale:
  assumes "\<forall>oper \<in> set ops. sl_op_ok oper"
  defines "s \<equiv> fold sl_apply ops (SortedList_new None)"
  assumes "sl_item k s = Some old"
  shows "snd (sl_replace k v s) \<and> sl_item k (fst (sl_replace k v s)) = Some v \<and>
    (\<forall>i. sl_getByIndex i (fst (sl_replace k v s)) = sl_getByIndex i s) \<and> s_count (sl_clone s) = 0"
proof -
  have ok: "sl_ok s" unfolding s_def by (rule sl_ok_run) (simp_all add: SortedList_new_def sl_ok_empty assms(1))
  obtain e where e: "obj_get (s_items s) k = Own e" "\<not> inherited k"
    using assms(3) by (auto simp: sl_item_def split: if_splits prop_value.splits)
  have "js_sort sorter (s_q s) = s_q s"
    using ok by (intro js_sort_sorted) (simp add: sl_ok_def)
  then have "fst (sl_replace k v s) = s\<lparr>s_items := obj_set (s_items s) k (DictionaryEntry k v)\<rparr>" "snd (sl_replace k v s)"
    using e by (simp_all add: sl_replace_def)
  moreover have "sl_item k (fst (sl_replace k v s)) = Some v" using fun_cong [OF sorted_list.lookup_put [OF ok e(2), of v], of k] by simp
  ultimately show ?thesis by (simp add: sl_getByIndex_def q_at_def sl_clone_count)
qed

theorem sorted_list_replace_stale_witness:
  "(let s = fold sl_apply [S_Add ''b'' 1, S_Add ''a'' (2 :: int)] (SortedList_new None); s' = fst (sl_replace ''b'' 9 s)
    in sl_item ''b'' s' = Some 9 \<and> sl_getByIndex 1 s' = Inr 1)"
proof -
  let ?ops = "[S_Add ''b'' 1, S_Add ''a'' (2 :: int)]" and ?s = "fold sl_apply [S_Add ''b'' 1, S_Add ''a'' (2 :: int)] (SortedList_new None)"
  have "\<forall>oper \<in> set ?ops. sl_op_ok oper" by simp
  moreover have "sl_item ''b'' ?s = Some 1" by code_simp
  ultimately have "sl_item ''b'' (fst (sl_replace ''b'' 9 ?s)) = Some 9 \<and>
     (\<forall>i. sl_getByIndex i (fst (sl_replace ''b'' 9 ?s)) = sl_getByIndex i ?s)"
    using sorted_list_replace_stale [of ?ops "''b''" 1 9] by blast
  moreover have "sl_getByIndex 1 ?s = Inr 1" by code_simp
  ultimately show ?thesis by (simp only: Let_def)
qed

end
