(* ===== verification/Binary_Tree.thy ===== *)
theory Binary_Tree
  imports Collections
begin

text \<open>
  \<open>src/collections/BinaryTree.js\<close>: search trees over numbers. The loops that walk down with a
  \<open>current\<close> and a \<open>parent\<close> pointer are walks that keep the nodes passed as a list of frames, so that
  an assignment to a field of \<open>parent\<close> rebuilds the tree around it. A datum that is not truthy is
  stored as \<open>null\<close>, which compares like zero and has no \<open>toString\<close>.
\<close>

section \<open>Nodes\<close>

datatype btree = Null | Node (bt_value: "int option") (bt_left: btree) (bt_right: btree)

definition node_new :: "int \<Rightarrow> btree" where
  "node_new data = Node (if data = 0 then None else Some data) Null Null"

definition number :: "int option \<Rightarrow> int" where
  "number v = (case v of None \<Rightarrow> 0 | Some d \<Rightarrow> d)"

definition node_compareData :: "int option \<Rightarrow> int \<Rightarrow> int" where
  "node_compareData v d = (if number v > d then 1 else if number v < d then - 1 else 0)"

definition node_compare :: "int option \<Rightarrow> int option \<Rightarrow> int" where
  "node_compare v n = (if number v > number n then 1 else if number v < number n then - 1 else 0)"

text \<open>\<open>clone\<close> reads \<open>this.value.value\<close>, an error for \<open>null\<close>, and returns no value.\<close>

fun node_clone :: "btree \<Rightarrow> unit result" where
  "node_clone Null = Inr ()"
| "node_clone (Node v l r) =
     (if v = None then Inl TypeError else rbind (node_clone l) (\<lambda>_. node_clone r))"

section \<open>Traversals\<close>

text \<open>The argument \<open>a\<close> of the first is an array, which has no method \<open>add\<close>.\<close>

fun inorderTraversalBuildup :: "btree \<Rightarrow> btree list \<Rightarrow> btree list result" where
  "inorderTraversalBuildup Null a = Inr a"
| "inorderTraversalBuildup (Node v l r) a = rbind (inorderTraversalBuildup l a) (\<lambda>a. Inl TypeError)"

definition num_toString :: "int \<Rightarrow> string" where
  "num_toString n = (if n < 0 then ''-'' @ to_dec (nat (- n)) else to_dec (nat n))"

definition value_toString :: "int option \<Rightarrow> string result" where
  "value_toString v = (case v of None \<Rightarrow> Inl TypeError | Some d \<Rightarrow> Inr (num_toString d))"

fun preorderTraversal :: "btree \<Rightarrow> string \<Rightarrow> string result" where
  "preorderTraversal Null sep = Inr ''''"
| "preorderTraversal (Node v l r) sep =
     rbind (value_toString v) (\<lambda>s.
     rbind (preorderTraversal l sep) (\<lambda>s1.
     rbind (preorderTraversal r sep) (\<lambda>s2. Inr (s @ sep @ s1 @ s2))))"

fun inorderTraversal :: "btree \<Rightarrow> string \<Rightarrow> string result" where
  "inorderTraversal Null sep = Inr ''''"
| "inorderTraversal (Node v l r) sep =
     rbind (inorderTraversal l sep) (\<lambda>s1.
     rbind (value_toString v) (\<lambda>s.
     rbind (inorderTraversal r sep) (\<lambda>s2. Inr (s1 @ s @ sep @ s2))))"

fun postorderTraversal :: "btree \<Rightarrow> string \<Rightarrow> string result" where
  "postorderTraversal Null sep = Inr ''''"
| "postorderTraversal (Node v l r) sep =
     rbind (postorderTraversal l sep) (\<lambda>s1.
     rbind (postorderTraversal r sep) (\<lambda>s2.
     rbind (value_toString v) (\<lambda>s. Inr (s1 @ s2 @ s @ sep))))"

fun searchHelper :: "btree \<Rightarrow> int \<Rightarrow> btree" where
  "searchHelper Null data = Null"
| "searchHelper (Node v l r) data =
     (let i = node_compareData v data
      in if i = 0 then Node v l r else if i > 0 then searchHelper l data else searchHelper r data)"

section \<open>Frames\<close>

datatype frame = Left_Of "int option" btree | Right_Of "int option" btree

fun frame_node :: "frame \<Rightarrow> btree \<Rightarrow> btree" where
  "frame_node (Left_Of v r) c = Node v c r"
| "frame_node (Right_Of v l) c = Node v l c"

fun plug :: "frame list \<Rightarrow> btree \<Rightarrow> btree" where
  "plug [] c = c"
| "plug (f # fs) c = plug fs (frame_node f c)"

fun set_left :: "btree \<Rightarrow> btree \<Rightarrow> btree" where
  "set_left (Node v l r) x = Node v x r"
| "set_left Null x = Null"

fun set_right :: "btree \<Rightarrow> btree \<Rightarrow> btree" where
  "set_right (Node v l r) x = Node v l x"
| "set_right Null x = Null"

section \<open>Trees\<close>

record binary_tree =
  root :: btree
  bcount :: int

fun add_walk :: "btree \<Rightarrow> int option \<Rightarrow> frame list \<Rightarrow> frame list option" where
  "add_walk Null n fs = Some fs"
| "add_walk (Node v l r) n fs =
     (let i = node_compare v n
      in if i = 0 then None
         else if i > 0 then add_walk l n (Left_Of v r # fs) else add_walk r n (Right_Of v l # fs))"

definition bt_add :: "int \<Rightarrow> binary_tree \<Rightarrow> binary_tree" where
  "bt_add data b =
     (let n = node_new data
      in case add_walk (root b) (bt_value n) [] of
           None \<Rightarrow> b
         | Some fs \<Rightarrow>
             b\<lparr>bcount := bcount b + 1,
               root := (case fs of [] \<Rightarrow> n
                        | f # fs' \<Rightarrow>
                            (let parent = frame_node f Null; i = node_compare (bt_value parent) (bt_value n)
                             in plug fs' (if i > 0 then set_left parent n else set_right parent n)))\<rparr>)"

definition bt_clear :: "binary_tree \<Rightarrow> binary_tree" where
  "bt_clear b = b\<lparr>root := Null, bcount := 0\<rparr>"

definition BinaryTree_new :: "int option \<Rightarrow> binary_tree" where
  "BinaryTree_new data =
     (let b = \<lparr>root = Null, bcount = 0\<rparr>
      in case data of None \<Rightarrow> b | Some d \<Rightarrow> if d = 0 then b else bt_add d b)"

text \<open>
  \<open>clone\<close> assigns to the property \<open>root\<close> of the new tree; its operations use the variable \<open>root\<close>,
  which stays \<open>null\<close>.
\<close>

definition bt_clone :: "binary_tree \<Rightarrow> binary_tree result" where
  "bt_clone b =
     (let c = BinaryTree_new None
      in case root b of Null \<Rightarrow> Inl TypeError
         | Node _ _ _ \<Rightarrow> rbind (node_clone (root b)) (\<lambda>_. Inr (c\<lparr>bcount := bcount b\<rparr>)))"

definition bt_search :: "int \<Rightarrow> binary_tree \<Rightarrow> btree" where
  "bt_search data b = searchHelper (root b) data"

definition bt_contains :: "int \<Rightarrow> binary_tree \<Rightarrow> bool" where
  "bt_contains data b \<longleftrightarrow> bt_search data b \<noteq> Null"

text \<open>The first loop of \<open>deleteData\<close>; it calls \<open>compareData\<close> of \<open>null\<close> when the datum is missing.\<close>

fun delete_walk :: "btree \<Rightarrow> int \<Rightarrow> frame list \<Rightarrow> (btree \<times> frame list) result" where
  "delete_walk Null data fs = Inl TypeError"
| "delete_walk (Node v l r) data fs =
     (let i = node_compareData v data
      in if i > 0 then delete_walk l data (Left_Of v r # fs)
         else if i < 0 then delete_walk r data (Right_Of v l # fs)
         else Inr (Node v l r, fs))"

text \<open>
  The second loop, from \<open>lmParent\<close> down: the value of the leftmost node, and the tree of \<open>lmParent\<close>
  after \<open>lmParent.left=leftmost.right\<close>.
\<close>

fun leftmost_walk :: "btree \<Rightarrow> int option \<times> btree" where
  "leftmost_walk (Node pv (Node lv ll lr) pr) =
     (if ll \<noteq> Null then (let (v, t) = leftmost_walk (Node lv ll lr) in (v, Node pv t pr))
      else (lv, Node pv lr pr))"
| "leftmost_walk (Node pv Null pr) = (pv, Node pv Null pr)"
| "leftmost_walk Null = (None, Null)"

text \<open>What takes the place of the node \<open>current\<close>, with left and right children \<open>l\<close> and \<open>r\<close>.\<close>

definition replacement :: "btree \<Rightarrow> btree \<Rightarrow> btree" where
  "replacement l r =
     (if r = Null then l
      else if bt_left r = Null then r
      else (let (lv, r') = leftmost_walk r in Node lv l r'))"

definition bt_deleteData :: "int \<Rightarrow> binary_tree \<Rightarrow> binary_tree result" where
  "bt_deleteData data b =
     rbind (delete_walk (root b) data []) (\<lambda>(current, fs).
       let x = replacement (bt_left current) (bt_right current)
       in Inr (b\<lparr>bcount := bcount b - 1,
                 root := (case fs of [] \<Rightarrow> x
                          | f # fs' \<Rightarrow>
                              (let parent = frame_node f current; i = node_compare (bt_value parent) (bt_value current)
                               in plug fs' (if i > 0 then set_left parent x
                                            else if i < 0 then set_right parent x else parent)))\<rparr>))"

definition bt_getIterator :: "binary_tree \<Rightarrow> btree iterator result" where
  "bt_getIterator b = rbind (inorderTraversalBuildup (root b) []) (\<lambda>a. Inr (Iterator_new (\<lambda>_. True) a))"

text \<open>\<open>TraversalMethods\<close> are the numbers 1 to 3; zero and \<open>undefined\<close> select the default.\<close>

definition bt_toString :: "nat option \<Rightarrow> string option \<Rightarrow> binary_tree \<Rightarrow> string result" where
  "bt_toString order sep b =
     (let order = (case order of None \<Rightarrow> 2 | Some k \<Rightarrow> if k = 0 then 2 else k);
          sep = (case sep of None \<Rightarrow> '' '' | Some s \<Rightarrow> if s = [] then '' '' else s)
      in rbind (if order = 1 then preorderTraversal (root b) sep
                else if order = 2 then inorderTraversal (root b) sep
                else if order = 3 then postorderTraversal (root b) sep
                else Inr [])
           (\<lambda>s. Inr (if s = [] then [] else substring s 0 (length s - length sep))))"

section \<open>The numbers of a tree, from left to right\<close>

fun vals :: "btree \<Rightarrow> int list" where
  "vals Null = []"
| "vals (Node v l r) = vals l @ number v # vals r"

fun lefts :: "frame list \<Rightarrow> int list" where
  "lefts [] = []"
| "lefts (Left_Of v r # fs) = lefts fs"
| "lefts (Right_Of v l # fs) = lefts fs @ vals l @ [number v]"

fun rights :: "frame list \<Rightarrow> int list" where
  "rights [] = []"
| "rights (Left_Of v r # fs) = number v # vals r @ rights fs"
| "rights (Right_Of v l # fs) = rights fs"

definition search_tree :: "btree \<Rightarrow> bool" where
  "search_tree t \<longleftrightarrow> sorted_wrt (<) (vals t)"

definition between :: "frame list \<Rightarrow> int \<Rightarrow> bool" where
  "between fs d \<longleftrightarrow> (\<forall>x \<in> set (lefts fs). x < d) \<and> (\<forall>x \<in> set (rights fs). d < x)"

lemma vals_plug: "vals (plug fs c) = lefts fs @ vals c @ rights fs"
proof (induction fs arbitrary: c)
  case (Cons f fs)
  then show ?case by (cases f) simp_all
qed simp

lemma search_tree_Node:
  "search_tree (Node v l r) \<longleftrightarrow>
   search_tree l \<and> search_tree r \<and> (\<forall>x \<in> set (vals l). x < number v) \<and> (\<forall>x \<in> set (vals r). number v < x)"
  by (auto simp: search_tree_def sorted_wrt_append dest: less_trans)

lemma search_tree_Null [simp]: "search_tree Null"
  by (simp add: search_tree_def)

lemma between_nil [simp]: "between [] d"
  by (simp add: between_def)

lemma between_Left: "between (Left_Of v r # fs) d \<longleftrightarrow> between fs d \<and> d < number v \<and> (\<forall>x \<in> set (vals r). d < x)"
  by (auto simp: between_def)

lemma between_Right: "between (Right_Of v l # fs) d \<longleftrightarrow> between fs d \<and> number v < d \<and> (\<forall>x \<in> set (vals l). x < d)"
  by (auto simp: between_def)

lemmas search_tree_simps = search_tree_Node between_Left between_Right

lemma search_tree_plug: "search_tree (plug fs c) \<Longrightarrow> search_tree c"
  by (simp add: search_tree_def vals_plug sorted_wrt_append)

section \<open>Searching\<close>

lemma searchHelper_iff: "search_tree t \<Longrightarrow> searchHelper t d \<noteq> Null \<longleftrightarrow> d \<in> set (vals t)"
  by (induction t) (auto simp: search_tree_Node node_compareData_def Let_def)

section \<open>Adding\<close>

lemma add_walk_None: "search_tree t \<Longrightarrow> add_walk t n fs = None \<longleftrightarrow> number n \<in> set (vals t)"
  by (induction t arbitrary: fs) (auto simp: search_tree_Node node_compare_def Let_def)

lemma add_walk_Some:
  "search_tree t \<Longrightarrow> between fs (number n) \<Longrightarrow> add_walk t n fs = Some fs' \<Longrightarrow>
   between fs' (number n) \<and> vals (plug fs' Null) = vals (plug fs t)"
proof (induction t arbitrary: fs)
  case (Node v l r)
  have *: "search_tree l" "search_tree r" "number v \<noteq> number n"
    using Node.prems by (auto simp: search_tree_Node node_compare_def Let_def)
  show ?case
  proof (cases "number v > number n")
    case True
    have "between (Left_Of v r # fs) (number n)"
      using Node.prems True by (auto simp: search_tree_simps)
    with Node.IH(1) [OF *(1) this] Node.prems True show ?thesis by (simp add: node_compare_def vals_plug)
  next
    case False
    have "between (Right_Of v l # fs) (number n)"
      using Node.prems False *(3) by (auto simp: search_tree_simps)
    with Node.IH(2) [OF *(2) this] Node.prems False * show ?thesis by (simp add: node_compare_def vals_plug)
  qed
qed simp

lemma number_new [simp]: "number (bt_value (node_new d)) = d" "vals (node_new d) = [d]"
  by (simp_all add: node_new_def number_def)

lemma attach:
  assumes "between (f # fs) (number n)"
  shows "0 < node_compare (bt_value (frame_node f c)) n \<Longrightarrow> set_left (frame_node f c) x = frame_node f x"
    "\<not> 0 < node_compare (bt_value (frame_node f c)) n \<Longrightarrow> set_right (frame_node f c) x = frame_node f x"
    "node_compare (bt_value (frame_node f c)) n \<noteq> 0"
  using assms by (cases f; auto simp: search_tree_simps node_compare_def split: if_splits)+

lemma root_add:
  assumes "search_tree (root b)"
  shows "root (bt_add d b) =
     (case add_walk (root b) (bt_value (node_new d)) [] of None \<Rightarrow> root b | Some fs \<Rightarrow> plug fs (node_new d))"
  using add_walk_Some [OF assms, of "[]" "bt_value (node_new d)"]
  by (auto simp: bt_add_def Let_def attach simp del: number_new(1) split: option.splits list.splits)

lemma insort_between:
  "\<forall>x \<in> set xs. x < (d :: int) \<Longrightarrow> \<forall>y \<in> set ys. d < y \<Longrightarrow> insort d (xs @ ys) = xs @ d # ys"
proof (induction xs)
  case Nil
  then show ?case by (cases ys) auto
qed auto

lemma bt_add_vals:
  assumes "search_tree (root b)"
  shows "vals (root (bt_add d b)) = (if d \<in> set (vals (root b)) then vals (root b) else insort d (vals (root b)))"
    "bcount (bt_add d b) = bcount b + (if d \<in> set (vals (root b)) then 0 else 1)"
proof -
  let ?w = "add_walk (root b) (bt_value (node_new d)) []"
  note n = add_walk_None [OF assms, of "bt_value (node_new d)" "[]"]
  show "bcount (bt_add d b) = bcount b + (if d \<in> set (vals (root b)) then 0 else 1)"
    using n by (cases ?w) (auto simp: bt_add_def Let_def)
  show "vals (root (bt_add d b)) = (if d \<in> set (vals (root b)) then vals (root b) else insort d (vals (root b)))"
  proof (cases ?w)
    case (Some fs)
    then have "between fs d" "lefts fs @ rights fs = vals (root b)"
      using add_walk_Some [OF assms, of "[]" "bt_value (node_new d)" fs] by (simp_all add: vals_plug)
    moreover have "insort d (lefts fs @ rights fs) = lefts fs @ d # rights fs"
      using \<open>between fs d\<close> by (intro insort_between) (simp_all add: between_def)
    ultimately show ?thesis using Some n by (simp add: root_add [OF assms] vals_plug)
  qed (use n in \<open>simp add: root_add [OF assms]\<close>)
qed

lemma search_tree_add: "search_tree (root b) \<Longrightarrow> search_tree (root (bt_add d b))"
  by (auto simp: search_tree_def bt_add_vals strict_sorted_iff sorted_insort distinct_insort)

section \<open>Deleting\<close>

lemma delete_walk_absent: "search_tree t \<Longrightarrow> d \<notin> set (vals t) \<Longrightarrow> delete_walk t d fs = Inl TypeError"
  by (induction t arbitrary: fs) (auto simp: search_tree_Node node_compareData_def Let_def)

lemma delete_walk_found:
  "search_tree t \<Longrightarrow> between fs d \<Longrightarrow> d \<in> set (vals t) \<Longrightarrow>
   \<exists>v l r fs'. delete_walk t d fs = Inr (Node v l r, fs') \<and> number v = d \<and> between fs' d \<and>
     plug fs' (Node v l r) = plug fs t \<and> searchHelper t d = Node v l r"
proof (induction t arbitrary: fs)
  case (Node v l r)
  have st: "search_tree l" "search_tree r" using Node.prems by (simp_all add: search_tree_Node)
  consider "number v > d" | "number v < d" | "number v = d" by linarith
  then show ?case
  proof cases
    case 1
    then have "between (Left_Of v r # fs) d" "d \<in> set (vals l)"
      using Node.prems by (auto simp: search_tree_simps intro: less_trans [OF 1])
    with Node.IH(1) [OF st(1) this] 1 show ?thesis by (simp add: node_compareData_def)
  next
    case 2
    then have "between (Right_Of v l # fs) d" "d \<in> set (vals r)"
      using Node.prems by (auto simp: search_tree_simps intro: less_trans [OF _ 2])
    with Node.IH(2) [OF st(2) this] 2 show ?thesis by (simp add: node_compareData_def)
  qed (use Node.prems in \<open>simp add: node_compareData_def\<close>)
qed simp

lemma leftmost_walk_vals:
  "leftmost_walk t = (v, t') \<Longrightarrow> t \<noteq> Null \<Longrightarrow> bt_left t \<noteq> Null \<Longrightarrow> vals t = number v # vals t'"
  by (induction t arbitrary: v t' rule: leftmost_walk.induct) (auto split: if_splits prod.splits)

definition loses_left :: "btree \<Rightarrow> btree \<Rightarrow> bool" where
  "loses_left l r \<longleftrightarrow> r \<noteq> Null \<and> bt_left r = Null"

lemma vals_replacement: "vals (replacement l r) = (if loses_left l r then [] else vals l) @ vals r"
  using leftmost_walk_vals [of r] by (auto simp: replacement_def loses_left_def split: prod.splits)

lemma bt_delete_found:
  assumes "search_tree (root b)" "d \<in> set (vals (root b))"
  shows "\<exists>v l r ls rs b'. searchHelper (root b) d = Node v l r \<and> number v = d \<and> bt_deleteData d b = Inr b' \<and>
    vals (root b) = ls @ vals l @ d # vals r @ rs \<and>
    vals (root b') = ls @ (if loses_left l r then [] else vals l) @ vals r @ rs \<and> bcount b' = bcount b - 1"
proof -
  obtain v l r fs where w: "delete_walk (root b) d [] = Inr (Node v l r, fs)" "number v = d" "between fs d"
    "plug fs (Node v l r) = root b" "searchHelper (root b) d = Node v l r"
    using delete_walk_found [of "root b" "[]" d] assms by auto
  let ?b = "b\<lparr>bcount := bcount b - 1, root := plug fs (replacement l r)\<rparr>"
  have "bt_deleteData d b = Inr ?b"
    using w by (auto simp: bt_deleteData_def Let_def attach split: list.splits)
  moreover have "vals (root b) = lefts fs @ vals l @ d # vals r @ rights fs"
    using arg_cong [OF w(4), of vals] w(2) by (simp add: vals_plug)
  ultimately show ?thesis using w
    by (intro exI [of _ v] exI [of _ l] exI [of _ r] exI [of _ "lefts fs"] exI [of _ "rights fs"] exI [of _ ?b])
      (simp add: vals_plug vals_replacement)
qed

section \<open>Properties\<close>

lemma sorted_list_of_set_vals: "search_tree t \<Longrightarrow> vals t = sorted_list_of_set (set (vals t))"
  by (simp add: search_tree_def strict_sorted_iff sorted_list_of_set.idem_if_sorted_distinct)

lemma bt_add_set: "search_tree (root b) \<Longrightarrow> set (vals (root (bt_add d b))) = insert d (set (vals (root b)))"
  by (auto simp: bt_add_vals set_insort_key)

lemma fold_bt_add:
  "search_tree (root b) \<Longrightarrow> bcount b = int (length (vals (root b))) \<Longrightarrow>
   search_tree (root (fold bt_add xs b)) \<and> bcount (fold bt_add xs b) = int (length (vals (root (fold bt_add xs b)))) \<and>
   set (vals (root (fold bt_add xs b))) = set (vals (root b)) \<union> set xs"
proof (induction xs arbitrary: b)
  case (Cons x xs)
  have "bcount (bt_add x b) = int (length (vals (root (bt_add x b))))"
    using Cons.prems by (simp add: bt_add_vals)
  from Cons.IH [OF search_tree_add [OF Cons.prems(1)] this] show ?case
    using Cons.prems(1) by (simp add: bt_add_set)
qed simp

lemma built_tree:
  defines "b xs \<equiv> fold bt_add xs (BinaryTree_new None)"
  shows "search_tree (root (b xs))" "bcount (b xs) = int (length (vals (root (b xs))))" "set (vals (root (b xs))) = set xs"
  using fold_bt_add [of "BinaryTree_new None" xs] by (simp_all add: BinaryTree_new_def b_def)

text \<open>
  Claim C19. A tree built by additions is the set of the numbers added: \<open>contains\<close> tests membership,
  \<open>count\<close> is the size of the set, and the tree is a search tree, whose nodes from left to right are
  the numbers in increasing order, whatever the order in which they were added.
\<close>

theorem binary_tree_set:
  "let b = fold bt_add xs (BinaryTree_new None)
   in (\<forall>d. bt_contains d b \<longleftrightarrow> d \<in> set xs) \<and> bcount b = int (card (set xs)) \<and>
      vals (root b) = sorted_list_of_set (set xs)"
proof -
  let ?b = "fold bt_add xs (BinaryTree_new None)"
  have "vals (root ?b) = sorted_list_of_set (set xs)"
    using sorted_list_of_set_vals [OF built_tree(1), of xs] by (simp add: built_tree)
  then show ?thesis
    using built_tree [of xs] by (simp add: bt_contains_def bt_search_def searchHelper_iff Let_def)
qed

text \<open>
  Claim C6. What \<open>deleteData\<close> does to a search tree. A missing number is a \<open>TypeError\<close>. A number that
  is present is removed, the result is a search tree and \<open>count\<close> decreases by one; all other numbers
  stay, except when the right child of the node has no left child: then the whole left subtree of the
  node is lost with it.
\<close>

theorem binary_tree_delete:
  assumes "search_tree (root b)"
  shows "(if d \<notin> set (vals (root b)) then bt_deleteData d b = Inl TypeError
    else \<exists>v l r b'. bt_search d b = Node v l r \<and> bt_deleteData d b = Inr b' \<and> search_tree (root b') \<and>
      bcount b' = bcount b - 1 \<and>
      set (vals (root b')) = set (vals (root b)) - {d} - (if r \<noteq> Null \<and> bt_left r = Null then set (vals l) else {}))"
proof (cases "d \<in> set (vals (root b))")
  case True
  obtain v l r ls rs b' where *: "searchHelper (root b) d = Node v l r" "bt_deleteData d b = Inr b'"
    "vals (root b) = ls @ vals l @ d # vals r @ rs"
    "vals (root b') = ls @ (if loses_left l r then [] else vals l) @ vals r @ rs" "bcount b' = bcount b - 1"
    using bt_delete_found [OF assms True] by blast
  have s: "sorted_wrt (<) (ls @ vals l @ d # vals r @ rs)" using assms by (simp add: search_tree_def *(3))
  then have "search_tree (root b')" by (auto simp: search_tree_def *(4) sorted_wrt_append)
  moreover have "set (vals (root b')) = set (vals (root b)) - {d} - (if loses_left l r then set (vals l) else {})"
    using s by (auto simp: *(3,4) sorted_wrt_append)
  ultimately show ?thesis using True * by (auto simp: bt_search_def loses_left_def)
qed (simp add: bt_deleteData_def delete_walk_absent assms)

theorem binary_tree_delete_witness:
  "(let b = fold bt_add [2, 1, 3] (BinaryTree_new None)
    in search_tree (root b) \<and> bt_deleteData 7 b = Inl TypeError \<and>
       (\<exists>b'. bt_deleteData 2 b = Inr b' \<and> bcount b' = 2 \<and> set (vals (root b')) = {3}))"
proof -
  define b where "b = fold bt_add [2, 1, 3] (BinaryTree_new None)"
  have st: "search_tree (root b)" unfolding b_def by (rule built_tree(1))
  have v: "vals (root b) = [1, 2, 3]" and c: "bcount b = 3" and
    f: "bt_search 2 b = Node (Some 2) (Node (Some 1) Null Null) (Node (Some 3) Null Null)"
    unfolding b_def by code_simp+
  have "bt_deleteData 7 b = Inl TypeError" using binary_tree_delete [OF st, of 7] by (simp add: v)
  moreover have "\<exists>b'. bt_deleteData 2 b = Inr b' \<and> bcount b' = 2 \<and> set (vals (root b')) = {3}"
    using binary_tree_delete [OF st, of 2] by (auto simp: v c f number_def)
  ultimately show ?thesis using st by (simp only: Let_def simp_thms flip: b_def)
qed

fun stored :: "btree \<Rightarrow> bool" where
  "stored Null \<longleftrightarrow> True"
| "stored (Node v l r) \<longleftrightarrow> v \<noteq> Some 0 \<and> stored l \<and> stored r"

lemma stored_plug: "stored (plug fs c) \<longleftrightarrow> stored (plug fs Null) \<and> stored c"
proof (induction fs arbitrary: c)
  case (Cons f fs)
  from Cons.IH [of "frame_node f c"] Cons.IH [of "frame_node f Null"] show ?case by (cases f) auto
qed simp

lemma add_walk_plug: "add_walk t n fs = Some fs' \<Longrightarrow> plug fs' Null = plug fs t"
  by (induction t arbitrary: fs) (auto simp: Let_def split: if_splits)

lemma stored_add: "search_tree (root b) \<Longrightarrow> stored (root b) \<Longrightarrow> stored (root (bt_add d b))"
  using add_walk_plug [of "root b" "bt_value (node_new d)" "[]"] stored_plug [of _ "node_new d"]
  by (auto simp: root_add node_new_def split: option.splits)

lemma stored_built: "stored (root (fold bt_add xs (BinaryTree_new None)))"
proof (induction xs rule: rev_induct)
  case (snoc x xs)
  then show ?case using stored_add [OF built_tree(1)] by simp
qed (simp add: BinaryTree_new_def)

lemma inorderTraversal_eq:
  "stored t \<Longrightarrow> inorderTraversal t sep =
    (if 0 \<in> set (vals t) then Inl TypeError else Inr (concat (map (\<lambda>d. num_toString d @ sep) (vals t))))"
proof (induction t)
  case (Node v l r)
  then show ?case by (cases v) (auto simp: value_toString_def number_def)
qed simp

lemma concat_sep: "xs \<noteq> [] \<Longrightarrow> concat (map (\<lambda>d. f d @ sep) xs) = join_with sep (map f xs) @ sep"
  by (induction xs rule: induct_list012) simp_all

text \<open>
  Printing a tree in order prints the set of the numbers added in increasing order, with the
  separator (a space by default) between them and none at the end; it is a \<open>TypeError\<close> when zero was
  added, which the tree stores as \<open>null\<close>.
\<close>

theorem binary_tree_toString:
  assumes "order \<in> {None, Some 0, Some 2}" "sep \<noteq> Some []"
  shows "bt_toString order sep (fold bt_add xs (BinaryTree_new None)) =
     (if 0 \<in> set xs then Inl TypeError
      else Inr (join_with (if sep = None then '' '' else the sep) (map num_toString (sorted_list_of_set (set xs)))))"
proof -
  let ?t = "root (fold bt_add xs (BinaryTree_new None))" and ?sep = "if sep = None then '' '' else the sep"
  have v: "vals ?t = sorted_list_of_set (set xs)"
    using sorted_list_of_set_vals [OF built_tree(1), of xs] by (simp add: built_tree(3))
  have "?sep \<noteq> []" using assms(2) by auto
  then show ?thesis
    using assms inorderTraversal_eq [OF stored_built, of xs] concat_sep [of "sorted_list_of_set (set xs)" num_toString]
    by (cases "set xs = {}")
      (auto simp: bt_toString_def Let_def v substring_def split: option.splits if_splits)
qed

theorem binary_tree_toString_witness:
  "bt_toString None (Some '', '') (fold bt_add [10, -3, 7, 10] (BinaryTree_new None)) = Inr ''-3, 7, 10''"
proof -
  have "sorted_list_of_set {10, -3, 7, 10 :: int} = [-3, 7, 10]" by code_simp
  moreover have "join_with '', '' (map num_toString [-3, 7, 10]) = ''-3, 7, 10''" by code_simp
  ultimately show ?thesis
    using binary_tree_toString [of None "Some '', ''" "[10, -3, 7, 10]"] by simp
qed

end
