(* ===== verification/Data_Store.thy ===== *)
theory Data_Store
  imports JS_Strings
begin

text \<open>
  \<open>src/collections/Store.js\<close>: an array of source objects with keys. The source objects have an
  arbitrary type; what the store needs of them are arguments of the definitions: \<open>eq\<close> for \<open>==\<close>,
  \<open>keyOf\<close> for the property named by \<open>keyField\<close>, \<open>get\<close>, \<open>put\<close> and \<open>call\<close> for reading and writing a
  property and calling a method, where \<^term>\<open>None\<close> is \<open>null\<close> or \<open>undefined\<close>. The event hooks
  \<open>onSetData\<close>, \<open>onClearData\<close>, \<open>onAddData\<close>, \<open>onAddDataRange\<close>, \<open>onRemoveData\<close> and \<open>onUpdateField\<close> are
  empty functions and are left out.
\<close>

section \<open>The store\<close>

record 'o datum =
  key :: string
  src :: 'o

type_synonym 'o data = "'o datum list"

definition st_getByKey :: "string \<Rightarrow> 'o data \<Rightarrow> 'o datum option" where
  "st_getByKey k data = find (\<lambda>d. key d = k) data"

definition st_getByIndex :: "int \<Rightarrow> 'o data \<Rightarrow> 'o datum option" where
  "st_getByIndex idx data = js_at data idx"

definition st_getData :: "'o data \<Rightarrow> 'o list" where
  "st_getData data = map src data"

definition st_getDataByKey :: "string \<Rightarrow> 'o data \<Rightarrow> 'o option" where
  "st_getDataByKey k data = map_option src (find (\<lambda>d. key d = k) data)"

definition st_getDataByIndex :: "int \<Rightarrow> 'o data \<Rightarrow> 'o result" where
  "st_getDataByIndex idx data = (case js_at data idx of Some d \<Rightarrow> Inr (src d) | None \<Rightarrow> Inl TypeError)"

definition st_forEach :: "('o datum \<Rightarrow> 's \<Rightarrow> 's) \<Rightarrow> 'o data \<Rightarrow> 's \<Rightarrow> 's" where
  "st_forEach fn data s = fold fn data s"

definition st_forEachData :: "('o \<Rightarrow> 's \<Rightarrow> 's) \<Rightarrow> 'o data \<Rightarrow> 's \<Rightarrow> 's" where
  "st_forEachData fn data s = fold fn (st_getData data) s"

definition st_setData :: "('o \<Rightarrow> string) \<Rightarrow> 'o list \<Rightarrow> 'o data" where
  "st_setData keyOf arr = map (\<lambda>a. \<lparr>key = keyOf a, src = a\<rparr>) arr"

definition st_clearData :: "'o data \<Rightarrow> 'o data" where
  "st_clearData data = []"

text \<open>\<open>o.src = obj\<close> for the datum \<open>o\<close> that \<open>getByKey\<close> found, which is an element of the array.\<close>

fun set_src :: "string \<Rightarrow> 'o \<Rightarrow> 'o data \<Rightarrow> 'o data" where
  "set_src k ob [] = []"
| "set_src k ob (d # data) = (if key d = k then d\<lparr>src := ob\<rparr> # data else d # set_src k ob data)"

definition st_addData :: "('o \<Rightarrow> string) \<Rightarrow> 'o \<Rightarrow> string option \<Rightarrow> 'o data \<Rightarrow> 'o data" where
  "st_addData keyOf ob ky data =
     (let k = (case ky of Some k \<Rightarrow> if k \<noteq> [] then k else keyOf ob | None \<Rightarrow> keyOf ob)
      in case st_getByKey k data of
           Some d \<Rightarrow> set_src k ob data
         | None \<Rightarrow> data @ [\<lparr>key = k, src = ob\<rparr>])"

text \<open>
  \<open>addDataRange\<close> assigns \<open>obj\<close>, a variable that does not exist, when a key is already there: the call
  stops with a \<open>ReferenceError\<close> and the objects before it stay added.
\<close>

fun st_addDataRange :: "('o \<Rightarrow> string) \<Rightarrow> 'o list \<Rightarrow> 'o data \<Rightarrow> 'o data \<times> js_error option" where
  "st_addDataRange keyOf [] data = (data, None)"
| "st_addDataRange keyOf (a # arr) data =
     (case st_getByKey (keyOf a) data of
        Some d \<Rightarrow> (data, Some ReferenceError)
      | None \<Rightarrow> st_addDataRange keyOf arr (data @ [\<lparr>key = keyOf a, src = a\<rparr>]))"

definition st_removeData :: "('o \<Rightarrow> 'o \<Rightarrow> bool) \<Rightarrow> 'o option \<Rightarrow> 'o data \<Rightarrow> 'o data" where
  "st_removeData eq ob data =
     (let idx = scan_index (\<lambda>d. case ob of None \<Rightarrow> False | Some x \<Rightarrow> eq (src d) x) data 0
      in if idx > - 1 then js_splice data idx 1 [] else data)"

definition st_removeDataByKey :: "('o \<Rightarrow> 'o \<Rightarrow> bool) \<Rightarrow> string \<Rightarrow> 'o data \<Rightarrow> 'o data" where
  "st_removeDataByKey eq k data = st_removeData eq (st_getDataByKey k data) data"

definition st_removeDataByIndex :: "('o \<Rightarrow> 'o \<Rightarrow> bool) \<Rightarrow> int \<Rightarrow> 'o data \<Rightarrow> 'o data result" where
  "st_removeDataByIndex eq idx data = rbind (st_getDataByIndex idx data) (\<lambda>x. Inr (st_removeData eq (Some x) data))"

text \<open>An array whose first element is not truthy does not fill the store; \<open>truthy\<close> tests it.\<close>

definition Store_new :: "('o \<Rightarrow> bool) \<Rightarrow> ('o \<Rightarrow> string) \<Rightarrow> 'o list option \<Rightarrow> 'o data" where
  "Store_new truthy keyOf arr =
     (case arr of Some (a # as) \<Rightarrow> if truthy a then st_setData keyOf (a # as) else [] | _ \<Rightarrow> [])"

section \<open>Paths of fields\<close>

text \<open>The part of a path component before \<open>"()"\<close>, when it has one.\<close>

fun before_call :: "string \<Rightarrow> string option" where
  "before_call [] = None"
| "before_call (c # cs) =
     (if c = CHR ''('' \<and> cs \<noteq> [] \<and> hd cs = CHR '')'' then Some [] else map_option (\<lambda>s. c # s) (before_call cs))"

definition quoted :: "string \<Rightarrow> string" where
  "quoted s = CHR 0x27 # s @ [CHR 0x27]"

definition not_a_property :: "string \<Rightarrow> string \<Rightarrow> js_error" where
  "not_a_property field name =
     Raised (''dojo.collections.Store.getField(obj, '' @ quoted field @ ''): '' @ quoted name @ '' is not a property of the passed object.'')"

text \<open>
  The loop over the components of a path: it stops when they are used up or when the value is \<open>null\<close>
  or \<open>undefined\<close>, and leaves the remaining components. \<open>field\<close> is the name that an error message shows.
\<close>

fun walk_path where
  "walk_path get call field [] x = Inr (Some x, [])"
| "walk_path get call field (p # ps) x =
     rbind (case before_call p of
              Some temp \<Rightarrow> if get x temp = None then Inl (not_a_property field temp) else call x temp
            | None \<Rightarrow> Inr (get x p))
       (\<lambda>v. case v of None \<Rightarrow> Inr (None, ps) | Some y \<Rightarrow> if ps = [] then Inr (Some y, []) else walk_path get call field ps y)"

definition getField where
  "getField get call x field =
     rbind (walk_path get call field (split_on CHR ''.'' field) x) (\<lambda>(v, ps).
       if ps \<noteq> [] then Inl (not_a_property field field) else Inr v)"

text \<open>\<open>update\<close> walks to the object that holds the field, but then assigns to the field of \<open>obj\<close> itself.\<close>

definition st_update where
  "st_update get call put x fieldPath v =
     (let parts = split_on CHR ''.'' fieldPath
      in if length parts > 1
         then rbind (walk_path get call (last parts) (butlast parts) x) (\<lambda>_. Inr (put x (last parts) v))
         else Inr (put x (hd parts) v))"

section \<open>The store as a map\<close>

abbreviation lookup :: "'o data \<Rightarrow> string \<Rightarrow> 'o option" where
  "lookup data \<equiv> (\<lambda>k. st_getDataByKey k data)"

lemma lookup_simps [simp]:
  "lookup [] k = None" "lookup (d # data) k = (if key d = k then Some (src d) else lookup data k)"
  by (simp_all add: st_getDataByKey_def)

lemma lookup_append: "lookup (xs @ ys) k = (case lookup xs k of None \<Rightarrow> lookup ys k | Some x \<Rightarrow> Some x)"
  by (induction xs) auto

lemma lookup_None: "lookup data k = None \<longleftrightarrow> k \<notin> set (map key data)"
  by (induction data) auto

lemma getByKey_None: "st_getByKey k data = None \<longleftrightarrow> k \<notin> set (map key data)"
  by (induction data) (auto simp: st_getByKey_def)

lemma keys_set_src: "map key (set_src k ob data) = map key data"
  by (induction k ob data rule: set_src.induct) auto

lemma lookup_set_src: "k \<in> set (map key data) \<Longrightarrow> lookup (set_src k ob data) = (lookup data)(k \<mapsto> ob)"
  by (induction k ob data rule: set_src.induct) (auto simp: fun_eq_iff)

lemma addData_key:
  assumes "k \<noteq> []"
  shows "lookup (st_addData keyOf ob (Some k) data) = (lookup data)(k \<mapsto> ob)"
    "set (map key (st_addData keyOf ob (Some k) data)) = insert k (set (map key data))"
    "distinct (map key data) \<Longrightarrow> distinct (map key (st_addData keyOf ob (Some k) data))"
proof -
  have c: "st_addData keyOf ob (Some k) data = (if k \<in> set (map key data) then set_src k ob data else data @ [\<lparr>key = k, src = ob\<rparr>])"
    using assms getByKey_None [of k data] by (auto simp: st_addData_def split: option.splits)
  show "lookup (st_addData keyOf ob (Some k) data) = (lookup data)(k \<mapsto> ob)"
  proof (cases "k \<in> set (map key data)")
    case True
    then show ?thesis using lookup_set_src [OF True, of ob] by (simp add: c)
  next
    case False
    then show ?thesis using lookup_None [of k data] by (auto simp: c lookup_append fun_eq_iff split: option.splits)
  qed
  show "set (map key (st_addData keyOf ob (Some k) data)) = insert k (set (map key data))"
    by (auto simp: c keys_set_src simp del: set_map)
  show "distinct (map key data) \<Longrightarrow> distinct (map key (st_addData keyOf ob (Some k) data))"
    by (auto simp: c keys_set_src simp del: set_map)
qed

lemma addData_all:
  "\<forall>(k, ob) \<in> set kvs. k \<noteq> [] \<Longrightarrow> distinct (map key data) \<Longrightarrow>
   lookup (fold (\<lambda>(k, ob). st_addData keyOf ob (Some k)) kvs data) = lookup data ++ map_of (rev kvs) \<and>
   distinct (map key (fold (\<lambda>(k, ob). st_addData keyOf ob (Some k)) kvs data)) \<and>
   set (map key (fold (\<lambda>(k, ob). st_addData keyOf ob (Some k)) kvs data)) = set (map key data) \<union> set (map fst kvs)"
proof (induction kvs arbitrary: data)
  case (Cons kv kvs)
  obtain k ob where kv: "kv = (k, ob)" by (cases kv)
  then have k: "k \<noteq> []" using Cons.prems by simp
  from Cons.IH [of "st_addData keyOf ob (Some k) data"] Cons.prems kv show ?case
    by (simp add: addData_key [OF k] map_add_def fun_eq_iff del: set_map split: option.splits)
qed simp

lemma remove_key:
  assumes "distinct (map key data)" "distinct (st_getData data)"
  shows "lookup (st_removeDataByKey (=) k data) = (lookup data)(k := None)"
proof (cases "lookup data k")
  case None
  have "scan_index (\<lambda>d. case None of None \<Rightarrow> False | Some x \<Rightarrow> src d = x) data 0 = - 1" by (rule scan_index_none) simp
  with None show ?thesis by (auto simp: st_removeDataByKey_def st_removeData_def fun_eq_iff)
next
  case (Some x)
  then have "\<exists>d \<in> set data. src d = x"
    by (induction data) (auto split: if_splits)
  then obtain us d vs where s: "data = us @ d # vs" "src d = x" "\<forall>u \<in> set us. src u \<noteq> x"
    "scan_index (\<lambda>d. src d = x) data 0 = int (length us)"
    using scan_index_split [of data "\<lambda>d. src d = x" 0] by auto
  have "key d = k"
  proof (rule ccontr)
    assume "key d \<noteq> k"
    have "\<exists>e \<in> set data. key e = k \<and> src e = x" using Some by (induction data) (auto split: if_splits)
    with \<open>key d \<noteq> k\<close> s assms(2) show False by (auto simp: st_getData_def image_iff)
  qed
  moreover have "st_removeDataByKey (=) k data = us @ vs"
    using s Some js_splice_delete [of "length us" data] by (simp add: st_removeDataByKey_def st_removeData_def)
  moreover have "lookup us k = None" "lookup vs k = None" using assms(1) s \<open>key d = k\<close> by (simp_all add: lookup_None)
  ultimately show ?thesis by (auto simp: s(1) lookup_append fun_eq_iff split: option.splits)
qed

section \<open>Properties\<close>

text \<open>
  Claim C24. A store filled by \<open>addData\<close> is the finite map from the keys to the objects added last, with
  each key once. Removing by key removes that key alone, provided that no object is in the store under
  two keys.
\<close>

theorem store_is_map:
  fixes keyOf :: "'o \<Rightarrow> string"
  assumes "\<forall>(k, ob) \<in> set kvs. k \<noteq> []"
  defines "data \<equiv> fold (\<lambda>(k, ob). st_addData keyOf ob (Some k)) kvs []"
  shows "(\<lambda>k. st_getDataByKey k data) = map_of (rev kvs) \<and> distinct (map key data) \<and>
    (distinct (st_getData data) \<longrightarrow> (\<lambda>j. st_getDataByKey j (st_removeDataByKey (=) k data)) = (map_of (rev kvs))(k := None))"
proof -
  have "lookup data = map_of (rev kvs)" "distinct (map key data)"
    using addData_all [OF assms(1), of "[]" keyOf] by (simp_all add: data_def)
  then show ?thesis using remove_key [of data k] by simp
qed

theorem store_is_map_witness:
  "(let kvs = [(''x'', 1), (''y'', 2), (''x'', 3 :: int)]; data = fold (\<lambda>(k, ob). st_addData (\<lambda>_. []) ob (Some k)) kvs []
    in (\<lambda>k. st_getDataByKey k data) = map_of (rev kvs) \<and> st_getData data = [3, 2])"
proof -
  let ?kvs = "[(''x'', 1), (''y'', 2), (''x'', 3 :: int)]"
  have "\<forall>(k, ob) \<in> set ?kvs. k \<noteq> []" by simp
  from store_is_map [OF this, of "\<lambda>_. []" "[]"]
  have "(\<lambda>k. st_getDataByKey k (fold (\<lambda>(k, ob). st_addData (\<lambda>_. []) ob (Some k)) ?kvs [])) = map_of (rev ?kvs)" by (rule conjunct1)
  moreover have "st_getData (fold (\<lambda>(k, ob). st_addData (\<lambda>_. []) ob (Some k)) ?kvs []) = [3, 2]" by code_simp
  ultimately show ?thesis by (simp only: Let_def)
qed

text \<open>
  \<open>removeDataByKey\<close> compares objects, not keys: when an object is in the store under two
  keys, removing the second key removes the first one. \<open>update\<close> with a path writes the field of the
  object itself, not of the object that the path leads to. \<open>addDataRange\<close> stops at an object whose key
  is already in the store.
\<close>

theorem store_faults:
  "st_getDataByKey ''a'' (st_removeDataByKey (=) ''b'' (st_addData keyOf x (Some ''b'') (st_addData keyOf x (Some ''a'') []))) = None \<and>
   st_getDataByKey ''b'' (st_removeDataByKey (=) ''b'' (st_addData keyOf x (Some ''b'') (st_addData keyOf x (Some ''a'') []))) = Some x \<and>
   st_update (\<lambda>ob p. if p = ''a'' then Some inner else None) call put outer ''a.b'' v = Inr (put outer ''b'' v) \<and>
   st_addDataRange keyOf [x, x, y] [] = ([\<lparr>key = keyOf x, src = x\<rparr>], Some ReferenceError)"
proof -
  have a: "st_addData keyOf x (Some ''b'') (st_addData keyOf x (Some ''a'') []) = [\<lparr>key = ''a'', src = x\<rparr>, \<lparr>key = ''b'', src = x\<rparr>]"
    by (simp add: st_addData_def st_getByKey_def)
  have r: "st_removeDataByKey (=) ''b'' [\<lparr>key = ''a'', src = x\<rparr>, \<lparr>key = ''b'', src = x\<rparr>] = [\<lparr>key = ''b'', src = x\<rparr>]"
    by (simp add: st_removeDataByKey_def st_removeData_def js_splice_def)
  have "split_on CHR ''.'' ''a.b'' = [''a'', ''b'']" "before_call ''a'' = None" by code_simp+
  then have "st_update (\<lambda>ob p. if p = ''a'' then Some inner else None) call put outer ''a.b'' v = Inr (put outer ''b'' v)"
    by (simp add: st_update_def)
  with a r show ?thesis by (simp add: st_getByKey_def)
qed

end
