(* ===== verification/Deferred.thy ===== *)
theory Deferred
  imports JS_Strings
begin

text \<open>
  \<open>src/Deferred.js\<close> and \<open>src/DeferredList.js\<close>: chains of callbacks for a value that is not yet there.

  The deferred objects live in a store and refer to each other by address, since one deferred waits
  for another by adding a closure to the chain of the other. A callback of the user is a function
  from a value to an outcome, a return or a throw; it does not touch the store. The two closures that
  the source itself creates, the one of \<open>_fire\<close> that calls \<open>_continue\<close> and the one of the list that
  calls \<open>_cbDeferred\<close>, are constructors of their own.

  The calls of \<open>_fire\<close> nest as deferreds wake each other. The model gives \<open>fire\<close> a bound on the
  number of nested calls and loop steps; \<^term>\<open>None\<close> is a run that does not fit, and the properties
  show how large a bound always suffices.
\<close>

section \<open>Values and the store\<close>

datatype 'v jval =
  Undef | Value 'v | Text string | Error_Val "'v jval" | Deferred_Val nat
| Result_List "(bool \<times> 'v jval) option list" | Index_Result nat "'v jval" | Array_Val "'v jval list"

datatype 'v outcome = Return "'v jval" | Throw "'v jval"

fun is_Error :: "'v jval \<Rightarrow> bool" where
  "is_Error (Error_Val v) \<longleftrightarrow> True"
| "is_Error _ \<longleftrightarrow> False"

fun is_Deferred :: "'v jval \<Rightarrow> bool" where
  "is_Deferred (Deferred_Val d) \<longleftrightarrow> True"
| "is_Deferred _ \<longleftrightarrow> False"

datatype 'v callback = Fn "'v jval \<Rightarrow> 'v outcome" | Continue nat | List_Cb nat nat bool

type_synonym 'v pair = "'v callback option \<times> 'v callback option"

text \<open>The additional fields of a \<open>DeferredList\<close>.\<close>

record 'v list_part =
  members :: "nat list"
  resultList :: "(bool \<times> 'v jval) option list"
  finishedCount :: nat
  fireOnOneCallback :: bool
  fireOnOneErrback :: bool
  consumeErrors :: bool

record 'v deferred =
  chain :: "'v pair list"
  fired :: int
  paused :: int
  results :: "'v jval \<times> 'v jval"
  has_canceller :: bool
  silentlyCancelled :: bool
  list_part :: "'v list_part option"

definition Deferred_init :: "bool \<Rightarrow> 'v deferred" where
  "Deferred_init canc =
     \<lparr>chain = [], fired = - 1, paused = 0, results = (Undef, Undef), has_canceller = canc,
      silentlyCancelled = False, list_part = None\<rparr>"

text \<open>
  The address of a deferred is its position in the store; \<open>_nextId\<close> numbers the deferreds from one, in
  the order of their creation.
\<close>

type_synonym 'v store = "'v deferred list"

definition deref :: "'v store \<Rightarrow> nat \<Rightarrow> 'v deferred" where
  "deref st d = (if d < length st then st ! d else Deferred_init False)"

definition update_at :: "nat \<Rightarrow> ('v deferred \<Rightarrow> 'v deferred) \<Rightarrow> 'v store \<Rightarrow> 'v store" where
  "update_at d f st = (if d < length st then st[d := f (st ! d)] else st)"

definition Deferred_new :: "bool \<Rightarrow> 'v store \<Rightarrow> 'v store \<times> nat" where
  "Deferred_new canc st = (st @ [Deferred_init canc], length st)"

definition result_at :: "int \<Rightarrow> 'v deferred \<Rightarrow> 'v jval" where
  "result_at k x = (if k = 0 then fst (results x) else if k = 1 then snd (results x) else Undef)"

definition set_result :: "int \<Rightarrow> 'v jval \<Rightarrow> 'v deferred \<Rightarrow> 'v deferred" where
  "set_result k v x =
     x\<lparr>fired := k, results := (if k = 0 then (v, snd (results x)) else if k = 1 then (fst (results x), v) else results x)\<rparr>"

section \<open>Operations\<close>

definition status :: "'v jval \<Rightarrow> int" where
  "status res = (if is_Error res then 1 else 0)"

definition repr :: "nat \<Rightarrow> 'v store \<Rightarrow> string" where
  "repr d st =
     (let state = (if fired (deref st d) = - 1 then ''unfired'' else if fired (deref st d) = 0 then ''success'' else ''error'')
      in ''Deferred('' @ to_dec (d + 1) @ '', '' @ state @ '')'')"

definition pause :: "nat \<Rightarrow> 'v store \<Rightarrow> 'v store" where
  "pause d st = update_at d (\<lambda>x. x\<lparr>paused := paused x + 1\<rparr>) st"

text \<open>The operations below call \<open>_fire\<close>, which is their first argument.\<close>

type_synonym 'v firing = "nat \<Rightarrow> 'v store \<Rightarrow> 'v store option"

definition unpause :: "'v firing \<Rightarrow> nat \<Rightarrow> 'v store \<Rightarrow> 'v store option" where
  "unpause fire d st =
     (let st1 = update_at d (\<lambda>x. x\<lparr>paused := paused x - 1\<rparr>) st
      in if paused (deref st1 d) = 0 \<and> fired (deref st1 d) \<ge> 0 then fire d st1 else Some st1)"

definition resback :: "'v firing \<Rightarrow> nat \<Rightarrow> 'v jval \<Rightarrow> 'v store \<Rightarrow> 'v store option" where
  "resback fire d res st = fire d (update_at d (set_result (status res) res) st)"

definition continue_with :: "'v firing \<Rightarrow> nat \<Rightarrow> 'v jval \<Rightarrow> 'v store \<Rightarrow> 'v store option" where
  "continue_with fire d res st = Option.bind (resback fire d res st) (unpause fire d)"

definition already_called :: "'v jval" where
  "already_called = Error_Val (Text ''already called!'')"

text \<open>\<open>_check\<close> returns or throws; a return does not stop its caller.\<close>

definition check :: "nat \<Rightarrow> 'v store \<Rightarrow> 'v jval + 'v store" where
  "check d st =
     (if fired (deref st d) \<noteq> - 1
      then if \<not> silentlyCancelled (deref st d) then Inl already_called
           else Inr (update_at d (\<lambda>x. x\<lparr>silentlyCancelled := False\<rparr>) st)
      else Inr st)"

type_synonym 'v run = "('v store \<times> 'v outcome) option"

definition call_back :: "'v firing \<Rightarrow> nat \<Rightarrow> 'v jval \<Rightarrow> 'v store \<Rightarrow> 'v run" where
  "call_back fire d res st =
     (case check d st of
        Inl e \<Rightarrow> Some (st, Throw e)
      | Inr st1 \<Rightarrow> map_option (\<lambda>st2. (st2, Return Undef)) (resback fire d res st1))"

definition err_back :: "'v firing \<Rightarrow> nat \<Rightarrow> 'v jval \<Rightarrow> 'v store \<Rightarrow> 'v run" where
  "err_back fire d res st =
     (case check d st of
        Inl e \<Rightarrow> Some (st, Throw e)
      | Inr st1 \<Rightarrow>
          (let res = (if \<not> is_Error res then Error_Val res else res)
           in map_option (\<lambda>st2. (st2, Return Undef)) (resback fire d res st1)))"

definition addCallbacks :: "'v firing \<Rightarrow> nat \<Rightarrow> 'v callback option \<Rightarrow> 'v callback option \<Rightarrow> 'v store \<Rightarrow> 'v store option" where
  "addCallbacks fire d cb eb st =
     (let st1 = update_at d (\<lambda>x. x\<lparr>chain := chain x @ [(cb, eb)]\<rparr>) st
      in if fired (deref st1 d) \<ge> 0 then fire d st1 else Some st1)"

text \<open>
  The arguments of the registering operations: a function, the name of a global function, or an
  object (its methods) with a function or the name of a method, which \<open>dojo.lang.hitch\<close> binds; a
  method that is missing is the function that does nothing.
\<close>

datatype 'v arg = Absent | Fun_Arg "'v callback" | Name_Arg string | Object_Arg "string \<Rightarrow> 'v callback option"

fun truthy_arg :: "'v arg \<Rightarrow> bool" where
  "truthy_arg Absent \<longleftrightarrow> False"
| "truthy_arg (Name_Arg s) \<longleftrightarrow> s \<noteq> []"
| "truthy_arg _ \<longleftrightarrow> True"

definition nop :: "'v callback" where
  "nop = Fn (\<lambda>_. Return Undef)"

fun hitch :: "'v arg \<Rightarrow> 'v arg \<Rightarrow> 'v callback" where
  "hitch ob (Fun_Arg f) = f"
| "hitch (Object_Arg ms) (Name_Arg m) = (case ms m of Some f \<Rightarrow> f | None \<Rightarrow> nop)"
| "hitch ob m = nop"

definition getFunctionFromArgs :: "(string \<Rightarrow> 'v callback option) \<Rightarrow> 'v arg \<Rightarrow> 'v arg \<Rightarrow> 'v callback option" where
  "getFunctionFromArgs global a0 a1 =
     (if truthy_arg a0 \<and> \<not> truthy_arg a1
      then (case a0 of Fun_Arg f \<Rightarrow> Some f | Name_Arg s \<Rightarrow> global s | _ \<Rightarrow> None)
      else if truthy_arg a0 \<and> truthy_arg a1 then Some (hitch a0 a1)
      else None)"

definition addBoth where
  "addBoth global fire d cb cbfn st =
     (let enclosed = getFunctionFromArgs global cb cbfn in addCallbacks fire d enclosed enclosed st)"

definition addCallback where
  "addCallback global fire d cb cbfn st =
     (let enclosed = getFunctionFromArgs global cb cbfn in addCallbacks fire d enclosed None st)"

definition addErrback where
  "addErrback global fire d cb cbfn st =
     (let enclosed = getFunctionFromArgs global cb cbfn in addCallbacks fire d None enclosed st)"

section \<open>The callback of a list\<close>

definition record_result :: "nat \<Rightarrow> bool \<Rightarrow> 'v jval \<Rightarrow> 'v list_part \<Rightarrow> 'v list_part" where
  "record_result i ok v p = p\<lparr>resultList := (resultList p)[i := Some (ok, v)], finishedCount := finishedCount p + 1\<rparr>"

text \<open>
  \<open>_cbDeferred\<close> of the list at address \<open>l\<close>. It returns its result, but the closures that the list
  adds to its members do not.
\<close>

definition cbDeferred :: "'v firing \<Rightarrow> nat \<Rightarrow> nat \<Rightarrow> bool \<Rightarrow> 'v jval \<Rightarrow> 'v store \<Rightarrow> 'v run" where
  "cbDeferred fire l index succeeded result st =
     (case list_part (deref st l) of
        None \<Rightarrow> Some (st, Throw (Error_Val (Text ''TypeError'')))
      | Some p \<Rightarrow>
          (let p1 = record_result index succeeded result p;
               st1 = update_at l (\<lambda>x. x\<lparr>list_part := Some p1\<rparr>) st;
               ret = (if \<not> succeeded \<and> consumeErrors p then Undef else result);
               fired_now =
                 (if fired (deref st1 l) \<noteq> 0
                  then if succeeded \<and> fireOnOneCallback p then call_back fire l (Index_Result index result) st1
                       else if \<not> succeeded \<and> fireOnOneErrback p then err_back fire l result st1
                       else if finishedCount p1 = length (members p) then call_back fire l (Result_List (resultList p1)) st1
                       else Some (st1, Return Undef)
                  else Some (st1, Return Undef))
           in map_option (\<lambda>(st2, oc). (st2, case oc of Throw e \<Rightarrow> Throw e | Return _ \<Rightarrow> Return ret)) fired_now))"

definition invoke :: "'v firing \<Rightarrow> 'v callback \<Rightarrow> 'v jval \<Rightarrow> 'v store \<Rightarrow> 'v run" where
  "invoke fire f res st =
     (case f of
        Fn g \<Rightarrow> Some (st, g res)
      | Continue d \<Rightarrow> map_option (\<lambda>st1. (st1, Return Undef)) (continue_with fire d res st)
      | List_Cb l i ok \<Rightarrow>
          map_option (\<lambda>(st1, oc). (st1, case oc of Throw e \<Rightarrow> Throw e | Return _ \<Rightarrow> Return Undef)) (cbDeferred fire l i ok res st))"

section \<open>Firing\<close>

text \<open>
  The loop of \<open>_fire\<close> runs with the local variables \<open>fired\<close>, \<open>res\<close> and \<open>cb\<close>; \<open>cb\<close> is only ever the closure
  that continues this deferred, so a truth value says whether it is set. When it is set, \<open>res\<close> is the
  deferred to wait for.
\<close>

fun fire :: "nat \<Rightarrow> nat \<Rightarrow> 'v store \<Rightarrow> 'v store option"
  and fire_loop :: "nat \<Rightarrow> nat \<Rightarrow> int \<Rightarrow> 'v jval \<Rightarrow> bool \<Rightarrow> 'v store \<Rightarrow> (int \<times> 'v jval \<times> bool \<times> 'v store) option" where
  "fire 0 d st = None"
| "fire (Suc n) d st =
     (let k = fired (deref st d)
      in case fire_loop n d k (result_at k (deref st d)) False st of
           None \<Rightarrow> None
         | Some (k1, res, cb, st1) \<Rightarrow>
             (let st2 = update_at d (set_result k1 res) st1
              in if cb \<and> paused (deref st2 d) \<noteq> 0
                 then (case res of Deferred_Val e \<Rightarrow> addCallbacks (fire n) e (Some (Continue d)) (Some (Continue d)) st2
                       | _ \<Rightarrow> Some st2)
                 else Some st2))"
| "fire_loop 0 d k res cb st = None"
| "fire_loop (Suc n) d k res cb st =
     (if chain (deref st d) \<noteq> [] \<and> paused (deref st d) = 0
      then (let pair = hd (chain (deref st d));
                st1 = update_at d (\<lambda>x. x\<lparr>chain := tl (chain x)\<rparr>) st
            in case (if k = 0 then fst pair else snd pair) of
                 None \<Rightarrow> fire_loop n d k res cb st1
               | Some f \<Rightarrow>
                   (case invoke (fire n) f res st1 of
                      None \<Rightarrow> None
                    | Some (st2, Return r) \<Rightarrow>
                        if is_Deferred r then fire_loop n d (status r) r True (pause d st2)
                        else fire_loop n d (status r) r cb st2
                    | Some (st2, Throw e) \<Rightarrow> fire_loop n d 1 e cb st2))
      else Some (k, res, cb, st))"

declare fire.simps(2) [simp del] fire_loop.simps(2) [simp del]

section \<open>Cancelling\<close>

text \<open>
  The canceller is code of the user that is called with the deferred and may fire it: the parameter
  \<open>canceller\<close> is what it does to the store.
\<close>

fun cancel :: "nat \<Rightarrow> (nat \<Rightarrow> 'v store \<Rightarrow> 'v store option) \<Rightarrow> nat \<Rightarrow> 'v store \<Rightarrow> 'v run" where
  "cancel 0 canceller d st = None"
| "cancel (Suc n) canceller d st =
     (if fired (deref st d) = - 1
      then Option.bind
             (if has_canceller (deref st d) then canceller d st
              else Some (update_at d (\<lambda>x. x\<lparr>silentlyCancelled := True\<rparr>) st))
             (\<lambda>st1. if fired (deref st1 d) = - 1
                    then err_back (fire n) d (Error_Val (Text (repr d st1))) st1
                    else Some (st1, Return Undef))
      else if fired (deref st d) = 0
      then (case fst (results (deref st d)) of
              Deferred_Val e \<Rightarrow> cancel n canceller e st
            | _ \<Rightarrow> Some (st, Return Undef))
      else Some (st, Return Undef))"

definition makeCalled :: "nat \<Rightarrow> 'v store \<Rightarrow> ('v store \<times> nat) option" where
  "makeCalled n st =
     (let (st1, d) = Deferred_new False st
      in map_option (\<lambda>(st2, oc). (st2, d)) (call_back (fire n) d Undef st1))"

section \<open>Lists of deferreds\<close>

fun list_register :: "nat \<Rightarrow> nat \<Rightarrow> nat list \<Rightarrow> nat \<Rightarrow> 'v store \<Rightarrow> 'v store option" where
  "list_register n l [] index st = Some st"
| "list_register n l (d # ds) index st =
     Option.bind (addCallbacks (fire n) d (Some (List_Cb l index True)) None st) (\<lambda>st1.
     Option.bind (addCallbacks (fire n) d None (Some (List_Cb l index False)) st1) (\<lambda>st2.
     list_register n l ds (Suc index) st2))"

definition DeferredList_new :: "nat \<Rightarrow> nat list \<Rightarrow> bool \<Rightarrow> bool \<Rightarrow> bool \<Rightarrow> bool \<Rightarrow> 'v store \<Rightarrow> ('v store \<times> nat) option" where
  "DeferredList_new n ds oneCallback oneErrback consume canc st =
     (let l = length st;
          p = \<lparr>members = ds, resultList = replicate (length ds) None, finishedCount = 0,
               fireOnOneCallback = oneCallback, fireOnOneErrback = oneErrback, consumeErrors = consume\<rparr>;
          st1 = st @ [(Deferred_init canc)\<lparr>list_part := Some p\<rparr>]
      in Option.bind
           (if ds = [] \<and> \<not> oneCallback then map_option fst (call_back (fire n) l (Result_List (resultList p)) st1)
            else Some st1)
           (\<lambda>st2. map_option (\<lambda>st3. (st3, l)) (list_register n l ds 0 st2)))"

text \<open>The callback of \<open>gatherResults\<close>; a value without \<open>length\<close> gives an empty array.\<close>

fun gather_values :: "'v jval \<Rightarrow> 'v outcome" where
  "gather_values (Result_List rs) =
     (if list_all (\<lambda>r. r \<noteq> None) rs then Return (Array_Val (map (\<lambda>r. snd (the r)) rs))
      else Throw (Error_Val (Text ''TypeError'')))"
| "gather_values Undef = Throw (Error_Val (Text ''TypeError''))"
| "gather_values _ = Return (Array_Val [])"

definition gatherResults :: "nat \<Rightarrow> nat list \<Rightarrow> 'v store \<Rightarrow> ('v store \<times> nat) option" where
  "gatherResults n ds st =
     Option.bind (DeferredList_new n ds False True False False st) (\<lambda>(st1, l).
       map_option (\<lambda>st2. (st2, l)) (addCallbacks (fire n) l (Some (Fn gather_values)) None st1))"

section \<open>The store\<close>

lemma length_update_at [simp]: "length (update_at d f st) = length st"
  by (simp add: update_at_def)

lemma deref_update_at:
  "deref (update_at d f st) e = (if e = d \<and> d < length st then f (deref st d) else deref st e)"
  by (auto simp: update_at_def deref_def)

lemma update_at_twice: "update_at d f (update_at d g st) = update_at d (\<lambda>x. f (g x)) st"
  by (simp add: update_at_def)

lemma update_at_comm: "d \<noteq> e \<Longrightarrow> update_at d f (update_at e g st) = update_at e g (update_at d f st)"
  by (simp add: update_at_def list_update_swap)

lemma update_at_id [simp]: "update_at d (\<lambda>x. x) st = st"
  by (simp add: update_at_def)

lemma update_at_cong: "(d < length st \<Longrightarrow> f (deref st d) = g (deref st d)) \<Longrightarrow> update_at d f st = update_at d g st"
  by (simp add: update_at_def deref_def)

lemma deref_outside [simp]: "\<not> d < length st \<Longrightarrow> deref st d = Deferred_init False"
  by (simp add: deref_def)

lemma init_fields: "fired (Deferred_init c) = - 1" "paused (Deferred_init c) = 0" "chain (Deferred_init c) = []"
  by (simp_all add: Deferred_init_def)

lemma set_result_simps [simp]:
  "chain (set_result k v x) = chain x" "paused (set_result k v x) = paused x" "fired (set_result k v x) = k"
  "list_part (set_result k v x) = list_part x" "silentlyCancelled (set_result k v x) = silentlyCancelled x"
  "k \<in> {0, 1} \<Longrightarrow> result_at k (set_result k v x) = v"
  by (auto simp: set_result_def result_at_def)

lemma status_simps [simp]: "status (Error_Val v) = 1" "status Undef = 0" "status (Deferred_Val d) = 0" "status (Value x) = 0"
  by (simp_all add: status_def)

lemma status_cases: "status v \<in> {0, 1}"
  by (simp add: status_def)

lemma result_at_simps [simp]:
  "result_at (status v) (set_result (status v) v x) = v"
  "result_at k (x\<lparr>chain := c\<rparr>) = result_at k x" "result_at k (x\<lparr>paused := j\<rparr>) = result_at k x"
  by (auto simp: result_at_def set_result_def status_def)

section \<open>Every firing ends\<close>

text \<open>
  The work left in a store: one for each pair of a chain, and one more if a callback of the user is in
  it, which may return a deferred and so cause one more pair to be added.
\<close>

fun is_user :: "'v callback option \<Rightarrow> bool" where
  "is_user (Some (Fn g)) \<longleftrightarrow> True"
| "is_user _ \<longleftrightarrow> False"

definition pair_work :: "'v pair \<Rightarrow> nat" where
  "pair_work pr = (if is_user (fst pr) \<or> is_user (snd pr) then 2 else 1)"

definition chain_work :: "'v deferred \<Rightarrow> nat" where
  "chain_work x = sum_list (map pair_work (chain x))"

definition work :: "'v store \<Rightarrow> nat" where
  "work st = sum_list (map chain_work st)"

lemma work_update_at:
  "d < length st \<Longrightarrow> work (update_at d f st) + chain_work (deref st d) = work st + chain_work (f (deref st d))"
proof -
  assume d: "d < length st"
  define a b where "a = take d st" and "b = drop (Suc d) st"
  have st: "st = a @ st ! d # b" "update_at d f st = a @ f (st ! d) # b"
    using d by (simp_all add: a_def b_def id_take_nth_drop [OF d, symmetric] update_at_def upd_conv_take_nth_drop)
  have "work st = sum_list (map chain_work a) + chain_work (st ! d) + sum_list (map chain_work b)"
    by (subst st(1)) (simp add: work_def)
  moreover have "work (update_at d f st) = sum_list (map chain_work a) + chain_work (f (st ! d)) + sum_list (map chain_work b)"
    by (simp add: st(2) work_def)
  ultimately show ?thesis using d by (simp add: deref_def)
qed

lemma work_update_same [simp]:
  "(\<And>x. chain (f x) = chain x) \<Longrightarrow> work (update_at d f st) = work st"
  using work_update_at [of d st f] by (cases "d < length st") (auto simp: chain_work_def update_at_def)

lemma work_push: "work (update_at d (\<lambda>x. x\<lparr>chain := chain x @ [pr]\<rparr>) st) \<le> work st + pair_work pr"
  using work_update_at [of d st "\<lambda>x. x\<lparr>chain := chain x @ [pr]\<rparr>"]
  by (cases "d < length st") (auto simp: chain_work_def update_at_def)

lemma work_pop:
  assumes "chain (deref st d) \<noteq> []"
  shows "work (update_at d (\<lambda>x. x\<lparr>chain := tl (chain x)\<rparr>) st) + pair_work (hd (chain (deref st d))) = work st"
proof -
  have "d < length st" using assms by (rule contrapos_np) (simp add: Deferred_init_def)
  from work_update_at [OF this, of "\<lambda>x. x\<lparr>chain := tl (chain x)\<rparr>"] assms show ?thesis
    by (cases "chain (deref st d)") (auto simp: chain_work_def)
qed

lemma pair_work_pos: "1 \<le> pair_work pr" "is_user (fst pr) \<or> is_user (snd pr) \<Longrightarrow> pair_work pr = 2"
  by (simp_all add: pair_work_def)

lemma set_result_chain_work [simp]: "work (update_at d (set_result k v) st) = work st"
  by (rule work_update_same) simp

text \<open>
  The contract between \<open>_fire\<close> and the operations that call it: on a store with at most \<open>m\<close> work it
  returns, and leaves no more work than there was.
\<close>

locale good_firing =
  fixes f :: "'v firing" and m :: nat
  assumes ends: "work st \<le> m \<Longrightarrow> \<exists>st'. f d st = Some st' \<and> work st' \<le> work st"
begin

lemma resback_good: "work st \<le> m \<Longrightarrow> \<exists>st'. resback f d v st = Some st' \<and> work st' \<le> work st"
  using ends [of "update_at d (set_result (status v) v) st" d] by (simp add: resback_def)

lemma unpause_good: "work st \<le> m \<Longrightarrow> \<exists>st'. unpause f d st = Some st' \<and> work st' \<le> work st"
  using ends [of "update_at d (\<lambda>x. x\<lparr>paused := paused x - 1\<rparr>) st" d] by (simp add: unpause_def Let_def)

lemma continue_good:
  assumes "work st \<le> m"
  shows "\<exists>st'. continue_with f d v st = Some st' \<and> work st' \<le> work st"
proof -
  obtain st1 where "resback f d v st = Some st1" "work st1 \<le> work st" using resback_good [OF assms] by blast
  then show ?thesis using unpause_good [of st1 d] assms by (auto simp: continue_with_def)
qed

lemma call_back_good:
  assumes "work st \<le> m"
  shows "\<exists>st' oc. call_back f d v st = Some (st', oc) \<and> work st' \<le> work st"
    "\<exists>st' oc. err_back f d v st = Some (st', oc) \<and> work st' \<le> work st"
proof -
  have c: "work st1 = work st" if "check d st = Inr st1" for st1
    using that by (auto simp: check_def split: if_splits)
  have "\<exists>st'. resback f d v st1 = Some st' \<and> work st' \<le> work st" if "check d st = Inr st1" for st1 v
    using resback_good [of st1 d v] c [OF that] assms by simp
  then show "\<exists>st' oc. call_back f d v st = Some (st', oc) \<and> work st' \<le> work st"
    "\<exists>st' oc. err_back f d v st = Some (st', oc) \<and> work st' \<le> work st"
    by (force simp: call_back_def err_back_def Let_def split: sum.splits)+
qed

lemma cbDeferred_good:
  assumes "work st \<le> m"
  shows "\<exists>st' oc. cbDeferred f l i ok v st = Some (st', oc) \<and> work st' \<le> work st"
proof (cases "list_part (deref st l)")
  case (Some p)
  define p1 where "p1 = record_result i ok v p"
  define st1 where "st1 = update_at l (\<lambda>x. x\<lparr>list_part := Some p1\<rparr>) st"
  have w: "work st1 = work st" by (simp add: st1_def)
  then have "work st1 \<le> m" using assms by simp
  note cb = call_back_good [OF this, unfolded w]
  show ?thesis
    using cb(1) [of l "Index_Result i v"] cb(2) [of l v] cb(1) [of l "Result_List (resultList p1)"] w
    unfolding cbDeferred_def Some option.case Let_def p1_def [symmetric] st1_def [symmetric]
    by (auto split: if_splits)
qed (simp add: cbDeferred_def)

lemma invoke_good:
  assumes "work st \<le> m"
  shows "\<exists>st' oc. invoke f c v st = Some (st', oc) \<and> work st' \<le> work st"
proof (cases c)
  case (Continue d)
  then show ?thesis using continue_good [OF assms, of d v] by (auto simp: invoke_def)
next
  case (List_Cb l i ok)
  then show ?thesis using cbDeferred_good [OF assms, of l i ok v] by (auto simp: invoke_def)
qed (simp add: invoke_def)

lemma addCallbacks_good:
  assumes "work st + pair_work (cb, eb) \<le> m"
  shows "\<exists>st'. addCallbacks f d cb eb st = Some st' \<and> work st' \<le> work st + pair_work (cb, eb)"
proof -
  let ?st = "update_at d (\<lambda>x. x\<lparr>chain := chain x @ [(cb, eb)]\<rparr>) st"
  have "work ?st \<le> work st + pair_work (cb, eb)" by (rule work_push)
  then show ?thesis
    using ends [of ?st d] assms by (auto simp: addCallbacks_def Let_def intro: le_trans)
qed

end

text \<open>The bounds: a call of \<open>_fire\<close> needs twice the work plus two, a loop twice its share of the work plus one.\<close>

definition loop_share :: "bool \<Rightarrow> 'v store \<Rightarrow> nat" where
  "loop_share cb st = work st + of_bool cb"

lemma invoke_cases: "invoke f c v st = Some (st', Return r) \<Longrightarrow> is_Deferred r \<Longrightarrow> is_user (Some c)"
proof (cases c)
  case (List_Cb l i ok)
  assume *: "invoke f c v st = Some (st', Return r)" "is_Deferred r"
  obtain oc where "(case oc of Throw e \<Rightarrow> Throw e | Return _ \<Rightarrow> Return Undef) = Return r"
    using *(1) List_Cb by (auto simp: invoke_def)
  then have "r = Undef" by (cases oc) auto
  with *(2) show ?thesis by simp
qed (auto simp: invoke_def)

definition loop_returns :: "nat \<Rightarrow> nat \<Rightarrow> int \<Rightarrow> 'v jval \<Rightarrow> bool \<Rightarrow> 'v store \<Rightarrow> nat \<Rightarrow> bool" where
  "loop_returns n d k res cb st w \<longleftrightarrow>
     (\<exists>k' res' cb' st'. fire_loop n d k res cb st = Some (k', res', cb', st') \<and> work st' + 2 * of_bool cb' \<le> w)"

lemma loop_returns_mono: "loop_returns n d k res cb st w \<Longrightarrow> w \<le> w' \<Longrightarrow> loop_returns n d k res cb st w'"
  unfolding loop_returns_def by (meson le_trans)

lemma loop_step:
  fixes st :: "'v store"
  assumes firing: "\<And>m. 2 * m + 2 \<le> n \<Longrightarrow> good_firing (fire n :: 'v firing) m"
    and loop: "\<And>d k res cb (st :: 'v store). 2 * loop_share cb st + 1 \<le> n \<Longrightarrow>
          loop_returns n d k res cb st (work st + 2 * of_bool cb)"
    and n: "2 * loop_share cb st + 1 \<le> Suc n"
  shows "loop_returns (Suc n) d k res cb st (work st + 2 * of_bool cb)"
proof (cases "chain (deref st d) \<noteq> [] \<and> paused (deref st d) = 0")
  case True
  define pr where "pr = hd (chain (deref st d))"
  define st1 where "st1 = update_at d (\<lambda>x. x\<lparr>chain := tl (chain x)\<rparr>) st"
  have w: "work st1 + pair_work pr = work st" using True work_pop [of st d] by (simp add: pr_def st1_def)
  then have w1: "work st1 + 1 \<le> work st" using pair_work_pos(1) [of pr] by simp
  have st1_fits: "2 * work st1 + 2 \<le> n" if "work st1 + 1 \<le> work st" using n that by (simp add: loop_share_def)
  have go_on: "loop_returns n d k' res' cb st2 (work st + 2 * of_bool cb)" if "work st2 \<le> work st1" for k' res' and st2 :: "'v store"
    using loop [of cb st2 d k' res'] that w1 n by (intro loop_returns_mono [OF loop]) (auto simp: loop_share_def)
  show ?thesis
  proof (cases "if k = 0 then fst pr else snd pr")
    case None
    with go_on [of st1 k res] True show ?thesis
      by (simp add: loop_returns_def fire_loop.simps(2) Let_def pr_def [symmetric] st1_def [symmetric])
  next
    case (Some f)
    obtain st2 oc where i: "invoke (fire n) f res st1 = Some (st2, oc)" and w2: "work st2 \<le> work st1"
      using good_firing.invoke_good [OF firing [OF st1_fits [OF w1]], of st1 f res] by auto
    have step: "fire_loop (Suc n) d k res cb st =
      (case oc of Return r \<Rightarrow> if is_Deferred r then fire_loop n d (status r) r True (pause d st2)
                              else fire_loop n d (status r) r cb st2
       | Throw e \<Rightarrow> fire_loop n d 1 e cb st2)"
      using True Some i by (simp add: fire_loop.simps(2) Let_def pr_def [symmetric] st1_def [symmetric] split: outcome.splits)
    show ?thesis
    proof (cases "\<exists>r. oc = Return r \<and> is_Deferred r")
      case True
      then obtain r where r: "oc = Return r" "is_Deferred r" by blast
      have "is_user (Some f)" using invoke_cases i r by blast
      then have "pair_work pr = 2" using Some by (intro pair_work_pos(2)) (auto split: if_splits)
      then have w3: "work (pause d st2) + 2 \<le> work st" using w w2 by (simp add: pause_def)
      then have "2 * loop_share True (pause d st2) + 1 \<le> n" using n by (simp add: loop_share_def)
      from loop_returns_mono [OF loop [OF this]] w3 r step show ?thesis
        by (simp add: loop_returns_def)
    next
      case False
      then show ?thesis
        using go_on [OF w2] step by (cases oc) (auto simp: loop_returns_def)
    qed
  qed
qed (auto simp: loop_returns_def fire_loop.simps(2))

lemma fire_step:
  fixes m n :: nat
  assumes firing: "\<And>m. 2 * m + 2 \<le> n \<Longrightarrow> good_firing (fire n :: 'v firing) m"
    and loop: "\<And>d k res cb (st :: 'v store). 2 * loop_share cb st + 1 \<le> n \<Longrightarrow>
          loop_returns n d k res cb st (work st + 2 * of_bool cb)"
    and n: "2 * m + 2 \<le> Suc n"
  shows "good_firing (fire (Suc n) :: 'v firing) m"
proof
  fix d and st :: "'v store" assume m: "work st \<le> m"
  define k where "k = fired (deref st d)"
  have "2 * loop_share False st + 1 \<le> n" using m n by (simp add: loop_share_def)
  from loop [OF this, of d k "result_at k (deref st d)"]
  obtain k1 res cb st1 where l: "fire_loop n d k (result_at k (deref st d)) False st = Some (k1, res, cb, st1)"
    and w: "work st1 + 2 * of_bool cb \<le> work st" by (auto simp: loop_returns_def)
  define st2 where "st2 = update_at d (set_result k1 res) st1"
  have w2: "work st2 + 2 * of_bool cb \<le> work st" using w by (simp add: st2_def)
  have "\<exists>st'. addCallbacks (fire n) e (Some (Continue d)) (Some (Continue d)) st2 = Some st' \<and> work st' \<le> work st"
    if cb for e
  proof -
    have pw: "pair_work (Some (Continue d), Some (Continue d)) = 1" by (simp add: pair_work_def)
    have "good_firing (fire n :: 'v firing) (work st2 + 1)"
      using w2 m n that by (intro firing) simp
    from good_firing.addCallbacks_good [OF this, of st2 "Some (Continue d)" "Some (Continue d)" e]
    show ?thesis using w2 that by (auto simp: pw)
  qed
  moreover have "fire (Suc n) d st =
    (if cb \<and> paused (deref st2 d) \<noteq> 0
     then (case res of Deferred_Val e \<Rightarrow> addCallbacks (fire n) e (Some (Continue d)) (Some (Continue d)) st2 | _ \<Rightarrow> Some st2)
     else Some st2)"
    unfolding st2_def using l by (simp add: fire.simps(2) Let_def k_def)
  ultimately show "\<exists>st'. fire (Suc n) d st = Some st' \<and> work st' \<le> work st"
    using w2 by (cases res) auto
qed

lemma firing_ends:
  "(\<forall>m. 2 * m + 2 \<le> n \<longrightarrow> good_firing (fire n :: 'v firing) m) \<and>
   (\<forall>d k res cb (st :: 'v store). 2 * loop_share cb st + 1 \<le> n \<longrightarrow> loop_returns n d k res cb st (work st + 2 * of_bool cb))"
proof (induction n)
  case (Suc n)
  then show ?case by (intro conjI allI impI fire_step loop_step) blast+
qed simp

interpretation firing: good_firing "fire (k + 2)" "k div 2" for k
proof -
  have "2 * (k div 2) + 2 \<le> k + 2" by simp
  then show "good_firing (fire (k + 2)) (k div 2)" using firing_ends by blast
qed

section \<open>Chains of plain callbacks\<close>

text \<open>
  What the comment of the constructor describes: the callbacks run in turn on a state and a value,
  where an exception is caught and becomes the value.
\<close>

fun run_callback :: "'v callback \<Rightarrow> 'v jval \<Rightarrow> int \<times> 'v jval" where
  "run_callback (Fn g) v = (case g v of Return r \<Rightarrow> (status r, r) | Throw e \<Rightarrow> (1, e))"
| "run_callback _ v = (0, Undef)"

fun run_pair :: "int \<times> 'v jval \<Rightarrow> 'v pair \<Rightarrow> int \<times> 'v jval" where
  "run_pair (k, v) (cb, eb) = (case if k = 0 then cb else eb of None \<Rightarrow> (k, v) | Some f \<Rightarrow> run_callback f v)"

definition run_chain :: "'v pair list \<Rightarrow> int \<times> 'v jval \<Rightarrow> int \<times> 'v jval" where
  "run_chain ps s = foldl run_pair s ps"

definition plain :: "'v callback option \<Rightarrow> bool" where
  "plain c \<longleftrightarrow> (\<forall>f. c = Some f \<longrightarrow> (\<exists>g. f = Fn g \<and> (\<forall>v r. g v = Return r \<longrightarrow> \<not> is_Deferred r)))"

definition plain_chain :: "'v pair list \<Rightarrow> bool" where
  "plain_chain ps \<longleftrightarrow> (\<forall>(cb, eb) \<in> set ps. plain cb \<and> plain eb)"

lemma plain_chain_simps [simp]:
  "plain_chain []" "plain_chain (pr # ps) \<longleftrightarrow> plain (fst pr) \<and> plain (snd pr) \<and> plain_chain ps"
  "plain_chain (ps @ qs) \<longleftrightarrow> plain_chain ps \<and> plain_chain qs"
  by (auto simp: plain_chain_def)

lemma run_chain_simps [simp]:
  "run_chain [] s = s" "run_chain (pr # ps) s = run_chain ps (run_pair s pr)"
  "run_chain (ps @ qs) s = run_chain qs (run_chain ps s)"
  by (simp_all add: run_chain_def)

lemma run_callback_state: "fst (run_callback f v) \<in> {0, 1}"
  by (cases f) (auto simp: status_def split: outcome.splits)

lemma run_pair_state: "fst s \<in> {0, 1} \<Longrightarrow> fst (run_pair s pr) \<in> {0, 1}"
  using run_callback_state [of _ "snd s"] by (cases s; cases pr) (auto split: option.splits)

lemma run_chain_state: "fst s \<in> {0, 1} \<Longrightarrow> fst (run_chain ps s) \<in> {0, 1}"
  by (induction ps arbitrary: s) (simp_all add: run_pair_state del: insert_iff)

lemma loop_plain_step:
  assumes "d < length st" "paused (deref st d) = 0" "chain (deref st d) = pr # qs" "plain (fst pr)" "plain (snd pr)"
  shows "fire_loop (Suc n) d k v cb st =
    (case run_pair (k, v) pr of (k', v') \<Rightarrow> fire_loop n d k' v' cb (update_at d (\<lambda>x. x\<lparr>chain := qs\<rparr>) st))"
proof -
  obtain c e where pr: "pr = (c, e)" by (cases pr)
  have u: "update_at d (\<lambda>x. x\<lparr>chain := tl (chain x)\<rparr>) st = update_at d (\<lambda>x. x\<lparr>chain := qs\<rparr>) st"
    using assms by (intro update_at_cong) simp
  show ?thesis
  proof (cases "if k = 0 then c else e")
    case (Some f)
    then have "plain (Some f)" using assms(4,5) pr by (auto split: if_splits)
    then obtain g where "f = Fn g" "\<And>v r. g v = Return r \<Longrightarrow> \<not> is_Deferred r" by (auto simp: plain_def)
    then show ?thesis
      using assms(2,3) Some pr by (auto simp: fire_loop.simps(2) Let_def u invoke_def split: outcome.splits)
  qed (use assms pr in \<open>auto simp: fire_loop.simps(2) Let_def u split: if_splits\<close>)
qed

lemma loop_plain:
  assumes "d < length st" "paused (deref st d) = 0" "chain (deref st d) = ps @ qs" "plain_chain ps"
  shows "fire_loop (length ps + n) d k v cb st =
    (case run_chain ps (k, v) of (k', v') \<Rightarrow> fire_loop n d k' v' cb (update_at d (\<lambda>x. x\<lparr>chain := qs\<rparr>) st))"
  using assms
proof (induction ps arbitrary: k v st)
  case Nil
  then have "update_at d (\<lambda>x. x\<lparr>chain := qs\<rparr>) st = update_at d (\<lambda>x. x) st"
    by (intro update_at_cong) simp
  then show ?case by simp
next
  case (Cons pr ps)
  obtain k1 v1 where 1: "run_pair (k, v) pr = (k1, v1)" by (cases "run_pair (k, v) pr")
  let ?st = "update_at d (\<lambda>x. x\<lparr>chain := ps @ qs\<rparr>) st"
  have "fire_loop (length (pr # ps) + n) d k v cb st = fire_loop (length ps + n) d k1 v1 cb ?st"
    using Cons.prems loop_plain_step [of d st pr "ps @ qs" "length ps + n" k v cb] 1 by simp
  then show ?case
    using Cons.IH [of ?st k1 v1] Cons.prems 1 by (simp add: deref_update_at update_at_twice)
qed

text \<open>A deferred that runs through its chain ends with an empty chain and the state of the run.\<close>

definition settle_as :: "int \<times> 'v jval \<Rightarrow> 'v deferred \<Rightarrow> 'v deferred" where
  "settle_as s x = set_result (fst s) (snd s) (x\<lparr>chain := []\<rparr>)"

lemma loop_end: "chain (deref st d) = [] \<or> paused (deref st d) \<noteq> 0 \<Longrightarrow> fire_loop (Suc n) d k v cb st = Some (k, v, cb, st)"
  by (auto simp: fire_loop.simps(2))

lemma fire_plain:
  assumes "d < length st" "paused (deref st d) = 0" "plain_chain (chain (deref st d))"
    and "n \<ge> length (chain (deref st d)) + 2"
  defines "k \<equiv> fired (deref st d)"
  shows "fire n d st = Some (update_at d (settle_as (run_chain (chain (deref st d)) (k, result_at k (deref st d)))) st)"
proof -
  let ?ps = "chain (deref st d)" and ?v = "result_at k (deref st d)"
  obtain m where n: "n = Suc (length ?ps + Suc m)" using assms(4) by (metis add_2_eq_Suc' add_Suc_right le_iff_add add.commute add_Suc)
  obtain k1 v1 where r: "run_chain ?ps (k, ?v) = (k1, v1)" by (cases "run_chain ?ps (k, ?v)")
  let ?st = "update_at d (\<lambda>x. x\<lparr>chain := []\<rparr>) st"
  have "fire_loop (length ?ps + Suc m) d k ?v False st = fire_loop (Suc m) d k1 v1 False ?st"
    using loop_plain [OF assms(1,2) _ assms(3), of "[]" "Suc m" k ?v False] r by simp
  also have "\<dots> = Some (k1, v1, False, ?st)"
    using assms(1) by (intro loop_end) (simp add: deref_update_at)
  finally show ?thesis
    using r by (simp add: n fire.simps(2) k_def update_at_twice settle_as_def [abs_def])
qed

lemma resback_plain:
  assumes "d < length st" "paused (deref st d) = 0" "plain_chain (chain (deref st d))"
    and "n \<ge> length (chain (deref st d)) + 2"
  shows "resback (fire n) d v st =
    Some (update_at d (\<lambda>x. settle_as (run_chain (chain (deref st d)) (status v, v)) (set_result (status v) v x)) st)"
  using fire_plain [of d "update_at d (set_result (status v) v) st" n] assms status_cases [of v]
  by (simp add: resback_def deref_update_at update_at_twice)

lemma settle_as_simps [simp]:
  "chain (settle_as s x) = []" "paused (settle_as s x) = paused x" "fired (settle_as s x) = fst s"
  "list_part (settle_as s x) = list_part x" "silentlyCancelled (settle_as s x) = silentlyCancelled x"
  "fst s \<in> {0, 1} \<Longrightarrow> result_at (fst s) (settle_as s x) = snd s"
  "result_at 0 (settle_as (0, v) x) = v" "result_at 1 (settle_as (1, v) x) = v"
  by (simp_all add: settle_as_def)

definition settled :: "int \<times> 'v jval \<Rightarrow> 'v deferred \<Rightarrow> bool" where
  "settled s x \<longleftrightarrow> fired x = fst s \<and> result_at (fst s) x = snd s \<and> chain x = [] \<and> paused x = 0"

text \<open>Registering a list of pairs, one call each.\<close>

fun add_all :: "nat \<Rightarrow> nat \<Rightarrow> 'v pair list \<Rightarrow> 'v store \<Rightarrow> 'v store option" where
  "add_all n d [] st = Some st"
| "add_all n d ((cb, eb) # ps) st = Option.bind (addCallbacks (fire n) d cb eb st) (add_all n d ps)"

lemma add_all_unfired:
  "d < length st \<Longrightarrow> fired (deref st d) = - 1 \<Longrightarrow>
   add_all n d ps st = Some (update_at d (\<lambda>x. x\<lparr>chain := chain x @ ps\<rparr>) st)"
proof (induction ps arbitrary: st)
  case (Cons pr ps)
  obtain cb eb where pr: "pr = (cb, eb)" by (cases pr)
  show ?case
    using Cons.IH [of "update_at d (\<lambda>x. x\<lparr>chain := chain x @ [pr]\<rparr>) st"] Cons.prems
    by (simp add: pr addCallbacks_def Let_def deref_update_at update_at_twice)
qed simp

lemma add_fired:
  assumes "d < length st" "settled s (deref st d)" "fst s \<in> {0, 1}" "plain (fst pr)" "plain (snd pr)" "3 \<le> n"
  shows "\<exists>st'. addCallbacks (fire n) d (fst pr) (snd pr) st = Some st' \<and> length st' = length st \<and>
    settled (run_pair s pr) (deref st' d) \<and> (\<forall>e. e \<noteq> d \<longrightarrow> deref st' e = deref st e)"
proof -
  let ?st = "update_at d (\<lambda>x. x\<lparr>chain := chain x @ [pr]\<rparr>) st"
  have s: "fired (deref st d) = fst s" "result_at (fst s) (deref st d) = snd s" "chain (deref st d) = []" "paused (deref st d) = 0"
    using assms(2) by (simp_all add: settled_def)
  have "fire n d ?st = Some (update_at d (settle_as (run_pair s pr)) ?st)"
    using fire_plain [of d ?st n] assms s by (simp add: deref_update_at)
  moreover have "addCallbacks (fire n) d (fst pr) (snd pr) st = fire n d ?st"
    using assms(1,3) s by (auto simp: addCallbacks_def Let_def deref_update_at)
  ultimately show ?thesis
    using assms(1,3) s run_pair_state [OF assms(3), of pr] by (simp add: settled_def deref_update_at)
qed

lemma add_all_fired:
  "d < length st \<Longrightarrow> settled s (deref st d) \<Longrightarrow> fst s \<in> {0, 1} \<Longrightarrow> plain_chain ps \<Longrightarrow> 3 \<le> n \<Longrightarrow>
   \<exists>st'. add_all n d ps st = Some st' \<and> length st' = length st \<and> settled (run_chain ps s) (deref st' d) \<and>
     (\<forall>e. e \<noteq> d \<longrightarrow> deref st' e = deref st e)"
proof (induction ps arbitrary: st s)
  case (Cons pr ps)
  obtain st1 where 1: "addCallbacks (fire n) d (fst pr) (snd pr) st = Some st1" "length st1 = length st"
    "settled (run_pair s pr) (deref st1 d)" "\<forall>e. e \<noteq> d \<longrightarrow> deref st1 e = deref st e"
    using add_fired [of d st s pr n] Cons.prems by (auto simp del: insert_iff)
  from Cons.IH [of st1 "run_pair s pr"] obtain st2 where "add_all n d ps st1 = Some st2" "length st2 = length st"
    "settled (run_chain ps (run_pair s pr)) (deref st2 d)" "\<forall>e. e \<noteq> d \<longrightarrow> deref st2 e = deref st1 e"
    using Cons.prems 1 run_pair_state [of s pr] by (auto simp del: insert_iff)
  with 1 show ?case by (cases pr) auto
qed simp

lemma call_back_plain:
  assumes "d < length st" "fired (deref st d) = - 1" "paused (deref st d) = 0" "plain_chain (chain (deref st d))"
    and "n \<ge> length (chain (deref st d)) + 2"
  shows "\<exists>st'. call_back (fire n) d v st = Some (st', Return Undef) \<and> length st' = length st \<and>
    settled (run_chain (chain (deref st d)) (status v, v)) (deref st' d) \<and> (\<forall>e. e \<noteq> d \<longrightarrow> deref st' e = deref st e)"
  using resback_plain [OF assms(1,3-5), of v] run_chain_state [of "(status v, v)"] status_cases [of v] assms(1-3)
  by (auto simp: call_back_def check_def settled_def deref_update_at simp del: insert_iff)

lemma err_back_eq:
  "err_back f d v st = call_back f d (if is_Error v then v else Error_Val v) st"
  by (auto simp: err_back_def call_back_def split: sum.splits)

lemma second_call:
  "fired (deref st d) \<noteq> - 1 \<Longrightarrow> \<not> silentlyCancelled (deref st d) \<Longrightarrow> call_back f d v st = Some (st, Throw already_called)"
  by (simp add: call_back_def check_def)

section \<open>Waiting for another deferred\<close>

text \<open>A callback returns the deferred \<open>e\<close>: the loop stops and \<open>_fire\<close> adds the continuation to \<open>e\<close>.\<close>

definition waiting_on :: "nat \<Rightarrow> 'v pair list \<Rightarrow> 'v deferred \<Rightarrow> 'v deferred" where
  "waiting_on e rest x = set_result 0 (Deferred_Val e) (x\<lparr>chain := rest, paused := paused x + 1\<rparr>)"

lemma fire_wait:
  assumes "d < length st" "paused (deref st d) = 0" "chain (deref st d) = ps @ (Some (Fn g), eb) # rest" "plain_chain ps"
    and "run_chain ps (fired (deref st d), result_at (fired (deref st d)) (deref st d)) = (0, u)" "g u = Return (Deferred_Val e)"
  shows "fire (length ps + m + 3) d st =
    addCallbacks (fire (length ps + m + 2)) e (Some (Continue d)) (Some (Continue d)) (update_at d (waiting_on e rest) st)"
proof -
  let ?k = "fired (deref st d)"
  let ?st = "update_at d (\<lambda>x. x\<lparr>chain := rest, paused := paused x + 1\<rparr>) st"
  have "fire_loop (length ps + Suc (Suc m)) d ?k (result_at ?k (deref st d)) False st =
      fire_loop (Suc (Suc m)) d 0 u False (update_at d (\<lambda>x. x\<lparr>chain := (Some (Fn g), eb) # rest\<rparr>) st)"
    using loop_plain [OF assms(1-4), of "Suc (Suc m)" ?k "result_at ?k (deref st d)" False] assms(5) by simp
  also have "\<dots> = fire_loop (Suc m) d 0 (Deferred_Val e) True ?st"
    using assms(1,2,6) by (simp add: fire_loop.simps(2) [of "Suc m"] deref_update_at invoke_def pause_def update_at_twice)
  also have "\<dots> = Some (0, Deferred_Val e, True, ?st)"
    using assms(1,2) by (intro loop_end) (simp add: deref_update_at)
  finally have "fire (Suc (length ps + Suc (Suc m))) d st =
      addCallbacks (fire (length ps + Suc (Suc m))) e (Some (Continue d)) (Some (Continue d)) (update_at d (set_result 0 (Deferred_Val e)) ?st)"
    using assms(1,2) by (simp add: fire.simps(2) deref_update_at)
  then show ?thesis by (simp add: update_at_twice waiting_on_def [abs_def] numeral_3_eq_3)
qed

text \<open>A waiting deferred \<open>d\<close> is continued with a value: it runs the rest of its chain.\<close>

lemma continue_waiting:
  assumes "d < length st" "paused (deref st d) = 1" "plain_chain (chain (deref st d))"
    and "n \<ge> length (chain (deref st d)) + 2"
  shows "\<exists>st'. continue_with (fire n) d v st = Some st' \<and> length st' = length st \<and>
    settled (run_chain (chain (deref st d)) (status v, v)) (deref st' d) \<and> (\<forall>e. e \<noteq> d \<longrightarrow> deref st' e = deref st e)"
proof -
  obtain m where n: "n = Suc (Suc m)" using assms(4) by (metis add_2_eq_Suc' le_Suc_ex plus_nat.simps(2))
  let ?st = "update_at d (set_result (status v) v) st"
  let ?st1 = "update_at d (\<lambda>x. set_result (status v) v (set_result (status v) v x)) st"
  let ?st2 = "update_at d (\<lambda>x. x\<lparr>paused := paused x - 1\<rparr>) ?st1"
  have k: "status v \<in> {0, 1}" by (rule status_cases)
  have "fire n d ?st = Some ?st1"
    using assms(1,2) k loop_end [of ?st d m "status v" v False] unfolding n
    by (simp add: fire.simps(2) deref_update_at update_at_twice Let_def)
  then have 1: "resback (fire n) d v st = Some ?st1" by (simp add: resback_def)
  have st2: "deref ?st2 d = (set_result (status v) v (set_result (status v) v (deref st d)))\<lparr>paused := 0\<rparr>"
    using assms(1,2) by (simp add: deref_update_at)
  have r: "result_at (status v) (deref ?st2 d) = v" by (simp add: st2)
  have "fire n d ?st2 = Some (update_at d (settle_as (run_chain (chain (deref st d)) (status v, v))) ?st2)"
    using fire_plain [of d ?st2 n] assms r by (simp add: st2)
  then have "unpause (fire n) d ?st1 = Some (update_at d (settle_as (run_chain (chain (deref st d)) (status v, v))) ?st2)"
    using assms(1,2) k by (auto simp: unpause_def Let_def deref_update_at)
  then show ?thesis
    using 1 assms(1) st2 run_chain_state [of "(status v, v)" "chain (deref st d)"] k
    by (simp add: continue_with_def settled_def deref_update_at)
qed

lemma fire_continue:
  assumes "d < length st" "e < length st" "d \<noteq> e"
    and e: "paused (deref st e) = 0" "chain (deref st e) = es @ [(Some (Continue d), Some (Continue d))]" "plain_chain es"
      "fired (deref st e) \<in> {0, 1}"
    and d: "paused (deref st d) = 1" "plain_chain (chain (deref st d))"
    and n: "n \<ge> length es + length (chain (deref st d)) + 4"
  defines "v \<equiv> snd (run_chain es (fired (deref st e), result_at (fired (deref st e)) (deref st e)))"
  shows "\<exists>st'. fire n e st = Some st' \<and> length st' = length st \<and>
    settled (run_chain (chain (deref st d)) (status v, v)) (deref st' d) \<and> settled (0, Undef) (deref st' e) \<and>
    (\<forall>a. a \<noteq> d \<longrightarrow> a \<noteq> e \<longrightarrow> deref st' a = deref st a)"
proof -
  let ?k = "fired (deref st e)" and ?rest = "chain (deref st d)" and ?c = "(Some (Continue d), Some (Continue d))"
  obtain m where m: "n = Suc (length es + Suc (Suc m))" "length ?rest + 2 \<le> Suc m"
    using n by (intro that [of "n - length es - 3"]) auto
  obtain k1 where k1: "run_chain es (?k, result_at ?k (deref st e)) = (k1, v)"
    by (cases "run_chain es (?k, result_at ?k (deref st e))") (simp add: v_def)
  let ?st = "update_at e (\<lambda>x. x\<lparr>chain := [?c]\<rparr>) st" and ?st1 = "update_at e (\<lambda>x. x\<lparr>chain := []\<rparr>) st"
  have l: "fire_loop (length es + Suc (Suc m)) e ?k (result_at ?k (deref st e)) False st =
      fire_loop (Suc (Suc m)) e k1 v False ?st"
    using loop_plain [OF assms(2) e(1,2,3), of "Suc (Suc m)" ?k "result_at ?k (deref st e)" False] k1 by simp
  have p: "update_at e (\<lambda>x. x\<lparr>chain := tl (chain x)\<rparr>) ?st = ?st1" by (simp add: update_at_twice)
  obtain st2 where c: "continue_with (fire (Suc m)) d v ?st1 = Some st2" "length st2 = length st"
    "settled (run_chain ?rest (status v, v)) (deref st2 d)" "\<forall>a. a \<noteq> d \<longrightarrow> deref st2 a = deref ?st1 a"
    using continue_waiting [of d ?st1 "Suc m" v] assms m(2) by (auto simp: deref_update_at)
  then have se: "deref st2 e = (deref st e)\<lparr>chain := []\<rparr>" using assms(2,3) by (simp add: deref_update_at)
  have "fire_loop (Suc (Suc m)) e k1 v False ?st = fire_loop (Suc m) e 0 Undef False st2"
    using assms(2) e(1) c(1) p by (simp add: fire_loop.simps(2) [of "Suc m"] deref_update_at invoke_def Let_def)
  also have "\<dots> = Some (0, Undef, False, st2)" using se by (intro loop_end) simp
  finally have "fire n e st = Some (update_at e (set_result 0 Undef) st2)"
    using l by (simp add: m(1) fire.simps(2))
  then show ?thesis
    using c assms(1-3) e(1) se by (auto simp: deref_update_at settled_def)
qed

abbreviation waker :: "nat \<Rightarrow> 'v pair" where
  "waker d \<equiv> (Some (Continue d), Some (Continue d))"

abbreviation pushed :: "'v pair \<Rightarrow> 'v deferred \<Rightarrow> 'v deferred" where
  "pushed pr \<equiv> (\<lambda>x. x\<lparr>chain := chain x @ [pr]\<rparr>)"

text \<open>The first deferred after \<open>callback(v)\<close>, when one of its callbacks returned \<open>e\<close>.\<close>

definition blocked :: "nat \<Rightarrow> 'v pair list \<Rightarrow> 'v jval \<Rightarrow> 'v deferred \<Rightarrow> 'v deferred" where
  "blocked e rest v x = waiting_on e rest (set_result (status v) v x)"

lemma blocked_simps [simp]: "paused (blocked e rest v x) = paused x + 1" "chain (blocked e rest v x) = rest"
  by (simp_all add: blocked_def waiting_on_def)

lemma call_back_wait:
  assumes "d < length st" "fired (deref st d) = - 1" "paused (deref st d) = 0" "chain (deref st d) = ps @ (Some (Fn g), eb) # rest"
    and "plain_chain ps" "run_chain ps (status v, v) = (0, u)" "g u = Return (Deferred_Val e)"
  shows "call_back (fire (length ps + m + 3)) d v st = map_option (\<lambda>s. (s, Return Undef))
    (addCallbacks (fire (length ps + m + 2)) e (Some (Continue d)) (Some (Continue d)) (update_at d (blocked e rest v) st))"
  using fire_wait [of d "update_at d (set_result (status v) v) st" ps g eb rest u e m] assms
  by (simp add: call_back_def check_def resback_def deref_update_at update_at_twice blocked_def [abs_def])

lemma wake_later:
  fixes w :: "'v jval"
  assumes "d < length st" "e < length st" "d \<noteq> e" "paused (deref st d) = 0" "plain_chain rest"
    and "fired (deref st e) = - 1" "paused (deref st e) = 0" "plain_chain (chain (deref st e))"
    and "n \<ge> length rest + length (chain (deref st e)) + 4"
  defines "r \<equiv> snd (run_chain (chain (deref st e)) (status w, w))"
  shows "\<exists>st'. call_back (fire n) e w (update_at e (pushed (waker d)) (update_at d (blocked e rest v) st)) = Some (st', Return Undef) \<and>
    settled (run_chain rest (status r, r)) (deref st' d)"
proof -
  let ?st = "update_at e (pushed (waker d)) (update_at d (blocked e rest v) st)"
  let ?st' = "update_at e (set_result (status w) w) ?st"
  have se: "deref ?st' e = set_result (status w) w (pushed (waker d) (deref st e))" "deref ?st' d = blocked e rest v (deref st d)"
    using assms(1-3) by (simp_all add: deref_update_at)
  obtain st2 where 2: "fire n e ?st' = Some st2" "settled (run_chain rest (status r, r)) (deref st2 d)"
    using fire_continue [of d ?st' e "chain (deref st e)" n] assms status_cases [of w] by (auto simp: se r_def)
  then show ?thesis
    using assms(1-3,6) by (simp add: call_back_def check_def resback_def deref_update_at)
qed

lemma wake_now:
  fixes w :: "'v jval"
  assumes "d < length st" "e < length st" "d \<noteq> e" "paused (deref st d) = 0" "plain_chain rest"
    and "settled s (deref st e)" "fst s \<in> {0, 1}" "n \<ge> length rest + 4"
  shows "\<exists>st'. addCallbacks (fire n) e (Some (Continue d)) (Some (Continue d)) (update_at d (blocked e rest v) st) = Some st' \<and>
    settled (run_chain rest (status (snd s), snd s)) (deref st' d)"
proof -
  let ?st = "update_at e (pushed (waker d)) (update_at d (blocked e rest v) st)"
  have s: "deref ?st e = pushed (waker d) (deref st e)" "deref ?st d = blocked e rest v (deref st d)"
    using assms(1-3) by (simp_all add: deref_update_at)
  have "fired (deref ?st e) = fst s" using assms(6) s by (simp add: settled_def)
  then have "\<exists>st'. fire n e ?st = Some st' \<and> settled (run_chain rest (status (snd s), snd s)) (deref st' d)"
    using fire_continue [of d ?st e "[]" n] assms s by (auto simp: settled_def simp del: insert_iff)
  moreover have "addCallbacks (fire n) e (Some (Continue d)) (Some (Continue d)) (update_at d (blocked e rest v) st) = fire n e ?st"
    using \<open>fired (deref ?st e) = fst s\<close> assms(7) by (auto simp: addCallbacks_def Let_def)
  ultimately show ?thesis by simp
qed

section \<open>Lists of fresh deferreds\<close>

definition registration :: "nat \<Rightarrow> nat \<Rightarrow> 'v pair list" where
  "registration l i = [(Some (List_Cb l i True), None), (None, Some (List_Cb l i False))]"

definition awaiting :: "nat \<Rightarrow> nat \<Rightarrow> 'v deferred \<Rightarrow> bool" where
  "awaiting l i x \<longleftrightarrow> fired x = - 1 \<and> paused x = 0 \<and> chain x = registration l i"

definition fresh :: "'v deferred \<Rightarrow> bool" where
  "fresh x \<longleftrightarrow> fired x = - 1 \<and> paused x = 0 \<and> chain x = []"

lemma register_fresh:
  assumes "distinct ds" "\<forall>d \<in> set ds. d < length st \<and> fresh (deref st d)"
  shows "\<exists>st'. list_register n l ds index st = Some st' \<and> length st' = length st \<and>
    (\<forall>j < length ds. awaiting l (index + j) (deref st' (ds ! j))) \<and> (\<forall>a. a \<notin> set ds \<longrightarrow> deref st' a = deref st a)"
  using assms
proof (induction ds arbitrary: index st)
  case (Cons d ds)
  let ?st = "update_at d (\<lambda>x. x\<lparr>chain := chain x @ registration l index\<rparr>) st"
  have d: "d < length st" "fired (deref st d) = - 1" "paused (deref st d) = 0" "chain (deref st d) = []"
    using Cons.prems by (simp_all add: fresh_def)
  have "\<forall>a \<in> set ds. a < length ?st \<and> fresh (deref ?st a)"
    using Cons.prems by (auto simp: deref_update_at)
  with Cons.IH [of ?st "Suc index"] Cons.prems(1) obtain st' where
    1: "list_register n l ds (Suc index) ?st = Some st'" "length st' = length st"
      "\<forall>j < length ds. awaiting l (Suc index + j) (deref st' (ds ! j))" "\<forall>a. a \<notin> set ds \<longrightarrow> deref st' a = deref ?st a"
    by auto
  have "list_register n l (d # ds) index st = Some st'"
    using d 1(1) by (simp add: addCallbacks_def Let_def deref_update_at update_at_twice registration_def)
  moreover have "awaiting l index (deref st' d)"
    using 1(4) Cons.prems(1) d by (simp add: awaiting_def deref_update_at)
  ultimately show ?case
    using 1 by (auto simp: less_Suc_eq_0_disj deref_update_at nth_Cons')
qed simp

lemma record_result_simps [simp]:
  "members (record_result i ok v p) = members p" "finishedCount (record_result i ok v p) = Suc (finishedCount p)"
  "resultList (record_result i ok v p) = (resultList p)[i := Some (ok, v)]"
  "fireOnOneCallback (record_result i ok v p) = fireOnOneCallback p" "fireOnOneErrback (record_result i ok v p) = fireOnOneErrback p"
  by (simp_all add: record_result_def)

lemma cbDeferred_all:
  assumes "l < length st" "fresh (deref st l)" "list_part (deref st l) = Some p"
    and "\<not> fireOnOneCallback p" "\<not> fireOnOneErrback p" "2 \<le> n"
  shows "\<exists>st' r. cbDeferred (fire n) l i ok v st = Some (st', Return r) \<and> length st' = length st \<and>
    (\<forall>a. a \<noteq> l \<longrightarrow> deref st' a = deref st a) \<and>
    (if Suc (finishedCount p) = length (members p) then settled (0, Result_List ((resultList p)[i := Some (ok, v)])) (deref st' l)
     else deref st' l = (deref st l)\<lparr>list_part := Some (record_result i ok v p)\<rparr>)"
proof -
  let ?st = "update_at l (\<lambda>x. x\<lparr>list_part := Some (record_result i ok v p)\<rparr>) st"
  let ?res = "Result_List ((resultList p)[i := Some (ok, v)])"
  have l: "l < length ?st" "deref ?st l = (deref st l)\<lparr>list_part := Some (record_result i ok v p)\<rparr>"
    using assms(1) by (simp_all add: deref_update_at)
  obtain st2 where cb: "call_back (fire n) l ?res ?st = Some (st2, Return Undef)" "length st2 = length st"
    "settled (0, ?res) (deref st2 l)" "\<forall>a. a \<noteq> l \<longrightarrow> deref st2 a = deref ?st a"
    using call_back_plain [OF l(1), of n ?res] assms(2,6) l by (auto simp: fresh_def status_def)
  have eq: "cbDeferred (fire n) l i ok v st =
    map_option (\<lambda>(st2, oc). (st2, case oc of Throw e \<Rightarrow> Throw e | Return _ \<Rightarrow> Return (if \<not> ok \<and> consumeErrors p then Undef else v)))
      (if Suc (finishedCount p) = length (members p) then call_back (fire n) l ?res ?st else Some (?st, Return Undef))"
    using assms(2-5) l(2) by (simp add: cbDeferred_def Let_def fresh_def)
  show ?thesis
  proof (cases "Suc (finishedCount p) = length (members p)")
    case True
    then show ?thesis using cb by (simp add: eq deref_update_at)
  next
    case False
    then show ?thesis using l by (simp add: eq deref_update_at)
  qed
qed

text \<open>Settling a member calls \<open>_cbDeferred\<close> with the branch that its value calls for.\<close>

definition settle_member :: "nat \<Rightarrow> nat \<Rightarrow> bool \<Rightarrow> 'v jval \<Rightarrow> 'v store \<Rightarrow> 'v run" where
  "settle_member n d ok v st = (if ok then call_back (fire n) d v st else err_back (fire n) d v st)"

lemma loop_skip:
  assumes "d < length st" "paused (deref st d) = 0" "chain (deref st d) = (c, e) # rest" "(if k = 0 then c else e) = None"
  shows "fire_loop (Suc n) d k v cb st = fire_loop n d k v cb (update_at d (\<lambda>x. x\<lparr>chain := rest\<rparr>) st)"
proof -
  have "update_at d (\<lambda>x. x\<lparr>chain := tl (chain x)\<rparr>) st = update_at d (\<lambda>x. x\<lparr>chain := rest\<rparr>) st"
    using assms(3) by (intro update_at_cong) simp
  then show ?thesis using assms(2-4) by (auto simp: fire_loop.simps(2) Let_def split: if_splits)
qed

lemma loop_list_cb:
  assumes "d < length st" "paused (deref st d) = 0" "chain (deref st d) = (c, e) # rest"
    and "(if k = 0 then c else e) = Some (List_Cb l i ok)"
    and "cbDeferred (fire n) l i ok v (update_at d (\<lambda>x. x\<lparr>chain := rest\<rparr>) st) = Some (st', Return r)"
  shows "fire_loop (Suc n) d k v cb st = fire_loop n d 0 Undef cb st'"
proof -
  have "update_at d (\<lambda>x. x\<lparr>chain := tl (chain x)\<rparr>) st = update_at d (\<lambda>x. x\<lparr>chain := rest\<rparr>) st"
    using assms(3) by (intro update_at_cong) simp
  then show ?thesis using assms(2-5) by (auto simp: fire_loop.simps(2) Let_def invoke_def split: if_splits)
qed

definition list_after :: "nat \<Rightarrow> bool \<Rightarrow> 'v jval \<Rightarrow> 'v list_part \<Rightarrow> 'v deferred \<Rightarrow> 'v deferred \<Rightarrow> bool" where
  "list_after i ok v p x x' \<longleftrightarrow>
     (if Suc (finishedCount p) = length (members p) then settled (0, Result_List ((resultList p)[i := Some (ok, v)])) x'
      else x' = x\<lparr>list_part := Some (record_result i ok v p)\<rparr>)"

lemma fire_member:
  assumes "m < length st" "l < length st" "m \<noteq> l"
    and m: "paused (deref st m) = 0" "chain (deref st m) = registration l i" "fired (deref st m) = (if ok then 0 else 1)"
      "result_at (fired (deref st m)) (deref st m) = v"
    and l: "fresh (deref st l)" "list_part (deref st l) = Some p" "\<not> fireOnOneCallback p" "\<not> fireOnOneErrback p"
    and n: "n \<ge> 6"
  shows "\<exists>st'. fire n m st = Some st' \<and> length st' = length st \<and> list_after i ok v p (deref st l) (deref st' l) \<and>
    (\<forall>a. a \<noteq> l \<longrightarrow> a \<noteq> m \<longrightarrow> deref st' a = deref st a)"
proof -
  obtain j where j: "n = Suc (Suc (Suc (Suc j)))" "2 \<le> j" using n by (intro that [of "n - 4"]) auto
  let ?c1 = "(Some (List_Cb l i True), None)" and ?c2 = "(None, Some (List_Cb l i False))"
  let ?rest = "if ok then [?c2] else []" and ?f = "if ok then Suc (Suc j) else Suc j"
  let ?st = "update_at m (\<lambda>x. x\<lparr>chain := ?rest\<rparr>) st"
  have sl: "deref ?st l = deref st l" "2 \<le> ?f" using assms(3) j(2) by (simp_all add: deref_update_at)
  then obtain st2 r where cb: "cbDeferred (fire ?f) l i ok v ?st = Some (st2, Return r)" "length st2 = length st"
    "\<forall>a. a \<noteq> l \<longrightarrow> deref st2 a = deref ?st a" "list_after i ok v p (deref st l) (deref st2 l)"
    using cbDeferred_all [of l ?st p ?f i ok v, folded list_after_def] assms(2) l unfolding sl(1) length_update_at by blast
  have m2: "deref st2 m = (deref st m)\<lparr>chain := ?rest\<rparr>" using cb(3) assms(1,3) by (simp add: deref_update_at)
  let ?st3 = "update_at m (\<lambda>x. x\<lparr>chain := []\<rparr>) st2"
  have "fire_loop (Suc (Suc (Suc j))) m (if ok then 0 else 1) v False st = Some (0, Undef, False, if ok then ?st3 else st2)"
  proof (cases ok)
    case True
    have "fire_loop (Suc (Suc (Suc j))) m 0 v False st = fire_loop (Suc (Suc j)) m 0 Undef False st2"
      using loop_list_cb [OF assms(1) m(1), of _ _ _ 0 l i True "Suc (Suc j)" v st2 r False] m(2) cb(1) True
      by (simp add: registration_def)
    also have "\<dots> = fire_loop (Suc j) m 0 Undef False ?st3"
      using loop_skip [of m st2] m2 m(1) assms(1) cb(2) True by simp
    also have "\<dots> = Some (0, Undef, False, ?st3)" using assms(1) cb(2) by (intro loop_end) (simp add: deref_update_at)
    finally show ?thesis using True by simp
  next
    case False
    let ?st0 = "update_at m (\<lambda>x. x\<lparr>chain := [?c2]\<rparr>) st"
    have "fire_loop (Suc (Suc (Suc j))) m 1 v False st = fire_loop (Suc (Suc j)) m 1 v False ?st0"
      using loop_skip [OF assms(1) m(1)] m(2) by (simp add: registration_def)
    also have "\<dots> = fire_loop (Suc j) m 0 Undef False st2"
      using loop_list_cb [of m ?st0 None "Some (List_Cb l i False)" "[]" 1 l i False "Suc j" v st2 r False] assms(1) m(1) cb(1) False
      by (simp add: deref_update_at update_at_twice)
    also have "\<dots> = Some (0, Undef, False, st2)" using m2 False by (intro loop_end) simp
    finally show ?thesis using False by simp
  qed
  then have "fire n m st = Some (update_at m (set_result 0 Undef) (if ok then ?st3 else st2))"
    using m(3,4) by (simp add: j(1) fire.simps(2))
  then show ?thesis using cb(2-4) assms(1-3) by (auto simp: deref_update_at)
qed

lemma settle_member_list:
  assumes "m < length st" "l < length st" "m \<noteq> l" "awaiting l i (deref st m)"
    and l: "fresh (deref st l)" "list_part (deref st l) = Some p" "\<not> fireOnOneCallback p" "\<not> fireOnOneErrback p"
    and "n \<ge> 6" "is_Error v \<longleftrightarrow> \<not> ok"
  shows "\<exists>st'. settle_member n m ok v st = Some (st', Return Undef) \<and> length st' = length st \<and>
    list_after i ok v p (deref st l) (deref st' l) \<and> (\<forall>a. a \<noteq> l \<longrightarrow> a \<noteq> m \<longrightarrow> deref st' a = deref st a)"
proof -
  have k: "status v = (if ok then 0 else 1)" using assms(10) by (simp add: status_def)
  let ?st = "update_at m (set_result (status v) v) st"
  have "settle_member n m ok v st = map_option (\<lambda>s. (s, Return Undef)) (fire n m ?st)"
    using assms(4,10) by (auto simp: settle_member_def err_back_eq call_back_def check_def awaiting_def resback_def)
  moreover have "deref ?st m = set_result (status v) v (deref st m)" "deref ?st l = deref st l"
    using assms(1,3) by (simp_all add: deref_update_at)
  ultimately show ?thesis
    using fire_member [of m ?st l i ok v p n] assms k by (auto simp: awaiting_def deref_update_at)
qed

fun run_events :: "nat \<Rightarrow> nat list \<Rightarrow> (nat \<times> bool \<times> 'v jval) list \<Rightarrow> 'v store \<Rightarrow> 'v store option" where
  "run_events n ds [] st = Some st"
| "run_events n ds ((i, ok, v) # es) st = Option.bind (settle_member n (ds ! i) ok v st) (\<lambda>(st1, oc). run_events n ds es st1)"

text \<open>The list at \<open>l\<close> waits for its members and has seen the outcomes \<open>past\<close>.\<close>

definition collecting :: "nat \<Rightarrow> nat list \<Rightarrow> (nat \<times> bool \<times> 'v jval) list \<Rightarrow> 'v store \<Rightarrow> bool" where
  "collecting l ds past st \<longleftrightarrow> l < length st \<and> fresh (deref st l) \<and> distinct ds \<and>
     (\<exists>p. list_part (deref st l) = Some p \<and> members p = ds \<and> \<not> fireOnOneCallback p \<and> \<not> fireOnOneErrback p \<and>
        finishedCount p = length past \<and> resultList p = map (map_of past) [0..<length ds]) \<and>
     (\<forall>i < length ds. ds ! i < length st \<and> ds ! i \<noteq> l \<and> (i \<notin> fst ` set past \<longrightarrow> awaiting l i (deref st (ds ! i))))"

lemma collect_step:
  assumes c: "collecting l ds past st" and "i < length ds" "i \<notin> fst ` set past" "is_Error v \<longleftrightarrow> \<not> ok" "n \<ge> 6"
  shows "\<exists>st'. settle_member n (ds ! i) ok v st = Some (st', Return Undef) \<and>
    (if Suc (length past) = length ds
     then settled (0, Result_List (map (map_of ((i, ok, v) # past)) [0..<length ds])) (deref st' l)
     else collecting l ds ((i, ok, v) # past) st')"
proof -
  obtain p where p: "list_part (deref st l) = Some p" "members p = ds" "\<not> fireOnOneCallback p" "\<not> fireOnOneErrback p"
    "finishedCount p = length past" "resultList p = map (map_of past) [0..<length ds]"
    using c by (auto simp: collecting_def)
  have i: "ds ! i < length st" "ds ! i \<noteq> l" "awaiting l i (deref st (ds ! i))" and l: "l < length st" "fresh (deref st l)"
    using c assms(2,3) by (simp_all add: collecting_def)
  obtain st' where s: "settle_member n (ds ! i) ok v st = Some (st', Return Undef)" "length st' = length st"
    "list_after i ok v p (deref st l) (deref st' l)" "\<forall>a. a \<noteq> l \<longrightarrow> a \<noteq> ds ! i \<longrightarrow> deref st' a = deref st a"
    using settle_member_list [OF i(1) l(1) i(2,3) l(2) p(1,3,4) assms(5,4)] by blast
  have upd: "(resultList p)[i := Some (ok, v)] = map (map_of ((i, ok, v) # past)) [0..<length ds]"
    using assms(2) by (intro nth_equalityI) (auto simp: p(6) nth_list_update)
  have "collecting l ds ((i, ok, v) # past) st'" if "Suc (length past) \<noteq> length ds"
  proof -
    have "deref st' l = (deref st l)\<lparr>list_part := Some (record_result i ok v p)\<rparr>"
      using s(3) that p(2,5) by (simp add: list_after_def)
    then show ?thesis
      using c s(2,4) p upd assms(2) by (auto simp: collecting_def fresh_def nth_eq_iff_index_eq)
  qed
  then show ?thesis using s(1,3) p(2,5) upd by (auto simp: list_after_def)
qed

lemma collect_run:
  assumes "collecting l ds past st" "distinct (map fst es)" "n \<ge> 6" "length past + length es < length ds"
    and "\<forall>(i, ok, v) \<in> set es. i < length ds \<and> i \<notin> fst ` set past \<and> (is_Error v \<longleftrightarrow> \<not> ok)"
  shows "\<exists>st'. run_events n ds es st = Some st' \<and> collecting l ds (rev es @ past) st'"
  using assms
proof (induction es arbitrary: past st)
  case (Cons ev es)
  obtain i ok v where ev: "ev = (i, ok, v)" by (cases ev) auto
  have step: "i < length ds" "i \<notin> fst ` set past" "is_Error v \<longleftrightarrow> \<not> ok" using Cons.prems ev by auto
  obtain st1 where 1: "settle_member n (ds ! i) ok v st = Some (st1, Return Undef)" "collecting l ds (ev # past) st1"
    using collect_step [OF Cons.prems(1) step Cons.prems(3)] Cons.prems(4) ev by auto
  have "\<forall>(i, ok, v) \<in> set es. i < length ds \<and> i \<notin> fst ` set (ev # past) \<and> (is_Error v \<longleftrightarrow> \<not> ok)"
  proof -
    have "\<forall>x \<in> set es. fst x \<noteq> i" using Cons.prems(2) ev by (auto simp: image_iff)
    then show ?thesis using Cons.prems(5) by (simp add: ev case_prod_beta)
  qed
  then show ?case using Cons.IH [OF 1(2)] Cons.prems(2-4) by (simp add: ev 1(1))
qed simp

lemma run_events_append: "run_events n ds (es @ fs) st = Option.bind (run_events n ds es st) (run_events n ds fs)"
  by (induction n ds es st rule: run_events.induct) (auto split: bind_splits)

lemma collect_all:
  assumes "collecting l ds [] st" "distinct (map fst es)" "n \<ge> 6" "length es = length ds" "es \<noteq> []"
    and "\<forall>(i, ok, v) \<in> set es. i < length ds \<and> (is_Error v \<longleftrightarrow> \<not> ok)"
  shows "\<exists>st'. run_events n ds es st = Some st' \<and> settled (0, Result_List (map (map_of (rev es)) [0..<length ds])) (deref st' l)"
proof -
  obtain fs i ok v where es: "es = fs @ [(i, ok, v)]" using assms(5) by (metis rev_exhaust surj_pair)
  have "\<forall>(i, ok, v) \<in> set fs. i < length ds \<and> i \<notin> fst ` set [] \<and> (is_Error v \<longleftrightarrow> \<not> ok)"
    using assms(6) es by auto
  with collect_run [OF assms(1), of fs n] obtain st1 where 1: "run_events n ds fs st = Some st1" "collecting l ds (rev fs) st1"
    using assms(2-4) es by auto
  have "i < length ds" "i \<notin> fst ` set (rev fs)" "is_Error v \<longleftrightarrow> \<not> ok" using assms(2,6) es by auto
  from collect_step [OF 1(2) this assms(3)] show ?thesis using 1(1) assms(4) es by (auto simp: run_events_append)
qed

lemma collecting_new:
  fixes st :: "'v store"
  assumes "distinct ds" "\<forall>d \<in> set ds. d < length st \<and> fresh (deref st d)" "ds \<noteq> []"
  shows "\<exists>st'. DeferredList_new n ds False False consume canc st = Some (st', length st) \<and> collecting (length st) ds [] st'"
proof -
  let ?l = "length st"
  let ?p = "\<lparr>members = ds, resultList = replicate (length ds) None, finishedCount = 0,
     fireOnOneCallback = False, fireOnOneErrback = False, consumeErrors = consume\<rparr> :: 'v list_part"
  let ?st = "st @ [(Deferred_init canc)\<lparr>list_part := Some ?p\<rparr>]"
  have d: "deref ?st a = deref st a" if "a < ?l" for a using that by (simp add: deref_def nth_append)
  have l: "deref ?st ?l = (Deferred_init canc)\<lparr>list_part := Some ?p\<rparr>" by (simp add: deref_def)
  have "\<forall>a \<in> set ds. a < length ?st \<and> fresh (deref ?st a)" using assms(2) d by auto
  from register_fresh [OF assms(1) this, of n ?l 0] obtain st' where
    r: "list_register n ?l ds 0 ?st = Some st'" "length st' = length ?st" "\<forall>j < length ds. awaiting ?l j (deref st' (ds ! j))"
      "\<forall>a. a \<notin> set ds \<longrightarrow> deref st' a = deref ?st a" by auto
  have "?l \<notin> set ds" using assms(2) by auto
  then have "deref st' ?l = (Deferred_init canc)\<lparr>list_part := Some ?p\<rparr>" using r(4) l by simp
  moreover have "\<forall>i < length ds. ds ! i < Suc ?l \<and> ds ! i \<noteq> ?l" using assms(2) by (simp add: less_SucI less_imp_neq)
  ultimately have "collecting ?l ds [] st'"
    using r(2,3) assms(1) by (simp add: collecting_def fresh_def Deferred_init_def map_replicate_const)
  then show ?thesis using r(1) assms(3) by (simp add: DeferredList_new_def Let_def)
qed

section \<open>Properties\<close>

text \<open>
  Claim C1. The callbacks of a deferred run in the order in which they were added, each at most once,
  as the comment of the constructor says: each gets the outcome of the one before, the error branch
  runs after an error value or an exception, and a missing branch passes the value on. It makes no
  difference whether a pair is added before the deferred is fired or afterwards.
\<close>

theorem deferred_runs_chain:
  fixes st :: "'v store"
  assumes "plain_chain ps" "plain_chain qs" "n \<ge> length ps + 3"
  defines "d \<equiv> length st"
  shows "\<exists>st1 st2 st3. add_all n d ps (fst (Deferred_new canc st)) = Some st1 \<and>
    (if is_err then err_back (fire n) d v st1 else call_back (fire n) d v st1) = Some (st2, Return Undef) \<and>
    add_all n d qs st2 = Some st3 \<and>
    (let v' = (if is_err \<and> \<not> is_Error v then Error_Val v else v)
     in settled (run_chain (ps @ qs) (status v', v')) (deref st3 d)) \<and>
    (\<forall>e. e \<noteq> d \<longrightarrow> deref st3 e = deref st1 e)"
proof -
  let ?st = "fst (Deferred_new canc st)" and ?v = "if is_err \<and> \<not> is_Error v then Error_Val v else v"
  have new: "d < length ?st" "deref ?st d = Deferred_init canc"
    by (simp_all add: d_def Deferred_new_def deref_def)
  define st1 where "st1 = update_at d (\<lambda>x. x\<lparr>chain := chain x @ ps\<rparr>) ?st"
  have 1: "add_all n d ps ?st = Some st1"
    using add_all_unfired [of d ?st n ps] new by (simp add: st1_def Deferred_init_def)
  have d1: "d < length st1" "deref st1 d = (Deferred_init canc)\<lparr>chain := ps\<rparr>"
    using new by (simp_all add: st1_def deref_update_at) (simp add: Deferred_init_def)
  have e: "(if is_err then err_back (fire n) d v st1 else call_back (fire n) d v st1) = call_back (fire n) d ?v st1"
    by (simp add: err_back_eq)
  obtain st2 where 2: "call_back (fire n) d ?v st1 = Some (st2, Return Undef)" "length st2 = length st1"
    "settled (run_chain ps (status ?v, ?v)) (deref st2 d)" "\<forall>e. e \<noteq> d \<longrightarrow> deref st2 e = deref st1 e"
    using call_back_plain [of d st1 n ?v] d1 assms by (auto simp: Deferred_init_def)
  have "fst (run_chain ps (status ?v, ?v)) \<in> {0, 1}"
    using run_chain_state [of "(status ?v, ?v)"] status_cases [of ?v] by simp
  from add_all_fired [OF _ 2(3) this assms(2), of n] obtain st3 where "add_all n d qs st2 = Some st3"
    "settled (run_chain qs (run_chain ps (status ?v, ?v))) (deref st3 d)" "\<forall>e. e \<noteq> d \<longrightarrow> deref st3 e = deref st2 e"
    using assms(3) d1 2(2) by auto
  with 1 2 e show ?thesis by (auto simp: Let_def)
qed

theorem deferred_runs_chain_witness:
  "\<exists>st1 st2 st3.
    add_all 5 0 [(Some (Fn (\<lambda>v. Throw (Text ''failed''))), None), (None, Some (Fn (\<lambda>v. Return (Value (7 :: int)))))]
      (fst (Deferred_new False [])) = Some st1 \<and>
    call_back (fire 5) 0 (Value 1) st1 = Some (st2, Return Undef) \<and>
    add_all 5 0 [(Some (Fn (\<lambda>v. Return (Value 8))), None)] st2 = Some st3 \<and> settled (0, Value 8) (deref st3 0)"
proof -
  let ?ps = "[(Some (Fn (\<lambda>v. Throw (Text ''failed''))), None), (None, Some (Fn (\<lambda>v. Return (Value (7 :: int)))))]"
    and ?qs = "[(Some (Fn (\<lambda>v. Return (Value 8))), None)]"
  have "plain_chain ?ps" "plain_chain ?qs" by (simp_all add: plain_def)
  from deferred_runs_chain [OF this, where n = 5 and st = "[]" and canc = False and is_err = False and v = "Value 1"]
  show ?thesis by (auto simp: status_def)
qed

text \<open>
  Claim C29. Whatever callbacks and deferreds refer to each other, also in a circle, firing ends: the
  number of nested calls and loop steps is at most twice the number of registered pairs, counting
  those with a user function twice, plus a constant, for \<open>callback\<close>, \<open>errback\<close> and \<open>addCallbacks\<close>.
\<close>

theorem deferred_returns:
  assumes "n \<ge> 2 * work st + 6"
  shows "call_back (fire n) d v st \<noteq> None \<and> err_back (fire n) d v st \<noteq> None \<and> addCallbacks (fire n) d cb eb st \<noteq> None"
proof -
  obtain k where k: "n = k + 2" "work st + 2 \<le> k div 2" using assms by (intro that [of "n - 2"]) auto
  then have "work st \<le> k div 2" "work st + pair_work (cb, eb) \<le> k div 2" by (auto simp: pair_work_def)
  then show ?thesis
    using firing.call_back_good [of st k d v] firing.addCallbacks_good [of st cb eb k d] by (auto simp: k(1))
qed

theorem deferred_returns_witness:
  "call_back (fire 10) 0 (Value (1 :: int)) [(Deferred_init False)\<lparr>chain := [(Some (Fn (\<lambda>v. Return (Deferred_Val 0))), None)]\<rparr>] \<noteq> None"
  (is "call_back (fire 10) 0 ?v ?st \<noteq> None")
proof -
  have "10 \<ge> 2 * work ?st + 6" by (simp add: work_def chain_work_def pair_work_def)
  from deferred_returns [OF this, of 0 ?v None None] show ?thesis by (rule conjunct1)
qed

text \<open>
  Claim C14. A callback may return another deferred: the first deferred then stops and, once the other
  one has run through its own chain, goes on with the value of the other as if the callback had
  returned that value. The outcome is the same when the other deferred is fired before the first one.
\<close>

theorem deferred_waits:
  fixes w :: "'v jval"
  assumes "d < length st" "e < length st" "d \<noteq> e"
    and "fired (deref st d) = - 1" "paused (deref st d) = 0" "chain (deref st d) = ps @ (Some (Fn g), eb) # rest"
    and "fired (deref st e) = - 1" "paused (deref st e) = 0" "chain (deref st e) = es"
    and "plain_chain ps" "plain_chain rest" "plain_chain es"
    and "run_chain ps (status v, v) = (0, u)" "g u = Return (Deferred_Val e)"
    and "n \<ge> length ps + length rest + length es + 8"
  defines "r \<equiv> snd (run_chain es (status w, w))"
  shows "(\<exists>st1 st2. call_back (fire n) d v st = Some (st1, Return Undef) \<and> paused (deref st1 d) = 1 \<and>
      call_back (fire n) e w st1 = Some (st2, Return Undef) \<and> settled (run_chain rest (status r, r)) (deref st2 d)) \<and>
    (\<exists>st1 st2. call_back (fire n) e w st = Some (st1, Return Undef) \<and> call_back (fire n) d v st1 = Some (st2, Return Undef) \<and>
      settled (run_chain rest (status r, r)) (deref st2 d))"
proof (intro conjI)
  obtain m where m: "n = length ps + m + 3" "m \<ge> length rest + length es + 5"
    using assms(15) by (intro that [of "n - length ps - 3"]) auto
  note wait = call_back_wait [of d _ ps g eb rest v u e m, folded m(1)]
  let ?st1 = "update_at e (pushed (waker d)) (update_at d (blocked e rest v) st)"
  have "call_back (fire n) d v st = Some (?st1, Return Undef)"
    using assms wait [of st] by (simp add: addCallbacks_def Let_def deref_update_at)
  moreover have "paused (deref ?st1 d) = 1" using assms(1,3,5) by (simp add: deref_update_at)
  ultimately show "\<exists>st1 st2. call_back (fire n) d v st = Some (st1, Return Undef) \<and> paused (deref st1 d) = 1 \<and>
      call_back (fire n) e w st1 = Some (st2, Return Undef) \<and> settled (run_chain rest (status r, r)) (deref st2 d)"
    using wake_later [of d st e rest n w v] assms by auto
  obtain st3 where 3: "call_back (fire n) e w st = Some (st3, Return Undef)" "length st3 = length st"
    "settled (run_chain es (status w, w)) (deref st3 e)" "\<forall>a. a \<noteq> e \<longrightarrow> deref st3 a = deref st a"
    using call_back_plain [of e st n w] assms by auto
  have "fst (run_chain es (status w, w)) \<in> {0, 1}" using run_chain_state [of "(status w, w)"] status_cases [of w] by simp
  from wake_now [OF _ _ assms(3) _ assms(11) 3(3) this, of "length ps + m + 2" v]
  show "\<exists>st1 st2. call_back (fire n) e w st = Some (st1, Return Undef) \<and> call_back (fire n) d v st1 = Some (st2, Return Undef) \<and>
      settled (run_chain rest (status r, r)) (deref st2 d)"
    using 3 wait [of st3] assms m(2) by (auto simp: r_def)
qed

theorem deferred_waits_witness:
  "\<exists>st1 st2. call_back (fire 9) 1 (Value (5 :: int))
      [(Deferred_init False)\<lparr>chain := [(Some (Fn (\<lambda>v. Return (Deferred_Val 1))), None)]\<rparr>, Deferred_init False] = Some (st1, Return Undef) \<and>
    call_back (fire 9) 0 (Value 1) st1 = Some (st2, Return Undef) \<and> settled (0, Value 5) (deref st2 0)"
  (is "\<exists>st1 st2. call_back (fire 9) 1 ?w ?st = _ \<and> _ st1 st2")
proof -
  have d: "deref ?st 0 = (Deferred_init False)\<lparr>chain := [(Some (Fn (\<lambda>v. Return (Deferred_Val 1))), None)]\<rparr>" "deref ?st 1 = Deferred_init False"
    "0 < length ?st" "1 < length ?st" by (simp_all add: deref_def)
  from deferred_waits [of 0 ?st 1 "[]" "\<lambda>v. Return (Deferred_Val 1)" None "[]" "[]" "Value 1" "Value 1" 9 ?w]
  show ?thesis unfolding d using d by (simp add: init_fields)
qed

text \<open>
  A deferred is fired once: after \<open>callback\<close> every further \<open>callback\<close> or \<open>errback\<close> throws and
  changes nothing. A deferred cancelled without a canceller runs its chain with an error that names
  it, but then one further \<open>callback\<close> is let through and replaces its state and result.
\<close>

theorem deferred_fires_once:
  assumes "d < length st" "fired (deref st d) = - 1" "paused (deref st d) = 0" "plain_chain (chain (deref st d))"
    and "\<not> has_canceller (deref st d)" "\<not> silentlyCancelled (deref st d)" "n \<ge> length (chain (deref st d)) + 2"
  shows "(\<exists>st1. call_back (fire n) d v st = Some (st1, Return Undef) \<and>
      call_back (fire n) d w st1 = Some (st1, Throw already_called) \<and> err_back (fire n) d w st1 = Some (st1, Throw already_called)) \<and>
    (\<exists>st1 st2. cancel (Suc n) canceller d st = Some (st1, Return Undef) \<and>
      settled (run_chain (chain (deref st d)) (1, Error_Val (Text (repr d st)))) (deref st1 d) \<and>
      call_back (fire n) d w st1 = Some (st2, Return Undef) \<and> settled (status w, w) (deref st2 d) \<and>
      call_back (fire n) d w st2 = Some (st2, Throw already_called))"
proof -
  let ?run = "\<lambda>v x. settle_as (run_chain (chain (deref st d)) (status v, v)) (set_result (status v) v x)"
  have f: "fst (run_chain (chain (deref st d)) (status v, v)) \<in> {0, 1}" for v
    using run_chain_state [of "(status v, v)"] status_cases [of v] by simp
  have ne: "fst (run_chain (chain (deref st d)) (status v, v)) \<noteq> - 1" for v using f [of v] by auto
  let ?st = "update_at d (?run v) st"
  have once: "call_back (fire n) d v st = Some (?st, Return Undef)"
    using resback_plain [OF assms(1,3,4,7), of v] assms(2) by (simp add: call_back_def check_def)
  have "call_back (fire n) d w ?st = Some (?st, Throw already_called)" for w
    using assms(1,6) ne by (intro second_call) (simp_all add: deref_update_at)
  with once have first: "\<exists>st1. call_back (fire n) d v st = Some (st1, Return Undef) \<and>
      call_back (fire n) d w st1 = Some (st1, Throw already_called) \<and> err_back (fire n) d w st1 = Some (st1, Throw already_called)"
    by (simp add: err_back_eq)
  let ?e = "Error_Val (Text (repr d st))" and ?st0 = "update_at d (\<lambda>x. x\<lparr>silentlyCancelled := True\<rparr>) st"
  define st1 where "st1 = update_at d (?run ?e) ?st0"
  have d1: "deref st1 d = ?run ?e ((deref st d)\<lparr>silentlyCancelled := True\<rparr>)" "d < length st1"
    using assms(1) by (simp_all add: st1_def deref_update_at)
  have "repr d ?st0 = repr d st" by (simp add: repr_def deref_update_at)
  then have 1: "cancel (Suc n) canceller d st = Some (st1, Return Undef)"
    using resback_plain [of d ?st0 n ?e] assms by (simp add: err_back_def check_def deref_update_at st1_def)
  have s1: "settled (run_chain (chain (deref st d)) (1, ?e)) (deref st1 d)"
    using f [of ?e] assms(3) by (simp add: settled_def d1(1))
  define st1' where "st1' = update_at d (\<lambda>x. x\<lparr>silentlyCancelled := False\<rparr>) st1"
  define st2 where "st2 = update_at d (\<lambda>x. settle_as (status w, w) (set_result (status w) w x)) st1'"
  have "deref st1' d = (deref st1 d)\<lparr>silentlyCancelled := False\<rparr>" "d < length st1'"
    using d1(2) by (simp_all add: st1'_def deref_update_at)
  then have d2: "deref st2 d = settle_as (status w, w) (set_result (status w) w ((deref st1 d)\<lparr>silentlyCancelled := False\<rparr>))"
    and r2: "resback (fire n) d w st1' = Some st2"
    using resback_plain [of d st1' n w] assms(3,7) d1(1) by (simp_all add: st2_def deref_update_at)
  have 2: "call_back (fire n) d w st1 = Some (st2, Return Undef)"
    using ne [of ?e] d1 r2 by (simp add: call_back_def check_def st1'_def)
  moreover have "settled (status w, w) (deref st2 d)" "call_back (fire n) d w st2 = Some (st2, Throw already_called)"
    using status_cases [of w] assms(3) by (auto intro!: second_call simp: settled_def d2 d1(1))
  ultimately show ?thesis using first 1 s1 by blast
qed

theorem deferred_fires_once_witness:
  "\<exists>st1 st2. cancel 3 (\<lambda>d st. None) 0 [Deferred_init False] = Some (st1, Return Undef) \<and> fired (deref st1 0) = 1 \<and>
    call_back (fire 2) 0 (Value (5 :: int)) st1 = Some (st2, Return Undef) \<and> settled (0, Value 5) (deref st2 0)"
proof -
  define st :: "int store" where "st = [Deferred_init False]"
  have d: "deref st 0 = Deferred_init False" "0 < length st" by (simp_all add: st_def deref_def)
  have "\<exists>st1 st2. cancel (Suc 2) (\<lambda>d st. None) 0 st = Some (st1, Return Undef) \<and>
      settled (run_chain (chain (deref st 0)) (1, Error_Val (Text (repr 0 st)))) (deref st1 0) \<and>
      call_back (fire 2) 0 (Value 5) st1 = Some (st2, Return Undef) \<and> settled (0, Value 5) (deref st2 0)"
    using deferred_fires_once [of 0 st 2 Undef "Value 5" "\<lambda>d st. None"] d by (auto simp: Deferred_init_def simp del: cancel.simps)
  then show ?thesis
    unfolding st_def [symmetric] by (simp add: d settled_def status_def Deferred_init_def numeral_3_eq_3 numeral_2_eq_2 del: cancel.simps) blast
qed

text \<open>
  Claim C34. A list of deferreds that waits for all of them fires when the last of its members fires,
  in whatever order they fire, and not before. Its result holds at each position whether that member
  succeeded, and its value or error.
\<close>

theorem deferred_list_collects:
  fixes st :: "'v store"
  assumes "distinct ds" "\<forall>d \<in> set ds. d < length st \<and> fresh (deref st d)" "ds \<noteq> []"
    and "distinct (map fst es)" "set (map fst es) = {..<length ds}" "\<forall>(i, ok, v) \<in> set es. is_Error v \<longleftrightarrow> \<not> ok" "n \<ge> 6"
  shows "\<exists>st1 l. DeferredList_new n ds False False consume canc st = Some (st1, l) \<and>
    (\<forall>k < length ds. \<exists>st2. run_events n ds (take k es) st1 = Some st2 \<and> fired (deref st2 l) = - 1) \<and>
    (\<exists>st2. run_events n ds es st1 = Some st2 \<and>
       settled (0, Result_List (map (map_of es) [0..<length ds])) (deref st2 l))"
proof -
  obtain st1 where 1: "DeferredList_new n ds False False consume canc st = Some (st1, length st)" "collecting (length st) ds [] st1"
    using collecting_new [OF assms(1-3)] by blast
  have len: "length es = length ds" using distinct_card [OF assms(4)] assms(5) by simp
  have ev: "\<forall>(i, ok, v) \<in> set es. i < length ds \<and> i \<notin> fst ` set [] \<and> (is_Error v \<longleftrightarrow> \<not> ok)"
    using assms(5,6) by force
  have "\<exists>st2. run_events n ds (take k es) st1 = Some st2 \<and> fired (deref st2 (length st)) = - 1" if "k < length ds" for k
  proof -
    have "distinct (map fst (take k es))" using assms(4) by (simp add: take_map [symmetric])
    moreover have "\<forall>(i, ok, v) \<in> set (take k es). i < length ds \<and> i \<notin> fst ` set [] \<and> (is_Error v \<longleftrightarrow> \<not> ok)"
      using ev by (auto dest!: in_set_takeD)
    ultimately show ?thesis
      using collect_run [OF 1(2) _ assms(7), of "take k es"] that len by (auto simp: collecting_def fresh_def)
  qed
  note before = this
  have "map_of (rev es) = map_of es" using assms(4) by (simp add: map_of_inject_set rev_map [symmetric])
  moreover have "es \<noteq> []" using assms(3) len by auto
  ultimately have "\<exists>st2. run_events n ds es st1 = Some st2 \<and> settled (0, Result_List (map (map_of es) [0..<length ds])) (deref st2 (length st))"
    using collect_all [OF 1(2) assms(4,7) len] ev by auto
  with before show ?thesis using 1(1) by blast
qed

theorem deferred_list_collects_witness:
  "\<exists>st1 l st2. DeferredList_new 6 [1, 0] False False False False [Deferred_init False, Deferred_init False] = Some (st1, l) \<and>
    run_events 6 [1, 0] [(1, False, Error_Val (Text ''no'')), (0, True, Value (3 :: int))] st1 = Some st2 \<and>
    settled (0, Result_List [Some (True, Value 3), Some (False, Error_Val (Text ''no''))]) (deref st2 l)"
proof -
  define st :: "int store" where "st = [Deferred_init False, Deferred_init False]"
  define es :: "(nat \<times> bool \<times> int jval) list" where "es = [(1, False, Error_Val (Text ''no'')), (0, True, Value 3)]"
  have "\<forall>d \<in> set [1, 0]. d < length st \<and> fresh (deref st d)"
    by (simp add: st_def fresh_def deref_def Deferred_init_def)
  moreover have "distinct (map fst es)" "set (map fst es) = {..<length [1, 0 :: nat]}" "\<forall>(i, ok, v) \<in> set es. is_Error v \<longleftrightarrow> \<not> ok"
    by (auto simp: es_def)
  ultimately have "\<exists>st1 l. DeferredList_new 6 [1, 0] False False False False st = Some (st1, l) \<and>
     (\<exists>st2. run_events 6 [1, 0] es st1 = Some st2 \<and> settled (0, Result_List (map (map_of es) [0..<length [1, 0 :: nat]])) (deref st2 l))"
    using deferred_list_collects [of "[1, 0]" st es 6 False False] by auto
  moreover have "map (map_of es) [0..<length [1, 0 :: nat]] = [Some (True, Value 3), Some (False, Error_Val (Text ''no''))]"
    by (simp add: es_def)
  ultimately show ?thesis unfolding st_def es_def by (simp only:) blast
qed

end
