(* ===== verification/Undo_Manager.thy ===== *)
theory Undo_Manager
  imports JS_Prelude
begin

text \<open>
  \<open>src/undo/Manager.js\<close>: undo and redo stacks with nested transactions. A transaction is a manager
  of its own that stands as one item in the stack of its parent; managers refer to each other by
  address. The functions that undo and redo an action belong to the application, whose state they
  change; the event hooks \<open>onUndo\<close>, \<open>onRedo\<close>, \<open>onUndoAny\<close> and \<open>onRedoAny\<close> do nothing unless an
  application replaces them, and are left out.

  The first argument of the operations bounds the nesting of calls and the steps of loops;
  \<^term>\<open>None\<close> is a run that does not fit in the bound, and a call that is \<^term>\<open>None\<close> for every bound
  never returns.
\<close>

section \<open>Managers\<close>

datatype 's item = Action "'s \<Rightarrow> 's" "('s \<Rightarrow> 's) option" | Transaction nat

text \<open>\<open>currentManager\<close> is \<^term>\<open>None\<close> when it is \<open>undefined\<close>; the last element of a stack is its top.\<close>

record 's manager =
  mparent :: "nat option"
  undoStack :: "'s item list"
  redoStack :: "'s item list"
  currentManager :: "nat option"
  canUndo :: bool
  canRedo :: bool
  isUndoing :: bool
  isRedoing :: bool

record 's world =
  managers :: "'s manager list"
  app :: 's

definition blank :: "'s manager" where
  "blank = \<lparr>mparent = None, undoStack = [], redoStack = [], currentManager = None,
     canUndo = False, canRedo = False, isUndoing = False, isRedoing = False\<rparr>"

definition mgr :: "'s world \<Rightarrow> nat \<Rightarrow> 's manager" where
  "mgr w m = (if m < length (managers w) then managers w ! m else blank)"

definition change :: "nat \<Rightarrow> ('s manager \<Rightarrow> 's manager) \<Rightarrow> 's world \<Rightarrow> 's world" where
  "change m f w = (if m < length (managers w) then w\<lparr>managers := (managers w)[m := f (managers w ! m)]\<rparr> else w)"

type_synonym 'a step = "'a result option"

definition sbind :: "'a step \<Rightarrow> ('a \<Rightarrow> 'b step) \<Rightarrow> 'b step" where
  "sbind x f = (case x of None \<Rightarrow> None | Some (Inl e) \<Rightarrow> Some (Inl e) | Some (Inr a) \<Rightarrow> f a)"

abbreviation ret :: "'a \<Rightarrow> 'a step" where
  "ret a \<equiv> Some (Inr a)"

definition with_status :: "'s manager \<Rightarrow> 's manager" where
  "with_status x = x\<lparr>canUndo := undoStack x \<noteq> [], canRedo := redoStack x \<noteq> []\<rparr>"

definition updateStatus :: "nat \<Rightarrow> 's world \<Rightarrow> 's world" where
  "updateStatus m w = change m with_status w"

definition um_clear :: "nat \<Rightarrow> 's world \<Rightarrow> 's world" where
  "um_clear m w =
     updateStatus m (change m (\<lambda>x. x\<lparr>undoStack := [], redoStack := [], currentManager := Some m,
                                     isUndoing := False, isRedoing := False\<rparr>) w)"

definition Manager_new :: "nat option \<Rightarrow> 's world \<Rightarrow> 's world \<times> nat" where
  "Manager_new p w =
     (let m = length (managers w);
          w1 = um_clear m (w\<lparr>managers := managers w @ [blank]\<rparr>)
      in (change m (\<lambda>x. x\<lparr>mparent := p\<rparr>) w1, m))"

section \<open>Adding actions\<close>

fun um_push :: "nat \<Rightarrow> nat \<Rightarrow> ('s \<Rightarrow> 's) option \<Rightarrow> ('s \<Rightarrow> 's) option \<Rightarrow> 's world \<Rightarrow> 's world step" where
  "um_push 0 m u r w = None"
| "um_push (Suc n) m u r w =
     (case u of None \<Rightarrow> ret w
      | Some uf \<Rightarrow>
          sbind (if currentManager (mgr w m) = Some m
                 then ret (change m (\<lambda>x. x\<lparr>undoStack := undoStack x @ [Action uf r]\<rparr>) w)
                 else (case currentManager (mgr w m) of None \<Rightarrow> Some (Inl TypeError) | Some c \<Rightarrow> um_push n c u r w))
            (\<lambda>w1. ret (updateStatus m (change m (\<lambda>x. x\<lparr>redoStack := []\<rparr>) w1))))"

text \<open>\<open>concat\<close> of a manager with itself never ends, unless its stack is empty: the loop appends to the array it reads.\<close>

fun um_concat :: "nat \<Rightarrow> nat \<Rightarrow> nat option \<Rightarrow> 's world \<Rightarrow> 's world step" where
  "um_concat 0 m other w = None"
| "um_concat (Suc n) m other w =
     (case other of None \<Rightarrow> ret w
      | Some k \<Rightarrow>
          if currentManager (mgr w m) = Some m \<and> k = m \<and> undoStack (mgr w m) \<noteq> [] then None
          else if currentManager (mgr w m) = Some m
          then (let w1 = change m (\<lambda>x. x\<lparr>undoStack := undoStack x @ undoStack (mgr w k)\<rparr>) w;
                    w2 = (if undoStack (mgr w1 k) \<noteq> [] then change m (\<lambda>x. x\<lparr>redoStack := []\<rparr>) w1 else w1)
                in ret (updateStatus m w2))
          else (case currentManager (mgr w m) of None \<Rightarrow> Some (Inl TypeError) | Some c \<Rightarrow> um_concat n c other w))"

section \<open>Transactions\<close>

fun beginTransaction :: "nat \<Rightarrow> nat \<Rightarrow> 's world \<Rightarrow> ('s world \<times> nat option) step" where
  "beginTransaction 0 m w = None"
| "beginTransaction (Suc n) m w =
     (if currentManager (mgr w m) = Some m
      then (let (w1, k) = Manager_new (Some m) w
            in ret (change m (\<lambda>x. x\<lparr>undoStack := undoStack x @ [Transaction k], currentManager := Some k\<rparr>) w1, Some k))
      else (case currentManager (mgr w m) of
              None \<Rightarrow> Some (Inl TypeError)
            | Some c \<Rightarrow> sbind (beginTransaction n c w) (\<lambda>(w1, k). ret (change m (\<lambda>x. x\<lparr>currentManager := k\<rparr>) w1, None))))"

fun is_transaction :: "nat \<Rightarrow> 's item \<Rightarrow> bool" where
  "is_transaction k (Transaction j) \<longleftrightarrow> j = k"
| "is_transaction k (Action u r) \<longleftrightarrow> False"

text \<open>What \<open>endTransaction\<close> does to the stack of the parent of the transaction \<open>m\<close>.\<close>

definition drop_transaction :: "bool \<Rightarrow> nat \<Rightarrow> nat \<Rightarrow> 's world \<Rightarrow> 's world" where
  "drop_transaction flatten m p w =
     (let idx = scan_index (is_transaction m) (undoStack (mgr w p)) 0
      in if idx \<ge> 0
         then (let w1 = change p (\<lambda>x. x\<lparr>undoStack := js_splice (undoStack x) idx 1 []\<rparr>) w
               in if flatten
                  then updateStatus m (change p (\<lambda>x. x\<lparr>undoStack := js_splice (undoStack x) idx 0 (undoStack (mgr w1 m))\<rparr>) w1)
                  else w1)
         else w)"

fun endTransaction :: "nat \<Rightarrow> nat \<Rightarrow> bool \<Rightarrow> 's world \<Rightarrow> ('s world \<times> nat option) step" where
  "endTransaction 0 m flatten w = None"
| "endTransaction (Suc n) m flatten w =
     (if currentManager (mgr w m) = Some m
      then (case mparent (mgr w m) of
              None \<Rightarrow> ret (w, None)
            | Some p \<Rightarrow>
                (let w1 = change p (\<lambda>x. x\<lparr>currentManager := Some p\<rparr>) w
                 in ret (if undoStack (mgr w1 m) = [] \<or> flatten then drop_transaction flatten m p w1 else w1, Some p)))
      else (case currentManager (mgr w m) of
              None \<Rightarrow> Some (Inl TypeError)
            | Some c \<Rightarrow> sbind (endTransaction n c flatten w) (\<lambda>(w1, k). ret (change m (\<lambda>x. x\<lparr>currentManager := k\<rparr>) w1, None))))"

fun endAllTransactions :: "nat \<Rightarrow> nat \<Rightarrow> 's world \<Rightarrow> 's world step" where
  "endAllTransactions 0 m w = None"
| "endAllTransactions (Suc n) m w =
     (if currentManager (mgr w m) \<noteq> Some m
      then sbind (endTransaction n m False w) (\<lambda>(w1, k). endAllTransactions n m w1)
      else ret w)"

fun getTop :: "nat \<Rightarrow> nat \<Rightarrow> 's world \<Rightarrow> nat option" where
  "getTop 0 m w = None"
| "getTop (Suc n) m w = (case mparent (mgr w m) of Some p \<Rightarrow> getTop n p w | None \<Rightarrow> Some m)"

section \<open>Undo and redo\<close>

fun has_redo :: "'s item \<Rightarrow> bool" where
  "has_redo (Action u r) \<longleftrightarrow> r \<noteq> None"
| "has_redo (Transaction k) \<longleftrightarrow> True"

fun um_undo :: "nat \<Rightarrow> nat \<Rightarrow> 's world \<Rightarrow> ('s world \<times> bool) step"
  and um_undoAll :: "nat \<Rightarrow> nat \<Rightarrow> 's world \<Rightarrow> 's world step" where
  "um_undo 0 m w = None"
| "um_undo (Suc n) m w =
     (if \<not> canUndo (mgr w m) then ret (w, False)
      else sbind (endAllTransactions n m w) (\<lambda>w1.
        if undoStack (mgr w1 m) = [] then Some (Inl TypeError)
        else (let top = last (undoStack (mgr w1 m));
                  w2 = change m (\<lambda>x. x\<lparr>isUndoing := True, undoStack := butlast (undoStack x)\<rparr>) w1
              in sbind (case top of
                          Transaction k \<Rightarrow> um_undoAll n k w2
                        | Action u r \<Rightarrow> ret (w2\<lparr>app := u (app w2)\<rparr>))
                   (\<lambda>w3. let w4 = (if has_redo top then change m (\<lambda>x. x\<lparr>redoStack := redoStack x @ [top]\<rparr>) w3 else w3)
                          in ret (updateStatus m (change m (\<lambda>x. x\<lparr>isUndoing := False\<rparr>) w4), True)))))"
| "um_undoAll 0 m w = None"
| "um_undoAll (Suc n) m w =
     (if undoStack (mgr w m) \<noteq> [] then sbind (um_undo n m w) (\<lambda>(w1, b). um_undoAll n m w1) else ret w)"

fun um_redo :: "nat \<Rightarrow> nat \<Rightarrow> 's world \<Rightarrow> ('s world \<times> bool) step"
  and um_redoAll :: "nat \<Rightarrow> nat \<Rightarrow> 's world \<Rightarrow> 's world step" where
  "um_redo 0 m w = None"
| "um_redo (Suc n) m w =
     (if \<not> canRedo (mgr w m) then ret (w, False)
      else if redoStack (mgr w m) = [] then Some (Inl TypeError)
      else (let top = last (redoStack (mgr w m));
                w2 = change m (\<lambda>x. x\<lparr>isRedoing := True, redoStack := butlast (redoStack x)\<rparr>) w
            in sbind (case top of
                        Transaction k \<Rightarrow> um_redoAll n k w2
                      | Action u None \<Rightarrow> Some (Inl TypeError)
                      | Action u (Some r) \<Rightarrow> ret (w2\<lparr>app := r (app w2)\<rparr>))
                 (\<lambda>w3. ret (updateStatus m
                          (change m (\<lambda>x. x\<lparr>undoStack := undoStack x @ [top], isRedoing := False\<rparr>) w3), True))))"
| "um_redoAll 0 m w = None"
| "um_redoAll (Suc n) m w =
     (if redoStack (mgr w m) \<noteq> [] then sbind (um_redo n m w) (\<lambda>(w1, b). um_redoAll n m w1) else ret w)"

declare um_undo.simps(2) [simp del] um_undoAll.simps(2) [simp del] um_redo.simps(2) [simp del] um_redoAll.simps(2) [simp del]

section \<open>The store of managers\<close>

lemma sbind_simps [simp]: "sbind (ret a) f = f a" "sbind None f = None" "sbind (Some (Inl e)) f = Some (Inl e)"
  by (simp_all add: sbind_def)

lemma change_simps [simp]:
  "length (managers (change m f w)) = length (managers w)" "app (change m f w) = app w"
  "change m f (w\<lparr>app := s\<rparr>) = (change m f w)\<lparr>app := s\<rparr>" "mgr (w\<lparr>app := s\<rparr>) k = mgr w k"
  by (simp_all add: change_def mgr_def)

lemma mgr_change: "mgr (change m f w) k = (if k = m \<and> m < length (managers w) then f (mgr w m) else mgr w k)"
  by (auto simp: change_def mgr_def)

lemma change_twice: "change m f (change m g w) = change m (\<lambda>x. f (g x)) w"
  by (simp add: change_def)

lemma with_status_simps [simp]:
  "undoStack (with_status x) = undoStack x" "redoStack (with_status x) = redoStack x" "currentManager (with_status x) = currentManager x"
  "mparent (with_status x) = mparent x" "canUndo (with_status x) \<longleftrightarrow> undoStack x \<noteq> []" "canRedo (with_status x) \<longleftrightarrow> redoStack x \<noteq> []"
  by (simp_all add: with_status_def)

lemma updateStatus_change: "updateStatus m (change m f w) = change m (\<lambda>x. with_status (f x)) w"
  by (simp add: updateStatus_def change_twice)

section \<open>Undoing and redoing actions\<close>

definition idle :: "nat \<Rightarrow> 's world \<Rightarrow> bool" where
  "idle m w \<longleftrightarrow> m < length (managers w) \<and> currentManager (mgr w m) = Some m \<and>
     canUndo (mgr w m) = (undoStack (mgr w m) \<noteq> []) \<and> canRedo (mgr w m) = (redoStack (mgr w m) \<noteq> [])"

definition same_others :: "nat \<Rightarrow> 's world \<Rightarrow> 's world \<Rightarrow> bool" where
  "same_others m w w' \<longleftrightarrow> length (managers w') = length (managers w) \<and> mparent (mgr w' m) = mparent (mgr w m) \<and>
     (\<forall>k. k \<noteq> m \<longrightarrow> mgr w' k = mgr w k)"

lemma same_others_trans: "same_others m w w' \<Longrightarrow> same_others m w' w'' \<Longrightarrow> same_others m w w''"
  by (simp add: same_others_def)

definition acts :: "(('s \<Rightarrow> 's) \<times> ('s \<Rightarrow> 's)) list \<Rightarrow> 's item list" where
  "acts ps = map (\<lambda>(u, r). Action u (Some r)) ps"

lemma acts_simps [simp]: "acts [] = []" "acts ((u, r) # ps) = Action u (Some r) # acts ps" "acts (ps @ qs) = acts ps @ acts qs"
  "acts (rev ps) = rev (acts ps)" "acts ps = [] \<longleftrightarrow> ps = []"
  by (simp_all add: acts_def rev_map)

lemma endAll_idle: "currentManager (mgr w m) = Some m \<Longrightarrow> endAllTransactions (Suc n) m w = ret w"
  by simp

lemma undo_action:
  assumes "idle m w" "undoStack (mgr w m) = xs @ [Action u (Some r)]"
  shows "\<exists>w'. um_undo (Suc (Suc n)) m w = ret (w', True) \<and> idle m w' \<and> same_others m w w' \<and> app w' = u (app w) \<and>
    undoStack (mgr w' m) = xs \<and> redoStack (mgr w' m) = redoStack (mgr w m) @ [Action u (Some r)]"
proof -
  let ?f = "\<lambda>x. with_status (x\<lparr>isUndoing := True, undoStack := butlast (undoStack x),
     redoStack := redoStack x @ [Action u (Some r)], isUndoing := False\<rparr>)"
  have "um_undo (Suc (Suc n)) m w = ret ((change m ?f w)\<lparr>app := u (app w)\<rparr>, True)"
    using assms by (simp add: um_undo.simps(2) idle_def updateStatus_change change_twice)
  then show ?thesis
    using assms by (simp add: idle_def same_others_def mgr_change)
qed

lemma redo_action:
  assumes "idle m w" "redoStack (mgr w m) = xs @ [Action u (Some r)]"
  shows "\<exists>w'. um_redo (Suc n) m w = ret (w', True) \<and> idle m w' \<and> same_others m w w' \<and> app w' = r (app w) \<and>
    redoStack (mgr w' m) = xs \<and> undoStack (mgr w' m) = undoStack (mgr w m) @ [Action u (Some r)]"
proof -
  let ?f = "\<lambda>x. with_status (x\<lparr>isRedoing := True, redoStack := butlast (redoStack x),
     undoStack := undoStack x @ [Action u (Some r)], isRedoing := False\<rparr>)"
  have "um_redo (Suc n) m w = ret ((change m ?f w)\<lparr>app := r (app w)\<rparr>, True)"
    using assms by (simp add: um_redo.simps(2) idle_def updateStatus_change change_twice)
  then show ?thesis
    using assms by (simp add: idle_def same_others_def mgr_change)
qed

lemma undoAll_actions:
  "idle m w \<Longrightarrow> undoStack (mgr w m) = acts ps \<Longrightarrow> n \<ge> length ps + 3 \<Longrightarrow>
   \<exists>w'. um_undoAll n m w = ret w' \<and> idle m w' \<and> same_others m w w' \<and> app w' = fold fst (rev ps) (app w) \<and>
     undoStack (mgr w' m) = [] \<and> redoStack (mgr w' m) = redoStack (mgr w m) @ rev (acts ps)"
proof (induction ps arbitrary: n w rule: rev_induct)
  case Nil
  then obtain k where "n = Suc k" by (cases n) auto
  with Nil show ?case by (simp add: um_undoAll.simps(2) same_others_def)
next
  case (snoc p ps)
  obtain u r where p: "p = (u, r)" by (cases p)
  obtain k where n: "n = Suc (Suc (Suc k))" "Suc (Suc k) \<ge> length ps + 3"
    using snoc.prems(3) by (intro that [of "n - 3"]) auto
  obtain w1 where 1: "um_undo (Suc (Suc k)) m w = ret (w1, True)" "idle m w1" "same_others m w w1" "app w1 = u (app w)"
    "undoStack (mgr w1 m) = acts ps" "redoStack (mgr w1 m) = redoStack (mgr w m) @ [Action u (Some r)]"
    using undo_action [OF snoc.prems(1), of "acts ps" u r k] snoc.prems(2) p by auto
  from snoc.IH [OF 1(2,5) n(2)] obtain w2 where "um_undoAll (Suc (Suc k)) m w1 = ret w2" "idle m w2" "same_others m w1 w2"
    "app w2 = fold fst (rev ps) (app w1)" "undoStack (mgr w2 m) = []" "redoStack (mgr w2 m) = redoStack (mgr w1 m) @ rev (acts ps)"
    by blast
  with 1 p snoc.prems(2) n(1) same_others_trans show ?case by (auto simp: um_undoAll.simps(2))
qed

lemma redoAll_actions:
  "idle m w \<Longrightarrow> redoStack (mgr w m) = rev (acts ps) \<Longrightarrow> n \<ge> length ps + 2 \<Longrightarrow>
   \<exists>w'. um_redoAll n m w = ret w' \<and> idle m w' \<and> same_others m w w' \<and> app w' = fold snd ps (app w) \<and>
     redoStack (mgr w' m) = [] \<and> undoStack (mgr w' m) = undoStack (mgr w m) @ acts ps"
proof (induction ps arbitrary: n w)
  case Nil
  then obtain k where "n = Suc k" by (cases n) auto
  with Nil show ?case by (simp add: um_redoAll.simps(2) same_others_def)
next
  case (Cons p ps)
  obtain u r where p: "p = (u, r)" by (cases p)
  obtain k where n: "n = Suc (Suc k)" "Suc k \<ge> length ps + 2"
    using Cons.prems(3) by (intro that [of "n - 2"]) auto
  obtain w1 where 1: "um_redo (Suc k) m w = ret (w1, True)" "idle m w1" "same_others m w w1" "app w1 = r (app w)"
    "redoStack (mgr w1 m) = rev (acts ps)" "undoStack (mgr w1 m) = undoStack (mgr w m) @ [Action u (Some r)]"
    using redo_action [OF Cons.prems(1), of "rev (acts ps)" u r k] Cons.prems(2) p by auto
  from Cons.IH [OF 1(2,5) n(2)] obtain w2 where "um_redoAll (Suc k) m w1 = ret w2" "idle m w2" "same_others m w1 w2"
    "app w2 = fold snd ps (app w1)" "redoStack (mgr w2 m) = []" "undoStack (mgr w2 m) = undoStack (mgr w1 m) @ acts ps"
    by blast
  with 1 p Cons.prems(2) n(1) same_others_trans show ?case by (auto simp: um_redoAll.simps(2))
qed

section \<open>A transaction\<close>

text \<open>The application performs an action and then pushes it.\<close>

definition perform :: "nat \<Rightarrow> nat \<Rightarrow> ('s \<Rightarrow> 's) \<times> ('s \<Rightarrow> 's) \<Rightarrow> 's world \<Rightarrow> 's world step" where
  "perform n m p w = um_push n m (Some (fst p)) (Some (snd p)) (w\<lparr>app := snd p (app w)\<rparr>)"

fun perform_all :: "nat \<Rightarrow> nat \<Rightarrow> (('s \<Rightarrow> 's) \<times> ('s \<Rightarrow> 's)) list \<Rightarrow> 's world \<Rightarrow> 's world step" where
  "perform_all n m [] w = ret w"
| "perform_all n m (p # ps) w = sbind (perform n m p w) (perform_all n m ps)"

text \<open>The transaction \<open>k\<close> of the manager \<open>m\<close> is open and holds the actions \<open>zs\<close>, on top of the items \<open>base\<close> of \<open>m\<close>.\<close>

definition open_transaction where
  "open_transaction m k base zs w \<longleftrightarrow>
     m < length (managers w) \<and> k < length (managers w) \<and> m \<noteq> k \<and>
     currentManager (mgr w m) = Some k \<and> undoStack (mgr w m) = base @ [Transaction k] \<and>
     currentManager (mgr w k) = Some k \<and> mparent (mgr w k) = Some m \<and> undoStack (mgr w k) = acts zs \<and> redoStack (mgr w k) = [] \<and>
     canUndo (mgr w k) = (zs \<noteq> []) \<and> \<not> canRedo (mgr w k) \<and>
     (zs \<noteq> [] \<longrightarrow> canUndo (mgr w m) \<and> redoStack (mgr w m) = [] \<and> \<not> canRedo (mgr w m))"

lemma managers_app [simp]: "managers (w\<lparr>app := s\<rparr>) = managers w"
  by simp

lemma begin_open:
  assumes "m < length (managers w)" "currentManager (mgr w m) = Some m"
  shows "\<exists>w'. beginTransaction (Suc n) m w = ret (w', Some (length (managers w))) \<and>
    open_transaction m (length (managers w)) (undoStack (mgr w m)) [] w' \<and> app w' = app w"
proof -
  let ?k = "length (managers w)" and ?w = "w\<lparr>managers := managers w @ [blank]\<rparr>"
  have w: "mgr ?w ?k = blank" "mgr ?w m = mgr w m" "?k < length (managers ?w)" "m < length (managers ?w)"
    using assms(1) by (simp_all add: mgr_def nth_append)
  show ?thesis
    using assms w by (auto simp: Manager_new_def um_clear_def updateStatus_change change_twice Let_def open_transaction_def mgr_change blank_def)
qed

lemma perform_open:
  assumes "open_transaction m k base zs w" "n \<ge> 2"
  shows "\<exists>w'. perform n m p w = ret w' \<and> open_transaction m k base (zs @ [p]) w' \<and> app w' = snd p (app w)"
proof -
  obtain j where n: "n = Suc (Suc j)" using assms(2) by (metis Suc_le_D numeral_2_eq_2 Suc_le_mono)
  obtain u r where p: "p = (u, r)" by (cases p)
  show ?thesis
    using assms(1) by (auto simp: n p perform_def open_transaction_def updateStatus_change mgr_change)
qed

lemma perform_all_open:
  "open_transaction m k base zs w \<Longrightarrow> n \<ge> 2 \<Longrightarrow>
   \<exists>w'. perform_all n m ps w = ret w' \<and> open_transaction m k base (zs @ ps) w' \<and> app w' = fold snd ps (app w)"
proof (induction ps arbitrary: zs w)
  case (Cons p ps)
  obtain w1 where 1: "perform n m p w = ret w1" "open_transaction m k base (zs @ [p]) w1" "app w1 = snd p (app w)"
    using perform_open [OF Cons.prems] by blast
  from Cons.IH [OF 1(2) Cons.prems(2)] 1 show ?case by auto
qed simp

lemma end_open:
  assumes "open_transaction m k base zs w" "zs \<noteq> []"
  shows "\<exists>w'. endTransaction (Suc (Suc n)) m False w = ret (w', None) \<and> app w' = app w \<and> m \<noteq> k \<and>
    idle m w' \<and> undoStack (mgr w' m) = base @ [Transaction k] \<and> redoStack (mgr w' m) = [] \<and>
    idle k w' \<and> undoStack (mgr w' k) = acts zs \<and> redoStack (mgr w' k) = []"
  using assms by (auto simp: open_transaction_def idle_def mgr_change change_twice)

lemma undo_transaction:
  assumes "idle m w" "undoStack (mgr w m) = base @ [Transaction k]" "m \<noteq> k" "idle k w" "undoStack (mgr w k) = acts zs"
    and "redoStack (mgr w k) = []" "n \<ge> length zs + 4"
  shows "\<exists>w'. um_undo n m w = ret (w', True) \<and> app w' = fold fst (rev zs) (app w) \<and>
    idle m w' \<and> undoStack (mgr w' m) = base \<and> redoStack (mgr w' m) = redoStack (mgr w m) @ [Transaction k] \<and>
    idle k w' \<and> undoStack (mgr w' k) = [] \<and> redoStack (mgr w' k) = rev (acts zs)"
proof -
  obtain j where n: "n = Suc (Suc j)" "Suc j \<ge> length zs + 3" using assms(7) by (intro that [of "n - 2"]) auto
  let ?w = "change m (\<lambda>x. x\<lparr>isUndoing := True, undoStack := butlast (undoStack x)\<rparr>) w"
  have "idle k ?w" "undoStack (mgr ?w k) = acts zs" using assms(3-5) by (simp_all add: idle_def mgr_change)
  from undoAll_actions [OF this n(2)] obtain w1 where
    1: "um_undoAll (Suc j) k ?w = ret w1" "idle k w1" "same_others k ?w w1" "app w1 = fold fst (rev zs) (app w)"
      "undoStack (mgr w1 k) = []" "redoStack (mgr w1 k) = rev (acts zs)"
    using assms(3,6) by (auto simp: mgr_change)
  let ?f = "\<lambda>x. with_status (x\<lparr>redoStack := redoStack x @ [Transaction k], isUndoing := False\<rparr>)"
  have "um_undo n m w = ret (change m ?f w1, True)"
    using assms(1,2) 1(1) by (simp add: n(1) um_undo.simps(2) idle_def updateStatus_change change_twice)
  then show ?thesis
    using 1 assms(1-3) by (auto simp: idle_def same_others_def mgr_change)
qed

lemma redo_transaction:
  assumes "idle m w" "redoStack (mgr w m) = base @ [Transaction k]" "m \<noteq> k" "idle k w" "undoStack (mgr w k) = []"
    and "redoStack (mgr w k) = rev (acts zs)" "n \<ge> length zs + 3"
  shows "\<exists>w'. um_redo n m w = ret (w', True) \<and> app w' = fold snd zs (app w) \<and>
    idle m w' \<and> redoStack (mgr w' m) = base \<and> undoStack (mgr w' m) = undoStack (mgr w m) @ [Transaction k] \<and>
    undoStack (mgr w' k) = acts zs"
proof -
  obtain j where n: "n = Suc j" "j \<ge> length zs + 2" using assms(7) by (intro that [of "n - 1"]) auto
  let ?w = "change m (\<lambda>x. x\<lparr>isRedoing := True, redoStack := butlast (redoStack x)\<rparr>) w"
  have "idle k ?w" "redoStack (mgr ?w k) = rev (acts zs)" using assms(3,4,6) by (simp_all add: idle_def mgr_change)
  from redoAll_actions [OF this n(2)] obtain w1 where
    1: "um_redoAll j k ?w = ret w1" "same_others k ?w w1" "app w1 = fold snd zs (app w)" "undoStack (mgr w1 k) = acts zs"
    using assms(3,5) by (auto simp: mgr_change)
  let ?f = "\<lambda>x. with_status (x\<lparr>undoStack := undoStack x @ [Transaction k], isRedoing := False\<rparr>)"
  have "um_redo n m w = ret (change m ?f w1, True)"
    using assms(1,2) 1(1) by (simp add: n(1) um_redo.simps(2) idle_def updateStatus_change)
  then show ?thesis
    using 1 assms(1-3) by (auto simp: idle_def same_others_def mgr_change)
qed

lemma undo_inverts:
  "\<forall>(u, r) \<in> set ps. \<forall>s. u (r s) = s \<Longrightarrow> fold fst (rev ps) (fold snd ps s) = s"
  by (induction ps arbitrary: s) auto

lemma new_manager:
  fixes s :: 's
  defines "w \<equiv> fst (Manager_new None \<lparr>managers = [], app = s\<rparr>)"
  shows "idle 0 w" "redoStack (mgr w 0) = []" "undoStack (mgr w 0) = []" "app w = s"
  by (simp_all add: w_def idle_def Manager_new_def um_clear_def updateStatus_def Let_def change_def mgr_def with_status_def)

section \<open>Properties\<close>

text \<open>
  Claim C15. A transaction that contains no other transaction is undone and redone as one item. When the application begins a transaction,
  performs and pushes some actions and ends it, then one \<open>undo\<close> takes back all of them and restores
  the state of the application and the undo stack, and one \<open>redo\<close> performs them again. It only needs
  each undo function to invert its redo function.
\<close>

theorem transaction_undo_redo:
  assumes "m < length (managers w)" "currentManager (mgr w m) = Some m"
    and "\<forall>(u, r) \<in> set ps. \<forall>s. u (r s) = s" "ps \<noteq> []" "n \<ge> length ps + 4"
  shows "\<exists>k w1 w2 w3 w4 w5. beginTransaction n m w = ret (w1, Some k) \<and> perform_all n m ps w1 = ret w2 \<and>
    endTransaction n m False w2 = ret (w3, None) \<and> app w3 = fold snd ps (app w) \<and>
    um_undo n m w3 = ret (w4, True) \<and> app w4 = app w \<and> undoStack (mgr w4 m) = undoStack (mgr w m) \<and>
    um_redo n m w4 = ret (w5, True) \<and> app w5 = app w3 \<and> undoStack (mgr w5 m) = undoStack (mgr w3 m)"
proof -
  obtain j where n: "n = Suc (Suc j)" using assms(5) by (intro that [of "n - 2"]) auto
  let ?k = "length (managers w)" and ?base = "undoStack (mgr w m)"
  obtain w1 where 1: "beginTransaction n m w = ret (w1, Some ?k)" "open_transaction m ?k ?base [] w1" "app w1 = app w"
    using begin_open [OF assms(1,2), of "Suc j"] n by blast
  obtain w2 where 2: "perform_all n m ps w1 = ret w2" "open_transaction m ?k ?base ps w2" "app w2 = fold snd ps (app w)"
    using perform_all_open [OF 1(2), of n ps] n 1(3) by auto
  obtain w3 where 3: "endTransaction n m False w2 = ret (w3, None)" "app w3 = app w2" "m \<noteq> ?k"
    "idle m w3" "undoStack (mgr w3 m) = ?base @ [Transaction ?k]" "redoStack (mgr w3 m) = []"
    "idle ?k w3" "undoStack (mgr w3 ?k) = acts ps" "redoStack (mgr w3 ?k) = []"
    using end_open [OF 2(2) assms(4), of j] n by blast
  obtain w4 where 4: "um_undo n m w3 = ret (w4, True)" "app w4 = fold fst (rev ps) (app w3)" "idle m w4"
    "undoStack (mgr w4 m) = ?base" "redoStack (mgr w4 m) = [] @ [Transaction ?k]" "idle ?k w4" "undoStack (mgr w4 ?k) = []"
    "redoStack (mgr w4 ?k) = rev (acts ps)"
    using undo_transaction [OF 3(4,5,3,7-9) assms(5)] 3(6) by auto
  have "n \<ge> length ps + 3" using assms(5) by simp
  from redo_transaction [OF 4(3,5) 3(3) 4(6-8) this] obtain w5 where "um_redo n m w4 = ret (w5, True)"
    "app w5 = fold snd ps (app w4)" "undoStack (mgr w5 m) = undoStack (mgr w4 m) @ [Transaction ?k]" by blast
  moreover have "app w4 = app w" using 4(2) 3(2) 2(3) undo_inverts [OF assms(3)] by simp
  ultimately show ?thesis using 1 2 3 4 by auto
qed

theorem transaction_undo_redo_witness:
  "(let w = fst (Manager_new None \<lparr>managers = [], app = 5\<rparr>); ps = [(\<lambda>x. x - 1, \<lambda>x. x + 1), (\<lambda>x. x + 2, \<lambda>x. x - 2)] :: ((int \<Rightarrow> int) \<times> (int \<Rightarrow> int)) list
    in \<exists>k w1 w2 w3 w4. beginTransaction 6 0 w = ret (w1, Some k) \<and> perform_all 6 0 ps w1 = ret w2 \<and>
      endTransaction 6 0 False w2 = ret (w3, None) \<and> app w3 = 4 \<and> um_undo 6 0 w3 = ret (w4, True) \<and> app w4 = 5)"
proof -
  define w :: "int world" where "w = fst (Manager_new None \<lparr>managers = [], app = 5\<rparr>)"
  have w: "0 < length (managers w)" "currentManager (mgr w 0) = Some 0" "app w = 5"
    using new_manager [of "5 :: int"] by (simp_all add: w_def idle_def)
  let ?ps = "[(\<lambda>x. x - 1, \<lambda>x. x + 1), (\<lambda>x. x + 2, \<lambda>x. x - 2)] :: ((int \<Rightarrow> int) \<times> (int \<Rightarrow> int)) list"
  have "\<forall>(u, r) \<in> set ?ps. \<forall>s. u (r s) = s" "?ps \<noteq> []" "6 \<ge> length ?ps + 4" by simp_all
  from transaction_undo_redo [OF w(1,2) this] obtain k w1 w2 w3 w4 where
    "beginTransaction 6 0 w = ret (w1, Some k)" "perform_all 6 0 ?ps w1 = ret w2" "endTransaction 6 0 False w2 = ret (w3, None)"
    "app w3 = fold snd ?ps (app w)" "um_undo 6 0 w3 = ret (w4, True)" "app w4 = app w" by blast
  moreover have "fold snd ?ps (app w) = 4" by (simp add: w(3))
  ultimately show ?thesis unfolding Let_def w_def [symmetric] using w(3) by metis
qed

lemma perform_idle:
  assumes "idle m w" "redoStack (mgr w m) = []"
  shows "\<exists>w'. perform (Suc n) m p w = ret w' \<and> idle m w' \<and> redoStack (mgr w' m) = [] \<and> app w' = snd p (app w) \<and>
    undoStack (mgr w' m) = undoStack (mgr w m) @ acts [p]"
  using assms by (cases p) (auto simp: perform_def idle_def updateStatus_change mgr_change change_twice)

lemma perform_all_idle:
  "idle m w \<Longrightarrow> redoStack (mgr w m) = [] \<Longrightarrow>
   \<exists>w'. perform_all (Suc n) m ps w = ret w' \<and> idle m w' \<and> redoStack (mgr w' m) = [] \<and> app w' = fold snd ps (app w) \<and>
     undoStack (mgr w' m) = undoStack (mgr w m) @ acts ps"
proof (induction ps arbitrary: w)
  case (Cons p ps)
  obtain w1 where 1: "perform (Suc n) m p w = ret w1" "idle m w1" "redoStack (mgr w1 m) = []" "app w1 = snd p (app w)"
    "undoStack (mgr w1 m) = undoStack (mgr w m) @ acts [p]"
    using perform_idle [OF Cons.prems] by blast
  from Cons.IH [OF 1(2,3)] 1 show ?case by (cases p) auto
qed simp

text \<open>
  On a new manager, \<open>undoAll\<close> takes back everything that was performed and pushed, whatever
  its number, \<open>redoAll\<close> performs it again, and the flags \<open>canUndo\<close> and \<open>canRedo\<close> say at each point
  whether there is something to undo or redo.
\<close>

theorem undo_all_redo_all:
  fixes s :: 's
  assumes "\<forall>(u, r) \<in> set ps. \<forall>s. u (r s) = s" "n \<ge> length ps + 3"
  shows "\<exists>w1 w2 w3. perform_all n 0 ps (fst (Manager_new None \<lparr>managers = [], app = s\<rparr>)) = ret w1 \<and>
    um_undoAll n 0 w1 = ret w2 \<and> app w2 = s \<and> \<not> canUndo (mgr w2 0) \<and> canRedo (mgr w2 0) = (ps \<noteq> []) \<and>
    um_redoAll n 0 w2 = ret w3 \<and> app w3 = app w1 \<and> canUndo (mgr w3 0) = (ps \<noteq> []) \<and> \<not> canRedo (mgr w3 0)"
proof -
  define w :: "'s world" where "w = fst (Manager_new None \<lparr>managers = [], app = s\<rparr>)"
  note w = new_manager [of s, folded w_def]
  obtain j where n: "n = Suc j" using assms(2) by (cases n) auto
  obtain w1 where 1: "perform_all n 0 ps w = ret w1" "idle 0 w1" "redoStack (mgr w1 0) = []" "app w1 = fold snd ps s"
    "undoStack (mgr w1 0) = acts ps"
    using perform_all_idle [OF w(1,2), of j ps] w n by auto
  obtain w2 where 2: "um_undoAll n 0 w1 = ret w2" "idle 0 w2" "app w2 = fold fst (rev ps) (app w1)" "undoStack (mgr w2 0) = []"
    "redoStack (mgr w2 0) = rev (acts ps)"
    using undoAll_actions [OF 1(2,5) assms(2)] 1(3) by auto
  obtain w3 where 3: "um_redoAll n 0 w2 = ret w3" "idle 0 w3" "app w3 = fold snd ps (app w2)" "redoStack (mgr w3 0) = []"
    "undoStack (mgr w3 0) = acts ps"
    using redoAll_actions [OF 2(2,5), of n] assms(2) 2(4) by auto
  have "app w2 = s" using 1(4) 2(3) undo_inverts [OF assms(1)] by simp
  then show ?thesis using 1 2 3 by (fold w_def) (auto simp: idle_def)
qed

theorem undo_all_redo_all_witness:
  "\<exists>w1 w2. perform_all 4 0 [(\<lambda>x. x - 1, \<lambda>x. x + 1)] (fst (Manager_new None \<lparr>managers = [], app = 5 :: int\<rparr>)) = ret w1 \<and>
    um_undoAll 4 0 w1 = ret w2 \<and> app w2 = 5 \<and> canRedo (mgr w2 0)"
  using undo_all_redo_all [of "[(\<lambda>x. x - 1, \<lambda>x :: int. x + 1)]" 4 5] by auto

lemma undoAll_stuck: "\<not> canUndo (mgr w k) \<Longrightarrow> undoStack (mgr w k) \<noteq> [] \<Longrightarrow> um_undoAll n k w = None"
proof (induction n)
  case (Suc n)
  then show ?case by (cases n) (simp_all add: um_undoAll.simps(2) um_undo.simps(2))
qed simp

text \<open>
  Undoing a nested transaction never returns. After beginning two transactions, pushing an
  action and ending both, the outer transaction holds the inner one, but the flag \<open>canUndo\<close> of the
  outer one was never set, so the loop of its \<open>undoAll\<close> calls an \<open>undo\<close> that does nothing, forever.
\<close>

theorem nested_transaction_hangs:
  "\<exists>w1 w2 w3 w4 w5. beginTransaction 3 0 (fst (Manager_new None \<lparr>managers = [], app = s\<rparr>)) = ret (w1, Some 1) \<and>
    beginTransaction 3 0 w1 = ret (w2, None) \<and> um_push 3 0 (Some u) r w2 = ret w3 \<and>
    endTransaction 3 0 False w3 = ret (w4, None) \<and> endTransaction 3 0 False w4 = ret (w5, None) \<and>
    canUndo (mgr w5 0) \<and> (\<forall>n. um_undo n 0 w5 = None)"
proof -
  let ?W = "\<lambda>xs. \<lparr>managers = xs, app = s\<rparr>"
  let ?M = "\<lambda>p us c b. \<lparr>mparent = p, undoStack = us, redoStack = [], currentManager = Some c,
    canUndo = b, canRedo = False, isUndoing = False, isRedoing = False\<rparr>"
  note eval = Manager_new_def um_clear_def updateStatus_def change_def mgr_def with_status_def blank_def drop_transaction_def
    numeral_3_eq_3 nth_Cons'
  let ?w1 = "?W [?M None [Transaction 1] 1 False, ?M (Some 0) [] 1 False]"
  let ?w2 = "?W [?M None [Transaction 1] 2 False, ?M (Some 0) [Transaction 2] 2 False, ?M (Some 1) [] 2 False]"
  let ?w3 = "?W [?M None [Transaction 1] 2 True, ?M (Some 0) [Transaction 2] 2 False, ?M (Some 1) [Action u r] 2 True]"
  let ?w4 = "?W [?M None [Transaction 1] 1 True, ?M (Some 0) [Transaction 2] 1 False, ?M (Some 1) [Action u r] 2 True]"
  let ?w5 = "?W [?M None [Transaction 1] 0 True, ?M (Some 0) [Transaction 2] 1 False, ?M (Some 1) [Action u r] 2 True]"
  have 1: "beginTransaction 3 0 (fst (Manager_new None (?W []))) = ret (?w1, Some 1)" by (simp add: eval)
  have 2: "beginTransaction 3 0 ?w1 = ret (?w2, None)" by (simp add: eval)
  have 3: "um_push 3 0 (Some u) r ?w2 = ret ?w3" by (simp add: eval)
  have 4: "endTransaction 3 0 False ?w3 = ret (?w4, None)" by (simp add: eval)
  have 5: "endTransaction 3 0 False ?w4 = ret (?w5, None)" by (simp add: eval)
  have "um_undo n 0 ?w5 = None" for n
  proof (cases n)
    case (Suc k)
    have "um_undoAll k 1 (change 0 (\<lambda>x. x\<lparr>isUndoing := True, undoStack := butlast (undoStack x)\<rparr>) ?w5) = None"
      by (rule undoAll_stuck) (simp_all add: change_def mgr_def)
    then show ?thesis by (cases k) (simp_all add: Suc um_undo.simps(2) mgr_def)
  qed simp
  moreover have "canUndo (mgr ?w5 0)" by (simp add: mgr_def)
  ultimately show ?thesis using 1 2 3 4 5 by blast
qed

end
