(* ===== verification/String_Extras.thy ===== *)
theory String_Extras
  imports JS_Strings
begin

text \<open>
  \<open>src/string/common.js\<close> and \<open>src/string/extras.js\<close>: trimming, padding, escaping, prefixes and
  suffixes, line ends and splitting. Characters are those below 256. A global replacement by a regular
  expression is a pass over the string that takes the leftmost match and goes on after it.

  The special characters have names of their own, so that the proofs do not have to look into them.
\<close>

section \<open>Characters\<close>

definition backslash :: char where "backslash = CHR 0x5C"
definition dquote :: char where "dquote = CHR 0x22"
definition squote :: char where "squote = CHR 0x27"
definition ch_f :: char where "ch_f = CHR 0x0C"
definition ch_b :: char where "ch_b = CHR 0x08"
definition ch_n :: char where "ch_n = CHR 0x0A"
definition ch_t :: char where "ch_t = CHR 0x09"
definition ch_r :: char where "ch_r = CHR 0x0D"
definition amp :: char where "amp = CHR 0x26"
definition lt :: char where "lt = CHR 0x3C"
definition gt :: char where "gt = CHR 0x3E"

lemmas char_defs = backslash_def dquote_def squote_def ch_f_def ch_b_def ch_n_def ch_t_def ch_r_def amp_def lt_def gt_def

definition replace_all :: "char \<Rightarrow> string \<Rightarrow> string \<Rightarrow> string" where
  "replace_all c r s = concat (map (\<lambda>x. if x = c then r else [x]) s)"

section \<open>Trimming and padding\<close>

definition trim :: "string \<Rightarrow> int \<Rightarrow> string" where
  "trim s wh =
     (if s = [] then s
      else if wh > 0 then dropWhile is_space s
      else if wh < 0 then rev (dropWhile is_space (rev s))
      else rev (dropWhile is_space (rev (dropWhile is_space s))))"

definition trimStart :: "string \<Rightarrow> string" where
  "trimStart s = trim s 1"

definition trimEnd :: "string \<Rightarrow> string" where
  "trimEnd s = trim s (- 1)"

fun repeat_loop :: "nat \<Rightarrow> nat \<Rightarrow> string \<Rightarrow> string \<Rightarrow> string \<Rightarrow> string" where
  "repeat_loop 0 i str sep out = out"
| "repeat_loop (Suc left) i str sep out =
     repeat_loop left (i + 1) str sep (out @ str @ (if sep \<noteq> [] \<and> left > 0 then sep else []))"

definition str_repeat :: "string \<Rightarrow> int \<Rightarrow> string option \<Rightarrow> string" where
  "str_repeat str count separator = repeat_loop (nat count) 0 str (case separator of None \<Rightarrow> [] | Some s \<Rightarrow> s) []"

function pad_loop :: "string \<Rightarrow> nat \<Rightarrow> string \<Rightarrow> int \<Rightarrow> string" where
  "pad_loop out len c dir =
     (if length out < len \<and> c \<noteq> [] then pad_loop (if dir > 0 then c @ out else out @ c) len c dir else out)"
  by pat_completeness auto
termination
  by (relation "measure (\<lambda>(out, len, c, dir). len - length out)") (auto intro!: diff_less_mono2)

declare pad_loop.simps [simp del]

definition str_pad :: "string \<Rightarrow> nat \<Rightarrow> string \<Rightarrow> int \<Rightarrow> string" where
  "str_pad str len c dir =
     (let c = (if c = [] then ''0'' else c); dir = (if dir = 0 then 1 else dir) in pad_loop str len c dir)"

definition padLeft :: "string \<Rightarrow> nat \<Rightarrow> string \<Rightarrow> string" where
  "padLeft str len c = str_pad str len c 1"

definition padRight :: "string \<Rightarrow> nat \<Rightarrow> string \<Rightarrow> string" where
  "padRight str len c = str_pad str len c (- 1)"

section \<open>Substitution and capitals\<close>

definition is_word_char :: "char \<Rightarrow> bool" where
  "is_word_char c \<longleftrightarrow>
     (let k = of_char c :: nat in 48 \<le> k \<and> k \<le> 57 \<or> 65 \<le> k \<and> k \<le> 90 \<or> k = 95 \<or> 97 \<le> k \<and> k \<le> 122)"

text \<open>A match of \<open>%{key}\<close> at the start of a string: the key and what follows.\<close>

definition match_param :: "string \<Rightarrow> (string \<times> string) option" where
  "match_param s =
     (if take 2 s = ''%{''
      then (let k = takeWhile is_word_char (drop 2 s)
            in if k \<noteq> [] \<and> take 1 (drop (2 + length k) s) = ''}'' then Some (k, drop (3 + length k) s) else None)
      else None)"

lemma match_param_shorter: "match_param s = Some (k, r) \<Longrightarrow> length r < length s"
proof -
  assume m: "match_param s = Some (k, r)"
  have "s \<noteq> []" using m by (cases s) (simp_all add: match_param_def)
  moreover have "r = drop (3 + length (takeWhile is_word_char (drop 2 s))) s"
    using m unfolding match_param_def Let_def
    by (simp only: option.inject prod.inject option.distinct simp_thms split: if_splits) (elim conjE, simp only:)
  ultimately show ?thesis by simp
qed

function substituteParams :: "(string \<Rightarrow> string option) \<Rightarrow> string \<Rightarrow> string result" where
  "substituteParams hash template =
     (case template of [] \<Rightarrow> Inr []
      | c # cs \<Rightarrow>
          (case match_param template of
             Some (k, r) \<Rightarrow>
               (case hash k of
                  Some v \<Rightarrow> rbind (substituteParams hash r) (\<lambda>s. Inr (v @ s))
                | None \<Rightarrow> Inl (Raised (''Substitution not found: '' @ k)))
           | None \<Rightarrow> rbind (substituteParams hash cs) (\<lambda>s. Inr (c # s))))"
  by pat_completeness auto
termination
  by (relation "measure (\<lambda>(hash, template). length template)") (auto dest: match_param_shorter)

declare substituteParams.simps [simp del]

text \<open>\<open>toUpperCase\<close> of a character, where the result is one character below 256.\<close>

definition upper_char :: "char \<Rightarrow> char" where
  "upper_char c =
     (let k = of_char c :: nat
      in if 97 \<le> k \<and> k \<le> 122 \<or> 224 \<le> k \<and> k \<le> 254 \<and> k \<noteq> 247 then char_of (k - 32) else c)"

definition capitalize :: "string \<Rightarrow> string" where
  "capitalize str = join_with '' '' (map (\<lambda>w. map upper_char (char_at w 0) @ drop 1 w) (split_on CHR '' '' str))"

definition isBlank :: "string \<Rightarrow> bool" where
  "isBlank str \<longleftrightarrow> trim str 0 = []"

section \<open>Escaping\<close>

text \<open>The global function \<open>escape\<close> on a character below 256; \<open>%u\<close> only appears for larger ones.\<close>

definition escape_char :: "char \<Rightarrow> string" where
  "escape_char c =
     (let k = of_char c :: nat
      in if is_word_char c \<or> c \<in> set ''@*+-./'' then [c]
         else CHR ''%'' # map upper_char [hex_digit (k div 16), hex_digit (k mod 16)])"

definition encodeAscii :: "string \<Rightarrow> string" where
  "encodeAscii str = replace_all CHR ''+'' ''%2B'' (concat (map escape_char str))"

definition escapeXml :: "string \<Rightarrow> bool \<Rightarrow> string" where
  "escapeXml str noSingleQuotes =
     (let str = replace_all dquote ''&quot;'' (replace_all gt ''&gt;'' (replace_all lt ''&lt;'' (replace_all amp ''&amp;'' str)))
      in if \<not> noSingleQuotes then replace_all squote ''&#39;'' str else str)"

definition escapeSql :: "string \<Rightarrow> string" where
  "escapeSql str = replace_all squote [squote, squote] str"

definition escape_class :: "char list \<Rightarrow> string \<Rightarrow> string" where
  "escape_class cs str = concat (map (\<lambda>x. if x \<in> set cs then [backslash, x] else [x]) str)"

definition escapeRegExp :: "string \<Rightarrow> string" where
  "escapeRegExp str =
     escape_class ([ch_f, ch_b, ch_n, ch_t, ch_r] @ ''[^$|?*+(){}'') (replace_all backslash [backslash, backslash] str)"

definition escapeJavaScript :: "string \<Rightarrow> string" where
  "escapeJavaScript str = escape_class [dquote, squote, ch_f, ch_b, ch_n, ch_t, ch_r] str"

definition str_escape :: "string \<Rightarrow> string \<Rightarrow> bool \<Rightarrow> string" where
  "str_escape type str noSingleQuotes =
     (let t = to_lower type
      in if t \<in> {''xml'', ''html'', ''xhtml''} then escapeXml str noSingleQuotes
         else if t = ''sql'' then escapeSql str
         else if t \<in> {''regexp'', ''regex''} then escapeRegExp str
         else if t \<in> {''javascript'', ''jscript'', ''js''} then escapeJavaScript str
         else if t = ''ascii'' then encodeAscii str
         else str)"

definition escapeString :: "string \<Rightarrow> string" where
  "escapeString str =
     replace_all ch_r (backslash # ''r'') (replace_all ch_t (backslash # ''t'') (replace_all ch_n (backslash # ''n'')
       (replace_all ch_b (backslash # ''b'') (replace_all ch_f (backslash # ''f'')
         (dquote # escape_class [dquote, backslash] str @ [dquote])))))"

definition str_summary :: "string \<Rightarrow> nat \<Rightarrow> string" where
  "str_summary str len =
     (if len = 0 \<or> length str \<le> len then str
      else rev (dropWhile (\<lambda>c. c = CHR ''.'') (rev (substring str 0 len))) @ ''...'')"

section \<open>Prefixes, suffixes and substrings\<close>

fun js_indexOf :: "string \<Rightarrow> string \<Rightarrow> int" where
  "js_indexOf pat s =
     (if take (length pat) s = pat then 0
      else case s of [] \<Rightarrow> - 1 | c # cs \<Rightarrow> (let i = js_indexOf pat cs in if i = - 1 then - 1 else i + 1))"

fun js_lastIndexOf :: "string \<Rightarrow> string \<Rightarrow> int" where
  "js_lastIndexOf pat s =
     (case s of [] \<Rightarrow> if pat = [] then 0 else - 1
      | c # cs \<Rightarrow>
          (let i = js_lastIndexOf pat cs in if i \<noteq> - 1 then i + 1 else if take (length pat) s = pat then 0 else - 1))"

declare js_indexOf.simps [simp del] js_lastIndexOf.simps [simp del]

definition endsWith :: "string \<Rightarrow> string \<Rightarrow> bool \<Rightarrow> bool" where
  "endsWith str end_s ignoreCase \<longleftrightarrow>
     (let str = (if ignoreCase then to_lower str else str); end_s = (if ignoreCase then to_lower end_s else end_s)
      in if int (length str) - int (length end_s) < 0 then False
         else js_lastIndexOf end_s str = int (length str) - int (length end_s))"

definition endsWithAny :: "string \<Rightarrow> string list \<Rightarrow> bool" where
  "endsWithAny str args \<longleftrightarrow> list_ex (\<lambda>a. endsWith str a False) args"

definition startsWith :: "string \<Rightarrow> string \<Rightarrow> bool \<Rightarrow> bool" where
  "startsWith str start ignoreCase \<longleftrightarrow>
     (let str = (if ignoreCase then to_lower str else str); start = (if ignoreCase then to_lower start else start)
      in js_indexOf start str = 0)"

definition startsWithAny :: "string \<Rightarrow> string list \<Rightarrow> bool" where
  "startsWithAny str args \<longleftrightarrow> list_ex (\<lambda>a. startsWith str a False) args"

definition str_has :: "string \<Rightarrow> string list \<Rightarrow> bool" where
  "str_has str args \<longleftrightarrow> list_ex (\<lambda>a. js_indexOf a str > - 1) args"

section \<open>Line ends\<close>

fun replace_crlf :: "char \<Rightarrow> string \<Rightarrow> string" where
  "replace_crlf r (c # d # s) = (if c = ch_r \<and> d = ch_n then r # replace_crlf r s else c # replace_crlf r (d # s))"
| "replace_crlf r s = s"

text \<open>The replacements of \<open>/([^\r])\n/g\<close> by \<open>"$1\r\n"\<close> and of \<open>/\r([^\n])/g\<close> by \<open>"\r\n$1"\<close>.\<close>

fun lf_to_crlf :: "string \<Rightarrow> string" where
  "lf_to_crlf (c # d # s) = (if c \<noteq> ch_r \<and> d = ch_n then c # ch_r # ch_n # lf_to_crlf s else c # lf_to_crlf (d # s))"
| "lf_to_crlf s = s"

fun cr_to_crlf :: "string \<Rightarrow> string" where
  "cr_to_crlf (c # d # s) = (if c = ch_r \<and> d \<noteq> ch_n then ch_r # ch_n # d # cr_to_crlf s else c # cr_to_crlf (d # s))"
| "cr_to_crlf s = s"

definition normalizeNewlines :: "string \<Rightarrow> char option \<Rightarrow> string" where
  "normalizeNewlines text newlineChar =
     (if newlineChar = Some ch_n then replace_all ch_r [ch_n] (replace_crlf ch_n text)
      else if newlineChar = Some ch_r then replace_all ch_n [ch_r] (replace_crlf ch_r text)
      else cr_to_crlf (lf_to_crlf text))"

section \<open>Splitting\<close>

function split_loop :: "string \<Rightarrow> char \<Rightarrow> nat \<Rightarrow> nat \<Rightarrow> string list \<Rightarrow> string list" where
  "split_loop str c i prevcomma components =
     (if i < length str
      then if str ! i = backslash then split_loop str c (i + 2) prevcomma components
           else if str ! i = c then split_loop str c (i + 1) (i + 1) (components @ [substring str prevcomma i])
           else split_loop str c (i + 1) prevcomma components
      else components @ [drop prevcomma str])"
  by pat_completeness auto
termination
  by (relation "measure (\<lambda>(str, c, i, p, cs). length str - i)") auto

declare split_loop.simps [simp del]

definition splitEscaped :: "string \<Rightarrow> char \<Rightarrow> string list" where
  "splitEscaped str c = split_loop str c 0 0 []"

section \<open>Splitting, by structure\<close>

fun prepend :: "string \<Rightarrow> string list \<Rightarrow> string list" where
  "prepend w (x # xs) = (w @ x) # xs"
| "prepend w [] = [w]"

fun split_spec :: "char \<Rightarrow> string \<Rightarrow> string list" where
  "split_spec c [] = [[]]"
| "split_spec c (d # s) =
     (if d = backslash then (case s of [] \<Rightarrow> [[d]] | e # s' \<Rightarrow> prepend [d, e] (split_spec c s'))
      else if d = c then [] # split_spec c s
      else prepend [d] (split_spec c s))"

text \<open>Does a character occur without a backslash before it?\<close>

fun unescaped :: "char \<Rightarrow> string \<Rightarrow> bool" where
  "unescaped c [] \<longleftrightarrow> False"
| "unescaped c (d # s) \<longleftrightarrow>
     (if d = backslash then (case s of [] \<Rightarrow> False | e # s' \<Rightarrow> unescaped c s') else d = c \<or> unescaped c s)"

lemma prepend_nonempty [simp]: "prepend w xs \<noteq> []"
  by (cases xs) simp_all

lemma split_spec_nonempty [simp]: "split_spec c s \<noteq> []"
  by (cases s) (simp_all split: list.split)

lemma prepend_prepend: "xs \<noteq> [] \<Longrightarrow> prepend v (prepend w xs) = prepend (v @ w) xs"
  by (cases xs) simp_all

lemma prepend_Nil: "xs \<noteq> [] \<Longrightarrow> prepend [] xs = xs"
  by (cases xs) simp_all

lemma join_prepend: "xs \<noteq> [] \<Longrightarrow> join_with sep (prepend w xs) = w @ join_with sep xs"
  by (cases xs rule: remdups_adj.cases) simp_all

lemma join_split_spec: "join_with [c] (split_spec c s) = s"
proof (induction c s rule: split_spec.induct)
  case (2 c d s)
  have "join_with [c] ([] # split_spec c s) = c # join_with [c] (split_spec c s)"
    by (cases "split_spec c s") simp_all
  with 2 show ?case by (auto simp: join_prepend split: list.splits)
qed simp

lemma unescaped_prepend:
  "xs \<noteq> [] \<Longrightarrow> d \<noteq> backslash \<Longrightarrow> d \<noteq> c \<Longrightarrow> list_all (\<lambda>w. \<not> unescaped c w) xs \<Longrightarrow> list_all (\<lambda>w. \<not> unescaped c w) (prepend [d] xs)"
  "xs \<noteq> [] \<Longrightarrow> list_all (\<lambda>w. \<not> unescaped c w) xs \<Longrightarrow> list_all (\<lambda>w. \<not> unescaped c w) (prepend [backslash, e] xs)"
  by (cases xs; simp)+

lemma split_spec_unescaped: "list_all (\<lambda>w. \<not> unescaped c w) (split_spec c s)"
  by (induction c s rule: split_spec.induct) (auto simp: unescaped_prepend split: list.splits)

lemma substring_Suc: "p \<le> i \<Longrightarrow> i < length str \<Longrightarrow> substring str p (Suc i) = substring str p i @ [str ! i]"
  by (simp add: substring_def take_Suc_conv_app_nth Suc_diff_le)

lemma split_loop_spec:
  "p \<le> i \<Longrightarrow> split_loop str c i p cs = cs @ prepend (substring str p i) (split_spec c (drop i str))"
proof (induction str c i p cs rule: split_loop.induct)
  case (1 str c i p cs)
  show ?case
  proof (cases "i < length str")
    case False
    then show ?thesis by (simp add: split_loop.simps [of str c i] substring_def)
  next
    case True
    then have d: "drop i str = str ! i # drop (Suc i) str" by (simp add: Cons_nth_drop_Suc)
    show ?thesis
    proof (cases "str ! i = backslash")
      case esc: True
      show ?thesis
      proof (cases "Suc i < length str")
        case more: True
        then have "drop (Suc i) str = str ! Suc i # drop (i + 2) str" by (simp add: Cons_nth_drop_Suc)
        moreover have "substring str p (i + 2) = substring str p i @ [str ! i, str ! Suc i]"
          using 1(4) True more substring_Suc [of p i str] substring_Suc [of p "Suc i" str] by simp
        ultimately show ?thesis
          using 1(1) [OF True esc] 1(4) True esc by (simp add: split_loop.simps [of str c i] d prepend_prepend)
      next
        case False
        then have "drop (Suc i) str = []" "drop (i + 2) str = []" by simp_all
        moreover have "substring str p (i + 2) = substring str p i @ [str ! i]"
          using 1(4) True False substring_Suc [of p i str] by (simp add: substring_def)
        ultimately show ?thesis
          using 1(1) [OF True esc] 1(4) True esc by (simp add: split_loop.simps [of str c i] d)
      qed
    next
      case plain: False
      show ?thesis
      proof (cases "str ! i = c")
        case sep: True
        have "substring str (i + 1) (i + 1) = []" by (simp add: substring_def)
        then show ?thesis
          using 1(2) [OF True plain sep] True plain sep by (simp add: split_loop.simps [of str c i] d prepend_Nil)
      next
        case False
        then show ?thesis
          using 1(3) [OF True plain False] 1(4) True plain
          by (simp add: split_loop.simps [of str c i] d prepend_prepend substring_Suc)
      qed
    qed
  qed
qed

section \<open>Escaping, in one pass\<close>

lemma replace_all_simps [simp]:
  "replace_all c r [] = []" "replace_all c r (x # s) = (if x = c then r else [x]) @ replace_all c r s"
  "replace_all c r (s @ t) = replace_all c r s @ replace_all c r t"
  by (simp_all add: replace_all_def)

lemma escape_class_simps [simp]:
  "escape_class cs [] = []" "escape_class cs (x # s) = (if x \<in> set cs then [backslash, x] else [x]) @ escape_class cs s"
  by (simp_all add: escape_class_def)

definition literal_char :: "char \<Rightarrow> string" where
  "literal_char x =
     (if x = dquote \<or> x = backslash then [backslash, x] else if x = ch_f then backslash # ''f''
      else if x = ch_b then backslash # ''b'' else if x = ch_n then backslash # ''n''
      else if x = ch_t then backslash # ''t'' else if x = ch_r then backslash # ''r'' else [x])"

text \<open>Reading the body of a string literal (ECMAScript 3, 7.8.4), for the escapes that the source writes.\<close>

definition read_escape :: "char \<Rightarrow> char" where
  "read_escape e =
     (if e = CHR ''f'' then ch_f else if e = CHR ''b'' then ch_b else if e = CHR ''n'' then ch_n
      else if e = CHR ''t'' then ch_t else if e = CHR ''r'' then ch_r else e)"

fun read_body :: "string \<Rightarrow> string" where
  "read_body [] = []"
| "read_body (c # s) = (if c = backslash then (case s of [] \<Rightarrow> [] | e # s' \<Rightarrow> read_escape e # read_body s') else c # read_body s)"

definition controls :: "char list" where
  "controls = [ch_f, ch_b, ch_n, ch_t, ch_r]"

lemma char_distinct:
  "distinct [backslash, dquote, squote, ch_f, ch_b, ch_n, ch_t, ch_r, CHR ''f'', CHR ''b'', CHR ''n'', CHR ''t'', CHR ''r'']"
  by (simp add: char_defs)

lemma char_distinct_rev:
  "distinct [CHR ''r'', CHR ''t'', CHR ''n'', CHR ''b'', CHR ''f'', ch_r, ch_t, ch_n, ch_b, ch_f, squote, dquote, backslash]"
  by (simp add: char_defs)

lemmas char_neqs = char_distinct char_distinct_rev

lemma read_body_literal: "read_body (literal_char x @ s) = x # read_body s"
  using char_distinct by (simp add: literal_char_def read_escape_def)

lemma literal_no_quote: "unescaped dquote (literal_char x @ s) = unescaped dquote s"
  using char_distinct by (auto simp: literal_char_def)

lemma literal_no_control: "list_all (\<lambda>c. c \<notin> set controls) (literal_char x)"
  by (auto simp: literal_char_def controls_def char_defs)

definition escape_controls :: "string \<Rightarrow> string" where
  "escape_controls s =
     replace_all ch_r (backslash # ''r'') (replace_all ch_t (backslash # ''t'') (replace_all ch_n (backslash # ''n'')
       (replace_all ch_b (backslash # ''b'') (replace_all ch_f (backslash # ''f'') s))))"

lemma escape_controls_append: "escape_controls (s @ t) = escape_controls s @ escape_controls t"
  by (simp add: escape_controls_def)

lemma escape_controls_char:
  "escape_controls (if x \<in> set [dquote, backslash] then [backslash, x] else [x]) = literal_char x"
proof -
  consider "x = dquote" | "x = backslash" | "x = ch_f" | "x = ch_b" | "x = ch_n" | "x = ch_t" | "x = ch_r"
    | "x \<noteq> dquote" "x \<noteq> backslash" "x \<noteq> ch_f" "x \<noteq> ch_b" "x \<noteq> ch_n" "x \<noteq> ch_t" "x \<noteq> ch_r" by blast
  then show ?thesis
    using char_neqs unfolding escape_controls_def literal_char_def by cases simp_all
qed

lemma escape_body: "escape_controls (escape_class [dquote, backslash] s) = concat (map literal_char s)"
proof (induction s)
  case (Cons x s)
  then show ?case by (simp only: escape_class_simps escape_controls_append escape_controls_char list.map concat.simps)
qed (simp add: escape_controls_def)

lemma escapeString_body: "escapeString s = dquote # concat (map literal_char s) @ [dquote]"
proof -
  have q: "escape_controls [dquote] = [dquote]" using char_neqs by (simp add: escape_controls_def)
  have "escapeString s = escape_controls ([dquote] @ escape_class [dquote, backslash] s @ [dquote])"
    by (simp only: escapeString_def escape_controls_def append_Cons append_Nil)
  also have "\<dots> = [dquote] @ concat (map literal_char s) @ [dquote]" by (simp only: escape_controls_append q escape_body)
  finally show ?thesis by simp
qed

section \<open>Searching\<close>

lemma js_indexOf_ge: "js_indexOf pat s \<ge> - 1"
proof (induction pat s rule: js_indexOf.induct)
  case (1 pat s)
  show ?case
  proof (cases s)
    case (Cons c cs)
    have "js_indexOf pat cs \<ge> - 1" if "take (length pat) s \<noteq> pat" using 1 that Cons by blast
    then show ?thesis using Cons by (subst js_indexOf.simps) (auto simp: Let_def)
  qed (subst js_indexOf.simps, simp)
qed

lemma js_indexOf_zero: "js_indexOf pat s = 0 \<longleftrightarrow> take (length pat) s = pat"
proof (cases s)
  case (Cons c cs)
  then show ?thesis using js_indexOf_ge [of pat cs] by (subst js_indexOf.simps) (simp add: Let_def)
qed (subst js_indexOf.simps, simp)

lemma js_lastIndexOf_bounds: "js_lastIndexOf pat s = - 1 \<or> 0 \<le> js_lastIndexOf pat s \<and> js_lastIndexOf pat s + int (length pat) \<le> int (length s)"
proof (induction s)
  case (Cons c cs)
  have "take (length pat) (c # cs) = pat \<Longrightarrow> length pat \<le> Suc (length cs)" by (metis length_Cons length_take min.cobounded1)
  with Cons show ?case by (subst js_lastIndexOf.simps, subst (2) js_lastIndexOf.simps, subst (3) js_lastIndexOf.simps) (auto simp: Let_def)
qed (auto simp: js_lastIndexOf.simps)

lemma js_lastIndexOf_suffix:
  "length pat \<le> length s \<Longrightarrow> js_lastIndexOf pat s = int (length s) - int (length pat) \<longleftrightarrow> drop (length s - length pat) s = pat"
proof (induction s)
  case Nil
  then show ?case by (simp add: js_lastIndexOf.simps)
next
  case (Cons c cs)
  show ?case
  proof (cases "length pat \<le> length cs")
    case True
    have "js_lastIndexOf pat (c # cs) = int (length (c # cs)) - int (length pat) \<longleftrightarrow> js_lastIndexOf pat cs = int (length cs) - int (length pat)"
      using True js_lastIndexOf_bounds [of pat cs] by (subst js_lastIndexOf.simps) (auto simp: Let_def)
    then show ?thesis using Cons.IH [OF True] True by (simp add: Suc_diff_le)
  next
    case False
    then have l: "length pat = Suc (length cs)" using Cons.prems by simp
    then have "js_lastIndexOf pat cs = - 1" using js_lastIndexOf_bounds [of pat cs] by auto
    then show ?thesis using l by (subst js_lastIndexOf.simps) (simp add: Let_def)
  qed
qed

section \<open>Properties\<close>

text \<open>
  Claim C27. Splitting at a separator loses nothing and respects escapes: joining the parts with the
  separator gives the string back, no part has the separator outside an escape, and the loop over
  indices is the recursion over the string that skips a backslash with the character after it.
\<close>

theorem split_escaped_parts:
  "join_with [c] (splitEscaped s c) = s \<and> list_all (\<lambda>w. \<not> unescaped c w) (splitEscaped s c) \<and> splitEscaped s c = split_spec c s"
proof -
  have "splitEscaped s c = split_spec c s"
    by (simp add: splitEscaped_def split_loop_spec substring_def prepend_Nil)
  then show ?thesis by (simp add: join_split_spec split_spec_unescaped)
qed

text \<open>
  \<open>escapeString\<close> writes a string literal that denotes its argument: between the two quotes
  there is no quote outside an escape and no line end or other control character that it handles, and
  reading the escapes back gives the argument.
\<close>

theorem escape_string_literal:
  "\<exists>body. escapeString s = dquote # body @ [dquote] \<and> read_body body = s \<and> \<not> unescaped dquote body \<and>
     list_all (\<lambda>c. c \<notin> set controls) body"
proof -
  have "read_body (concat (map literal_char s)) = s" by (induction s) (simp_all add: read_body_literal)
  moreover have "\<not> unescaped dquote (concat (map literal_char s))" by (induction s) (simp_all add: literal_no_quote)
  moreover have "list_all (\<lambda>c. c \<notin> set controls) (concat (map literal_char s))"
    by (induction s) (simp_all add: literal_no_control del: set_simps)
  ultimately show ?thesis using escapeString_body by blast
qed

text \<open>
  \<open>startsWith\<close> and \<open>endsWith\<close> decide whether the string begins or ends with the other one, with
  case ignored on both sides on request.
\<close>

lemma starts_and_ends_with:
  "startsWith s t False = (\<exists>r. s = t @ r) \<and> endsWith s t False = (\<exists>r. s = r @ t) \<and>
   startsWith s t True = (\<exists>r. to_lower s = to_lower t @ r) \<and> endsWith s t True = (\<exists>r. to_lower s = r @ to_lower t)"
proof -
  have p: "js_indexOf b a = 0 \<longleftrightarrow> (\<exists>r. a = b @ r)" for a b
    by (auto simp: js_indexOf_zero) (metis append_take_drop_id)
  have e: "(\<not> int (length a) - int (length b) < 0 \<and> js_lastIndexOf b a = int (length a) - int (length b)) \<longleftrightarrow> (\<exists>r. a = r @ b)" for a b
  proof (cases "length b \<le> length a")
    case True
    then show ?thesis using js_lastIndexOf_suffix [OF True] by auto (metis append_take_drop_id)
  qed auto
  have "endsWith s t b \<longleftrightarrow> (\<exists>r. (if b then to_lower s else s) = r @ (if b then to_lower t else t))" for b
    using e [of "if b then to_lower s else s" "if b then to_lower t else t"] by (simp only: endsWith_def Let_def if_bool_eq_conj) blast
  then show ?thesis using p by (simp add: startsWith_def Let_def)
qed

lemma replace_all_absent: "c \<notin> set r \<Longrightarrow> c \<notin> set (replace_all c r s)"
  by (induction s) auto

lemma replace_all_none: "c \<notin> set s \<Longrightarrow> replace_all c r s = s"
  by (induction s) auto

lemma replace_crlf_none: "ch_r \<notin> set s \<Longrightarrow> replace_crlf r s = s"
  by (induction r s rule: replace_crlf.induct) auto

text \<open>
  Asking for a line feed (or a carriage return) leaves no character of the other kind, and a
  second call changes nothing. The default, which is to produce carriage return and line feed,
  does not: a line feed at the start of the text, and the second of two line feeds, are left as they are.
\<close>

theorem normalize_newlines:
  "ch_r \<notin> set (normalizeNewlines s (Some ch_n)) \<and> ch_n \<notin> set (normalizeNewlines s (Some ch_r)) \<and>
   normalizeNewlines (normalizeNewlines s (Some ch_n)) (Some ch_n) = normalizeNewlines s (Some ch_n) \<and>
   normalizeNewlines (ch_n # ''a'') None = ch_n # ''a'' \<and>
   normalizeNewlines (''a'' @ [ch_n, ch_n] @ ''b'') None = ''a'' @ [ch_r, ch_n, ch_n] @ ''b''"
proof -
  have n: "ch_n \<noteq> ch_r" "ch_r \<noteq> ch_n" "CHR ''a'' \<noteq> ch_n" "CHR ''a'' \<noteq> ch_r" "CHR ''b'' \<noteq> ch_n" by (simp_all add: char_defs)
  have r: "ch_r \<notin> set (normalizeNewlines s (Some ch_n))" "ch_n \<notin> set (normalizeNewlines s (Some ch_r))"
    using n by (auto simp: normalizeNewlines_def intro!: replace_all_absent)
  then have "normalizeNewlines (normalizeNewlines s (Some ch_n)) (Some ch_n) = normalizeNewlines s (Some ch_n)"
    by (simp add: normalizeNewlines_def [of "normalizeNewlines s (Some ch_n)"] replace_crlf_none replace_all_none)
  with r n show ?thesis by (simp add: normalizeNewlines_def)
qed

end
