(* ===== verification/Adapter_Registry.thy ===== *)
theory Adapter_Registry
  imports JS_Prelude
begin

text \<open>
  \<open>src/AdapterRegistry.js\<close>: a list of adapters, each with a name, a test, a wrap value and a flag, and
  the search for the first adapter whose test accepts some arguments. The arguments of a call are one
  value; the tests and the wrap functions are functions of that value that may raise, and they do not
  operate on the registry. What applying a wrap value means is given by \<open>ap\<close>.
\<close>

section \<open>The registry\<close>

datatype ('a, 'w) adapter =
  Adapter (ad_name: string) (ad_check: "'a \<Rightarrow> bool result") (ad_wrap: 'w) (ad_direct: bool)

record ('a, 'w) registry =
  pairs :: "('a, 'w) adapter list"
  returnWrappers :: bool

text \<open>What \<open>match\<close> returns: the wrap value itself, or the result of calling it.\<close>

datatype ('w, 'v) matched = Wrapper 'w | Called 'v

definition AdapterRegistry :: "bool \<Rightarrow> ('a, 'w) registry" where
  "AdapterRegistry rw = \<lparr>pairs = [], returnWrappers = rw\<rparr>"

definition register ::
  "string \<Rightarrow> ('a \<Rightarrow> bool result) \<Rightarrow> 'w \<Rightarrow> bool \<Rightarrow> bool \<Rightarrow> ('a, 'w) registry \<Rightarrow> ('a, 'w) registry" where
  "register name check wrap directReturn override reg =
     (let pair = Adapter name check wrap directReturn
      in if override then reg\<lparr>pairs := pair # pairs reg\<rparr> else reg\<lparr>pairs := pairs reg @ [pair]\<rparr>)"

fun match_loop :: "('w \<Rightarrow> 'a \<Rightarrow> 'v result) \<Rightarrow> bool \<Rightarrow> ('a, 'w) adapter list \<Rightarrow> 'a \<Rightarrow> ('w, 'v) matched result" where
  "match_loop ap rw [] args = Inl (Raised ''No match found'')"
| "match_loop ap rw (pair # ps) args =
     rbind (ad_check pair args) (\<lambda>ok.
       if ok then if ad_direct pair \<or> rw then Inr (Wrapper (ad_wrap pair))
                  else rbind (ap (ad_wrap pair) args) (\<lambda>v. Inr (Called v))
       else match_loop ap rw ps args)"

definition registry_match :: "('w \<Rightarrow> 'a \<Rightarrow> 'v result) \<Rightarrow> ('a, 'w) registry \<Rightarrow> 'a \<Rightarrow> ('w, 'v) matched result" where
  "registry_match ap reg args = match_loop ap (returnWrappers reg) (pairs reg) args"

fun unregister_loop :: "string \<Rightarrow> nat \<Rightarrow> ('a, 'w) adapter list \<Rightarrow> ('a, 'w) adapter list \<Rightarrow> ('a, 'w) adapter list option" where
  "unregister_loop name i all [] = None"
| "unregister_loop name i all (pair # ps) =
     (if ad_name pair = name then Some (js_splice all (int i) 1 []) else unregister_loop name (i + 1) all ps)"

definition unregister :: "string \<Rightarrow> ('a, 'w) registry \<Rightarrow> bool \<times> ('a, 'w) registry" where
  "unregister name reg =
     (case unregister_loop name 0 (pairs reg) (pairs reg) of
        Some ps \<Rightarrow> (True, reg\<lparr>pairs := ps\<rparr>)
      | None \<Rightarrow> (False, reg))"

section \<open>Priorities\<close>

text \<open>
  A registration is an adapter together with its override flag. The adapters registered with the flag
  come first, the latest of them at the front; the others follow in the order of their registration.
\<close>

definition register_all :: "(('a, 'w) adapter \<times> bool) list \<Rightarrow> ('a, 'w) registry \<Rightarrow> ('a, 'w) registry" where
  "register_all rs reg =
     fold (\<lambda>(a, ov). register (ad_name a) (ad_check a) (ad_wrap a) (ad_direct a) ov) rs reg"

definition by_priority :: "(('a, 'w) adapter \<times> bool) list \<Rightarrow> ('a, 'w) adapter list" where
  "by_priority rs = rev (map fst (filter snd rs)) @ map fst (filter (\<lambda>r. \<not> snd r) rs)"

lemma register_pairs:
  "pairs (register n c w d ov reg) = (if ov then Adapter n c w d # pairs reg else pairs reg @ [Adapter n c w d])"
  "returnWrappers (register n c w d ov reg) = returnWrappers reg"
  by (simp_all add: register_def Let_def)

lemma register_all_pairs:
  "pairs (register_all rs reg) = rev (map fst (filter snd rs)) @ pairs reg @ map fst (filter (\<lambda>r. \<not> snd r) rs)
   \<and> returnWrappers (register_all rs reg) = returnWrappers reg"
proof (induction rs arbitrary: reg)
  case (Cons r rs)
  obtain a ov where r: "r = (a, ov)" by (cases r)
  have "register_all (r # rs) reg =
      register_all rs (register (ad_name a) (ad_check a) (ad_wrap a) (ad_direct a) ov reg)"
    by (simp add: register_all_def r)
  with Cons.IH show ?case by (simp add: register_pairs r)
qed (simp add: register_all_def)

lemma match_loop_find:
  assumes "\<forall>p \<in> set ps. \<exists>b. ad_check p args = Inr b"
  shows "match_loop ap rw ps args =
    (case find (\<lambda>p. ad_check p args = Inr True) ps of
       None \<Rightarrow> Inl (Raised ''No match found'')
     | Some p \<Rightarrow> if ad_direct p \<or> rw then Inr (Wrapper (ad_wrap p))
                 else rbind (ap (ad_wrap p) args) (\<lambda>v. Inr (Called v)))"
  using assms by (induction ps) auto

lemma unregister_loop_split:
  "unregister_loop name (length us) (us @ ps) ps =
     (if \<exists>p \<in> set ps. ad_name p = name then Some (us @ remove1 (hd (filter (\<lambda>p. ad_name p = name) ps)) ps) else None)"
proof (induction ps arbitrary: us)
  case (Cons p ps)
  have "js_splice (us @ p # ps) (int (length us)) 1 [] = us @ ps"
    by (simp add: js_splice_delete)
  moreover have "hd (filter (\<lambda>p. ad_name p = name) ps) \<noteq> p" if "\<exists>p \<in> set ps. ad_name p = name" "ad_name p \<noteq> name"
  proof -
    from that have "filter (\<lambda>p. ad_name p = name) ps \<noteq> []" by (auto simp: filter_empty_conv)
    then have "hd (filter (\<lambda>p. ad_name p = name) ps) \<in> set (filter (\<lambda>p. ad_name p = name) ps)" by (rule hd_in_set)
    with that show ?thesis by auto
  qed
  ultimately show ?case
    using Cons.IH [of "us @ [p]"] by auto
qed simp

text \<open>
  Claim C22. The adapter that \<open>match\<close> uses is the first one, in order of priority, whose test accepts the
  arguments: the adapters registered with override come first, the latest of them at the front, and
  the others follow in the order of registration. Its wrap value is returned as it is when the adapter
  or the registry asks for that, and is called with the arguments otherwise. If no test accepts, the
  call raises an error. \<open>unregister\<close> removes the first adapter of the name and nothing else, and returns
  whether there was one.
\<close>

theorem registry_dispatch:
  assumes "\<forall>(a, ov) \<in> set rs. \<exists>b. ad_check a args = Inr b"
  shows "registry_match ap (register_all rs (AdapterRegistry rw)) args =
      (case find (\<lambda>a. ad_check a args = Inr True) (by_priority rs) of
         None \<Rightarrow> Inl (Raised ''No match found'')
       | Some a \<Rightarrow> if ad_direct a \<or> rw then Inr (Wrapper (ad_wrap a))
                   else rbind (ap (ad_wrap a) args) (\<lambda>v. Inr (Called v)))
    \<and> unregister name (register_all rs (AdapterRegistry rw)) =
      (if \<exists>a \<in> set (by_priority rs). ad_name a = name
       then (True, \<lparr>pairs = remove1 (hd (filter (\<lambda>a. ad_name a = name) (by_priority rs))) (by_priority rs),
                    returnWrappers = rw\<rparr>)
       else (False, register_all rs (AdapterRegistry rw)))"
proof -
  have eq: "register_all rs (AdapterRegistry rw) = \<lparr>pairs = by_priority rs, returnWrappers = rw\<rparr>"
    using register_all_pairs [of rs "AdapterRegistry rw"] by (simp add: AdapterRegistry_def by_priority_def)
  have total: "\<forall>p \<in> set (by_priority rs). \<exists>b. ad_check p args = Inr b"
    using assms by (auto simp: by_priority_def)
  show ?thesis
    using match_loop_find [OF total, of ap rw] unregister_loop_split [of name "[]" "by_priority rs"]
    by (simp add: eq registry_match_def unregister_def)
qed

theorem registry_dispatch_witness:
  "registry_match (\<lambda>w n. Inr (w + n)) (register_all [(Adapter ''a'' (\<lambda>n. Inr (0 < n)) 1 False, False),
      (Adapter ''b'' (\<lambda>n. Inr (5 < n)) (2 :: int) False, True)] (AdapterRegistry False)) (7 :: int)
    = Inr (Called 9)"
  using registry_dispatch [of "[(Adapter ''a'' (\<lambda>n. Inr (0 < n)) 1 False, False),
      (Adapter ''b'' (\<lambda>n. Inr (5 < n)) (2 :: int) False, True)]" "7 :: int" "\<lambda>w n. Inr (w + n)" False "''a''"]
  by (simp add: by_priority_def ex_bool_eq)

end
