(* ===== verification/Json.thy ===== *)
theory Json
  imports Adapter_Registry String_Extras
begin

text \<open>
  \<open>src/json.js\<close>: \<open>serialize\<close>, \<open>evalJson\<close> and the registry of serializers. A value is a tree; numbers are
  integers below \<open>2 ^ 53\<close> in absolute value. An object is the list of the properties that \<open>for ... in\<close>
  visits. A function is known by what it does when it is called as a method without arguments. The
  recursion of \<open>serialize\<close> is bounded by fuel, since a registered serializer can return any value;
  \<^term>\<open>None\<close> means that the fuel was used up. The evaluator of the language is a parameter of
  \<open>evalJson\<close>; \<open>read_literal\<close> is the part of its behaviour that matters here, the reading of literals.
\<close>

section \<open>Values\<close>

datatype jv =
    Undefined | is_Number: Number int | Boolean bool | Null | Str string
  | Arr "jv list" | Obj "(string \<times> jv) list" | is_Fun: Fun fbody
and fbody = RetSelf | Ret jv | Throws js_error

type_synonym json_registry = "(jv, jv \<Rightarrow> jv result) registry"

definition num_text :: "int \<Rightarrow> string" where
  "num_text n = (if n < 0 then CHR ''-'' # to_dec (nat (- n)) else to_dec (nat n))"

text \<open>A property of an object, array or function; the properties of functions are not modelled.\<close>

definition js_member :: "jv \<Rightarrow> string \<Rightarrow> jv" where
  "js_member v name =
     (case v of
        Obj fs \<Rightarrow> (case map_of fs name of Some w \<Rightarrow> w | None \<Rightarrow> Undefined)
      | Arr vs \<Rightarrow> if name = ''length'' then Number (int (length vs)) else Undefined
      | _ \<Rightarrow> Undefined)"

section \<open>Serialization\<close>

definition jsonRegistry :: json_registry where
  "jsonRegistry = AdapterRegistry False"

definition json_register ::
  "string \<Rightarrow> (jv \<Rightarrow> bool result) \<Rightarrow> (jv \<Rightarrow> jv result) \<Rightarrow> bool \<Rightarrow> json_registry \<Rightarrow> json_registry" where
  "json_register name check wrap override reg = register name check wrap override False reg"

type_synonym outcome = "string option result option"

text \<open>The loop over the elements of an array: what is not a string becomes \<open>undefined\<close>.\<close>

fun ser_elems :: "(jv \<Rightarrow> outcome) \<Rightarrow> jv list \<Rightarrow> string list result option" where
  "ser_elems me [] = Some (Inr [])"
| "ser_elems me (v # vs) =
     (case me v of None \<Rightarrow> None
      | Some (Inl e) \<Rightarrow> Some (Inl e)
      | Some (Inr val) \<Rightarrow>
          (case ser_elems me vs of None \<Rightarrow> None
           | Some (Inl e) \<Rightarrow> Some (Inl e)
           | Some (Inr res) \<Rightarrow> Some (Inr ((case val of Some s \<Rightarrow> s | None \<Rightarrow> ''undefined'') # res))))"

text \<open>The loop over the properties of an object: what is not a string is left out.\<close>

fun ser_props :: "(jv \<Rightarrow> outcome) \<Rightarrow> (string \<times> jv) list \<Rightarrow> string list result option" where
  "ser_props me [] = Some (Inr [])"
| "ser_props me ((k, v) # fs) =
     (case me v of None \<Rightarrow> None
      | Some (Inl e) \<Rightarrow> Some (Inl e)
      | Some (Inr val) \<Rightarrow>
          (case ser_props me fs of None \<Rightarrow> None
           | Some (Inl e) \<Rightarrow> Some (Inl e)
           | Some (Inr res) \<Rightarrow>
               Some (Inr (case val of Some s \<Rightarrow> (escapeString k @ '':'' @ s) # res | None \<Rightarrow> res))))"

definition wrap_list :: "string \<Rightarrow> string \<Rightarrow> string list result option \<Rightarrow> outcome" where
  "wrap_list l r res = map_option (\<lambda>x. rbind x (\<lambda>parts. Inr (Some (l @ join_with '','' parts @ r)))) res"

text \<open>The method \<open>name\<close> of \<open>o\<close>, if it is a function: its result is serialized, unless it is \<open>o\<close> itself.\<close>

definition try_method :: "(jv \<Rightarrow> outcome) \<Rightarrow> jv \<Rightarrow> string \<Rightarrow> outcome \<Rightarrow> outcome" where
  "try_method me v name cont =
     (case js_member v name of
        Fun RetSelf \<Rightarrow> cont
      | Fun (Ret w) \<Rightarrow> me w
      | Fun (Throws e) \<Rightarrow> Some (Inl e)
      | _ \<Rightarrow> cont)"

text \<open>
  The elements of a value that has a numeric \<open>length\<close> and is not a function, or \<^term>\<open>None\<close>. An object
  with a property \<open>length\<close> is read like an array.
\<close>

definition array_like :: "jv \<Rightarrow> jv list option" where
  "array_like v =
     (case v of
        Arr vs \<Rightarrow> Some vs
      | Obj fs \<Rightarrow>
          (case js_member v ''length'' of
             Number n \<Rightarrow> Some (map (\<lambda>i. js_member v (to_dec i)) [0..<nat n])
           | _ \<Rightarrow> None)
      | _ \<Rightarrow> None)"

text \<open>
  The search in the registry, inside \<open>try\<close>: where there is no \<open>window\<close> the assignment to \<open>window.o\<close>
  raises, and any error, also one of the nested call, leads to the code after the \<open>catch\<close>. A wrap
  function that is returned uncalled is a function like any other.
\<close>

definition from_registry :: "bool \<Rightarrow> json_registry \<Rightarrow> (jv \<Rightarrow> outcome) \<Rightarrow> jv \<Rightarrow> outcome \<Rightarrow> outcome" where
  "from_registry hasWindow reg me v cont =
     (if hasWindow
      then (case registry_match (\<lambda>w a. w a) reg v of
              Inl e \<Rightarrow> cont
            | Inr m \<Rightarrow>
                (case me (case m of Called w \<Rightarrow> w | Wrapper _ \<Rightarrow> Fun RetSelf) of
                   None \<Rightarrow> None
                 | Some (Inl e) \<Rightarrow> cont
                 | Some (Inr s) \<Rightarrow> Some (Inr s)))
      else cont)"

definition serialize_object :: "bool \<Rightarrow> json_registry \<Rightarrow> (jv \<Rightarrow> outcome) \<Rightarrow> jv \<Rightarrow> outcome" where
  "serialize_object hasWindow reg me v =
     try_method me v ''__json__'' (try_method me v ''json''
       (case array_like v of
          Some vs \<Rightarrow> wrap_list ''['' '']'' (ser_elems me vs)
        | None \<Rightarrow> from_registry hasWindow reg me v
            (case v of Obj fs \<Rightarrow> wrap_list ''{'' ''}'' (ser_props me fs) | _ \<Rightarrow> Some (Inr None))))"

fun serialize :: "bool \<Rightarrow> json_registry \<Rightarrow> nat \<Rightarrow> jv \<Rightarrow> outcome" where
  "serialize hasWindow reg 0 v = None"
| "serialize hasWindow reg (Suc n) v =
     (case v of
        Undefined \<Rightarrow> Some (Inr (Some ''undefined''))
      | Number k \<Rightarrow> Some (Inr (Some (num_text k)))
      | Boolean b \<Rightarrow> Some (Inr (Some (if b then ''true'' else ''false'')))
      | Null \<Rightarrow> Some (Inr (Some ''null''))
      | Str s \<Rightarrow> Some (Inr (Some (escapeString s)))
      | _ \<Rightarrow> serialize_object hasWindow reg (serialize hasWindow reg n) v)"

text \<open>The evaluator \<open>ev\<close> of the host gets the text in parentheses; if it raises, the text is returned.\<close>

definition evalJson :: "(string \<Rightarrow> jv result) \<Rightarrow> string \<Rightarrow> jv" where
  "evalJson ev json = (case ev (''('' @ json @ '')'') of Inr v \<Rightarrow> v | Inl e \<Rightarrow> Str json)"

section \<open>Literals of the language\<close>

text \<open>
  A reader for expressions that consist of literals: it gives the value that the language assigns to
  the text, and \<^term>\<open>None\<close> for every other text. The first number bounds the nesting.
\<close>

definition skip_space :: "string \<Rightarrow> string" where
  "skip_space s = dropWhile is_space s"

definition dec_val :: "string \<Rightarrow> nat" where
  "dec_val s = foldl (\<lambda>v c. 10 * v + (of_char c - 48)) 0 s"

definition is_digit :: "char \<Rightarrow> bool" where
  "is_digit c \<longleftrightarrow> c \<in> set ''0123456789''"

definition numeral_ok :: "string \<Rightarrow> bool" where
  "numeral_ok w \<longleftrightarrow> w \<noteq> [] \<and> list_all is_digit w \<and> (take 1 w = ''0'' \<longrightarrow> length w = 1) \<and> dec_val w < 2 ^ 53"

definition word_value :: "string \<Rightarrow> jv option" where
  "word_value w =
     (if w = ''true'' then Some (Boolean True)
      else if w = ''false'' then Some (Boolean False)
      else if w = ''null'' then Some Null
      else if w = ''undefined'' then Some Undefined
      else if numeral_ok w then Some (Number (int (dec_val w)))
      else None)"

text \<open>The rest of a string literal after its opening quote: the characters it denotes, and what follows.\<close>

fun read_str :: "string \<Rightarrow> (string \<times> string) option" where
  "read_str [] = None"
| "read_str (c # s) =
     (if c = dquote then Some ([], s)
      else if c = ch_n \<or> c = ch_r then None
      else if c = backslash
      then (case s of
              [] \<Rightarrow> None
            | e # s' \<Rightarrow>
                if e \<in> set (dquote # backslash # ''fbntr'')
                then map_option (\<lambda>(w, r). (read_escape e # w, r)) (read_str s')
                else None)
      else map_option (\<lambda>(w, r). (c # w, r)) (read_str s))"

fun obj_put :: "string \<Rightarrow> jv \<Rightarrow> (string \<times> jv) list \<Rightarrow> (string \<times> jv) list" where
  "obj_put k v [] = [(k, v)]"
| "obj_put k v ((k', v') # fs) = (if k = k' then (k, v) # fs else (k', v') # obj_put k v fs)"

fun read_value :: "nat \<Rightarrow> string \<Rightarrow> (jv \<times> string) option"
  and read_elems :: "nat \<Rightarrow> string \<Rightarrow> (jv list \<times> string) option"
  and read_members :: "nat \<Rightarrow> string \<Rightarrow> ((string \<times> jv) list \<times> string) option" where
  "read_value 0 s = None"
| "read_value (Suc n) s =
     (case skip_space s of
        [] \<Rightarrow> None
      | c # t \<Rightarrow>
          if c = dquote then map_option (\<lambda>(w, r). (Str w, r)) (read_str t)
          else if c = CHR ''['' then
            (if take 1 (skip_space t) = '']'' then Some (Arr [], drop 1 (skip_space t))
             else map_option (\<lambda>(vs, r). (Arr vs, r)) (read_elems n t))
          else if c = CHR ''{'' then
            (if take 1 (skip_space t) = ''}'' then Some (Obj [], drop 1 (skip_space t))
             else map_option (\<lambda>(fs, r). (Obj (foldl (\<lambda>o' (k, v). obj_put k v o') [] fs), r)) (read_members n t))
          else if c = CHR ''-'' then
            (let w = takeWhile is_word_char t
             in if numeral_ok w \<and> w \<noteq> ''0'' then Some (Number (- int (dec_val w)), drop (length w) t) else None)
          else
            (let w = takeWhile is_word_char (c # t)
             in map_option (\<lambda>v. (v, drop (length w) (c # t))) (word_value w)))"
| "read_elems 0 s = None"
| "read_elems (Suc n) s =
     (case read_value n s of
        None \<Rightarrow> None
      | Some (v, r) \<Rightarrow>
          if take 1 (skip_space r) = '','' then map_option (\<lambda>(vs, r'). (v # vs, r')) (read_elems n (drop 1 (skip_space r)))
          else if take 1 (skip_space r) = '']'' then Some ([v], drop 1 (skip_space r))
          else None)"
| "read_members 0 s = None"
| "read_members (Suc n) s =
     (if take 1 (skip_space s) = [dquote]
      then (case read_str (drop 1 (skip_space s)) of
              None \<Rightarrow> None
            | Some (k, r) \<Rightarrow>
                if take 1 (skip_space r) = '':'' \<and> k \<noteq> ''__proto__''
                then (case read_value n (drop 1 (skip_space r)) of
                        None \<Rightarrow> None
                      | Some (v, r') \<Rightarrow>
                          if take 1 (skip_space r') = '',''
                          then map_option (\<lambda>(fs, r''). ((k, v) # fs, r'')) (read_members n (drop 1 (skip_space r')))
                          else if take 1 (skip_space r') = ''}'' then Some ([(k, v)], drop 1 (skip_space r'))
                          else None)
                else None)
      else None)"

text \<open>A literal in parentheses. The length of the text bounds its nesting.\<close>

definition read_literal :: "string \<Rightarrow> jv option" where
  "read_literal s =
     (if take 1 s = ''(''
      then (case read_value (length s) (drop 1 s) of
              Some (v, r) \<Rightarrow> if skip_space r = '')'' then Some v else None
            | None \<Rightarrow> None)
      else None)"

section \<open>The text of a value\<close>

fun json_text :: "jv \<Rightarrow> string" where
  "json_text Undefined = ''undefined''"
| "json_text (Number k) = num_text k"
| "json_text (Boolean b) = (if b then ''true'' else ''false'')"
| "json_text Null = ''null''"
| "json_text (Str s) = escapeString s"
| "json_text (Arr vs) = ''['' @ join_with '','' (map json_text vs) @ '']''"
| "json_text (Obj fs) = ''{'' @ join_with '','' (map (\<lambda>(k, v). escapeString k @ '':'' @ json_text v) fs) @ ''}''"
| "json_text (Fun b) = []"

text \<open>Functions have no text: in an array they become \<open>undefined\<close>, in an object they are left out.\<close>

fun json_clean :: "jv \<Rightarrow> jv" where
  "json_clean (Arr vs) = Arr (map (\<lambda>v. if is_Fun v then Undefined else json_clean v) vs)"
| "json_clean (Obj fs) = Obj (map (\<lambda>(k, v). (k, json_clean v)) (filter (\<lambda>(k, v). \<not> is_Fun v) fs))"
| "json_clean v = v"

fun json_depth :: "jv \<Rightarrow> nat" where
  "json_depth (Arr vs) = Suc (fold max (map json_depth vs) 0)"
| "json_depth (Obj fs) = Suc (fold max (map (\<lambda>(k, v). json_depth v) fs) 0)"
| "json_depth (Fun b) = 1"
| "json_depth v = 0"

text \<open>
  Data: numbers in range, objects with distinct names, without serialization methods and not
  array-like. Functions may occur inside.
\<close>

fun json_data :: "jv \<Rightarrow> bool" where
  "json_data (Number k) \<longleftrightarrow> \<bar>k\<bar> < 2 ^ 53"
| "json_data (Arr vs) \<longleftrightarrow> (\<forall>v \<in> set vs. is_Fun v \<or> json_data v)"
| "json_data (Obj fs) \<longleftrightarrow>
     distinct (map fst fs) \<and> ''__proto__'' \<notin> fst ` set fs \<and>
     \<not> is_Fun (js_member (Obj fs) ''__json__'') \<and> \<not> is_Fun (js_member (Obj fs) ''json'') \<and>
     \<not> is_Number (js_member (Obj fs) ''length'') \<and>
     (\<forall>(k, v) \<in> set fs. is_Fun v \<or> json_data v)"
| "json_data (Fun b) \<longleftrightarrow> False"
| "json_data v \<longleftrightarrow> True"

section \<open>Reading numerals and strings back\<close>

lemma dec_digit_props:
  assumes "n < 10"
  shows "is_digit (dec_digit n)" "of_char (dec_digit n) = 48 + n" "is_word_char (dec_digit n)"
    "dec_digit n = CHR ''0'' \<longleftrightarrow> n = 0"
proof -
  have "n \<in> set [0..<10]" using assms by simp
  then show "is_digit (dec_digit n)" "of_char (dec_digit n) = 48 + n" "is_word_char (dec_digit n)"
    "dec_digit n = CHR ''0'' \<longleftrightarrow> n = 0"
    by (auto simp: is_digit_def dec_digit_def is_word_char_def upt_rec numeral_nat)
qed

lemma dec_val_snoc: "dec_val (s @ [c]) = 10 * dec_val s + (of_char c - 48)"
  by (simp add: dec_val_def)

lemma to_dec_digits: "list_all is_digit (to_dec n) \<and> list_all is_word_char (to_dec n) \<and> to_dec n \<noteq> []"
proof (induction n rule: to_dec.induct)
  case (1 n)
  then show ?case
    by (cases "n < 10") (simp_all add: to_dec.simps [of n] dec_digit_props)
qed

lemma dec_val_to_dec: "dec_val (to_dec n) = n"
proof (induction n rule: to_dec.induct)
  case (1 n)
  then show ?case
  proof (cases "n < 10")
    case True
    then show ?thesis by (simp add: to_dec.simps [of n] dec_val_def dec_digit_props)
  next
    case False
    with 1 show ?thesis by (simp add: to_dec.simps [of n] dec_val_snoc dec_digit_props)
  qed
qed

lemma to_dec_leading: "take 1 (to_dec n) = ''0'' \<longleftrightarrow> n = 0"
proof (induction n rule: to_dec.induct)
  case (1 n)
  show ?case
  proof (cases "n < 10")
    case True
    then show ?thesis by (simp add: to_dec.simps [of n] dec_digit_props)
  next
    case False
    obtain c t where "to_dec (n div 10) = c # t"
      using to_dec_digits [of "n div 10"] by (cases "to_dec (n div 10)") simp_all
    with 1 False show ?thesis by (simp add: to_dec.simps [of n])
  qed
qed

lemma numeral_ok_to_dec: "n < 2 ^ 53 \<Longrightarrow> numeral_ok (to_dec n)"
  using to_dec_digits [of n] to_dec_leading [of n]
  by (auto simp: numeral_ok_def dec_val_to_dec) (simp add: to_dec.simps)

lemma word_value_to_dec: "n < 2 ^ 53 \<Longrightarrow> word_value (to_dec n) = Some (Number (int n))"
proof -
  assume n: "n < 2 ^ 53"
  have "list_all is_digit (to_dec n)" using to_dec_digits by blast
  then have "to_dec n \<noteq> ''true''" "to_dec n \<noteq> ''false''" "to_dec n \<noteq> ''null''" "to_dec n \<noteq> ''undefined''"
    by (auto simp: is_digit_def)
  with n show ?thesis by (simp add: word_value_def numeral_ok_to_dec dec_val_to_dec)
qed

lemma read_str_literal: "read_str (literal_char x @ s) = map_option (\<lambda>(w, r). (x # w, r)) (read_str s)"
  using char_distinct by (auto simp: literal_char_def read_escape_def)

lemma read_str_body: "read_str (concat (map literal_char w) @ dquote # r) = Some (w, r)"
  by (induction w) (simp_all add: read_str_literal)

text \<open>What may follow a value: the end of the text or a delimiter.\<close>

definition delimited :: "string \<Rightarrow> bool" where
  "delimited r \<longleftrightarrow> (case r of [] \<Rightarrow> True | c # _ \<Rightarrow> c \<in> set '',]})'')"

lemma delimited_word: "delimited r \<Longrightarrow> list_all is_word_char w \<Longrightarrow> takeWhile is_word_char (w @ r) = w"
  by (cases r) (auto simp: delimited_def is_word_char_def takeWhile_append list_all_iff)

lemma word_char_starts:
  "is_word_char c \<Longrightarrow> \<not> is_space c \<and> c \<noteq> dquote \<and> c \<noteq> CHR ''['' \<and> c \<noteq> CHR ''{'' \<and> c \<noteq> CHR ''-''"
  by (auto simp: is_word_char_def is_space_def dquote_def)

lemma read_word:
  assumes "w \<noteq> []" "list_all is_word_char w" "word_value w = Some v" "delimited r"
  shows "read_value (Suc n) (w @ r) = Some (v, r)"
proof -
  obtain c t where w: "w = c # t" using assms(1) by (cases w) auto
  have tw: "takeWhile is_word_char (c # t @ r) = c # t"
    using delimited_word [OF assms(4,2)] w by simp
  have "is_word_char c" using assms(2) w by simp
  then show ?thesis
    using word_char_starts [of c] assms(3) tw by (simp add: w skip_space_def Let_def)
qed

lemma read_number:
  assumes "\<bar>k\<bar> < 2 ^ 53" "delimited r"
  shows "read_value (Suc n) (num_text k @ r) = Some (Number k, r)"
proof (cases "k < 0")
  case False
  then show ?thesis
    using read_word [OF _ _ word_value_to_dec assms(2), of "nat k" n] to_dec_digits [of "nat k"] assms(1)
    by (simp add: num_text_def)
next
  case True
  have tw: "takeWhile is_word_char (to_dec (nat (- k)) @ r) = to_dec (nat (- k))"
    using delimited_word [OF assms(2)] to_dec_digits by blast
  have "numeral_ok (to_dec (nat (- k)))" by (rule numeral_ok_to_dec) (use True assms in simp)
  moreover have "to_dec (nat (- k)) \<noteq> ''0''"
    using to_dec_leading [of "nat (- k)"] True by auto
  ultimately show ?thesis
    using True tw by (simp add: num_text_def skip_space_def Let_def dec_val_to_dec is_space_def dquote_def)
qed

section \<open>Reading a text back\<close>

text \<open>Values without functions, which the reader can produce.\<close>

fun json_pure :: "jv \<Rightarrow> bool" where
  "json_pure (Number k) \<longleftrightarrow> \<bar>k\<bar> < 2 ^ 53"
| "json_pure (Arr vs) \<longleftrightarrow> (\<forall>v \<in> set vs. json_pure v)"
| "json_pure (Obj fs) \<longleftrightarrow>
     distinct (map fst fs) \<and> ''__proto__'' \<notin> fst ` set fs \<and> (\<forall>(k, v) \<in> set fs. json_pure v)"
| "json_pure (Fun b) \<longleftrightarrow> False"
| "json_pure v \<longleftrightarrow> True"

lemma num_text_start: "\<exists>c t. num_text k = c # t \<and> (is_word_char c \<or> c = CHR ''-'')"
  using to_dec_digits [of "nat k"] by (cases "to_dec (nat k)") (auto simp: num_text_def)

lemma json_text_start:
  assumes "json_pure v"
  shows "\<exists>c t. json_text v = c # t \<and> \<not> is_space c \<and> c \<noteq> CHR '']'' \<and> c \<noteq> CHR ''}''"
proof (cases v)
  case (Number k)
  then show ?thesis
    using num_text_start [of k] by (auto simp: is_word_char_def is_space_def)
qed (use assms in \<open>auto simp: is_space_def escapeString_body dquote_def\<close>)

lemma skip_space_punct: "c \<in> set '',]}):'' \<Longrightarrow> skip_space (c # s) = c # s"
  by (auto simp: skip_space_def is_space_def)

lemma skip_dquote: "skip_space (dquote # s) = dquote # s"
  by (simp add: skip_space_def is_space_def dquote_def)

lemma delimited_punct: "c \<in> set '',]})'' \<Longrightarrow> delimited (c # s)"
  by (simp add: delimited_def)

lemma skip_space_text: "json_pure v \<Longrightarrow> \<exists>c t. skip_space (json_text v @ s) = c # t \<and> c \<noteq> CHR '']'' \<and> c \<noteq> CHR ''}''"
  using json_text_start [of v] by (auto simp: skip_space_def)

lemma read_elems_text:
  assumes "vs \<noteq> []" "length (join_with '','' (map json_text vs)) < n"
    and "\<And>v m r. v \<in> set vs \<Longrightarrow> length (json_text v) \<le> m \<Longrightarrow> delimited r \<Longrightarrow> read_value m (json_text v @ r) = Some (v, r)"
  shows "read_elems n (join_with '','' (map json_text vs) @ CHR '']'' # r) = Some (vs, r)"
  using assms
proof (induction vs arbitrary: n rule: induct_list012)
  case (2 v)
  then obtain m where n: "n = Suc m" by (cases n) auto
  with 2 have "read_value m (json_text v @ CHR '']'' # r) = Some (v, CHR '']'' # r)"
    by (simp add: delimited_punct)
  then show ?case by (simp add: n skip_space_punct)
next
  case (3 v w vs)
  then obtain m where n: "n = Suc m" by (cases n) auto
  let ?rest = "join_with '','' (map json_text (w # vs)) @ CHR '']'' # r"
  have "read_value m (json_text v @ CHR '','' # ?rest) = Some (v, CHR '','' # ?rest)"
    using 3(3,4) by (intro 3(5)) (auto simp: n delimited_punct)
  moreover have "read_elems m ?rest = Some (w # vs, r)"
    using 3(4) by (intro 3(2) 3(5)) (simp_all add: n)
  ultimately show ?case by (simp add: n skip_space_punct)
qed simp

lemma read_members_text:
  assumes "fs \<noteq> []" "length (join_with '','' (map (\<lambda>(k, v). escapeString k @ '':'' @ json_text v) fs)) < n"
    and "''__proto__'' \<notin> fst ` set fs"
    and "\<And>v m r. v \<in> snd ` set fs \<Longrightarrow> length (json_text v) \<le> m \<Longrightarrow> delimited r \<Longrightarrow> read_value m (json_text v @ r) = Some (v, r)"
  shows "read_members n (join_with '','' (map (\<lambda>(k, v). escapeString k @ '':'' @ json_text v) fs) @ CHR ''}'' # r) = Some (fs, r)"
  using assms
proof (induction fs arbitrary: n rule: induct_list012)
  case (2 f)
  obtain k v where f: "f = (k, v)" by (cases f)
  from 2 obtain m where n: "n = Suc m" by (cases n) auto
  have "read_value m (json_text v @ CHR ''}'' # r) = Some (v, CHR ''}'' # r)"
    using 2(2) by (intro 2(4)) (auto simp: n f delimited_punct)
  moreover have "k \<noteq> ''__proto__''" using 2(3) by (auto simp: f)
  ultimately show ?case
    by (simp add: n f escapeString_body skip_space_punct read_str_body skip_dquote)
next
  case (3 f g fs)
  obtain k v where f: "f = (k, v)" by (cases f)
  from 3 obtain m where n: "n = Suc m" by (cases n) auto
  let ?rest = "join_with '','' (map (\<lambda>(k, v). escapeString k @ '':'' @ json_text v) (g # fs)) @ CHR ''}'' # r"
  have "read_value m (json_text v @ CHR '','' # ?rest) = Some (v, CHR '','' # ?rest)"
    using 3(4) by (intro 3(6)) (auto simp: n f delimited_punct)
  moreover have "read_members m ?rest = Some (g # fs, r)"
    using 3(4,5) by (intro 3(2) 3(6)) (simp_all add: n f)
  moreover have "k \<noteq> ''__proto__''" using 3(5) by (auto simp: f)
  ultimately show ?case
    by (simp add: n f escapeString_body skip_space_punct read_str_body skip_dquote)
qed simp

lemma foldl_obj_put:
  "distinct (map fst (us @ fs)) \<Longrightarrow> foldl (\<lambda>o' (k, v). obj_put k v o') us fs = us @ fs"
proof (induction fs arbitrary: us)
  case (Cons f fs)
  obtain k v where f: "f = (k, v)" by (cases f)
  have "obj_put k v us = us @ [(k, v)]" if "k \<notin> fst ` set us"
    using that by (induction us) auto
  with Cons.prems have "obj_put k v us = us @ [f]" by (simp add: f)
  with Cons show ?case by (simp add: f)
qed simp

lemma read_text:
  assumes "json_pure v" "length (json_text v) \<le> n" "delimited r"
  shows "read_value n (json_text v @ r) = Some (v, r)"
  using assms
proof (induction "size v" arbitrary: v n r rule: less_induct)
  case less
  from less.prems json_text_start [of v] obtain m where n: "n = Suc m" by (cases n) auto
  show ?case
  proof (cases v)
    case (Number k)
    with less.prems show ?thesis using read_number [of k r m] by (simp add: n)
  next
    case (Str w)
    then show ?thesis by (simp add: n escapeString_body skip_dquote read_str_body)
  next
    case (Arr vs)
    show ?thesis
    proof (cases "vs = []")
      case True
      then show ?thesis by (simp add: n Arr skip_space_def is_space_def dquote_def)
    next
      case False
      have "read_elems m (join_with '','' (map json_text vs) @ CHR '']'' # r) = Some (vs, r)"
      proof (rule read_elems_text [OF False])
        fix u k r' assume u: "u \<in> set vs" "length (json_text u) \<le> k" "delimited r'"
        then have "size u < size v" by (simp add: Arr size_list_estimation less_Suc_eq_le size_list_estimation')
        with u less show "read_value k (json_text u @ r') = Some (u, r')" by (simp add: Arr)
      qed (use less.prems in \<open>simp add: n Arr\<close>)
      moreover obtain u us where vs: "vs = u # us" using False by (cases vs) auto
      moreover have "take 1 (skip_space (join_with '','' (map json_text vs) @ CHR '']'' # r)) \<noteq> '']''"
      proof -
        obtain s where "join_with '','' (map json_text vs) @ CHR '']'' # r = json_text u @ s"
          by (cases us) (simp_all add: vs)
        then show ?thesis using less.prems(1) skip_space_text [of u s] by (auto simp: Arr vs)
      qed
      ultimately show ?thesis by (simp add: n Arr skip_space_def is_space_def dquote_def)
    qed
  next
    case (Obj fs)
    show ?thesis
    proof (cases "fs = []")
      case True
      then show ?thesis by (simp add: n Obj skip_space_def is_space_def dquote_def)
    next
      case False
      let ?body = "join_with '','' (map (\<lambda>(k, v). escapeString k @ '':'' @ json_text v) fs)"
      have "read_members m (?body @ CHR ''}'' # r) = Some (fs, r)"
      proof (rule read_members_text [OF False])
        fix u k r' assume u: "u \<in> snd ` set fs" "length (json_text u) \<le> k" "delimited r'"
        then obtain key where mem: "(key, u) \<in> set fs" by auto
        then have "size u \<le> size_list (size_prod (\<lambda>x. 0) size) fs" by (rule size_list_estimation') simp
        then have "size u < size v" by (simp add: Obj)
        with u mem less show "read_value k (json_text u @ r') = Some (u, r')" by (auto simp: Obj)
      qed (use less.prems in \<open>simp_all add: n Obj\<close>)
      moreover obtain k u us where vs: "fs = (k, u) # us" using False by (cases fs) auto
      moreover have "take 1 (skip_space (?body @ CHR ''}'' # r)) \<noteq> ''}''"
        by (cases us) (simp_all add: vs escapeString_body skip_space_def is_space_def dquote_def)
      ultimately show ?thesis
        using less.prems(1) foldl_obj_put [of "[]" fs] by (simp add: n Obj skip_space_def is_space_def dquote_def)
    qed
  next
    case Undefined
    then show ?thesis
      using read_word [of "''undefined''" Undefined r m] less.prems by (simp add: n is_word_char_def word_value_def)
  next
    case (Boolean b)
    then show ?thesis
      using read_word [of "json_text v" v r m] less.prems by (cases b) (simp_all add: n is_word_char_def word_value_def)
  next
    case Null
    then show ?thesis
      using read_word [of "''null''" Null r m] less.prems by (simp add: n is_word_char_def word_value_def)
  next
    case (Fun b)
    with less.prems show ?thesis by simp
  qed
qed

section \<open>Serialization writes the text\<close>

definition no_match :: "json_registry \<Rightarrow> bool" where
  "no_match reg \<longleftrightarrow> (\<forall>p \<in> set (pairs reg). \<forall>v. ad_check p v = Inr False)"

lemma no_match_from_registry: "no_match reg \<Longrightarrow> from_registry hw reg me v cont = cont"
proof -
  assume "no_match reg"
  then have "\<forall>p \<in> set (pairs reg). \<exists>b. ad_check p v = Inr b" "find (\<lambda>p. ad_check p v = Inr True) (pairs reg) = None"
    by (auto simp: no_match_def find_None_iff)
  then show ?thesis by (simp add: from_registry_def registry_match_def match_loop_find)
qed

lemma fold_max_upper: "x \<in> set xs \<Longrightarrow> (x :: nat) \<le> fold max xs a"
proof (induction xs arbitrary: a)
  case (Cons y ys)
  have "a \<le> fold max zs a" for zs and a :: nat
    by (induction zs arbitrary: a) (auto intro: order_trans [OF max.cobounded2])
  from this [of "max y a" ys] Cons show ?case by auto
qed simp

lemma json_depth_elem: "v \<in> set vs \<Longrightarrow> json_depth v < json_depth (Arr vs)"
  using fold_max_upper [of "json_depth v" "map json_depth vs" 0] by simp

lemma json_depth_prop: "(k, v) \<in> set fs \<Longrightarrow> json_depth v < json_depth (Obj fs)"
  using fold_max_upper [of "json_depth v" "map (\<lambda>(k, v). json_depth v) fs" 0] by (force simp: less_Suc_eq_le)

lemma serialize_fun:
  assumes "no_match reg" "0 < n"
  shows "serialize hw reg n (Fun b) = Some (Inr None)"
proof -
  obtain m where "n = Suc m" using assms(2) by (cases n) auto
  then show ?thesis
    using no_match_from_registry [OF assms(1)]
    by (simp add: serialize_object_def try_method_def js_member_def array_like_def)
qed

lemma ser_elems_text:
  assumes "\<And>v. v \<in> set vs \<Longrightarrow> me v = Some (Inr (if is_Fun v then None else Some (json_text (json_clean v))))"
  shows "ser_elems me vs = Some (Inr (map json_text (map (\<lambda>v. if is_Fun v then Undefined else json_clean v) vs)))"
  using assms by (induction vs) simp_all

lemma ser_props_text:
  assumes "\<And>v. v \<in> snd ` set fs \<Longrightarrow> me v = Some (Inr (if is_Fun v then None else Some (json_text (json_clean v))))"
  shows "ser_props me fs = Some (Inr (map (\<lambda>(k, v). escapeString k @ '':'' @ json_text v)
    (map (\<lambda>(k, v). (k, json_clean v)) (filter (\<lambda>(k, v). \<not> is_Fun v) fs))))"
  using assms by (induction fs) auto

lemma try_method_none: "\<not> is_Fun (js_member v name) \<Longrightarrow> try_method me v name cont = cont"
  by (cases "js_member v name") (simp_all add: try_method_def)

lemma serialize_text:
  assumes "no_match reg" "json_data v" "json_depth v < n"
  shows "serialize hw reg n v = Some (Inr (Some (json_text (json_clean v))))"
  using assms(2,3)
proof (induction n arbitrary: v)
  case (Suc n)
  have me: "serialize hw reg n u = Some (Inr (if is_Fun u then None else Some (json_text (json_clean u))))"
    if "json_depth u < n" "is_Fun u \<or> json_data u" for u
    using that Suc.IH serialize_fun [OF assms(1), of n hw] by (cases u) auto
  show ?case
  proof (cases v)
    case (Arr vs)
    have "ser_elems (serialize hw reg n) vs = Some (Inr (map json_text (map (\<lambda>v. if is_Fun v then Undefined else json_clean v) vs)))"
      using Suc.prems json_depth_elem [of _ vs] by (intro ser_elems_text me) (fastforce simp: Arr)+
    then show ?thesis
      by (simp add: Arr serialize_object_def try_method_def js_member_def array_like_def wrap_list_def)
  next
    case (Obj fs)
    have "ser_props (serialize hw reg n) fs = Some (Inr (map (\<lambda>(k, v). escapeString k @ '':'' @ json_text v)
        (map (\<lambda>(k, v). (k, json_clean v)) (filter (\<lambda>(k, v). \<not> is_Fun v) fs))))"
      using Suc.prems json_depth_prop [of _ _ fs] by (intro ser_props_text me) (fastforce simp: Obj)+
    moreover have "array_like v = None"
      using Suc.prems by (cases "js_member v ''length''") (simp_all add: Obj array_like_def)
    ultimately show ?thesis
      using Suc.prems
      by (simp add: Obj serialize_object_def try_method_none no_match_from_registry [OF assms(1)] wrap_list_def)
  qed (use Suc.prems in auto)
qed simp

lemma json_pure_clean: "json_data v \<Longrightarrow> json_pure (json_clean v)"
proof (induction v rule: json_clean.induct)
  case (2 fs)
  then show ?case
    by (auto simp: distinct_map_filter comp_def case_prod_unfold map_map image_iff)
qed auto

lemma read_literal_text:
  assumes "json_pure v"
  shows "read_literal (''('' @ json_text v @ '')'') = Some v"
  using read_text [OF assms, of "Suc (Suc (length (json_text v)))" "'')''"]
  by (simp add: read_literal_def delimited_def skip_space_punct)

section \<open>Properties\<close>

text \<open>
  What \<open>evalJson\<close> needs of the evaluator of the host: that it evaluates literals as the language says.
\<close>

locale literal_evaluator =
  fixes ev :: "string \<Rightarrow> jv result"
  assumes evaluates: "read_literal s = Some v \<Longrightarrow> ev s = Inr v"
begin

lemma evalJson_text: "json_pure v \<Longrightarrow> evalJson ev (json_text v) = v"
  using evaluates [OF read_literal_text] by (simp add: evalJson_def)

lemma evalJson_serialize:
  "no_match reg \<Longrightarrow> json_data v \<Longrightarrow> json_depth v < n \<Longrightarrow>
   \<exists>text. serialize hw reg n v = Some (Inr (Some text)) \<and> evalJson ev text = json_clean v"
  by (simp add: serialize_text evalJson_text json_pure_clean)

end

text \<open>An evaluator that knows literals and raises on every other text.\<close>

definition literal_eval :: "string \<Rightarrow> jv result" where
  "literal_eval s = (case read_literal s of Some v \<Rightarrow> Inr v | None \<Rightarrow> Inl (Raised ''SyntaxError''))"

interpretation literals: literal_evaluator literal_eval
  by unfold_locales (simp add: literal_eval_def)

text \<open>
  Claim C7. Serialization of data ends, gives a text, and evaluating the text gives the data back: for
  nested arrays and objects of numbers, strings, booleans, \<open>null\<close> and \<open>undefined\<close>, whatever characters the
  strings and names have. Functions do not survive: those in arrays come back as \<open>undefined\<close> and those in
  objects are left out. It is assumed that the evaluator reads literals as the language says, that
  no registered serializer accepts a value, and that the recursion may go as deep as the data.
\<close>

theorem json_roundtrip:
  assumes "\<forall>s w. read_literal s = Some w \<longrightarrow> ev s = Inr w"
    and "no_match reg" "json_data v" "json_depth v < n"
  shows "\<exists>text. serialize hw reg n v = Some (Inr (Some text)) \<and> evalJson ev text = json_clean v"
  using literal_evaluator.evalJson_serialize [OF literal_evaluator.intro] assms by blast

theorem json_roundtrip_witness:
  "\<exists>text. serialize True jsonRegistry 4
      (Obj [(''a'', Arr [Number 7, Fun RetSelf]), (''b'', Fun RetSelf)]) = Some (Inr (Some text))
    \<and> evalJson literal_eval text = Obj [(''a'', Arr [Number 7, Undefined])]"
  using json_roundtrip [of literal_eval jsonRegistry "Obj [(''a'', Arr [Number 7, Fun RetSelf]), (''b'', Fun RetSelf)]" 4 True]
  by (simp add: literals.evaluates no_match_def jsonRegistry_def AdapterRegistry_def js_member_def)

text \<open>
  \<open>register\<close> of \<open>json\<close> hands its override flag to the registry as the flag for direct return. A
  serializer registered with override is therefore tried last, like any other; and an object that it accepts is
  serialized as \<open>null\<close>, no text at all, while the same serializer without override works: the object is
  serialized as the value that the wrap function returns.
\<close>

theorem json_register_override:
  assumes "check (Obj fs) = Inr True" "check (Fun RetSelf) = Inr False" "wrap (Obj fs) = Inr w"
    and "json_data (Obj fs)" "no_match reg" "\<not> returnWrappers reg" "0 < n"
    and "serialize True (json_register name check wrap False reg) n w = Some (Inr text)"
  shows "pairs (json_register name check wrap True reg) = pairs reg @ [Adapter name check wrap True]
    \<and> serialize True (json_register name check wrap True reg) (Suc n) (Obj fs) = Some (Inr None)
    \<and> serialize True (json_register name check wrap False reg) (Suc n) (Obj fs) = Some (Inr text)"
proof (intro conjI)
  show "pairs (json_register name check wrap True reg) = pairs reg @ [Adapter name check wrap True]"
    by (simp add: json_register_def register_pairs)
  have skip: "match_loop (\<lambda>w a. w a) False (pairs reg @ ps) v = match_loop (\<lambda>w a. w a) False ps v" for ps v
  proof -
    have "\<forall>p \<in> set qs. \<forall>v. ad_check p v = Inr False \<Longrightarrow>
        match_loop (\<lambda>w a. w a) False (qs @ ps) v = match_loop (\<lambda>w a. w a) False ps v" for qs
      by (induction qs) simp_all
    with assms(5) show ?thesis by (simp add: no_match_def)
  qed
  have look: "registry_match (\<lambda>w a. w a) (json_register name check wrap ov reg) v =
      match_loop (\<lambda>w a. w a) False [Adapter name check wrap ov] v" for ov v
    using assms(6) skip by (simp add: registry_match_def json_register_def register_pairs)
  have obj: "serialize True r (Suc n) (Obj fs) =
      from_registry True r (serialize True r n) (Obj fs) (wrap_list ''{'' ''}'' (ser_props (serialize True r n) fs))" for r
  proof -
    have "array_like (Obj fs) = None"
      using assms(4) by (cases "js_member (Obj fs) ''length''") (simp_all add: array_like_def)
    with assms(4) show ?thesis by (simp add: serialize_object_def try_method_none)
  qed
  obtain m where n: "n = Suc m" using assms(7) by (cases n) auto
  have "serialize True (json_register name check wrap True reg) n (Fun RetSelf) = Some (Inr None)"
    using assms(2) by (simp add: n serialize_object_def try_method_def js_member_def array_like_def from_registry_def look)
  then show "serialize True (json_register name check wrap True reg) (Suc n) (Obj fs) = Some (Inr None)"
    unfolding obj using assms(1) by (simp add: from_registry_def look)
  show "serialize True (json_register name check wrap False reg) (Suc n) (Obj fs) = Some (Inr text)"
    unfolding obj using assms(1,3,8) by (simp add: from_registry_def look)
qed

theorem json_register_override_witness:
  "serialize True (json_register ''date'' (\<lambda>v. Inr (v = Obj [])) (\<lambda>v. Inr (Number 1)) True jsonRegistry) 2 (Obj []) = Some (Inr None)"
  using json_register_override [of "\<lambda>v. Inr (v = Obj [])" "[]" "\<lambda>v. Inr (Number 1)" "Number 1" jsonRegistry 1 "''date''" "Some ''1''"]
  by (simp add: no_match_def jsonRegistry_def AdapterRegistry_def js_member_def num_text_def to_dec.simps dec_digit_def numeral_2_eq_2)

end
