(* ===== verification/Loader.thy ===== *)
theory Loader
  imports Collections String_Extras
begin

text \<open>
  \<open>src/loader.js\<close>: how modules are found, loaded and registered, and the listeners for the end of
  loading. The files of the host are given by a function from addresses to scripts; of a script only
  the statements that operate on the loader are kept, and an empty file counts as missing. An evaluation may load other files, whose
  evaluation is nested in it: the evaluator takes a bound on this nesting, and \<^term>\<open>None\<close> means that
  the bound was exceeded. The object of a package is known by its path.
\<close>

section \<open>State\<close>

datatype command =
    Provide string
  | Require string bool bool
  | RegisterModulePath string string
  | Fail js_error

type_synonym script = "command list"

record config =
  baseScriptUri :: string
  cacheBust :: "string option"
  htmlCapable :: bool
  globalOmitModuleCheck :: bool

text \<open>
  The properties of \<open>dojo.hostenv\<close>. The list \<open>requests\<close> records the addresses that the host was asked for, \<open>loadedUris\<close>
  those whose scripts were evaluated, in this order.
\<close>

record hostenv =
  loading_modules :: "string list"
  addedToLoadingCount :: "string list"
  loaded_modules :: "string \<rightharpoonup> string"
  modulePrefixes :: "string \<rightharpoonup> string"
  loadedUris :: "string list"
  requests :: "string list"

definition hostenv_init :: hostenv where
  "hostenv_init =
     \<lparr>loading_modules = [], addedToLoadingCount = [], loaded_modules = Map.empty,
      modulePrefixes = [''dojo'' \<mapsto> ''src''], loadedUris = [], requests = []\<rparr>"

definition pkgFileName :: string where
  "pkgFileName = ''__package__''"

text \<open>An operation ends with a value or an error and a new state, unless the nesting was too deep.\<close>

type_synonym 'a run = "('a result \<times> hostenv) option"

definition lbind :: "'a run \<Rightarrow> ('a \<Rightarrow> hostenv \<Rightarrow> 'b run) \<Rightarrow> 'b run" where
  "lbind m f = (case m of None \<Rightarrow> None | Some (Inl e, h) \<Rightarrow> Some (Inl e, h) | Some (Inr a, h) \<Rightarrow> f a h)"

definition lcatch :: "'a run \<Rightarrow> 'a \<Rightarrow> 'a run" where
  "lcatch m a = (case m of Some (Inl e, h) \<Rightarrow> Some (Inr a, h) | _ \<Rightarrow> m)"

text \<open>A name between single quotes, in a message.\<close>

definition quoted :: "string \<Rightarrow> string" where
  "quoted s = squote # s @ [squote]"

section \<open>Prefixes and paths\<close>

definition setModulePrefix :: "string \<Rightarrow> string \<Rightarrow> hostenv \<Rightarrow> hostenv" where
  "setModulePrefix module prefix h = h\<lparr>modulePrefixes := (modulePrefixes h)(module \<mapsto> prefix)\<rparr>"

definition moduleHasPrefix :: "string \<Rightarrow> hostenv \<Rightarrow> bool" where
  "moduleHasPrefix module h \<longleftrightarrow> (case modulePrefixes h module of Some p \<Rightarrow> p \<noteq> [] | None \<Rightarrow> False)"

definition getModulePrefix :: "string \<Rightarrow> hostenv \<Rightarrow> string" where
  "getModulePrefix module h = (if moduleHasPrefix module h then the (modulePrefixes h module) else module)"

fun symbols_loop :: "hostenv \<Rightarrow> string list \<Rightarrow> nat \<Rightarrow> string list" where
  "symbols_loop h syms 0 = syms"
| "symbols_loop h syms (Suc i) =
     (let parentModule = join_with ''.'' (take (Suc i) syms)
      in if Suc i = 1 \<and> \<not> moduleHasPrefix parentModule h then syms[0 := ''../'' @ syms ! 0]
         else let parentModulePath = getModulePrefix parentModule h
              in if parentModulePath \<noteq> parentModule then js_splice syms 0 (int (Suc i)) [parentModulePath]
                 else symbols_loop h syms i)"

definition getModuleSymbols :: "string \<Rightarrow> hostenv \<Rightarrow> string list" where
  "getModuleSymbols modulename h =
     (let syms = split_on CHR ''.'' modulename in symbols_loop h syms (length syms))"

text \<open>A match of \<open>/^\w+:/\<close>.\<close>

definition has_scheme :: "string \<Rightarrow> bool" where
  "has_scheme s \<longleftrightarrow> (let w = takeWhile is_word_char s in w \<noteq> [] \<and> take 1 (drop (length w) s) = '':'')"

definition path_uri :: "config \<Rightarrow> string \<Rightarrow> string" where
  "path_uri cfg relpath =
     (let uri = (if take 1 relpath = ''/'' \<or> has_scheme relpath then relpath else baseScriptUri cfg @ relpath)
      in case cacheBust cfg of
           Some b \<Rightarrow> if b \<noteq> [] \<and> htmlCapable cfg then uri @ ''?'' @ filter is_word_char b else uri
         | None \<Rightarrow> uri)"

section \<open>Registering packages\<close>

text \<open>
  \<open>evalObjPath(path, true)\<close> of \<open>bootstrap1.js\<close> creates the objects along the path; an empty name on the
  way makes the result undefined.
\<close>

definition evalObjPath :: "string \<Rightarrow> string option" where
  "evalObjPath path = (if [] \<in> set (split_on CHR ''.'' path) then None else Some path)"

definition stripPackage :: "string \<Rightarrow> string" where
  "stripPackage packageName =
     (let syms = split_on CHR ''.'' packageName
      in if last syms = ''*'' then join_with ''.'' (butlast syms) else packageName)"

definition startPackage :: "string \<Rightarrow> hostenv \<Rightarrow> hostenv" where
  "startPackage packageName h =
     (let strippedPkgName = stripPackage packageName;
          evaledPkg = evalObjPath strippedPkgName
      in h\<lparr>loaded_modules := (loaded_modules h)(packageName := evaledPkg, strippedPkgName := evaledPkg)\<rparr>)"

text \<open>\<open>findModule\<close> without the option to raise. Names that every object inherits are found.\<close>

definition findModule :: "string \<Rightarrow> hostenv \<Rightarrow> string option" where
  "findModule moduleName h =
     (case loaded_modules h moduleName of
        Some m \<Rightarrow> Some m
      | None \<Rightarrow> if inherited moduleName then Some moduleName else None)"

definition findModule_mustExist :: "string \<Rightarrow> hostenv \<Rightarrow> string result" where
  "findModule_mustExist moduleName h =
     (case findModule moduleName h of
        Some m \<Rightarrow> Inr m
      | None \<Rightarrow> Inl (Raised (''no loaded module named '' @ quoted moduleName)))"

section \<open>Loading\<close>

definition loadUri ::
  "(string \<rightharpoonup> script) \<Rightarrow> (script \<Rightarrow> hostenv \<Rightarrow> unit run) \<Rightarrow> string \<Rightarrow> hostenv \<Rightarrow> bool run" where
  "loadUri files ev uri h =
     (if uri \<in> set (loadedUris h) then Some (Inr True, h)
      else let h = h\<lparr>requests := requests h @ [uri]\<rparr>
           in case files uri of
                None \<Rightarrow> Some (Inr False, h)
              | Some contents \<Rightarrow>
                  lbind (ev contents (h\<lparr>loadedUris := loadedUris h @ [uri]\<rparr>)) (\<lambda>_ h. Some (Inr True, h)))"

definition loadUriAndCheck ::
  "(string \<rightharpoonup> script) \<Rightarrow> (script \<Rightarrow> hostenv \<Rightarrow> unit run) \<Rightarrow> string \<Rightarrow> string \<Rightarrow> hostenv \<Rightarrow> bool run" where
  "loadUriAndCheck files ev uri moduleName h =
     lbind (lcatch (loadUri files ev uri h) True) (\<lambda>ok h. Some (Inr (ok \<and> findModule moduleName h \<noteq> None), h))"

definition loadPath ::
  "config \<Rightarrow> (string \<rightharpoonup> script) \<Rightarrow> (script \<Rightarrow> hostenv \<Rightarrow> unit run) \<Rightarrow> string \<Rightarrow> string option \<Rightarrow> hostenv \<Rightarrow> bool run" where
  "loadPath cfg files ev relpath module h =
     (let uri = path_uri cfg relpath
      in lcatch (case module of
                   None \<Rightarrow> loadUri files ev uri h
                 | Some m \<Rightarrow> if m = [] then loadUri files ev uri h else loadUriAndCheck files ev uri m h) False)"

text \<open>The path of the package file of a directory.\<close>

definition package_path :: "string list \<Rightarrow> bool \<Rightarrow> string" where
  "package_path syms startedRelative =
     (let relpath = join_with ''/'' syms @ ''/'' @ pkgFileName @ ''.js''
      in if startedRelative \<and> take 1 relpath = ''/'' then drop 1 relpath else relpath)"

text \<open>
  The loops of \<open>loadModule\<close>, on the symbols that are left. They return whether a file was loaded, and
  the path tried last.
\<close>

fun star_loop ::
  "(string \<Rightarrow> hostenv \<Rightarrow> bool run) \<Rightarrow> bool \<Rightarrow> nat \<Rightarrow> string list \<Rightarrow> string \<Rightarrow> hostenv \<Rightarrow> (bool \<times> string) run" where
  "star_loop load startedRelative 0 syms relpath h = Some (Inr (False, relpath), h)"
| "star_loop load startedRelative (Suc k) syms relpath h =
     (let syms = butlast syms;
          relpath = join_with ''/'' (syms @ [pkgFileName]) @ ''.js'';
          relpath = (if startedRelative \<and> take 1 relpath = ''/'' then drop 1 relpath else relpath)
      in lbind (load relpath h) (\<lambda>ok h.
           if ok then Some (Inr (True, relpath), h) else star_loop load startedRelative k syms relpath h))"

fun parent_loop ::
  "(string \<Rightarrow> hostenv \<Rightarrow> bool run) \<Rightarrow> bool \<Rightarrow> nat \<Rightarrow> string list \<Rightarrow> string \<Rightarrow> hostenv \<Rightarrow> (bool \<times> string) run" where
  "parent_loop load startedRelative 0 syms relpath h = Some (Inr (False, relpath), h)"
| "parent_loop load startedRelative (Suc k) syms relpath h =
     (let relpath = join_with ''/'' syms @ ''.js''
      in lbind (load relpath h) (\<lambda>ok h.
           if ok then Some (Inr (True, relpath), h)
           else let syms = butlast syms; relpath = package_path syms startedRelative
                in lbind (load relpath h) (\<lambda>ok h.
                     if ok then Some (Inr (True, relpath), h)
                     else parent_loop load startedRelative k syms relpath h)))"

definition could_not_load :: "string \<Rightarrow> string \<Rightarrow> js_error" where
  "could_not_load m relpath = Raised (''Could not load '' @ quoted m @ ''; last tried '' @ quoted relpath)"

definition not_defined :: "string \<Rightarrow> string \<Rightarrow> js_error" where
  "not_defined m relpath = Raised (''symbol '' @ quoted m @ '' is not defined after loading '' @ quoted relpath)"

definition mark_loading :: "string \<Rightarrow> hostenv \<Rightarrow> hostenv" where
  "mark_loading moduleName h =
     (let h = (if moduleName \<notin> set (loading_modules h) \<and> \<not> inherited moduleName
               then h\<lparr>addedToLoadingCount := addedToLoadingCount h @ [moduleName]\<rparr> else h)
      in h\<lparr>loading_modules := List.insert moduleName (loading_modules h)\<rparr>)"

definition search_module ::
  "(string \<Rightarrow> hostenv \<Rightarrow> bool run) \<Rightarrow> bool \<Rightarrow> string list \<Rightarrow> hostenv \<Rightarrow> (bool \<times> string) run" where
  "search_module load exactOnly syms h =
     (let startedRelative = (take 1 (syms ! 0) \<noteq> ''/'' \<and> \<not> has_scheme (syms ! 0));
          relpath = join_with ''/'' syms @ ''.js''
      in lbind (load relpath h) (\<lambda>ok h.
           if \<not> ok \<and> \<not> exactOnly
           then parent_loop load startedRelative (length syms - 1) (butlast syms) relpath h
           else Some (Inr (ok, relpath), h)))"

text \<open>The check at the end: the symbol must have been defined.\<close>

definition check_module :: "bool \<Rightarrow> string \<Rightarrow> string \<Rightarrow> hostenv \<Rightarrow> string option run" where
  "check_module omit moduleName relpath h =
     (if omit then Some (Inr None, h)
      else case findModule moduleName h of
             None \<Rightarrow> Some (Inl (not_defined moduleName relpath), h)
           | Some m \<Rightarrow> Some (Inr (Some m), h))"

definition loadModule ::
  "config \<Rightarrow> (string \<rightharpoonup> script) \<Rightarrow> (script \<Rightarrow> hostenv \<Rightarrow> unit run) \<Rightarrow> string \<Rightarrow> bool \<Rightarrow> bool \<Rightarrow> hostenv \<Rightarrow> string option run" where
  "loadModule cfg files ev moduleName exactOnly omitModuleCheck h =
     (if moduleName = [] then Some (Inr None, h)
      else let omit = (globalOmitModuleCheck cfg \<or> omitModuleCheck)
      in case findModule moduleName h of
           Some m \<Rightarrow> Some (Inr (Some m), h)
         | None \<Rightarrow>
             let h = mark_loading moduleName h;
                 nsyms = split_on CHR ''.'' moduleName;
                 syms = getModuleSymbols moduleName h
             in if last syms = ''*''
                then let m = join_with ''.'' (butlast nsyms);
                         startedRelative = (take 1 (syms ! 0) \<noteq> ''/'' \<and> \<not> has_scheme (syms ! 0));
                         load = (\<lambda>p. loadPath cfg files ev p (if omit then None else Some m))
                     in lbind (star_loop load startedRelative (length syms) syms [] h) (\<lambda>(ok, relpath) h. check_module omit m relpath h)
                else let load = (\<lambda>p. loadPath cfg files ev p (if omit then None else Some moduleName))
                     in lbind (search_module load exactOnly syms h) (\<lambda>(ok, relpath) h.
                          if \<not> ok \<and> \<not> omit then Some (Inl (could_not_load moduleName relpath), h)
                          else check_module omit moduleName relpath h))"

text \<open>The evaluation of a script. The number bounds the nesting of evaluations.\<close>

fun dj_eval :: "config \<Rightarrow> (string \<rightharpoonup> script) \<Rightarrow> nat \<Rightarrow> script \<Rightarrow> hostenv \<Rightarrow> unit run" where
  "dj_eval cfg files n [] h = Some (Inr (), h)"
| "dj_eval cfg files n (Provide m # cs) h = dj_eval cfg files n cs (startPackage m h)"
| "dj_eval cfg files n (RegisterModulePath m p # cs) h = dj_eval cfg files n cs (setModulePrefix m p h)"
| "dj_eval cfg files n (Fail e # cs) h = Some (Inl e, h)"
| "dj_eval cfg files 0 (Require m exactOnly omit # cs) h = None"
| "dj_eval cfg files (Suc n) (Require m exactOnly omit # cs) h =
     lbind (loadModule cfg files (dj_eval cfg files n) m exactOnly omit h) (\<lambda>_ h. dj_eval cfg files (Suc n) cs h)"

section \<open>The public functions\<close>

definition require :: "config \<Rightarrow> (string \<rightharpoonup> script) \<Rightarrow> nat \<Rightarrow> string \<Rightarrow> bool \<Rightarrow> bool \<Rightarrow> hostenv \<Rightarrow> string option run" where
  "require cfg files n resourceName exactOnly omit h = loadModule cfg files (dj_eval cfg files n) resourceName exactOnly omit h"

text \<open>\<open>requireIf\<close> and \<open>kwCompoundRequire\<close>, as the requirements that they make.\<close>

datatype condition = Flag bool | Renderer string

definition requireIf :: "(string \<Rightarrow> bool) \<Rightarrow> condition \<Rightarrow> string \<Rightarrow> bool \<Rightarrow> bool \<Rightarrow> script" where
  "requireIf capable c resourceName exactOnly omit =
     (if (case c of Flag b \<Rightarrow> b | Renderer r \<Rightarrow> r = ''common'' \<or> r \<noteq> [] \<and> capable r)
      then [Require resourceName exactOnly omit] else [])"

definition kwCompoundRequire :: "string \<Rightarrow> (string \<rightharpoonup> (string \<times> bool \<times> bool) list) \<Rightarrow> script" where
  "kwCompoundRequire hostName modMap =
     (let common = (case modMap ''common'' of Some ms \<Rightarrow> ms | None \<Rightarrow> []);
          result = (case modMap hostName of
                      Some ms \<Rightarrow> common @ ms
                    | None \<Rightarrow> common @ (case modMap ''default'' of Some ms \<Rightarrow> ms | None \<Rightarrow> []))
      in map (\<lambda>(m, exactOnly, omit). Require m exactOnly omit) result)"

section \<open>Listeners\<close>

text \<open>
  A listener is a function that may add further listeners when it is called; calls are recorded by the
  numbers of the listeners. The loop of \<open>loaded\<close> reads the length of the array anew in each step.
\<close>

datatype listener = Listener nat "listener list"

record notifier =
  modulesLoadedListeners :: "listener list"
  unloadListeners :: "listener list"
  loadNotifying :: bool
  post_load :: bool
  inFlightCount :: nat
  pending :: nat
  calls :: "nat list"

text \<open>The listeners called by the loop, given those that are still in the array: each adds its own at the end.\<close>

function notify_loop :: "listener list \<Rightarrow> nat list" where
  "notify_loop [] = []"
| "notify_loop (Listener i ls # rest) = i # notify_loop (rest @ ls)"
  by pat_completeness auto
termination
  by (relation "measure (\<lambda>ls. size_list size ls)") (auto simp: size_list_conv_sum_list)

definition loaded :: "notifier \<Rightarrow> notifier" where
  "loaded s =
     s\<lparr>loadNotifying := False, post_load := True, modulesLoadedListeners := [],
       calls := calls s @ notify_loop (modulesLoadedListeners s)\<rparr>"

definition addOnLoad :: "listener \<Rightarrow> notifier \<Rightarrow> notifier" where
  "addOnLoad l s =
     (let s = s\<lparr>modulesLoadedListeners := modulesLoadedListeners s @ [l]\<rparr>
      in if post_load s \<and> inFlightCount s = 0 \<and> \<not> loadNotifying s then loaded s else s)"

definition addOnUnload :: "listener \<Rightarrow> notifier \<Rightarrow> notifier" where
  "addOnUnload l s = s\<lparr>unloadListeners := unloadListeners s @ [l]\<rparr>"

text \<open>\<open>pending\<close> is the number of entries of \<open>loadUriStack\<close> and \<open>getTextStack\<close>.\<close>

definition modulesLoaded :: "notifier \<Rightarrow> notifier" where
  "modulesLoaded s =
     (if post_load s then s
      else if pending s = 0 then if inFlightCount s > 0 then s else loaded s
      else s)"

text \<open>\<open>while(mll.length) (mll.pop())()\<close>: what a listener adds is called next.\<close>

function unload_loop :: "listener list \<Rightarrow> nat list" where
  "unload_loop [] = []"
| "unload_loop (Listener i ls # rest) = i # unload_loop (rev ls @ rest)"
  by pat_completeness auto
termination
  by (relation "measure (\<lambda>ls. size_list size ls)") (auto simp: size_list_conv_sum_list sum_list_rev rev_map [symmetric])

definition unloaded :: "notifier \<Rightarrow> notifier" where
  "unloaded s = s\<lparr>unloadListeners := [], calls := calls s @ unload_loop (rev (unloadListeners s))\<rparr>"

end
