(* ===== verification/Loader_Proofs.thy ===== *)
theory Loader_Proofs
  imports Loader
begin

text \<open>
  Properties of \<open>Loader\<close>: what every operation preserves, that loading ends, that no script is
  evaluated twice, and which modules a requirement loads.
\<close>

section \<open>Relations between the states before and after\<close>

text \<open>
  An operation is sound if, from every state with the property \<open>pre\<close>, it leads to a state that is related
  to it by \<open>R\<close>; if \<open>tot\<close> is set, it has to lead to some state.
\<close>

definition sound :: "bool \<Rightarrow> (hostenv \<Rightarrow> hostenv \<Rightarrow> bool) \<Rightarrow> (hostenv \<Rightarrow> bool) \<Rightarrow> (hostenv \<Rightarrow> 'a run) \<Rightarrow> bool" where
  "sound tot R pre m \<longleftrightarrow> (\<forall>h. pre h \<longrightarrow> (case m h of None \<Rightarrow> \<not> tot | Some (r, h') \<Rightarrow> R h h'))"

lemma soundD: "sound tot R pre m \<Longrightarrow> pre h \<Longrightarrow> case m h of None \<Rightarrow> \<not> tot | Some (r, h') \<Rightarrow> R h h'"
  by (simp add: sound_def)

lemma lbind_simps [simp]:
  "lbind None f = None" "lbind (Some (Inl e, h)) f = Some (Inl e, h)" "lbind (Some (Inr a, h)) f = f a h"
  by (simp_all add: lbind_def)

lemma lcatch_simps [simp]:
  "lcatch None a = None" "lcatch (Some (Inl e, h)) a = Some (Inr a, h)" "lcatch (Some (Inr b, h)) a = Some (Inr b, h)"
  by (simp_all add: lcatch_def)

lemma loadModule_found:
  "loadModule cfg files ev [] exactOnly omit h = Some (Inr None, h)"
  "m \<noteq> [] \<Longrightarrow> findModule m h = Some x \<Longrightarrow> loadModule cfg files ev m exactOnly omit h = Some (Inr (Some x), h)"
  by (simp_all add: loadModule_def)

lemma loadModule_unloaded:
  assumes "m \<noteq> []" "findModule m h = None"
  shows "loadModule cfg files ev m exactOnly omit h =
    (let om = (globalOmitModuleCheck cfg \<or> omit);
         syms = getModuleSymbols m (mark_loading m h)
     in if last syms = ''*''
        then let nm = join_with ''.'' (butlast (split_on CHR ''.'' m))
             in lbind (star_loop (\<lambda>p. loadPath cfg files ev p (if om then None else Some nm))
                     (take 1 (syms ! 0) \<noteq> ''/'' \<and> \<not> has_scheme (syms ! 0)) (length syms) syms [] (mark_loading m h))
                  (\<lambda>(ok, relpath) h. check_module om nm relpath h)
        else lbind (search_module (\<lambda>p. loadPath cfg files ev p (if om then None else Some m)) exactOnly syms (mark_loading m h))
               (\<lambda>(ok, relpath) h. if \<not> ok \<and> \<not> om then Some (Inl (could_not_load m relpath), h)
                  else check_module om m relpath h))"
  using assms by (simp add: loadModule_def Let_def)

lemma sound_lcatch: "sound tot R pre m \<Longrightarrow> sound tot R pre (\<lambda>h. lcatch (m h) a)"
  unfolding sound_def lcatch_def by (fastforce split: option.splits sum.splits)

lemma sound_if: "sound tot R pre m \<Longrightarrow> sound tot R pre m' \<Longrightarrow> sound tot R pre (\<lambda>h. if b h then m h else m' h)"
  by (simp add: sound_def)

lemma sound_prod: "(\<And>a b. sound tot R pre (f a b)) \<Longrightarrow> sound tot R pre (case x of (a, b) \<Rightarrow> f a b)"
  by (cases x) simp

text \<open>
  The contract between an evaluator and the functions that load files: what holds across the
  elementary changes of the state and across evaluations holds across every operation. Evaluations start in
  states with the property \<open>pre'\<close>.
\<close>

locale loading =
  fixes files :: "string \<rightharpoonup> script" and tot :: bool and R :: "hostenv \<Rightarrow> hostenv \<Rightarrow> bool"
    and pre pre' :: "hostenv \<Rightarrow> bool"
  assumes refl: "R h h"
    and trans: "R h h' \<Longrightarrow> R h' h'' \<Longrightarrow> R h h''"
    and stable: "R h h' \<Longrightarrow> pre h \<Longrightarrow> pre h'"
    and request: "R h (h\<lparr>requests := us\<rparr>)"
    and evaluate: "pre h \<Longrightarrow> u \<notin> set (loadedUris h) \<Longrightarrow> files u \<noteq> None \<Longrightarrow>
      R h (h\<lparr>loadedUris := loadedUris h @ [u]\<rparr>) \<and> pre' (h\<lparr>loadedUris := loadedUris h @ [u]\<rparr>)"
    and mark: "R h (mark_loading m h)"
begin

lemma sound_return: "sound tot R pre (\<lambda>h. Some (f h, h))"
  by (simp add: sound_def refl)

lemma sound_lbind: "sound tot R pre m \<Longrightarrow> (\<And>a. sound tot R pre (f a)) \<Longrightarrow> sound tot R pre (\<lambda>h. lbind (m h) f)"
proof -
  assume m: "sound tot R pre m" and f: "\<And>a. sound tot R pre (f a)"
  show ?thesis unfolding sound_def
  proof (intro allI impI)
    fix h assume pre: "pre h"
    show "case lbind (m h) f of None \<Rightarrow> \<not> tot | Some (r, h') \<Rightarrow> R h h'"
    proof (cases "m h")
      case None
      then show ?thesis using soundD [OF m pre] by simp
    next
      case (Some rh)
      then obtain r h' where mh: "m h = Some (r, h')" by (cases rh) simp
      then have R: "R h h'" using soundD [OF m pre] by simp
      show ?thesis
      proof (cases r)
        case (Inr a)
        then show ?thesis
          using mh R trans [OF R] soundD [OF f stable [OF R pre], of a] by (auto split: option.splits)
      qed (simp add: mh R)
    qed
  qed
qed

lemma sound_after: "sound tot R pre m \<Longrightarrow> (\<And>h. R h (g h)) \<Longrightarrow> sound tot R pre (\<lambda>h. m (g h))"
  unfolding sound_def
proof (intro allI impI)
  fix h assume m: "\<forall>h. pre h \<longrightarrow> (case m h of None \<Rightarrow> \<not> tot | Some (r, h') \<Rightarrow> R h h')" and g: "\<And>h. R h (g h)" and pre: "pre h"
  have "pre (g h)" using stable [OF g pre] .
  with m have "case m (g h) of None \<Rightarrow> \<not> tot | Some (r, h') \<Rightarrow> R (g h) h'" by blast
  then show "case m (g h) of None \<Rightarrow> \<not> tot | Some (r, h') \<Rightarrow> R h h'"
    using trans [OF g] by (auto split: option.splits)
qed

lemma loadUri_sound:
  assumes "\<And>cs. sound tot R pre' (ev cs)"
  shows "sound tot R pre (loadUri files ev uri)"
  unfolding sound_def
proof (intro allI impI)
  fix h assume pre: "pre h"
  show "case loadUri files ev uri h of None \<Rightarrow> \<not> tot | Some (r, h') \<Rightarrow> R h h'"
  proof (cases "uri \<in> set (loadedUris h) \<or> files uri = None")
    case True
    then show ?thesis by (auto simp: loadUri_def Let_def refl request)
  next
    case False
    then obtain cs where cs: "files uri = Some cs" "uri \<notin> set (loadedUris h)" by auto
    let ?h1 = "h\<lparr>requests := requests h @ [uri]\<rparr>"
    let ?h2 = "?h1\<lparr>loadedUris := loadedUris ?h1 @ [uri]\<rparr>"
    have h1: "R h ?h1" by (rule request)
    have "R ?h1 ?h2 \<and> pre' ?h2" by (rule evaluate) (use cs stable [OF h1 pre] in auto)
    then have h2: "R h ?h2" "pre' ?h2" using trans [OF h1] by auto
    have eq: "loadUri files ev uri h = lbind (ev cs ?h2) (\<lambda>_ h. Some (Inr True, h))"
      using cs by (simp add: loadUri_def Let_def)
    show ?thesis
      using soundD [OF assms h2(2), of cs] trans [OF h2(1)]
      unfolding eq lbind_def by (auto split: option.splits prod.splits sum.splits)
  qed
qed

lemma loadPath_sound:
  assumes "\<And>cs. sound tot R pre' (ev cs)"
  shows "sound tot R pre (loadPath cfg files ev relpath module)"
proof -
  have check: "sound tot R pre (loadUriAndCheck files ev uri m)" for uri m
    unfolding loadUriAndCheck_def
    by (intro sound_lbind sound_lcatch loadUri_sound assms sound_return)
  have "sound tot R pre (\<lambda>h. case module of None \<Rightarrow> loadUri files ev uri h
      | Some m \<Rightarrow> if m = [] then loadUri files ev uri h else loadUriAndCheck files ev uri m h)" for uri
    using check loadUri_sound [of ev, OF assms] by (cases module) (simp_all add: sound_def)
  then show ?thesis unfolding loadPath_def Let_def by (rule sound_lcatch)
qed

lemma star_loop_sound:
  "(\<And>p. sound tot R pre (load p)) \<Longrightarrow> sound tot R pre (star_loop load sr k syms relpath)"
proof (induction k arbitrary: syms relpath)
  case 0
  show ?case unfolding star_loop.simps by (rule sound_return)
next
  case (Suc k)
  show ?case unfolding star_loop.simps Let_def by (intro sound_lbind sound_if sound_return Suc)
qed

lemma parent_loop_sound:
  "(\<And>p. sound tot R pre (load p)) \<Longrightarrow> sound tot R pre (parent_loop load sr k syms relpath)"
proof (induction k arbitrary: syms relpath)
  case 0
  show ?case unfolding parent_loop.simps by (rule sound_return)
next
  case (Suc k)
  show ?case unfolding parent_loop.simps Let_def by (intro sound_lbind sound_if sound_return Suc)
qed

lemma search_module_sound:
  "(\<And>p. sound tot R pre (load p)) \<Longrightarrow> sound tot R pre (search_module load exactOnly syms)"
  unfolding search_module_def Let_def
  by (intro sound_lbind sound_if parent_loop_sound sound_return)

lemma check_module_sound: "sound tot R pre (check_module omit m relpath)"
  by (simp add: sound_def check_module_def refl split: option.splits)

lemma loadModule_sound:
  assumes "\<And>cs. sound tot R pre' (ev cs)"
  shows "sound tot R pre (loadModule cfg files ev m exactOnly omit)"
  unfolding sound_def
proof (intro allI impI)
  fix h assume pre: "pre h"
  let ?h = "mark_loading m h"
  have load: "sound tot R pre (loadPath cfg files ev p module)" for p module
    by (rule loadPath_sound [OF assms])
  have star: "sound tot R pre (\<lambda>h. lbind (star_loop (\<lambda>p. loadPath cfg files ev p module) sr k syms rp h)
      (\<lambda>(ok, relpath) h. check_module om nm relpath h))" for module sr k syms rp om nm
    by (intro sound_lbind star_loop_sound load sound_prod check_module_sound)
  have search: "sound tot R pre (\<lambda>h. lbind (search_module (\<lambda>p. loadPath cfg files ev p module) ex syms h)
      (\<lambda>(ok, relpath) h. if \<not> ok \<and> \<not> om then Some (Inl (could_not_load nm relpath), h)
         else check_module om nm relpath h))" for module ex syms om nm
    by (intro sound_lbind search_module_sound load sound_prod sound_if check_module_sound sound_return)
  have pre2: "pre ?h" using stable [OF mark pre] .
  consider "m = []" | x where "m \<noteq> []" "findModule m h = Some x" | "m \<noteq> []" "findModule m h = None" by blast
  then show "case loadModule cfg files ev m exactOnly omit h of None \<Rightarrow> \<not> tot | Some (r, h') \<Rightarrow> R h h'"
  proof cases
    case 3
    have "case loadModule cfg files ev m exactOnly omit h of None \<Rightarrow> \<not> tot | Some (r, h') \<Rightarrow> R ?h h'"
    proof (cases "last (getModuleSymbols m ?h) = ''*''")
      case True
      show ?thesis
        unfolding loadModule_unloaded [OF 3] Let_def if_P [OF True] by (rule soundD [OF star pre2])
    next
      case False
      show ?thesis
        unfolding loadModule_unloaded [OF 3] Let_def if_not_P [OF False] by (rule soundD [OF search pre2])
    qed
    then show ?thesis using trans [OF mark] by (auto split: option.splits)
  qed (simp_all add: loadModule_found refl)
qed

end

text \<open>
  A relation that holds across every elementary change also holds across every evaluation, however deep the
  nesting may go.
\<close>

locale step_relation = loading files False R "\<lambda>_. True" "\<lambda>_. True"
  for files :: "string \<rightharpoonup> script" and R :: "hostenv \<Rightarrow> hostenv \<Rightarrow> bool" +
  assumes start: "R h (startPackage m h)"
    and prefix: "R h (setModulePrefix m p h)"
begin

lemma dj_eval_sound: "sound False R (\<lambda>_. True) (dj_eval cfg files n cs)"
proof (induction n arbitrary: cs)
  case 0
  show ?case
  proof (induction cs)
    case (Cons c cs)
    then show ?case
      by (cases c) (auto simp: sound_def refl intro: trans [OF start] trans [OF prefix] split: option.splits)
  qed (simp add: sound_def refl)
next
  case (Suc n)
  show ?case
  proof (induction cs)
    case (Cons c cs)
    show ?case
    proof (cases c)
      case (Require m exactOnly omit)
      have "sound False R (\<lambda>_. True) (\<lambda>h. lbind (loadModule cfg files (dj_eval cfg files n) m exactOnly omit h)
          (\<lambda>_. dj_eval cfg files (Suc n) cs))"
        by (intro sound_lbind loadModule_sound Suc Cons)
      then show ?thesis by (simp add: Require sound_def)
    qed (use Cons in \<open>auto simp: sound_def refl intro: trans [OF start] trans [OF prefix] split: option.splits\<close>)
  qed (simp add: sound_def refl)
qed

lemma dj_eval_step: "dj_eval cfg files n cs h = Some (r, h') \<Longrightarrow> R h h'"
  using soundD [OF dj_eval_sound, of h cfg n cs] by simp

lemma require_step: "require cfg files n m exactOnly omit h = Some (r, h') \<Longrightarrow> R h h'"
  using soundD [OF loadModule_sound [of "dj_eval cfg files n", OF dj_eval_sound], of h cfg m exactOnly omit]
  by (simp add: require_def)

end

text \<open>Evaluated scripts are added at the end, each once, and come from the files of the host.\<close>

definition grows :: "(string \<rightharpoonup> script) \<Rightarrow> hostenv \<Rightarrow> hostenv \<Rightarrow> bool" where
  "grows files h h' \<longleftrightarrow>
     (\<exists>us. loadedUris h' = loadedUris h @ us \<and> distinct us \<and> set us \<subseteq> dom files - set (loadedUris h))"

interpretation growth: step_relation files "grows files" for files
proof unfold_locales
  fix h h' h'' assume a: "grows files h h'" "grows files h' h''"
  then obtain us vs where "loadedUris h' = loadedUris h @ us" "distinct us" "set us \<subseteq> dom files - set (loadedUris h)"
    "loadedUris h'' = loadedUris h' @ vs" "distinct vs" "set vs \<subseteq> dom files - set (loadedUris h')"
    unfolding grows_def by blast
  then show "grows files h h''" unfolding grows_def by (intro exI [of _ "us @ vs"]) auto
qed (auto simp: grows_def mark_loading_def startPackage_def setModulePrefix_def Let_def)

text \<open>A package that was registered under a proper name stays registered.\<close>

definition well_named :: "string \<Rightarrow> bool" where
  "well_named m \<longleftrightarrow> [] \<notin> set (split_on CHR ''.'' m) \<and> last (split_on CHR ''.'' m) \<noteq> ''*''"

definition keeps :: "hostenv \<Rightarrow> hostenv \<Rightarrow> bool" where
  "keeps h h' \<longleftrightarrow> (\<forall>m. well_named m \<longrightarrow> loaded_modules h m = Some m \<longrightarrow> loaded_modules h' m = Some m)"

lemma well_named_package: "well_named m \<Longrightarrow> stripPackage m = m \<and> evalObjPath m = Some m"
  by (simp add: well_named_def stripPackage_def evalObjPath_def Let_def)

lemma startPackage_well_named: "well_named m \<Longrightarrow> startPackage m h = h\<lparr>loaded_modules := (loaded_modules h)(m \<mapsto> m)\<rparr>"
  by (simp add: startPackage_def Let_def well_named_package)

interpretation registration: step_relation files keeps for files
proof unfold_locales
  fix h m
  show "keeps h (startPackage m h)"
    unfolding keeps_def using well_named_package by (auto simp: startPackage_def Let_def)
qed (auto simp: keeps_def mark_loading_def setModulePrefix_def Let_def)

section \<open>Loading ends\<close>

definition unloaded_files :: "(string \<rightharpoonup> script) \<Rightarrow> hostenv \<Rightarrow> nat" where
  "unloaded_files files h = card (dom files - set (loadedUris h))"

lemma grows_unloaded: "finite (dom files) \<Longrightarrow> grows files h h' \<Longrightarrow> unloaded_files files h' \<le> unloaded_files files h"
  unfolding unloaded_files_def grows_def by (auto intro!: card_mono)

lemma unloaded_next:
  assumes "finite (dom files)" "files u \<noteq> None" "u \<notin> set (loadedUris h)" "loadedUris h' = loadedUris h @ [u]"
  shows "unloaded_files files h' < unloaded_files files h"
  unfolding unloaded_files_def using assms by (intro psubset_card_mono) auto


lemma loading_ends:
  assumes "finite (dom files)"
  shows "loading files (grows files) (\<lambda>h. unloaded_files files h \<le> N) (\<lambda>h. unloaded_files files h < N)"
proof unfold_locales
  fix h u assume "unloaded_files files h \<le> N" "u \<notin> set (loadedUris h)" "files u \<noteq> None"
  then show "grows files h (h\<lparr>loadedUris := loadedUris h @ [u]\<rparr>)
      \<and> unloaded_files files (h\<lparr>loadedUris := loadedUris h @ [u]\<rparr>) < N"
    using growth.evaluate [of u h files] unloaded_next [OF assms, of u h "h\<lparr>loadedUris := loadedUris h @ [u]\<rparr>"] by auto
qed (auto intro: growth.refl growth.trans growth.request growth.mark order_trans [OF grows_unloaded [OF assms]])

lemma dj_eval_returns:
  assumes "finite (dom files)"
  shows "sound True (grows files) (\<lambda>h. unloaded_files files h < n) (dj_eval cfg files n cs)"
proof (induction n arbitrary: cs)
  case 0
  show ?case by (simp add: sound_def)
next
  case (Suc n)
  note ends = loading_ends [OF assms, of n]
  show ?case
  proof (induction cs)
    case (Cons c cs)
    have IH: "sound True (grows files) (\<lambda>h. unloaded_files files h \<le> n) (dj_eval cfg files (Suc n) cs)"
      using Cons.IH by (simp add: less_Suc_eq_le)
    show ?case
    proof (cases c)
      case (Require m exactOnly omit)
      have "sound True (grows files) (\<lambda>h. unloaded_files files h \<le> n)
          (\<lambda>h. lbind (loadModule cfg files (dj_eval cfg files n) m exactOnly omit h) (\<lambda>_. dj_eval cfg files (Suc n) cs))"
        by (intro loading.sound_lbind [OF ends] loading.loadModule_sound [OF ends] Suc.IH IH)
      then show ?thesis by (simp add: Require sound_def less_Suc_eq_le)
    next
      case (Provide m)
      show ?thesis
        using loading.sound_after [OF ends IH, of "startPackage m"] growth.start
        by (simp add: Provide sound_def less_Suc_eq_le)
    next
      case (RegisterModulePath m q)
      show ?thesis
        using loading.sound_after [OF ends IH, of "setModulePrefix m q"] growth.prefix
        by (simp add: RegisterModulePath sound_def less_Suc_eq_le)
    qed (simp add: sound_def growth.refl)
  qed (simp add: sound_def growth.refl)
qed

lemma require_returns:
  assumes "finite (dom files)" "unloaded_files files h \<le> n"
  shows "\<exists>r h'. require cfg files n m exactOnly omit h = Some (r, h') \<and> grows files h h'"
proof -
  have "sound True (grows files) (\<lambda>h. unloaded_files files h \<le> n) (require cfg files n m exactOnly omit)"
    unfolding require_def [abs_def]
    by (rule loading.loadModule_sound [OF loading_ends [OF assms(1)]]) (rule dj_eval_returns [OF assms(1)])
  from soundD [OF this assms(2)] show ?thesis by (auto split: option.splits)
qed

lemma check_module_found: "check_module omit m relpath h = Some (Inr x, h') \<Longrightarrow> \<not> omit \<Longrightarrow> \<exists>y. x = Some y \<and> findModule m h' = Some y"
  by (cases "findModule m h") (simp_all add: check_module_def, metis)

lemma loadModule_defines:
  assumes "loadModule cfg files ev m exactOnly omit h = Some (Inr x, h')" "m \<noteq> []" "\<not> omit" "\<not> globalOmitModuleCheck cfg"
  shows "\<exists>y. x = Some y \<and> (\<exists>nm \<in> {m, join_with ''.'' (butlast (split_on CHR ''.'' m))}. findModule nm h' = Some y)"
proof (cases "findModule m h")
  case (Some y)
  with assms show ?thesis by (simp add: loadModule_found) metis
next
  case None
  let ?syms = "getModuleSymbols m (mark_loading m h)"
  have om: "(globalOmitModuleCheck cfg \<or> omit) = False" using assms(3,4) by simp
  note run = assms(1) [unfolded loadModule_unloaded [OF assms(2) None] Let_def om]
  have check: "\<exists>relpath h'. check_module False nm relpath h' = Some (Inr x, h'')"
    if "lbind m' (\<lambda>(ok, relpath) h. if \<not> ok \<and> b then Some (Inl (err relpath), h) else check_module False nm relpath h)
        = Some (Inr x, h'')" for m' b err nm h''
    using that by (auto simp: lbind_def split: option.splits sum.splits prod.splits if_splits)
  have "\<exists>nm \<in> {m, join_with ''.'' (butlast (split_on CHR ''.'' m))}. \<exists>relpath h0. check_module False nm relpath h0 = Some (Inr x, h')"
  proof (cases "last ?syms = ''*''")
    case True
    then show ?thesis using run check [of _ False] by auto
  next
    case False
    then show ?thesis using run check [of _ True "\<lambda>r. could_not_load m r" m h'] by auto
  qed
  then show ?thesis using check_module_found by blast
qed

section \<open>The file of a module\<close>

definition module_uri :: "config \<Rightarrow> (string \<rightharpoonup> string) \<Rightarrow> string \<Rightarrow> string" where
  "module_uri cfg prefixes m =
     path_uri cfg (join_with ''/'' (getModuleSymbols m (hostenv_init\<lparr>modulePrefixes := prefixes\<rparr>)) @ ''.js'')"

lemma symbols_loop_cong: "modulePrefixes h = modulePrefixes h' \<Longrightarrow> symbols_loop h syms i = symbols_loop h' syms i"
  by (induction i) (simp_all only: symbols_loop.simps moduleHasPrefix_def getModulePrefix_def)

lemma getModuleSymbols_cong: "modulePrefixes h = modulePrefixes h' \<Longrightarrow> getModuleSymbols m h = getModuleSymbols m h'"
  by (simp add: getModuleSymbols_def Let_def symbols_loop_cong [of h h'])

lemma mark_loading_fields [simp]:
  "modulePrefixes (mark_loading m h) = modulePrefixes h" "loadedUris (mark_loading m h) = loadedUris h"
  "requests (mark_loading m h) = requests h" "loaded_modules (mark_loading m h) = loaded_modules h"
  by (simp_all add: mark_loading_def Let_def)

lemma well_named_nonempty: "well_named m \<Longrightarrow> m \<noteq> []"
  by (auto simp: well_named_def)

text \<open>
  If the file of a module is there and its evaluation leaves the module registered, the module has been loaded,
  whether the evaluation raised an error or not.
\<close>

lemma loadModule_direct:
  assumes "well_named m" "findModule m h = None" "\<not> omit" "\<not> globalOmitModuleCheck cfg"
    and "last (getModuleSymbols m h) \<noteq> ''*''"
    and u: "u = module_uri cfg (modulePrefixes h) m" "u \<notin> set (loadedUris h)" "files u = Some cs"
    and run: "ev cs ((mark_loading m h)\<lparr>requests := requests h @ [u], loadedUris := loadedUris h @ [u]\<rparr>) = Some (r, h')"
    and found: "findModule m h' = Some x"
  shows "loadModule cfg files ev m exactOnly omit h = Some (Inr (Some x), h')"
proof -
  let ?h = "mark_loading m h"
  let ?syms = "getModuleSymbols m ?h"
  have syms: "?syms = getModuleSymbols m h"
    "getModuleSymbols m (hostenv_init\<lparr>modulePrefixes := modulePrefixes h\<rparr>) = getModuleSymbols m h"
    by (rule getModuleSymbols_cong, simp)+
  have uri: "path_uri cfg (join_with ''/'' ?syms @ ''.js'') = u"
    by (simp only: u(1) module_uri_def syms)
  have "loadUri files ev u ?h = lbind (Some (r, h')) (\<lambda>_ h. Some (Inr True, h))"
    using u run by (simp add: loadUri_def Let_def)
  then have "lcatch (loadUri files ev u ?h) True = Some (Inr True, h')"
    by (cases r) simp_all
  then have "loadUriAndCheck files ev u m ?h = Some (Inr True, h')"
    using found by (simp add: loadUriAndCheck_def)
  then have load: "loadPath cfg files ev (join_with ''/'' ?syms @ ''.js'') (Some m) ?h = Some (Inr True, h')"
    using well_named_nonempty [OF assms(1)] by (simp add: loadPath_def Let_def uri)
  show ?thesis
    using assms(3-5) load found
    by (simp add: loadModule_unloaded [OF well_named_nonempty [OF assms(1)] assms(2)] search_module_def check_module_def
        syms(1) Let_def)
qed

section \<open>Modules that a requirement loads\<close>

text \<open>
  A regular collection of modules: every module \<open>m\<close> has a file of its own that first provides \<open>m\<close> and then
  requires the modules in \<open>deps m\<close>.
\<close>

definition module_script :: "(string \<Rightarrow> string list) \<Rightarrow> string \<Rightarrow> script" where
  "module_script deps m = Provide m # map (\<lambda>d. Require d False False) (deps m)"

definition regular :: "config \<Rightarrow> (string \<rightharpoonup> string) \<Rightarrow> (string \<rightharpoonup> script) \<Rightarrow> (string \<Rightarrow> string list) \<Rightarrow> string set \<Rightarrow> bool" where
  "regular cfg prefixes files deps Ms \<longleftrightarrow>
     finite Ms \<and> \<not> globalOmitModuleCheck cfg \<and> inj_on (module_uri cfg prefixes) Ms \<and>
     (\<forall>m \<in> Ms. well_named m \<and> \<not> inherited m \<and> set (deps m) \<subseteq> Ms \<and>
        last (getModuleSymbols m (hostenv_init\<lparr>modulePrefixes := prefixes\<rparr>)) \<noteq> ''*'' \<and>
        files (module_uri cfg prefixes m) = Some (module_script deps m))"

definition depends :: "(string \<Rightarrow> string list) \<Rightarrow> (string \<times> string) set" where
  "depends deps = {(a, b). b \<in> set (deps a)}"

text \<open>A state in which the registered modules are those whose files were evaluated.\<close>

definition consistent :: "config \<Rightarrow> (string \<rightharpoonup> string) \<Rightarrow> string set \<Rightarrow> hostenv \<Rightarrow> bool" where
  "consistent cfg prefixes Ms h \<longleftrightarrow>
     modulePrefixes h = prefixes \<and>
     (\<forall>m \<in> Ms. loaded_modules h m = (if module_uri cfg prefixes m \<in> set (loadedUris h) then Some m else None))"

definition present :: "string set \<Rightarrow> hostenv \<Rightarrow> string set" where
  "present Ms h = {m \<in> Ms. loaded_modules h m \<noteq> None}"

text \<open>
  What loading the modules \<open>ds\<close> does: some new modules are loaded, in the order \<open>ms\<close>; the modules required by them
  are there in the end, and each of them is needed by one of the \<open>ds\<close>.
\<close>

definition loads ::
  "config \<Rightarrow> (string \<rightharpoonup> string) \<Rightarrow> (string \<Rightarrow> string list) \<Rightarrow> string set \<Rightarrow> hostenv \<Rightarrow> string list \<Rightarrow> hostenv \<Rightarrow> bool" where
  "loads cfg prefixes deps Ms h ds h' \<longleftrightarrow>
     (\<exists>ms. consistent cfg prefixes Ms h' \<and> distinct ms \<and> set ms \<subseteq> Ms - present Ms h \<and>
        present Ms h' = present Ms h \<union> set ms \<and>
        loadedUris h' = loadedUris h @ map (module_uri cfg prefixes) ms \<and>
        requests h' = requests h @ map (module_uri cfg prefixes) ms \<and>
        set ds \<subseteq> present Ms h' \<and>
        (\<forall>x \<in> set ms. set (deps x) \<subseteq> present Ms h') \<and>
        set ms \<subseteq> (depends deps)\<^sup>* `` set ds)"

lemma loads_Nil: "consistent cfg prefixes Ms h \<Longrightarrow> loads cfg prefixes deps Ms h [] h"
  unfolding loads_def by (intro exI [of _ "[]"]) simp

lemma loads_append:
  assumes "loads cfg prefixes deps Ms h ds h'" "loads cfg prefixes deps Ms h' es h''"
  shows "loads cfg prefixes deps Ms h (ds @ es) h''"
proof -
  obtain ms where ms: "distinct ms" "set ms \<subseteq> Ms - present Ms h" "present Ms h' = present Ms h \<union> set ms"
    "loadedUris h' = loadedUris h @ map (module_uri cfg prefixes) ms"
    "requests h' = requests h @ map (module_uri cfg prefixes) ms"
    "set ds \<subseteq> present Ms h'" "\<forall>x \<in> set ms. set (deps x) \<subseteq> present Ms h'" "set ms \<subseteq> (depends deps)\<^sup>* `` set ds"
    using assms(1) unfolding loads_def by blast
  obtain ns where ns: "consistent cfg prefixes Ms h''" "distinct ns" "set ns \<subseteq> Ms - present Ms h'"
    "present Ms h'' = present Ms h' \<union> set ns"
    "loadedUris h'' = loadedUris h' @ map (module_uri cfg prefixes) ns"
    "requests h'' = requests h' @ map (module_uri cfg prefixes) ns"
    "set es \<subseteq> present Ms h''" "\<forall>x \<in> set ns. set (deps x) \<subseteq> present Ms h''" "set ns \<subseteq> (depends deps)\<^sup>* `` set es"
    using assms(2) unfolding loads_def by blast
  have "distinct (ms @ ns)" "set (ms @ ns) \<subseteq> Ms - present Ms h" "set (ms @ ns) \<subseteq> (depends deps)\<^sup>* `` set (ds @ es)"
    "\<forall>x \<in> set (ms @ ns). set (deps x) \<subseteq> present Ms h''" "set (ds @ es) \<subseteq> present Ms h''"
    using ms ns by auto
  with ms ns show ?thesis unfolding loads_def by (intro exI [of _ "ms @ ns"]) auto
qed

text \<open>The state in which the requirements of a module are evaluated.\<close>

definition module_start :: "config \<Rightarrow> (string \<rightharpoonup> string) \<Rightarrow> string \<Rightarrow> hostenv \<Rightarrow> hostenv" where
  "module_start cfg prefixes m h =
     startPackage m ((mark_loading m h)\<lparr>requests := requests h @ [module_uri cfg prefixes m],
       loadedUris := loadedUris h @ [module_uri cfg prefixes m]\<rparr>)"

lemma module_start_fields:
  assumes "well_named m"
  shows "loadedUris (module_start cfg prefixes m h) = loadedUris h @ [module_uri cfg prefixes m]"
    "requests (module_start cfg prefixes m h) = requests h @ [module_uri cfg prefixes m]"
    "loaded_modules (module_start cfg prefixes m h) = (loaded_modules h)(m \<mapsto> m)"
    "modulePrefixes (module_start cfg prefixes m h) = modulePrefixes h"
  using assms by (simp_all add: module_start_def startPackage_well_named)

lemma module_start_consistent:
  assumes "regular cfg prefixes files deps Ms" "consistent cfg prefixes Ms h" "m \<in> Ms"
  shows "consistent cfg prefixes Ms (module_start cfg prefixes m h)"
    and "present Ms (module_start cfg prefixes m h) = insert m (present Ms h)"
proof -
  have wn: "well_named m" using assms by (simp add: regular_def)
  have inj: "module_uri cfg prefixes k = module_uri cfg prefixes m \<longleftrightarrow> k = m" if "k \<in> Ms" for k
    using assms that by (auto simp: regular_def dest: inj_onD)
  show "consistent cfg prefixes Ms (module_start cfg prefixes m h)"
    using assms(2) inj by (auto simp: consistent_def module_start_fields [OF wn])
  show "present Ms (module_start cfg prefixes m h) = insert m (present Ms h)"
    using assms(3) by (auto simp: present_def module_start_fields [OF wn])
qed

lemma loads_module:
  assumes reg: "regular cfg prefixes files deps Ms" and m: "consistent cfg prefixes Ms h" "m \<in> Ms" "m \<notin> present Ms h"
    and "loads cfg prefixes deps Ms (module_start cfg prefixes m h) (deps m) h'"
  shows "loads cfg prefixes deps Ms h [m] h'"
proof -
  have wn: "well_named m" using reg m by (simp add: regular_def)
  note start = module_start_consistent [OF reg m(1,2)] module_start_fields [OF wn, of cfg prefixes h]
  obtain ms where ms: "consistent cfg prefixes Ms h'" "distinct ms" "set ms \<subseteq> Ms - insert m (present Ms h)"
    "present Ms h' = insert m (present Ms h) \<union> set ms"
    "loadedUris h' = loadedUris h @ map (module_uri cfg prefixes) (m # ms)"
    "requests h' = requests h @ map (module_uri cfg prefixes) (m # ms)"
    "set (deps m) \<subseteq> present Ms h'" "\<forall>x \<in> set ms. set (deps x) \<subseteq> present Ms h'" "set ms \<subseteq> (depends deps)\<^sup>* `` set (deps m)"
    using assms(5) unfolding loads_def start by auto
  have "(depends deps)\<^sup>* `` set (deps m) \<subseteq> (depends deps)\<^sup>* `` {m}"
    by (auto simp: depends_def intro: converse_rtrancl_into_rtrancl)
  then have "set (m # ms) \<subseteq> (depends deps)\<^sup>* `` set [m]" using ms(9) by auto
  with ms m show ?thesis unfolding loads_def by (intro exI [of _ "m # ms"]) auto
qed

lemma present_found:
  assumes "regular cfg prefixes files deps Ms" "consistent cfg prefixes Ms h" "m \<in> Ms"
  shows "findModule m h = (if m \<in> present Ms h then Some m else None)"
proof -
  have "\<not> inherited m" using assms by (simp add: regular_def)
  moreover have "loaded_modules h m = (if module_uri cfg prefixes m \<in> set (loadedUris h) then Some m else None)"
    using assms by (simp add: consistent_def)
  ultimately show ?thesis using assms(3) by (simp add: findModule_def present_def)
qed

lemma loadModule_loads:
  assumes reg: "regular cfg prefixes files deps Ms" and h: "consistent cfg prefixes Ms h" "m \<in> Ms"
    and rec: "m \<notin> present Ms h \<Longrightarrow> \<exists>h'. dj_eval cfg files n (map (\<lambda>d. Require d False False) (deps m)) (module_start cfg prefixes m h)
        = Some (Inr (), h') \<and> loads cfg prefixes deps Ms (module_start cfg prefixes m h) (deps m) h'"
  shows "\<exists>h'. loadModule cfg files (dj_eval cfg files n) m False False h = Some (Inr (Some m), h')
    \<and> loads cfg prefixes deps Ms h [m] h'"
proof (cases "m \<in> present Ms h")
  case True
  have "m \<noteq> []" using reg h well_named_nonempty by (auto simp: regular_def)
  then have "loadModule cfg files (dj_eval cfg files n) m False False h = Some (Inr (Some m), h)"
    using present_found [OF reg h] True by (simp add: loadModule_found)
  moreover have "loads cfg prefixes deps Ms h [m] h"
    using True h by (auto simp: loads_def intro!: exI [of _ "[]"])
  ultimately show ?thesis by blast
next
  case False
  let ?u = "module_uri cfg prefixes m"
  obtain h' where h': "dj_eval cfg files n (map (\<lambda>d. Require d False False) (deps m)) (module_start cfg prefixes m h) = Some (Inr (), h')"
    "loads cfg prefixes deps Ms (module_start cfg prefixes m h) (deps m) h'" using rec [OF False] by blast
  have all: "loads cfg prefixes deps Ms h [m] h'" by (rule loads_module [OF reg h False h'(2)])
  then have "consistent cfg prefixes Ms h'" "m \<in> present Ms h'" by (auto simp: loads_def)
  then have found: "findModule m h' = Some m" using present_found [OF reg _ h(2)] by auto
  have wn: "well_named m" and fu: "files ?u = Some (module_script deps m)"
    and om: "\<not> globalOmitModuleCheck cfg"
    and last: "last (getModuleSymbols m (hostenv_init\<lparr>modulePrefixes := prefixes\<rparr>)) \<noteq> ''*''"
    using reg h by (auto simp: regular_def)
  have P: "modulePrefixes h = prefixes" and u: "?u \<notin> set (loadedUris h)"
    using h False by (auto simp: consistent_def present_def split: if_splits)
  have "getModuleSymbols m h = getModuleSymbols m (hostenv_init\<lparr>modulePrefixes := prefixes\<rparr>)"
    by (rule getModuleSymbols_cong) (simp add: P)
  then have last': "last (getModuleSymbols m h) \<noteq> ''*''" using last by simp
  have "loadModule cfg files (dj_eval cfg files n) m False False h = Some (Inr (Some m), h')"
  proof (rule loadModule_direct [where u = ?u and cs = "module_script deps m" and r = "Inr ()"])
    show "dj_eval cfg files n (module_script deps m)
        ((mark_loading m h)\<lparr>requests := requests h @ [?u], loadedUris := loadedUris h @ [?u]\<rparr>) = Some (Inr (), h')"
      using h'(1) by (simp add: module_script_def module_start_def)
  qed (use wn om last' u fu found P present_found [OF reg h] False in simp_all)
  with all show ?thesis by blast
qed

lemma dj_eval_loads:
  assumes reg: "regular cfg prefixes files deps Ms"
  shows "consistent cfg prefixes Ms h \<Longrightarrow> set ds \<subseteq> Ms \<Longrightarrow> card (Ms - present Ms h) < n \<Longrightarrow>
    \<exists>h'. dj_eval cfg files n (map (\<lambda>d. Require d False False) ds) h = Some (Inr (), h') \<and> loads cfg prefixes deps Ms h ds h'"
proof (induction n arbitrary: ds h)
  case (Suc n)
  have fin: "finite Ms" using reg by (simp add: regular_def)
  show ?case using Suc.prems
  proof (induction ds arbitrary: h)
    case Nil
    then show ?case by (simp add: loads_Nil)
  next
    case (Cons d ds)
    have d: "d \<in> Ms" "set (deps d) \<subseteq> Ms" using Cons.prems reg by (auto simp: regular_def)
    have "\<exists>h'. loadModule cfg files (dj_eval cfg files n) d False False h = Some (Inr (Some d), h') \<and> loads cfg prefixes deps Ms h [d] h'"
    proof (rule loadModule_loads [OF reg Cons.prems(1) d(1)])
      assume new: "d \<notin> present Ms h"
      note start = module_start_consistent [OF reg Cons.prems(1) d(1)]
      have "card (Ms - insert d (present Ms h)) < card (Ms - present Ms h)"
        using fin new d by (intro psubset_card_mono) auto
      then have "card (Ms - present Ms (module_start cfg prefixes d h)) < n" using Cons.prems(3) start(2) by simp
      then show "\<exists>h'. dj_eval cfg files n (map (\<lambda>d. Require d False False) (deps d)) (module_start cfg prefixes d h) = Some (Inr (), h')
          \<and> loads cfg prefixes deps Ms (module_start cfg prefixes d h) (deps d) h'"
        using Suc.IH [OF start(1) d(2)] by blast
    qed
    then obtain h1 where h1: "loadModule cfg files (dj_eval cfg files n) d False False h = Some (Inr (Some d), h1)"
      "loads cfg prefixes deps Ms h [d] h1" by blast
    then have "consistent cfg prefixes Ms h1" "present Ms h \<subseteq> present Ms h1" by (auto simp: loads_def)
    moreover from this have "card (Ms - present Ms h1) < Suc n"
      using card_mono [of "Ms - present Ms h" "Ms - present Ms h1"] fin Cons.prems(3) by fastforce
    ultimately obtain h2 where "dj_eval cfg files (Suc n) (map (\<lambda>d. Require d False False) ds) h1 = Some (Inr (), h2)"
      "loads cfg prefixes deps Ms h1 ds h2" using Cons.IH [of h1] Cons.prems(2) by auto
    with h1 loads_append [OF h1(2)] show ?case by (intro exI [of _ h2]) fastforce
  qed
qed simp

text \<open>From an empty state the loaded modules are those that can be reached.\<close>

lemma loads_reachable:
  assumes "loads cfg prefixes deps Ms h [m] h'" "present Ms h = {}"
  shows "present Ms h' = (depends deps)\<^sup>* `` {m}"
proof
  show "present Ms h' \<subseteq> (depends deps)\<^sup>* `` {m}" using assms by (auto simp: loads_def)
  show "(depends deps)\<^sup>* `` {m} \<subseteq> present Ms h'"
  proof
    fix x assume "x \<in> (depends deps)\<^sup>* `` {m}"
    then have "(m, x) \<in> (depends deps)\<^sup>*" by simp
    then show "x \<in> present Ms h'"
    proof induction
      case base
      show ?case using assms by (auto simp: loads_def)
    next
      case (step y z)
      then show ?case using assms by (auto simp: loads_def depends_def)
    qed
  qed
qed

section \<open>Properties\<close>

text \<open>
  Claim C2. Requiring a module loads exactly the modules that it needs, directly or indirectly, also when the
  modules require each other in circles. In a regular collection, where each module has a file that provides it and
  then requires others, the call returns the module; the files of the reachable modules, and no others,
  are fetched and evaluated, each exactly once.
  The bound on the nesting of evaluations need not exceed the number of modules.
\<close>

theorem require_loads_reachable:
  assumes "regular cfg (modulePrefixes h) files deps Ms" "m \<in> Ms" "loaded_modules h = Map.empty"
    "loadedUris h = []" "requests h = []" "card Ms \<le> n"
  shows "\<exists>h' ms. require cfg files n m False False h = Some (Inr (Some m), h')
    \<and> {x \<in> Ms. findModule x h' \<noteq> None} = (depends deps)\<^sup>* `` {m}
    \<and> set ms = (depends deps)\<^sup>* `` {m} \<and> distinct ms
    \<and> loadedUris h' = map (module_uri cfg (modulePrefixes h)) ms
    \<and> requests h' = map (module_uri cfg (modulePrefixes h)) ms"
proof -
  let ?P = "modulePrefixes h"
  have con: "consistent cfg ?P Ms h" and none: "present Ms h = {}"
    using assms(3,4) by (auto simp: consistent_def present_def)
  have fin: "finite Ms" using assms(1) by (simp add: regular_def)
  have "\<exists>h'. loadModule cfg files (dj_eval cfg files n) m False False h = Some (Inr (Some m), h') \<and> loads cfg ?P deps Ms h [m] h'"
  proof (rule loadModule_loads [OF assms(1) con assms(2)])
    note start = module_start_consistent [OF assms(1) con assms(2)]
    have "card (Ms - {m}) < card Ms" using fin assms(2) by (intro psubset_card_mono) auto
    then have "card (Ms - present Ms (module_start cfg ?P m h)) < n" using start(2) none assms(6) by simp
    then show "\<exists>h'. dj_eval cfg files n (map (\<lambda>d. Require d False False) (deps m)) (module_start cfg ?P m h) = Some (Inr (), h')
        \<and> loads cfg ?P deps Ms (module_start cfg ?P m h) (deps m) h'"
      using dj_eval_loads [OF assms(1) start(1), of "deps m"] assms(1,2) by (auto simp: regular_def)
  qed
  then obtain h' where run: "require cfg files n m False False h = Some (Inr (Some m), h')"
    and l: "loads cfg ?P deps Ms h [m] h'" by (auto simp: require_def)
  then obtain ms where ms: "consistent cfg ?P Ms h'" "distinct ms" "present Ms h' = set ms"
    "loadedUris h' = map (module_uri cfg ?P) ms" "requests h' = map (module_uri cfg ?P) ms"
    using none assms(4,5) by (auto simp: loads_def)
  have "{x \<in> Ms. findModule x h' \<noteq> None} = present Ms h'"
    using present_found [OF assms(1) ms(1)] by (auto simp: present_def split: if_splits)
  with run ms loads_reachable [OF l none] show ?thesis by auto
qed

text \<open>Two modules that require each other.\<close>

definition example_config :: config where
  "example_config = \<lparr>baseScriptUri = ''/js/'', cacheBust = None, htmlCapable = True, globalOmitModuleCheck = False\<rparr>"

definition example_deps :: "string \<Rightarrow> string list" where
  "example_deps m = (if m = ''dojo.a'' then [''dojo.b''] else [''dojo.a'', ''dojo.b''])"

definition example_files :: "string \<rightharpoonup> script" where
  "example_files =
     [''/js/src/a.js'' \<mapsto> module_script example_deps ''dojo.a'', ''/js/src/b.js'' \<mapsto> module_script example_deps ''dojo.b'']"

lemma example_uris:
  "module_uri example_config (modulePrefixes hostenv_init) ''dojo.a'' = ''/js/src/a.js''"
  "module_uri example_config (modulePrefixes hostenv_init) ''dojo.b'' = ''/js/src/b.js''"
  by code_simp+

lemma example_names:
  "well_named ''dojo.a''" "well_named ''dojo.b''" "\<not> inherited ''dojo.a''" "\<not> inherited ''dojo.b''"
  "last (getModuleSymbols ''dojo.a'' (hostenv_init\<lparr>modulePrefixes := modulePrefixes hostenv_init\<rparr>)) \<noteq> ''*''"
  "last (getModuleSymbols ''dojo.b'' (hostenv_init\<lparr>modulePrefixes := modulePrefixes hostenv_init\<rparr>)) \<noteq> ''*''"
  by code_simp+

lemma example_regular:
  "regular example_config (modulePrefixes hostenv_init) example_files example_deps {''dojo.a'', ''dojo.b''}"
  unfolding regular_def
  using example_uris example_names
  by (simp add: example_files_def example_deps_def example_config_def)

theorem require_loads_reachable_witness:
  "\<exists>h'. require example_config example_files 2 ''dojo.a'' False False hostenv_init = Some (Inr (Some ''dojo.a''), h')"
  using require_loads_reachable [OF example_regular, of "''dojo.a''" 2]
  by (auto simp: hostenv_init_def)

text \<open>
  Claim C20. A requirement always ends, whatever the files contain and however they refer to each other: a bound on the
  nesting of evaluations equal to the number of files that are not loaded yet is enough. No script is evaluated
  twice, all evaluated scripts are files of the host, and if no error is raised, the package returned is
  registered under the name that was asked for (without the star, for a whole package).
\<close>

theorem require_ends:
  assumes "finite (dom files)" "distinct (loadedUris h)" "unloaded_files files h \<le> n"
    and "m \<noteq> []" "\<not> omit" "\<not> globalOmitModuleCheck cfg"
  shows "\<exists>r h'. require cfg files n m exactOnly omit h = Some (r, h')
    \<and> distinct (loadedUris h') \<and> set (loadedUris h') \<subseteq> set (loadedUris h) \<union> dom files
    \<and> (case r of Inl e \<Rightarrow> True
       | Inr x \<Rightarrow> \<exists>y. x = Some y \<and> (\<exists>nm \<in> {m, join_with ''.'' (butlast (split_on CHR ''.'' m))}. findModule nm h' = Some y))"
proof -
  obtain r h' where run: "require cfg files n m exactOnly omit h = Some (r, h')" and g: "grows files h h'"
    using require_returns [OF assms(1,3)] by blast
  have "distinct (loadedUris h') \<and> set (loadedUris h') \<subseteq> set (loadedUris h) \<union> dom files"
    using g assms(2) by (auto simp: grows_def)
  moreover have "case r of Inl e \<Rightarrow> True
       | Inr x \<Rightarrow> \<exists>y. x = Some y \<and> (\<exists>nm \<in> {m, join_with ''.'' (butlast (split_on CHR ''.'' m))}. findModule nm h' = Some y)"
    using run loadModule_defines [OF _ assms(4-6)] unfolding require_def by (cases r) auto
  ultimately show ?thesis using run by blast
qed

theorem require_ends_witness:
  "\<exists>r h'. require example_config example_files 2 ''dojo.b'' False False hostenv_init = Some (r, h') \<and> distinct (loadedUris h')"
proof -
  have fin: "dom example_files = {''/js/src/a.js'', ''/js/src/b.js''}" by (auto simp: example_files_def)
  then show ?thesis
    using require_ends [of example_files hostenv_init 2 "''dojo.b''" False example_config False]
    by (auto simp: unloaded_files_def hostenv_init_def example_config_def)
qed

text \<open>
  An error raised by the script of a module is lost: if the file of a module starts by providing it and the rest of
  the file raises, the requirement returns the module as if it had been loaded, although the comment of
  \<open>loadPath\<close> promises that the caller sees the error. In particular, a missing module that
  the file requires is not noticed, and the statements after that requirement are skipped.
\<close>

theorem require_swallows_errors:
  assumes "well_named m" "\<not> inherited m" "findModule m h = None" "\<not> globalOmitModuleCheck cfg"
    and "last (getModuleSymbols m h) \<noteq> ''*''"
    and "module_uri cfg (modulePrefixes h) m \<notin> set (loadedUris h)"
    and "files (module_uri cfg (modulePrefixes h) m) = Some (Provide m # cs)"
    and "dj_eval cfg files n cs (module_start cfg (modulePrefixes h) m h) = Some (Inl e, h')"
  shows "require cfg files n m exactOnly False h = Some (Inr (Some m), h')"
proof -
  have "keeps (module_start cfg (modulePrefixes h) m h) h'" using assms(8) by (rule registration.dj_eval_step)
  then have "loaded_modules h' m = Some m"
    using assms(1) by (simp add: keeps_def module_start_fields)
  then have found: "findModule m h' = Some m" by (simp add: findModule_def)
  show ?thesis unfolding require_def
    by (rule loadModule_direct [where u = "module_uri cfg (modulePrefixes h) m" and cs = "Provide m # cs" and r = "Inl e"])
      (use assms found in \<open>simp_all add: module_start_def\<close>)
qed

theorem require_swallows_errors_witness:
  "\<exists>h'. require example_config [''/js/src/a.js'' \<mapsto> [Provide ''dojo.a'', Fail ReferenceError]] 1 ''dojo.a'' False False hostenv_init
    = Some (Inr (Some ''dojo.a''), h')"
proof -
  have "findModule ''dojo.a'' hostenv_init = None" "last (getModuleSymbols ''dojo.a'' hostenv_init) \<noteq> ''*''" by code_simp+
  then show ?thesis
    using require_swallows_errors [of "''dojo.a''" hostenv_init example_config
        "[''/js/src/a.js'' \<mapsto> [Provide ''dojo.a'', Fail ReferenceError]]" "[Fail ReferenceError]" 1 ReferenceError]
      example_uris(1) example_names
    by (simp add: example_config_def hostenv_init_def)
qed

text \<open>The prefix of a module name that has a path of its own, if there is one; the longest is taken.\<close>

definition remapped :: "hostenv \<Rightarrow> string list \<Rightarrow> nat \<Rightarrow> bool" where
  "remapped h syms k \<longleftrightarrow> getModulePrefix (join_with ''.'' (take k syms)) h \<noteq> join_with ''.'' (take k syms)"

lemma symbols_loop_hit:
  assumes "k \<le> i" "0 < k" "remapped h syms k" "\<forall>j. k < j \<and> j \<le> i \<longrightarrow> \<not> remapped h syms j" "i \<le> length syms"
  shows "symbols_loop h syms i = getModulePrefix (join_with ''.'' (take k syms)) h # drop k syms"
  using assms
proof (induction i)
  case (Suc i)
  show ?case
  proof (cases "k = Suc i")
    case True
    with Suc.prems have hp: "moduleHasPrefix (join_with ''.'' (take (Suc i) syms)) h"
      by (auto simp: remapped_def getModulePrefix_def split: if_splits)
    have "js_splice syms 0 (1 + int i) [p] = p # drop (Suc i) syms" for p
      using Suc.prems(5) by (simp add: js_splice_def Let_def nat_add_distrib)
    with Suc.prems True hp show ?thesis by (simp add: Let_def remapped_def)
  next
    case False
    with Suc.prems have "\<not> remapped h syms (Suc i)" "i \<noteq> 0" by auto
    with Suc False show ?thesis by (simp add: Let_def remapped_def)
  qed
qed simp

lemma symbols_loop_miss:
  assumes "\<forall>j. 0 < j \<and> j \<le> i \<longrightarrow> \<not> remapped h syms j" "0 < i" "i \<le> length syms"
  shows "symbols_loop h syms i = (if moduleHasPrefix (syms ! 0) h then syms else (''../'' @ syms ! 0) # tl syms)"
  using assms
proof (induction i)
  case (Suc i)
  have nr: "\<not> remapped h syms (Suc i)" using Suc.prems by auto
  show ?case
  proof (cases "i = 0")
    case True
    then obtain x xs where "syms = x # xs" using Suc.prems by (cases syms) auto
    with nr True show ?thesis by (simp add: Let_def remapped_def)
  next
    case False
    with Suc nr show ?thesis by (simp add: Let_def remapped_def)
  qed
qed simp

text \<open>
  The path of a module is found from the longest leading part of its name for which a path was registered; the
  rest of the name follows as it is. If no part has a path, the module is looked for beside the toolkit, in the
  directory above.
\<close>

theorem module_symbols_longest_prefix:
  "(\<forall>k. 0 < k \<and> k \<le> length (split_on CHR ''.'' m) \<and> remapped h (split_on CHR ''.'' m) k
      \<and> (\<forall>j. k < j \<and> j \<le> length (split_on CHR ''.'' m) \<longrightarrow> \<not> remapped h (split_on CHR ''.'' m) j) \<longrightarrow>
      getModuleSymbols m h =
        getModulePrefix (join_with ''.'' (take k (split_on CHR ''.'' m))) h # drop k (split_on CHR ''.'' m))
   \<and> ((\<forall>k. 0 < k \<and> k \<le> length (split_on CHR ''.'' m) \<longrightarrow> \<not> remapped h (split_on CHR ''.'' m) k) \<longrightarrow>
      getModuleSymbols m h =
        (if moduleHasPrefix (split_on CHR ''.'' m ! 0) h then split_on CHR ''.'' m
         else (''../'' @ split_on CHR ''.'' m ! 0) # tl (split_on CHR ''.'' m)))"
proof -
  have "0 < length (split_on CHR ''.'' m)" by simp
  then show ?thesis
    using symbols_loop_hit [of _ "length (split_on CHR ''.'' m)" h "split_on CHR ''.'' m"]
      symbols_loop_miss [of "length (split_on CHR ''.'' m)" h "split_on CHR ''.'' m"]
    unfolding getModuleSymbols_def Let_def by blast
qed

theorem module_symbols_longest_prefix_witness:
  "getModuleSymbols ''acme.x'' hostenv_init = [''../acme'', ''x'']"
proof -
  have "split_on CHR ''.'' ''acme.x'' = [''acme'', ''x'']" by simp
  moreover have "\<not> remapped hostenv_init [''acme'', ''x''] k" if "0 < k" "k \<le> 2" for k
    using that by (cases k; cases "k - 1") (auto simp: remapped_def getModulePrefix_def moduleHasPrefix_def hostenv_init_def)
  ultimately show ?thesis
    using module_symbols_longest_prefix [of "''acme.x''" hostenv_init] by (simp add: moduleHasPrefix_def hostenv_init_def)
qed

section \<open>Listeners\<close>

primrec listener_id :: "listener \<Rightarrow> nat" where
  "listener_id (Listener i ls) = i"

primrec listener_adds :: "listener \<Rightarrow> listener list" where
  "listener_adds (Listener i ls) = ls"

lemma notify_loop_rounds: "notify_loop (ls @ ms) = map listener_id ls @ notify_loop (ms @ concat (map listener_adds ls))"
proof (induction ls arbitrary: ms)
  case (Cons l ls)
  then show ?case by (cases l) simp
qed simp

lemma addOnLoad_before:
  "\<not> post_load s \<Longrightarrow> fold addOnLoad ls s = s\<lparr>modulesLoadedListeners := modulesLoadedListeners s @ ls\<rparr>"
  by (induction ls arbitrary: s) (simp_all add: addOnLoad_def Let_def)

text \<open>
  Listeners for the end of loading are called when the modules have been loaded and not before: first those that were
  added until then, in the order in which they were added, then in the same way those that they add themselves
  while they run. Afterwards a new listener is called at once, and no listener is called again.
\<close>

theorem load_listeners:
  assumes "\<not> post_load s" "modulesLoadedListeners s = []" "inFlightCount s = 0" "pending s = 0"
  shows "calls (fold addOnLoad ls s) = calls s
    \<and> calls (modulesLoaded (fold addOnLoad ls s)) =
        calls s @ map listener_id ls @ notify_loop (concat (map listener_adds ls))
    \<and> modulesLoadedListeners (modulesLoaded (fold addOnLoad ls s)) = []
    \<and> modulesLoaded (modulesLoaded (fold addOnLoad ls s)) = modulesLoaded (fold addOnLoad ls s)
    \<and> calls (addOnLoad l (modulesLoaded (fold addOnLoad ls s))) =
        calls (modulesLoaded (fold addOnLoad ls s)) @ listener_id l # notify_loop (listener_adds l)
    \<and> modulesLoadedListeners (addOnLoad l (modulesLoaded (fold addOnLoad ls s))) = []"
  using assms notify_loop_rounds [of ls "[]"] notify_loop_rounds [of "[l]" "[]"]
  by (simp add: addOnLoad_before modulesLoaded_def loaded_def addOnLoad_def Let_def)

theorem load_listeners_witness:
  "calls (modulesLoaded (fold addOnLoad [Listener 1 [Listener 3 []], Listener 2 []]
     \<lparr>modulesLoadedListeners = [], unloadListeners = [], loadNotifying = False, post_load = False,
       inFlightCount = 0, pending = 0, calls = []\<rparr>)) = [1, 2, 3]"
  using load_listeners [of "\<lparr>modulesLoadedListeners = [], unloadListeners = [], loadNotifying = False, post_load = False,
       inFlightCount = 0, pending = 0, calls = []\<rparr>" "[Listener 1 [Listener 3 []], Listener 2 []]" "Listener 4 []"]
  by simp

end
