(* ===== verification/Localization.thy ===== *)
theory Localization
  imports Loader_Proofs
begin

text \<open>
  The localization of \<open>src/loader.js\<close> (\<open>normalizeLocale\<close>, \<open>searchLocalePath\<close>, \<open>requireLocalization\<close>) and
  \<open>src/i18n/common.js\<close> (\<open>getLocalization\<close>, \<open>isLTR\<close>). A bundle is an object with translations of its own and a
  prototype; the resource files of the host map names to texts. The locales of a build
  (\<open>preloadLocalizations\<close>) are not modelled: without a build the function does nothing.
\<close>

section \<open>Locales\<close>

definition normalizeLocale :: "string \<Rightarrow> string option \<Rightarrow> string" where
  "normalizeLocale dojo_locale locale =
     (let result = (case locale of Some l \<Rightarrow> if l = [] then dojo_locale else to_lower l | None \<Rightarrow> dojo_locale)
      in if result = ''root'' then ''ROOT'' else result)"

text \<open>The list that is searched; the empty string stands for \<open>false\<close>, which is treated in the same way.\<close>

definition searchlist :: "string \<Rightarrow> string list" where
  "searchlist locale =
     (let elements = split_on CHR ''-'' locale
      in map (\<lambda>i. join_with ''-'' (take i elements)) (rev [1..<Suc (length elements)]) @ [[]])"

fun search_loop :: "(string \<Rightarrow> 's \<Rightarrow> bool \<times> 's) \<Rightarrow> string list \<Rightarrow> 's \<Rightarrow> 's" where
  "search_loop searchFunc [] s = s"
| "search_loop searchFunc (x # xs) s =
     (case searchFunc (if x = [] then ''ROOT'' else x) s of
        (stop, s') \<Rightarrow> if stop then s' else search_loop searchFunc xs s')"

definition searchLocalePath :: "string \<Rightarrow> string option \<Rightarrow> bool \<Rightarrow> (string \<Rightarrow> 's \<Rightarrow> bool \<times> 's) \<Rightarrow> 's \<Rightarrow> 's" where
  "searchLocalePath dojo_locale locale down searchFunc s =
     (let sl = searchlist (normalizeLocale dojo_locale locale)
      in search_loop searchFunc (rev (if down then rev sl else sl)) s)"

section \<open>Bundles\<close>

datatype bundle_obj = Bundle "string \<rightharpoonup> string" "bundle_obj option"

primrec bundle_get :: "bundle_obj \<Rightarrow> string \<Rightarrow> string option" where
  "bundle_get (Bundle own proto) k =
     (case own k of Some v \<Rightarrow> Some v | None \<Rightarrow> (case map_option (\<lambda>p. bundle_get p k) proto of Some r \<Rightarrow> r | None \<Rightarrow> None))"

text \<open>
  The state of the loader, and the properties of the bundle objects: \<open>bundles p x\<close> is the property \<open>x\<close> of the
  bundle object of package \<open>p\<close>.
\<close>

record i18n =
  host :: hostenv
  bundles :: "string \<Rightarrow> string \<Rightarrow> bundle_obj option"

definition set_bundle :: "string \<Rightarrow> string \<Rightarrow> bundle_obj option \<Rightarrow> i18n \<Rightarrow> i18n" where
  "set_bundle p x b s = s\<lparr>bundles := (bundles s)(p := (bundles s p)(x := b))\<rparr>"

text \<open>\<open>loc.replace('-', '_')\<close> replaces the first occurrence.\<close>

fun js_locale :: "string \<Rightarrow> string" where
  "js_locale [] = []"
| "js_locale (c # s) = (if c = CHR ''-'' then CHR ''_'' # s else c # js_locale s)"

text \<open>
  \<open>loadPath\<close> with a callback: whether it succeeded, and the object passed to the callback if it was called.
\<close>

definition loadResource ::
  "config \<Rightarrow> (string \<rightharpoonup> (string \<rightharpoonup> string)) \<Rightarrow> string \<Rightarrow> hostenv \<Rightarrow> bool \<times> (string \<rightharpoonup> string) option \<times> hostenv" where
  "loadResource cfg resources relpath h =
     (let uri = path_uri cfg relpath
      in if uri \<in> set (loadedUris h) then (True, None, h)
         else let h = h\<lparr>requests := requests h @ [uri]\<rparr>
              in case resources uri of
                   None \<Rightarrow> (False, None, h)
                 | Some hash \<Rightarrow> (True, Some hash, h\<lparr>loadedUris := loadedUris h @ [uri]\<rparr>))"

text \<open>\<open>startPackage\<close> of a translation also creates an empty object for it in the bundle.\<close>

definition startTranslation :: "string \<Rightarrow> string \<Rightarrow> i18n \<Rightarrow> i18n" where
  "startTranslation bundlePackage jsLoc s =
     (let s = (if bundles s bundlePackage jsLoc = None then set_bundle bundlePackage jsLoc (Some (Bundle Map.empty None)) s else s)
      in s\<lparr>host := startPackage (bundlePackage @ ''.'' @ jsLoc) (host s)\<rparr>)"

definition resource_path :: "string \<Rightarrow> string \<Rightarrow> string \<Rightarrow> string" where
  "resource_path modpath bundleName loc =
     join_with ''/'' ([modpath] @ (if loc \<noteq> ''ROOT'' then [loc] else []) @ [bundleName]) @ ''.js''"

text \<open>The function passed to \<open>searchLocalePath\<close>; the variable \<open>parent\<close> is part of the state.\<close>

definition localize_step ::
  "config \<Rightarrow> (string \<rightharpoonup> (string \<rightharpoonup> string)) \<Rightarrow> string \<Rightarrow> string \<Rightarrow> string \<Rightarrow> bool \<Rightarrow> string
    \<Rightarrow> bundle_obj option \<times> i18n \<Rightarrow> bool \<times> bundle_obj option \<times> i18n" where
  "localize_step cfg resources bundlePackage modpath bundleName flat loc ps =
     (case ps of (parent, s) \<Rightarrow>
        let jsLoc = js_locale loc;
            (ok, s) =
              (if findModule (bundlePackage @ ''.'' @ jsLoc) (host s) = None
               then let s = startTranslation bundlePackage jsLoc s
                    in case loadResource cfg resources (resource_path modpath bundleName loc) (host s) of
                         (ok, hash, h) \<Rightarrow>
                           (let s = s\<lparr>host := h\<rparr>
                            in (ok, case hash of
                                  Some f \<Rightarrow> set_bundle bundlePackage jsLoc (Some (Bundle f parent)) s
                                | None \<Rightarrow> s))
               else (True, s))
        in if ok \<and> bundles s bundlePackage jsLoc \<noteq> None
           then (flat, bundles s bundlePackage jsLoc, s)
           else (flat, parent, set_bundle bundlePackage jsLoc parent s))"

definition best_locale :: "string \<Rightarrow> string list \<Rightarrow> string" where
  "best_locale targetLocale flatLocales =
     (let best = foldl (\<lambda>best l. if js_indexOf l targetLocale = 0 \<and> length l > length best then l else best) [] flatLocales
      in if best = [] then ''ROOT'' else best)"

text \<open>\<open>built\<close> tells whether the configuration is complete and the bundle comes from a build.\<close>

definition requireLocalization ::
  "string \<Rightarrow> config \<Rightarrow> (string \<rightharpoonup> (string \<rightharpoonup> string)) \<Rightarrow> bool \<Rightarrow> string \<Rightarrow> string \<Rightarrow> string option \<Rightarrow> string option \<Rightarrow> i18n \<Rightarrow> i18n" where
  "requireLocalization dojo_locale cfg resources built moduleName bundleName locale availableFlatLocales s =
     (let targetLocale = normalizeLocale dojo_locale locale;
          bundlePackage = join_with ''.'' [moduleName, ''nls'', bundleName];
          flat = (case availableFlatLocales of Some f \<Rightarrow> f \<noteq> [] | None \<Rightarrow> False);
          bestLocale = (if flat then best_locale targetLocale (split_on CHR '','' (the availableFlatLocales)) else []);
          tempLocale = (if flat then bestLocale else targetLocale);
          found = (findModule bundlePackage (host s) \<noteq> None)
      in if found \<and> built then s
         else let s = (if found \<and> findModule (bundlePackage @ ''.'' @ js_locale tempLocale) (host s) \<noteq> None then s
                       else let s = s\<lparr>host := startPackage bundlePackage (host s)\<rparr>;
                                modpath = join_with ''/'' (getModuleSymbols moduleName (host s) @ [''nls''])
                            in snd (searchLocalePath dojo_locale (Some tempLocale) flat
                                      (localize_step cfg resources bundlePackage modpath bundleName flat) (None, s)))
              in if flat \<and> targetLocale \<noteq> bestLocale
                 then set_bundle bundlePackage (js_locale targetLocale) (bundles s bundlePackage (js_locale bestLocale)) s
                 else s)"

text \<open>
  The function that replaces \<open>requireLocalization\<close> when \<open>djConfig.extraLocale\<close> is set. The test
  \<open>!extra instanceof Array\<close> is never true, so a string is not put into an array, and its characters are
  taken for locales.
\<close>

datatype extra_locale = Extras "string list" | ExtraString string

definition requireLocalization_extra ::
  "(string option \<Rightarrow> i18n \<Rightarrow> i18n) \<Rightarrow> extra_locale \<Rightarrow> string option \<Rightarrow> i18n \<Rightarrow> i18n" where
  "requireLocalization_extra req extra locale s =
     (let s = req locale s
      in case locale of
           Some l \<Rightarrow> if l \<noteq> [] then s else fold (\<lambda>l. req (Some l)) (case extra of Extras ls \<Rightarrow> ls | ExtraString str \<Rightarrow> map (\<lambda>c. [c]) str) s
         | None \<Rightarrow> fold (\<lambda>l. req (Some l)) (case extra of Extras ls \<Rightarrow> ls | ExtraString str \<Rightarrow> map (\<lambda>c. [c]) str) s)"

section \<open>Looking up a bundle\<close>

fun nearest_locale :: "(string \<Rightarrow> bundle_obj option) \<Rightarrow> string list \<Rightarrow> nat \<Rightarrow> bundle_obj option" where
  "nearest_locale b elements 0 = None"
| "nearest_locale b elements (Suc i) =
     (case b (join_with ''_'' (take (Suc i) elements)) of Some l \<Rightarrow> Some l | None \<Rightarrow> nearest_locale b elements i)"

definition getLocalization :: "string \<Rightarrow> string \<Rightarrow> string \<Rightarrow> string option \<Rightarrow> i18n \<Rightarrow> bundle_obj result" where
  "getLocalization dojo_locale packageName bundleName locale s =
     (let locale = normalizeLocale dojo_locale locale;
          elements = split_on CHR ''-'' locale;
          module = join_with ''.'' [packageName, ''nls'', bundleName]
      in rbind (findModule_mustExist module (host s)) (\<lambda>_.
           let localization = (case nearest_locale (bundles s module) elements (length elements) of
                                 Some l \<Rightarrow> Some l | None \<Rightarrow> bundles s module ''ROOT'')
           in case localization of
                Some l \<Rightarrow> Inr (Bundle Map.empty (Some l))
              | None \<Rightarrow> Inl (Raised (''Bundle not found: '' @ bundleName @ '' in '' @ packageName @ '' , locale='' @ locale))))"

definition isLTR :: "string \<Rightarrow> string option \<Rightarrow> bool" where
  "isLTR dojo_locale locale \<longleftrightarrow>
     (let lang = split_on CHR ''-'' (normalizeLocale dojo_locale locale) ! 0
      in \<not> (lang \<in> {''ar'', ''fa'', ''he'', ''ur'', ''yi''} \<or> inherited lang))"

end
