(* ===== verification/Localization_Proofs.thy ===== *)
theory Localization_Proofs
  imports Localization
begin

text \<open>
  Properties of \<open>Localization\<close>: which translations \<open>getLocalization\<close> finds after \<open>requireLocalization\<close>.
\<close>

section \<open>Locales and their parts\<close>

definition locale_char :: "char \<Rightarrow> bool" where
  "locale_char c \<longleftrightarrow> c \<in> set ''abcdefghijklmnopqrstuvwxyz0123456789-''"

text \<open>A locale as RFC 3066 has them, in lower case: non-empty parts of letters and digits, separated by hyphens.\<close>

definition plain_locale :: "string \<Rightarrow> bool" where
  "plain_locale l \<longleftrightarrow>
     list_all locale_char l \<and> [] \<notin> set (split_on CHR ''-'' l) \<and> hd (split_on CHR ''-'' l) \<noteq> ''root''"

text \<open>The locales from the most general one to \<open>l\<close>.\<close>

definition locale_path :: "string \<Rightarrow> string list" where
  "locale_path l =
     ''ROOT'' # map (\<lambda>i. join_with ''-'' (take i (split_on CHR ''-'' l))) [1..<Suc (length (split_on CHR ''-'' l))]"

lemma split_on_no_sep: "w \<in> set (split_on d s) \<Longrightarrow> d \<notin> set w"
  by (induction s arbitrary: w) (auto split: list.splits if_splits)

lemma split_join: "ws \<noteq> [] \<Longrightarrow> \<forall>w \<in> set ws. d \<notin> set w \<Longrightarrow> split_on d (join_with [d] ws) = ws"
  by (induction ws rule: induct_list012) (simp_all add: split_on_none split_on_append)

lemma split_on_snoc: "d \<notin> set t \<Longrightarrow> split_on d (s @ d # t) = split_on d s @ [t]"
proof (induction s)
  case (Cons c s)
  obtain w ws where "split_on d s = w # ws" using split_on_nonempty by (cases "split_on d s") auto
  with Cons show ?case by simp
qed (simp add: split_on_none)

lemma set_join: "set (join_with sep ws) \<subseteq> set sep \<union> \<Union> (set ` set ws)"
  by (induction ws rule: induct_list012) auto

lemma set_split: "w \<in> set (split_on d s) \<Longrightarrow> set w \<subseteq> set s"
proof (induction s arbitrary: w)
  case (Cons c s)
  obtain v vs where "split_on d s = v # vs" using split_on_nonempty by (cases "split_on d s") auto
  with Cons show ?case by (fastforce split: if_splits)
qed simp

lemma split_take:
  "0 < i \<Longrightarrow> split_on CHR ''-'' (join_with ''-'' (take i (split_on CHR ''-'' l))) = take i (split_on CHR ''-'' l)"
  by (rule split_join) (auto dest: in_set_takeD split_on_no_sep)

lemma plain_take:
  assumes "plain_locale l" "0 < i"
  shows "plain_locale (join_with ''-'' (take i (split_on CHR ''-'' l)))"
proof -
  let ?ws = "split_on CHR ''-'' l"
  have "set (join_with ''-'' (take i ?ws)) \<subseteq> insert CHR ''-'' (set l)"
    using set_join [of "''-''" "take i ?ws"] set_split [of _ "CHR ''-''" l] by (fastforce dest: in_set_takeD)
  moreover have "locale_char CHR ''-''" by (simp add: locale_char_def)
  ultimately have "list_all locale_char (join_with ''-'' (take i ?ws))"
    using assms(1) by (auto simp: plain_locale_def list_all_iff)
  then show ?thesis
    using assms by (auto simp: plain_locale_def split_take dest: in_set_takeD)
qed

lemma locale_path_elem:
  "x \<in> set (tl (locale_path l)) \<Longrightarrow>
   \<exists>i. 0 < i \<and> i \<le> length (split_on CHR ''-'' l) \<and> x = join_with ''-'' (take i (split_on CHR ''-'' l))"
proof -
  assume "x \<in> set (tl (locale_path l))"
  then obtain i where "x = join_with ''-'' (take i (split_on CHR ''-'' l))" "Suc 0 \<le> i" "i < Suc (length (split_on CHR ''-'' l))"
    by (auto simp: locale_path_def simp del: upt_Suc)
  then show ?thesis by (intro exI [of _ i]) simp
qed

lemma locale_path_self: "l \<in> set (locale_path l)"
proof -
  let ?n = "length (split_on CHR ''-'' l)"
  have "0 < ?n" by simp
  then have n: "?n \<in> {1..<Suc ?n}" by (simp only: atLeastLessThan_iff) linarith
  have eq: "l = join_with ''-'' (take ?n (split_on CHR ''-'' l))" by (simp add: join_split)
  from image_eqI [where f = "\<lambda>i. join_with ''-'' (take i (split_on CHR ''-'' l))", OF eq n]
  show ?thesis unfolding locale_path_def list.set list.set_map set_upt by (rule insertI2)
qed

lemma plain_path: "plain_locale l \<Longrightarrow> x \<in> set (locale_path l) \<Longrightarrow> x = ''ROOT'' \<or> plain_locale x"
  using locale_path_elem [of x l] plain_take [of l] by (auto simp: locale_path_def simp del: upt_Suc)

lemma locale_path_take:
  assumes "0 < i" "i \<le> length (split_on CHR ''-'' l)"
  shows "locale_path (join_with ''-'' (take i (split_on CHR ''-'' l))) = take (Suc i) (locale_path l)"
  using assms by (simp add: locale_path_def split_take take_map min_def)

lemma rev_searchlist: "rev (searchlist l) = [] # tl (locale_path l)"
  by (simp add: searchlist_def locale_path_def Let_def rev_map)

lemma locale_path_nonempty:
  assumes "plain_locale l" "x \<in> set (tl (locale_path l))"
  shows "x \<noteq> []"
proof
  assume "x = []"
  with locale_path_elem [OF assms(2)] obtain i where "0 < i" "join_with ''-'' (take i (split_on CHR ''-'' l)) = []"
    by metis
  with plain_take [OF assms(1)] have "plain_locale []" by metis
  then show False by (simp add: plain_locale_def)
qed

section \<open>Names of translations\<close>

lemma locale_char_lower: "locale_char c \<Longrightarrow> lower_char c = c"
  by (auto simp: locale_char_def lower_char_def)

lemma plain_normalize: "plain_locale l \<Longrightarrow> normalizeLocale d (Some l) = l"
proof -
  assume l: "plain_locale l"
  then have "to_lower l = l"
    by (auto simp: plain_locale_def to_lower_def list_all_iff locale_char_lower intro: map_idI)
  moreover have "l \<noteq> []" "l \<noteq> ''root''" using l by (auto simp: plain_locale_def)
  ultimately show ?thesis by (simp add: normalizeLocale_def)
qed

definition js_unlocale :: "string \<Rightarrow> string" where
  "js_unlocale s = map (\<lambda>c. if c = CHR ''_'' then CHR ''-'' else c) s"

lemma js_unlocale_js: "CHR ''_'' \<notin> set l \<Longrightarrow> js_unlocale (js_locale l) = l"
proof (induction l)
  case (Cons c l)
  have "map (\<lambda>c. if c = CHR ''_'' then CHR ''-'' else c) l = l" using Cons.prems by (intro map_idI) auto
  with Cons show ?case by (auto simp: js_unlocale_def)
qed (simp add: js_unlocale_def)

lemma plain_no_special:
  assumes "plain_locale l \<or> l = ''ROOT''"
  shows "CHR ''_'' \<notin> set l" "CHR ''.'' \<notin> set l" "CHR ''*'' \<notin> set l"
proof -
  have "\<not> locale_char CHR ''_''" "\<not> locale_char CHR ''.''" "\<not> locale_char CHR ''*''"
    by (simp_all add: locale_char_def)
  with assms show "CHR ''_'' \<notin> set l" "CHR ''.'' \<notin> set l" "CHR ''*'' \<notin> set l"
    unfolding plain_locale_def list_all_iff by auto
qed

lemma js_locale_inj:
  "plain_locale l \<or> l = ''ROOT'' \<Longrightarrow> plain_locale k \<or> k = ''ROOT'' \<Longrightarrow> js_locale l = js_locale k \<longleftrightarrow> l = k"
  using js_unlocale_js [OF plain_no_special(1)] by metis

lemma set_js_locale: "set (js_locale l) \<subseteq> insert CHR ''_'' (set l)"
  by (induction l) auto

lemma length_js_locale [simp]: "length (js_locale l) = length l"
  by (induction l) auto

lemma translation_well_named:
  assumes "plain_locale l \<or> l = ''ROOT''" "[] \<notin> set (split_on CHR ''.'' bp)"
  shows "well_named (bp @ ''.'' @ js_locale l)"
proof -
  have "CHR ''.'' \<notin> set (js_locale l)" "CHR ''*'' \<notin> set (js_locale l)"
    using set_js_locale [of l] plain_no_special [OF assms(1)] by auto
  moreover have "js_locale l \<noteq> []" using assms(1) by (cases l) (auto simp: plain_locale_def)
  ultimately show ?thesis using assms(2) by (auto simp: well_named_def split_on_snoc)
qed

lemma not_inherited_dot: "CHR ''.'' \<in> set m \<Longrightarrow> \<not> inherited m"
  by (auto simp: inherited_def proto_names_def)

section \<open>The files of a bundle\<close>

lemma has_scheme_slash: "has_scheme (p @ CHR ''/'' # x) = has_scheme (p @ CHR ''/'' # y)"
proof (cases "list_all is_word_char p")
  case True
  then have "takeWhile is_word_char (p @ CHR ''/'' # z) = p" for z
    by (simp add: list_all_iff takeWhile_append is_word_char_def)
  then show ?thesis by (simp add: has_scheme_def Let_def)
next
  case False
  let ?w = "takeWhile is_word_char p"
  have "\<exists>c \<in> set p. \<not> is_word_char c" using False by (auto simp: list_all_iff)
  then have tw: "takeWhile is_word_char (p @ z) = ?w" and "?w \<noteq> p" for z
    by (auto simp: takeWhile_append takeWhile_eq_all_conv)
  then have "length ?w \<noteq> length p" by (metis takeWhile_eq_take take_all order_refl)
  then have "length ?w < length p" using length_takeWhile_le [of is_word_char p] by simp
  then show ?thesis by (simp add: has_scheme_def Let_def tw)
qed

lemma path_uri_inj: "path_uri cfg (p @ CHR ''/'' # x) = path_uri cfg (p @ CHR ''/'' # y) \<longleftrightarrow> x = y"
  using has_scheme_slash [of p x y] by (cases p) (auto simp: path_uri_def Let_def split: option.splits)

definition resource_uri :: "config \<Rightarrow> string \<Rightarrow> string \<Rightarrow> string \<Rightarrow> string" where
  "resource_uri cfg modpath b loc = path_uri cfg (resource_path modpath b loc)"

lemma resource_uri_inj:
  assumes "loc \<noteq> []" "loc' \<noteq> []"
  shows "resource_uri cfg modpath b loc = resource_uri cfg modpath b loc' \<longleftrightarrow> loc = loc'"
proof -
  have "resource_path modpath b l = modpath @ CHR ''/'' # (if l = ''ROOT'' then b @ ''.js'' else l @ CHR ''/'' # b @ ''.js'')" for l
    by (simp add: resource_path_def)
  then show ?thesis
    using assms unfolding resource_uri_def by (auto simp: path_uri_inj dest: arg_cong [where f = length])
qed

text \<open>The object for a locale: the translations of its files, the more specific before the more general.\<close>

fun translation_chain :: "(string \<Rightarrow> (string \<rightharpoonup> string) option) \<Rightarrow> string list \<Rightarrow> bundle_obj option \<Rightarrow> bundle_obj option" where
  "translation_chain F [] parent = parent"
| "translation_chain F (l # ls) parent =
     translation_chain F ls (case F l of Some f \<Rightarrow> Some (Bundle f parent) | None \<Rightarrow> parent)"

definition translation :: "(string \<Rightarrow> (string \<rightharpoonup> string) option) \<Rightarrow> string \<Rightarrow> bundle_obj option" where
  "translation F l = translation_chain F (if l = ''ROOT'' then [''ROOT''] else locale_path l) None"

lemma translation_chain_append: "translation_chain F (xs @ ys) p = translation_chain F ys (translation_chain F xs p)"
  by (induction xs arbitrary: p) simp_all

lemma translation_chain_None: "translation_chain F ls p = None \<Longrightarrow> p = None"
  by (induction ls arbitrary: p) (auto split: option.splits)

definition bundle_lookup :: "bundle_obj option \<Rightarrow> string \<Rightarrow> string option" where
  "bundle_lookup b k = (case b of Some x \<Rightarrow> bundle_get x k | None \<Rightarrow> None)"

text \<open>The first of some files that has a translation.\<close>

fun first_translation :: "(string \<Rightarrow> (string \<rightharpoonup> string) option) \<Rightarrow> string list \<Rightarrow> string \<Rightarrow> string option" where
  "first_translation F [] k = None"
| "first_translation F (l # ls) k =
     (case F l of Some f \<Rightarrow> (case f k of Some v \<Rightarrow> Some v | None \<Rightarrow> first_translation F ls k) | None \<Rightarrow> first_translation F ls k)"

lemma lookup_chain: "bundle_lookup (translation_chain F ls None) k = first_translation F (rev ls) k"
proof (induction ls rule: rev_induct)
  case (snoc l ls)
  then show ?case
    by (auto simp: translation_chain_append bundle_lookup_def split: option.splits)
qed (simp add: bundle_lookup_def)

section \<open>What the loader keeps about a bundle\<close>

definition is_loc :: "string \<Rightarrow> bool" where
  "is_loc l \<longleftrightarrow> plain_locale l \<or> l = ''ROOT''"

lemma is_loc_nonempty: "is_loc l \<Longrightarrow> l \<noteq> []"
  by (auto simp: is_loc_def plain_locale_def)

text \<open>
  The state of a bundle: a locale that was not looked for has no object and its file was not loaded; a locale that was looked for has the
  object that its files determine; and there are no other objects.
\<close>

definition localized ::
  "config \<Rightarrow> (string \<rightharpoonup> (string \<rightharpoonup> string)) \<Rightarrow> string \<Rightarrow> string \<Rightarrow> string \<Rightarrow> i18n \<Rightarrow> bool" where
  "localized cfg resources bp modpath b s \<longleftrightarrow>
     (\<forall>l. is_loc l \<longrightarrow>
        (if loaded_modules (host s) (bp @ ''.'' @ js_locale l) = None
         then bundles s bp (js_locale l) = None \<and> resource_uri cfg modpath b l \<notin> set (loadedUris (host s))
         else bundles s bp (js_locale l) = translation (\<lambda>l. resources (resource_uri cfg modpath b l)) l)) \<and>
     (\<forall>x. (\<forall>l. is_loc l \<longrightarrow> x \<noteq> js_locale l) \<longrightarrow> bundles s bp x = None)"

lemma set_bundle_simps [simp]:
  "host (set_bundle p x v s) = host s"
  "bundles (set_bundle p x v s) q y = (if q = p \<and> y = x then v else bundles s q y)"
  by (simp_all add: set_bundle_def)

lemma findModule_translation:
  "findModule (bp @ ''.'' @ x) h = loaded_modules h (bp @ ''.'' @ x)"
  using not_inherited_dot [of "bp @ ''.'' @ x"] by (simp add: findModule_def split: option.split)

lemma localize_step_registered:
  assumes "localized cfg resources bp modpath b s" "is_loc l"
    and "loaded_modules (host s) (bp @ ''.'' @ js_locale l) \<noteq> None"
    and "translation (\<lambda>l. resources (resource_uri cfg modpath b l)) l =
      (case resources (resource_uri cfg modpath b l) of Some f \<Rightarrow> Some (Bundle f parent) | None \<Rightarrow> parent)"
  shows "localize_step cfg resources bp modpath b False l (parent, s) =
    (False, translation (\<lambda>l. resources (resource_uri cfg modpath b l)) l, s)"
proof -
  let ?t = "translation (\<lambda>l. resources (resource_uri cfg modpath b l)) l"
  have b: "bundles s bp (js_locale l) = ?t" using assms(1-3) by (auto simp: localized_def)
  obtain y where y: "loaded_modules (host s) (bp @ CHR ''.'' # js_locale l) = Some y" using assms(3) by auto
  show ?thesis
  proof (cases ?t)
    case None
    then have "parent = None" using assms(4) by (auto split: option.splits)
    moreover have "set_bundle bp (js_locale l) None s = s" using b None by (simp add: set_bundle_def fun_upd_idem)
    ultimately show ?thesis
      using y b None by (simp add: localize_step_def findModule_translation [simplified] Let_def)
  next
    case (Some t)
    then show ?thesis
      using y b by (simp add: localize_step_def findModule_translation [simplified] Let_def)
  qed
qed

text \<open>The state after a new locale was looked for.\<close>

definition localize_new ::
  "config \<Rightarrow> (string \<rightharpoonup> (string \<rightharpoonup> string)) \<Rightarrow> string \<Rightarrow> string \<Rightarrow> string \<Rightarrow> string \<Rightarrow> bundle_obj option \<Rightarrow> i18n \<Rightarrow> i18n" where
  "localize_new cfg resources bp modpath b l t s =
     (let u = resource_uri cfg modpath b l; h = startPackage (bp @ ''.'' @ js_locale l) (host s);
          h = h\<lparr>requests := requests h @ [u]\<rparr>
      in set_bundle bp (js_locale l) t
           (s\<lparr>host := (if resources u = None then h else h\<lparr>loadedUris := loadedUris h @ [u]\<rparr>)\<rparr>))"

lemma localize_step_new:
  assumes "localized cfg resources bp modpath b s" "is_loc l" "[] \<notin> set (split_on CHR ''.'' bp)"
    and "loaded_modules (host s) (bp @ ''.'' @ js_locale l) = None"
    and t: "t = (case resources (resource_uri cfg modpath b l) of Some f \<Rightarrow> Some (Bundle f parent) | None \<Rightarrow> parent)"
  shows "localize_step cfg resources bp modpath b False l (parent, s) = (False, t, localize_new cfg resources bp modpath b l t s)"
proof -
  have none: "bundles s bp (js_locale l) = None" "resource_uri cfg modpath b l \<notin> set (loadedUris (host s))"
    using assms(1,2,4) by (auto simp: localized_def)
  have wn: "well_named (bp @ ''.'' @ js_locale l)"
    using translation_well_named assms(2,3) by (simp add: is_loc_def)
  show ?thesis
    using none assms(4)
    by (auto simp: localize_step_def findModule_translation [simplified] Let_def startTranslation_def loadResource_def
        resource_uri_def [symmetric] startPackage_well_named [OF wn, simplified] localize_new_def t set_bundle_def fun_upd_twist
        split: option.splits)
qed

lemma localize_new_localized:
  assumes "localized cfg resources bp modpath b s" "is_loc l" "[] \<notin> set (split_on CHR ''.'' bp)"
    and "t = translation (\<lambda>l. resources (resource_uri cfg modpath b l)) l"
  shows "localized cfg resources bp modpath b (localize_new cfg resources bp modpath b l t s)"
    and "loaded_modules (host (localize_new cfg resources bp modpath b l t s)) =
      (loaded_modules (host s))(bp @ ''.'' @ js_locale l \<mapsto> bp @ ''.'' @ js_locale l)"
    and "modulePrefixes (host (localize_new cfg resources bp modpath b l t s)) = modulePrefixes (host s)"
proof -
  let ?n = "localize_new cfg resources bp modpath b l t s"
  let ?u = "resource_uri cfg modpath b l"
  have wn: "well_named (bp @ ''.'' @ js_locale l)"
    using translation_well_named assms(2,3) by (simp add: is_loc_def)
  note start = startPackage_well_named [OF wn]
  show lm: "loaded_modules (host ?n) = (loaded_modules (host s))(bp @ ''.'' @ js_locale l \<mapsto> bp @ ''.'' @ js_locale l)"
    and "modulePrefixes (host ?n) = modulePrefixes (host s)"
    by (simp_all only: localize_new_def Let_def start) simp_all
  have lu: "set (loadedUris (host ?n)) \<subseteq> insert ?u (set (loadedUris (host s)))"
    by (simp only: localize_new_def Let_def start) auto
  have bn: "bundles ?n bp x = (if x = js_locale l then t else bundles s bp x)" for x
    by (simp add: localize_new_def Let_def)
  have other: "js_locale k \<noteq> js_locale l" "resource_uri cfg modpath b k \<noteq> ?u" if "is_loc k" "k \<noteq> l" for k
    using that assms(2) js_locale_inj [of k l] resource_uri_inj [of k l] is_loc_nonempty by (auto simp: is_loc_def)
  show "localized cfg resources bp modpath b ?n"
    unfolding localized_def
  proof (intro conjI allI impI)
    fix k assume k: "is_loc k"
    show "if loaded_modules (host ?n) (bp @ ''.'' @ js_locale k) = None
         then bundles ?n bp (js_locale k) = None \<and> resource_uri cfg modpath b k \<notin> set (loadedUris (host ?n))
         else bundles ?n bp (js_locale k) = translation (\<lambda>l. resources (resource_uri cfg modpath b l)) k"
    proof (cases "k = l")
      case True
      then show ?thesis by (simp add: lm bn) (rule assms(4))
    next
      case False
      with k other [OF k False] lu show ?thesis
        using assms(1) unfolding localized_def by (auto simp: lm bn split: if_splits)
    qed
  next
    fix x assume "\<forall>l. is_loc l \<longrightarrow> x \<noteq> js_locale l"
    then show "bundles ?n bp x = None" using assms(1,2) by (simp add: bn localized_def)
  qed
qed

text \<open>One step of the search, from the object of the next more general locale.\<close>

lemma localize_step:
  assumes "localized cfg resources bp modpath b s" "is_loc l" "[] \<notin> set (split_on CHR ''.'' bp)"
    and t: "translation (\<lambda>l. resources (resource_uri cfg modpath b l)) l =
      (case resources (resource_uri cfg modpath b l) of Some f \<Rightarrow> Some (Bundle f parent) | None \<Rightarrow> parent)"
  shows "\<exists>s'. localize_step cfg resources bp modpath b False l (parent, s) =
      (False, translation (\<lambda>l. resources (resource_uri cfg modpath b l)) l, s')
    \<and> localized cfg resources bp modpath b s'
    \<and> loaded_modules (host s') (bp @ ''.'' @ js_locale l) \<noteq> None
    \<and> (\<forall>m. loaded_modules (host s) m \<noteq> None \<longrightarrow> loaded_modules (host s') m \<noteq> None)"
proof (cases "loaded_modules (host s) (bp @ ''.'' @ js_locale l) = None")
  case True
  show ?thesis
    using localize_step_new [OF assms(1-3) True t] localize_new_localized [OF assms(1-3) refl] by auto
next
  case False
  then show ?thesis using localize_step_registered [OF assms(1,2) False t] assms(1) by blast
qed

lemma translation_ROOT: "translation F ''ROOT'' = (case F ''ROOT'' of Some f \<Rightarrow> Some (Bundle f None) | None \<Rightarrow> None)"
  by (simp add: translation_def)

lemma translation_path:
  assumes "plain_locale l" "locale_path l = xs @ x # ys" "xs \<noteq> []"
  shows "translation F x = (case F x of Some f \<Rightarrow> Some (Bundle f (translation_chain F xs None)) | None \<Rightarrow> translation_chain F xs None)"
    and "is_loc x"
proof -
  let ?els = "split_on CHR ''-'' l"
  let ?i = "length xs"
  have len: "0 < ?i" "?i \<le> length ?els"
    using assms(3) arg_cong [OF assms(2), of length] by (simp_all add: locale_path_def del: upt_Suc)
  have "x = locale_path l ! ?i" using assms(2) by simp
  also have "\<dots> = join_with ''-'' (take ?i ?els)"
    using len by (cases ?i) (simp_all add: locale_path_def del: upt_Suc)
  finally have x: "x = join_with ''-'' (take ?i ?els)" .
  have "locale_path x = xs @ [x]"
    using locale_path_take [OF len] assms(2) unfolding x [symmetric] by simp
  moreover have "plain_locale x" unfolding x by (rule plain_take [OF assms(1) len(1)])
  moreover from this have "x \<noteq> ''ROOT''" by (auto simp: plain_locale_def locale_char_def)
  ultimately show "translation F x = (case F x of Some f \<Rightarrow> Some (Bundle f (translation_chain F xs None)) | None \<Rightarrow> translation_chain F xs None)"
    and "is_loc x"
    by (simp_all add: translation_def translation_chain_append is_loc_def)
qed

lemma localize_loop:
  assumes "plain_locale l" "[] \<notin> set (split_on CHR ''.'' bp)" "locale_path l = xs @ ys"
    and "localized cfg resources bp modpath b s"
    and "\<forall>x \<in> set xs. loaded_modules (host s) (bp @ ''.'' @ js_locale x) \<noteq> None"
  shows "\<exists>s'. search_loop (localize_step cfg resources bp modpath b False) ys
        (translation_chain (\<lambda>l. resources (resource_uri cfg modpath b l)) xs None, s) =
      (translation_chain (\<lambda>l. resources (resource_uri cfg modpath b l)) (locale_path l) None, s')
    \<and> localized cfg resources bp modpath b s'
    \<and> (\<forall>x \<in> set (locale_path l). loaded_modules (host s') (bp @ ''.'' @ js_locale x) \<noteq> None)
    \<and> (\<forall>m. loaded_modules (host s) m \<noteq> None \<longrightarrow> loaded_modules (host s') m \<noteq> None)"
  using assms(3-5)
proof (induction ys arbitrary: xs s)
  case Nil
  then show ?case by (intro exI [of _ s]) simp
next
  case (Cons y ys)
  let ?F = "\<lambda>l. resources (resource_uri cfg modpath b l)"
  have step: "translation ?F y = (case ?F y of Some f \<Rightarrow> Some (Bundle f (translation_chain ?F xs None)) | None \<Rightarrow> translation_chain ?F xs None)
      \<and> is_loc y"
  proof (cases "xs = []")
    case True
    then have "y = ''ROOT''" using Cons.prems(1) by (simp add: locale_path_def del: upt_Suc)
    then show ?thesis unfolding True translation_chain.simps by (simp add: translation_ROOT is_loc_def)
  next
    case False
    then show ?thesis using translation_path [OF assms(1) Cons.prems(1) False] by blast
  qed
  then obtain s1 where s1: "localize_step cfg resources bp modpath b False y (translation_chain ?F xs None, s) = (False, translation ?F y, s1)"
    "localized cfg resources bp modpath b s1" "loaded_modules (host s1) (bp @ ''.'' @ js_locale y) \<noteq> None"
    "\<forall>m. loaded_modules (host s) m \<noteq> None \<longrightarrow> loaded_modules (host s1) m \<noteq> None"
    using localize_step [OF Cons.prems(2) _ assms(2)] by blast
  have chain: "translation ?F y = translation_chain ?F (xs @ [y]) None"
    using step by (simp add: translation_chain_append)
  have "\<forall>x \<in> set (xs @ [y]). loaded_modules (host s1) (bp @ ''.'' @ js_locale x) \<noteq> None"
    using s1(3,4) Cons.prems(3) by auto
  then obtain s' where "search_loop (localize_step cfg resources bp modpath b False) ys (translation_chain ?F (xs @ [y]) None, s1) =
      (translation_chain ?F (locale_path l) None, s')"
    "localized cfg resources bp modpath b s'"
    "\<forall>x \<in> set (locale_path l). loaded_modules (host s') (bp @ ''.'' @ js_locale x) \<noteq> None"
    "\<forall>m. loaded_modules (host s1) m \<noteq> None \<longrightarrow> loaded_modules (host s') m \<noteq> None"
    using Cons.IH [of "xs @ [y]" s1] Cons.prems(1) s1(2) by auto
  moreover have "y \<noteq> []" using step is_loc_nonempty by blast
  ultimately show ?case using s1 chain by (intro exI [of _ s']) simp
qed

lemma search_path: "search_loop f (rev (searchlist l)) s = search_loop f (locale_path l) s"
  unfolding rev_searchlist by (simp add: locale_path_def del: upt_Suc)

lemma localize_search:
  assumes "plain_locale l" "[] \<notin> set (split_on CHR ''.'' bp)" "localized cfg resources bp modpath b s"
  shows "\<exists>s'. snd (searchLocalePath d (Some l) False (localize_step cfg resources bp modpath b False) (None, s)) = s'
    \<and> localized cfg resources bp modpath b s'
    \<and> (\<forall>x \<in> set (locale_path l). loaded_modules (host s') (bp @ ''.'' @ js_locale x) \<noteq> None)
    \<and> (\<forall>m. loaded_modules (host s) m \<noteq> None \<longrightarrow> loaded_modules (host s') m \<noteq> None)"
proof -
  show ?thesis
    using localize_loop [OF assms(1,2) _ assms(3), of "[]" "locale_path l"]
    by (auto simp: searchLocalePath_def plain_normalize [OF assms(1)] search_path)
qed

text \<open>The bundle that a call of \<open>requireLocalization\<close> without a build works on, and the directory of its files.\<close>

definition bundle_package :: "string \<Rightarrow> string \<Rightarrow> string" where
  "bundle_package m b = join_with ''.'' [m, ''nls'', b]"

definition bundle_dir :: "string \<Rightarrow> hostenv \<Rightarrow> string" where
  "bundle_dir m h = join_with ''/'' (getModuleSymbols m h @ [''nls''])"

lemma requireLocalization_plain:
  assumes "plain_locale l" "[] \<notin> set (split_on CHR ''.'' (bundle_package m b))" "b \<noteq> ''*''" "CHR ''.'' \<notin> set b"
    and loc: "localized cfg resources (bundle_package m b) (bundle_dir m (host s)) b s"
  shows "\<exists>s'. requireLocalization d cfg resources False m b (Some l) None s = s'
    \<and> localized cfg resources (bundle_package m b) (bundle_dir m (host s)) b s'
    \<and> loaded_modules (host s') (bundle_package m b @ ''.'' @ js_locale l) \<noteq> None
    \<and> findModule (bundle_package m b) (host s') \<noteq> None
    \<and> (findModule (bundle_package m b) (host s) = None \<longrightarrow>
        (\<forall>x \<in> set (locale_path l). loaded_modules (host s') (bundle_package m b @ ''.'' @ js_locale x) \<noteq> None))"
proof -
  let ?bp = "bundle_package m b"
  have bp: "?bp = (m @ ''.nls'') @ CHR ''.'' # b" by (simp add: bundle_package_def)
  have wn: "well_named ?bp"
    using assms(2-4) unfolding well_named_def by (simp add: bp split_on_snoc del: append_assoc)
  let ?s1 = "s\<lparr>host := startPackage ?bp (host s)\<rparr>"
  have "?bp \<noteq> ?bp @ ''.'' @ x" for x by simp
  then have loc1: "localized cfg resources ?bp (bundle_dir m (host s)) b ?s1"
    using loc unfolding localized_def startPackage_well_named [OF wn] by (simp del: append_Cons)
  have dir: "bundle_dir m (startPackage ?bp (host s)) = bundle_dir m (host s)"
  proof -
    have "getModuleSymbols m (startPackage ?bp (host s)) = getModuleSymbols m (host s)"
      by (rule getModuleSymbols_cong) (simp add: startPackage_well_named [OF wn])
    then show ?thesis by (simp only: bundle_dir_def)
  qed
  have last: "l \<in> set (locale_path l)" by (rule locale_path_self)
  have found1: "loaded_modules (host ?s1) ?bp \<noteq> None" by (simp add: startPackage_well_named [OF wn])
  obtain s' where s': "snd (searchLocalePath d (Some l) False (localize_step cfg resources ?bp (bundle_dir m (host s)) b False) (None, ?s1)) = s'"
    "localized cfg resources ?bp (bundle_dir m (host s)) b s'"
    "\<forall>x \<in> set (locale_path l). loaded_modules (host s') (?bp @ ''.'' @ js_locale x) \<noteq> None"
    "\<forall>k. loaded_modules (host ?s1) k \<noteq> None \<longrightarrow> loaded_modules (host s') k \<noteq> None"
    using localize_search [OF assms(1,2) loc1] by blast
  have found': "findModule ?bp (host s') \<noteq> None" using s'(4) found1 by (auto simp: findModule_def split: option.splits)
  have req: "requireLocalization d cfg resources False m b (Some l) None s =
      (if findModule ?bp (host s) \<noteq> None \<and> findModule (?bp @ ''.'' @ js_locale l) (host s) \<noteq> None then s else s')"
    unfolding requireLocalization_def Let_def bundle_package_def [symmetric] bundle_dir_def [symmetric]
    using s'(1) dir by (simp add: plain_normalize [OF assms(1)])
  show ?thesis
    unfolding req using s' loc found' last by (auto simp: findModule_translation [simplified])
qed

section \<open>Finding the translations\<close>

lemma js_locale_two:
  assumes "0 < i" "i \<le> 2"
  shows "join_with ''_'' (take i (split_on CHR ''-'' l)) = js_locale (join_with ''-'' (take i (split_on CHR ''-'' l)))"
proof -
  have js: "js_locale w = w" "js_locale (w @ CHR ''-'' # v) = w @ CHR ''_'' # v" if "CHR ''-'' \<notin> set w" for w v
    using that by (induction w) auto
  have no: "\<forall>w \<in> set (take i (split_on CHR ''-'' l)). CHR ''-'' \<notin> set w" "length (take i (split_on CHR ''-'' l)) \<le> 2"
    using assms by (auto dest: in_set_takeD split_on_no_sep)
  then show ?thesis using js by (cases "take i (split_on CHR ''-'' l)" rule: remdups_adj.cases) (auto simp: Suc_le_eq)
qed

text \<open>Names with two underscores are not names of translations.\<close>

lemma underscores_js: "is_loc l \<Longrightarrow> length (filter (\<lambda>c. c = CHR ''_'') (js_locale l)) \<le> 1"
proof -
  have "CHR ''_'' \<notin> set l \<Longrightarrow> length (filter (\<lambda>c. c = CHR ''_'') (js_locale l)) \<le> 1"
  proof (induction l)
    case (Cons c l)
    then have "filter (\<lambda>c. c = CHR ''_'') l = []" by (auto simp: filter_empty_conv)
    with Cons show ?case by auto
  qed simp
  then show "is_loc l \<Longrightarrow> ?thesis" using plain_no_special(1) by (simp add: is_loc_def)
qed

lemma underscores_join: "length ws \<le> Suc (length (filter (\<lambda>c. c = CHR ''_'') (join_with ''_'' ws)))"
  by (induction ws rule: induct_list012) auto

lemma three_parts_absent:
  assumes "localized cfg resources bp modpath b s" "3 \<le> i" "i \<le> length els"
  shows "bundles s bp (join_with ''_'' (take i els)) = None"
proof -
  have "2 \<le> length (filter (\<lambda>c. c = CHR ''_'') (join_with ''_'' (take i els)))"
    using underscores_join [of "take i els"] assms(2,3) by simp
  then have "\<forall>l. is_loc l \<longrightarrow> join_with ''_'' (take i els) \<noteq> js_locale l" using underscores_js by fastforce
  then show ?thesis using assms(1) unfolding localized_def by blast
qed

lemma general_absent:
  assumes "plain_locale l" "x \<in> set (locale_path l)" "localized cfg resources bp modpath b s"
    and "translation (\<lambda>l. resources (resource_uri cfg modpath b l)) l = None"
  shows "bundles s bp (js_locale x) = None"
proof -
  let ?F = "\<lambda>l. resources (resource_uri cfg modpath b l)"
  obtain xs ys where split: "locale_path l = xs @ x # ys" using assms(2) by (auto simp: in_set_conv_decomp)
  have "l \<noteq> ''ROOT''" using assms(1) by (auto simp: plain_locale_def locale_char_def)
  then have "translation_chain ?F ((xs @ [x]) @ ys) None = None" using assms(4) split by (simp add: translation_def)
  then have none: "translation_chain ?F (xs @ [x]) None = None"
    unfolding translation_chain_append [of _ "xs @ [x]"] by (rule translation_chain_None)
  have "translation ?F x = translation_chain ?F (xs @ [x]) None \<and> is_loc x"
  proof (cases "xs = []")
    case True
    then have "x = ''ROOT''" using split by (simp add: locale_path_def del: upt_Suc)
    then show ?thesis unfolding True by (simp add: translation_def is_loc_def)
  next
    case False
    then show ?thesis using translation_path [OF assms(1) split False] by (simp add: translation_chain_append)
  qed
  with none assms(3) show ?thesis unfolding localized_def by (auto split: if_splits)
qed

lemma nearest_skip:
  "(\<And>i. k < i \<Longrightarrow> i \<le> n \<Longrightarrow> f (join_with ''_'' (take i els)) = None) \<Longrightarrow> k \<le> n \<Longrightarrow> nearest_locale f els n = nearest_locale f els k"
proof (induction n)
  case (Suc n)
  show ?case
  proof (cases "k = Suc n")
    case False
    then have "k \<le> n" using Suc.prems(2) by simp
    moreover have "f (join_with ''_'' (take (Suc n) els)) = None" using Suc.prems False by simp
    ultimately show ?thesis using Suc.IH Suc.prems(1) by simp
  qed simp
qed simp

lemma nearest_none: "(\<And>i. 0 < i \<Longrightarrow> i \<le> n \<Longrightarrow> f (join_with ''_'' (take i els)) = None) \<Longrightarrow> nearest_locale f els n = None"
  using nearest_skip [of 0 n f els] by simp

lemma getLocalization_two_parts:
  fixes l :: string
  defines "els \<equiv> split_on CHR ''-'' l"
  defines "l2 \<equiv> join_with ''-'' (take 2 els)"
  assumes plain: "plain_locale l" and loc: "localized cfg resources (bundle_package m b) modpath b s"
    and found: "findModule (bundle_package m b) (host s) \<noteq> None"
    and l2: "loaded_modules (host s) (bundle_package m b @ ''.'' @ js_locale l2) \<noteq> None"
  shows "getLocalization d m b (Some l) s =
    (case translation (\<lambda>l. resources (resource_uri cfg modpath b l)) l2 of
       Some t \<Rightarrow> Inr (Bundle Map.empty (Some t))
     | None \<Rightarrow> Inl (Raised (''Bundle not found: '' @ b @ '' in '' @ m @ '' , locale='' @ l)))"
proof -
  let ?bp = "bundle_package m b" and ?t = "translation (\<lambda>l. resources (resource_uri cfg modpath b l)) l2"
  let ?f = "bundles s ?bp" and ?n = "length els"
  have p2: "plain_locale l2" unfolding l2_def els_def by (rule plain_take [OF plain]) simp
  then have b2: "?f (js_locale l2) = ?t" using loc l2 by (auto simp: localized_def is_loc_def)
  let ?k = "min 2 ?n"
  have k: "0 < ?k" "?k \<le> ?n" by (simp_all add: els_def)
  have "take 2 els = take ?k els" by (simp add: min_def)
  then have js2: "join_with ''_'' (take ?k els) = js_locale l2"
    unfolding l2_def els_def using js_locale_two [of ?k l] k by (simp add: els_def)
  have skip: "nearest_locale ?f els ?n = nearest_locale ?f els ?k"
    by (rule nearest_skip) (use three_parts_absent [OF loc] k(2) in auto)
  have path2: "join_with ''-'' (take i els) \<in> set (locale_path l2)" if "0 < i" "i \<le> ?k" for i
  proof -
    have "split_on CHR ''-'' l2 = take 2 els" unfolding l2_def els_def by (rule split_take) simp
    then have "i \<in> {1..<Suc (length (split_on CHR ''-'' l2))}" "take i (split_on CHR ''-'' l2) = take i els" using that by auto
    then show ?thesis unfolding locale_path_def list.set list.set_map set_upt by (metis image_eqI insertI2)
  qed
  have near: "(case nearest_locale ?f els ?n of Some x \<Rightarrow> Some x | None \<Rightarrow> ?f ''ROOT'') = ?t"
  proof (cases ?t)
    case (Some t)
    obtain j where "?k = Suc j" using k by (cases ?k) auto
    then show ?thesis using Some b2 js2 by (simp add: skip)
  next
    case None
    note absent = general_absent [OF p2 _ loc None]
    have "nearest_locale ?f els ?k = None"
    proof (rule nearest_none)
      fix i assume i: "0 < i" "i \<le> ?k"
      then have "i \<le> 2" by simp
      with i show "?f (join_with ''_'' (take i els)) = None"
        using absent [OF path2 [OF i]] js_locale_two [of i l] by (simp add: els_def)
    qed
    moreover have "?f ''ROOT'' = None" using absent [of "''ROOT''"] by (simp add: locale_path_def del: upt_Suc)
    ultimately show ?thesis using None by (simp add: skip)
  qed
  obtain y where "findModule ?bp (host s) = Some y" using found by blast
  then show ?thesis
    unfolding getLocalization_def Let_def plain_normalize [OF plain] bundle_package_def [symmetric] els_def [symmetric] near
    by (simp add: findModule_mustExist_def)
qed

lemma localized_fresh:
  assumes "loaded_modules (host s) = Map.empty" "loadedUris (host s) = []" "bundles s bp = Map.empty"
  shows "localized cfg resources bp modpath b s"
  using assms by (simp add: localized_def)

lemma bundle_get_wrapper: "bundle_get (Bundle Map.empty (Some t)) k = bundle_lookup (Some t) k"
  by (simp add: bundle_lookup_def)

lemma chain_exists: "translation_chain F ls p = None \<longleftrightarrow> p = None \<and> (\<forall>x \<in> set ls. F x = None)"
  by (induction ls arbitrary: p) (auto split: option.splits)

lemma translation_plain: "plain_locale l \<Longrightarrow> translation F l = translation_chain F (locale_path l) None"
  by (auto simp: translation_def plain_locale_def locale_char_def)

section \<open>Properties\<close>

text \<open>
  Claim C8. After \<open>requireLocalization\<close> for a locale of at most two parts and a bundle that is loaded from its files, not from a build, \<open>getLocalization\<close> returns an object in which every name
  has the translation of the most specific file that has one: the file of the locale itself, then that of
  its language, then the default. It raises an error exactly if there is none of these files. This
  holds for a new bundle and after any earlier calls for such locales, and the state of the bundle stays as it should be.
\<close>

theorem localization_cascade:
  assumes "plain_locale l" "length (split_on CHR ''-'' l) \<le> 2"
    and "[] \<notin> set (split_on CHR ''.'' (bundle_package m b))" "b \<noteq> ''*''" "CHR ''.'' \<notin> set b"
    and "localized cfg resources (bundle_package m b) (bundle_dir m (host s)) b s"
  shows "\<exists>s'. requireLocalization d cfg resources False m b (Some l) None s = s'
    \<and> localized cfg resources (bundle_package m b) (bundle_dir m (host s)) b s'
    \<and> (if \<forall>x \<in> set (locale_path l). resources (resource_uri cfg (bundle_dir m (host s)) b x) = None
       then getLocalization d m b (Some l) s' = Inl (Raised (''Bundle not found: '' @ b @ '' in '' @ m @ '' , locale='' @ l))
       else \<exists>t. getLocalization d m b (Some l) s' = Inr t
         \<and> (\<forall>k. bundle_get t k = first_translation (\<lambda>x. resources (resource_uri cfg (bundle_dir m (host s)) b x)) (rev (locale_path l)) k))"
proof -
  let ?F = "\<lambda>x. resources (resource_uri cfg (bundle_dir m (host s)) b x)"
  obtain s' where s': "requireLocalization d cfg resources False m b (Some l) None s = s'"
    "localized cfg resources (bundle_package m b) (bundle_dir m (host s)) b s'"
    "loaded_modules (host s') (bundle_package m b @ ''.'' @ js_locale l) \<noteq> None"
    "findModule (bundle_package m b) (host s') \<noteq> None"
    using requireLocalization_plain [OF assms(1,3-6)] by blast
  have l2: "join_with ''-'' (take 2 (split_on CHR ''-'' l)) = l" using assms(2) by (simp add: join_split)
  have get: "getLocalization d m b (Some l) s' =
      (case translation ?F l of Some t \<Rightarrow> Inr (Bundle Map.empty (Some t))
       | None \<Rightarrow> Inl (Raised (''Bundle not found: '' @ b @ '' in '' @ m @ '' , locale='' @ l)))"
    using getLocalization_two_parts [OF assms(1) s'(2,4), unfolded l2] s'(3) by simp
  show ?thesis
  proof (cases "translation ?F l")
    case None
    then have "\<forall>x \<in> set (locale_path l). ?F x = None" by (simp add: translation_plain [OF assms(1)] chain_exists)
    then show ?thesis using s' get None by auto
  next
    case (Some t)
    then have chain: "translation_chain ?F (locale_path l) None = Some t" by (simp add: translation_plain [OF assms(1)])
    then have "\<not> (\<forall>x \<in> set (locale_path l). ?F x = None)" using chain_exists [of ?F "locale_path l" None] by simp
    moreover have "bundle_get (Bundle Map.empty (Some t)) k = first_translation ?F (rev (locale_path l)) k" for k
      unfolding bundle_get_wrapper using lookup_chain [of ?F "locale_path l" k] chain by simp
    ultimately show ?thesis using s'(1,2) get Some by auto
  qed
qed

definition example_i18n :: i18n where
  "example_i18n = \<lparr>host = hostenv_init, bundles = (\<lambda>p. Map.empty)\<rparr>"

definition example_resources :: "string \<rightharpoonup> (string \<rightharpoonup> string)" where
  "example_resources =
     [''/js/src/nls/b.js'' \<mapsto> [''x'' \<mapsto> ''color'', ''y'' \<mapsto> ''yes''],
      ''/js/src/nls/en-gb/b.js'' \<mapsto> [''x'' \<mapsto> ''colour''],
      ''/js/src/nls/en-gb-oed/b.js'' \<mapsto> [''x'' \<mapsto> ''COLOUR'']]"

lemma example_locale:
  "plain_locale ''en-gb''" "plain_locale ''en-gb-oed''" "[] \<notin> set (split_on CHR ''.'' (bundle_package ''dojo'' ''b''))"
  "localized example_config example_resources (bundle_package ''dojo'' ''b'') (bundle_dir ''dojo'' (host example_i18n)) ''b'' example_i18n"
  "locale_path ''en-gb'' = [''ROOT'', ''en'', ''en-gb'']"
  "bundle_dir ''dojo'' (host example_i18n) = ''src/nls''"
proof -
  show "plain_locale ''en-gb''" "plain_locale ''en-gb-oed''" by (simp_all add: plain_locale_def locale_char_def)
  show "[] \<notin> set (split_on CHR ''.'' (bundle_package ''dojo'' ''b''))" by (simp add: bundle_package_def)
  show "localized example_config example_resources (bundle_package ''dojo'' ''b'') (bundle_dir ''dojo'' (host example_i18n)) ''b'' example_i18n"
    by (rule localized_fresh) (simp_all add: example_i18n_def hostenv_init_def)
  show "locale_path ''en-gb'' = [''ROOT'', ''en'', ''en-gb'']" by (simp add: locale_path_def upt_rec)
  show "bundle_dir ''dojo'' (host example_i18n) = ''src/nls''" by code_simp
qed

lemma example_uri:
  "example_resources (resource_uri example_config ''src/nls'' ''b'' ''ROOT'') = Some [''x'' \<mapsto> ''color'', ''y'' \<mapsto> ''yes'']"
  "example_resources (resource_uri example_config ''src/nls'' ''b'' ''en'') = None"
  "example_resources (resource_uri example_config ''src/nls'' ''b'' ''en-gb'') = Some [''x'' \<mapsto> ''colour'']"
  by (simp_all add: example_resources_def resource_uri_def resource_path_def path_uri_def example_config_def has_scheme_def
      is_word_char_def Let_def)

theorem localization_cascade_witness:
  "\<exists>t. getLocalization [] ''dojo'' ''b'' (Some ''en-gb'')
      (requireLocalization [] example_config example_resources False ''dojo'' ''b'' (Some ''en-gb'') None example_i18n) = Inr t
    \<and> bundle_get t ''x'' = Some ''colour'' \<and> bundle_get t ''y'' = Some ''yes''"
  using localization_cascade [OF example_locale(1) _ example_locale(3) _ _ example_locale(4), of "[]"] example_uri
  by (auto simp: example_locale(5,6))

text \<open>
  For locales of three or more parts the two functions do not agree on names: \<open>requireLocalization\<close> replaces only the first hyphen by
  an underscore, \<open>getLocalization\<close> replaces all of them. The translations of the locale itself are loaded but never found: \<open>getLocalization\<close>
  answers as for the first two parts of the locale, whatever the file of the whole locale says.
\<close>

theorem localization_three_parts:
  assumes "plain_locale l" "3 \<le> length (split_on CHR ''-'' l)"
    and "[] \<notin> set (split_on CHR ''.'' (bundle_package m b))" "b \<noteq> ''*''" "CHR ''.'' \<notin> set b"
    and "localized cfg resources (bundle_package m b) (bundle_dir m (host s)) b s"
    and "findModule (bundle_package m b) (host s) = None"
  shows "getLocalization d m b (Some l) (requireLocalization d cfg resources False m b (Some l) None s) =
    (case translation (\<lambda>x. resources (resource_uri cfg (bundle_dir m (host s)) b x))
            (join_with ''-'' (take 2 (split_on CHR ''-'' l))) of
       Some t \<Rightarrow> Inr (Bundle Map.empty (Some t))
     | None \<Rightarrow> Inl (Raised (''Bundle not found: '' @ b @ '' in '' @ m @ '' , locale='' @ l)))"
proof -
  let ?l2 = "join_with ''-'' (take 2 (split_on CHR ''-'' l))"
  obtain s' where s': "requireLocalization d cfg resources False m b (Some l) None s = s'"
    "localized cfg resources (bundle_package m b) (bundle_dir m (host s)) b s'"
    "findModule (bundle_package m b) (host s') \<noteq> None"
    "\<forall>x \<in> set (locale_path l). loaded_modules (host s') (bundle_package m b @ ''.'' @ js_locale x) \<noteq> None"
    using requireLocalization_plain [OF assms(1,3-6)] assms(7) by blast
  have "2 \<in> {1..<Suc (length (split_on CHR ''-'' l))}" using assms(2) by simp
  then have "?l2 \<in> set (locale_path l)" unfolding locale_path_def list.set list.set_map set_upt by (intro insertI2 imageI)
  then show ?thesis using getLocalization_two_parts [OF assms(1) s'(2,3)] s'(1,4) by simp
qed

theorem localization_three_parts_witness:
  "getLocalization [] ''dojo'' ''b'' (Some ''en-gb-oed'')
      (requireLocalization [] example_config example_resources False ''dojo'' ''b'' (Some ''en-gb-oed'') None example_i18n) =
    Inr (Bundle Map.empty (Some (Bundle [''x'' \<mapsto> ''colour''] (Some (Bundle [''x'' \<mapsto> ''color'', ''y'' \<mapsto> ''yes''] None)))))"
proof -
  have "findModule (bundle_package ''dojo'' ''b'') (host example_i18n) = None" by code_simp
  moreover have "translation (\<lambda>x. example_resources (resource_uri example_config ''src/nls'' ''b'' x)) ''en-gb'' =
      Some (Bundle [''x'' \<mapsto> ''colour''] (Some (Bundle [''x'' \<mapsto> ''color'', ''y'' \<mapsto> ''yes''] None)))"
    by (simp add: translation_def example_locale(5) example_uri)
  ultimately show ?thesis
    using localization_three_parts [OF example_locale(2) _ example_locale(3) _ _ example_locale(4), of "[]"]
    by (simp add: example_locale(6) numeral_2_eq_2)
qed

end
