(* ===== verification/Events.thy ===== *)
theory Events
  imports Collections String_Extras
begin

text \<open>
  \<open>src/event/common.js\<close> and \<open>src/event/topic.js\<close>: join points with advice before, after and around a
  method, connections, and topics. A method is an object with a name. The functions of an application are
  numbers; \<open>code\<close>, a parameter, says what each of them does with the event system and the state of the application. It may
  call methods and proceed with invocations, which is what it gets as its first two arguments. Invocations,
  arrays and advice live in stores, so that aliases are kept. The clock and the timers are part of the
  state. Calls are bounded by fuel; \<^term>\<open>None\<close> means that it was used up. Properties that are not functions
  and the events of the browser are not modelled.
\<close>

section \<open>State\<close>

type_synonym mref = "nat \<times> string"

datatype 'v arg = Val 'v | Inv nat

text \<open>A function of the application, or \<open>function(){}\<close>.\<close>

datatype fn = Code nat | DoNothing

definition dj_global :: nat where
  "dj_global = 0"

text \<open>The array that \<open>addAdvice\<close> builds, with the properties \<open>last\<close> and \<open>delayTimer\<close> that are added later.\<close>

record advice =
  a_target :: mref
  a_around :: "mref option"
  a_delay :: "int option"
  a_rate :: int
  a_msg :: bool
  a_last :: "int option"
  a_delayTimer :: "nat option"

record joinpoint =
  jp_before :: "nat list"
  jp_after :: "nat list"
  jp_around :: "nat list"
  jp_squelch :: bool

text \<open>
  A \<open>MethodInvocation\<close> for a join point, with the address of its arguments and the index of the current
  around advice; and the object that is passed to mediating functions, with the method to proceed to.
\<close>

datatype invocation = MI mref nat int | To mref nat

datatype 'v timer = DelayedCall mref "'v arg list" | RateCall advice "'v arg list" nat

record ('v, 's) world =
  funcs :: "mref \<rightharpoonup> fn"
  joinpoints :: "mref \<rightharpoonup> joinpoint"
  advices :: "nat \<Rightarrow> advice"
  next_advice :: nat
  invs :: "nat \<Rightarrow> invocation"
  next_inv :: nat
  arrays :: "nat \<Rightarrow> 'v arg list"
  next_array :: nat
  timers :: "(nat \<times> int \<times> 'v timer) list"
  next_timer :: nat
  topics :: "string \<rightharpoonup> nat"
  next_obj :: nat
  now :: int
  app :: 's

text \<open>What a call returns: a value (\<^term>\<open>None\<close> for \<open>undefined\<close>) or an error, and the new state.\<close>

type_synonym ('v, 's) out = "('v option result \<times> ('v, 's) world) option"

type_synonym ('v, 's) code =
  "nat \<Rightarrow> (mref \<Rightarrow> 'v arg list \<Rightarrow> ('v, 's) world \<Rightarrow> ('v, 's) out) \<Rightarrow> (nat \<Rightarrow> ('v, 's) world \<Rightarrow> ('v, 's) out)
    \<Rightarrow> 'v arg list \<Rightarrow> ('v, 's) world \<Rightarrow> ('v, 's) out"

definition ebind :: "('a result \<times> 'w) option \<Rightarrow> ('a \<Rightarrow> 'w \<Rightarrow> ('b result \<times> 'w) option) \<Rightarrow> ('b result \<times> 'w) option" where
  "ebind m f = (case m of None \<Rightarrow> None | Some (Inl e, w) \<Rightarrow> Some (Inl e, w) | Some (Inr a, w) \<Rightarrow> f a w)"

definition new_array :: "'v arg list \<Rightarrow> ('v, 's) world \<Rightarrow> nat \<times> ('v, 's) world" where
  "new_array xs w = (next_array w, w\<lparr>arrays := (arrays w)(next_array w := xs), next_array := next_array w + 1\<rparr>)"

definition new_inv :: "invocation \<Rightarrow> ('v, 's) world \<Rightarrow> nat \<times> ('v, 's) world" where
  "new_inv i w = (next_inv w, w\<lparr>invs := (invs w)(next_inv w := i), next_inv := next_inv w + 1\<rparr>)"

definition setTimeout :: "'v timer \<Rightarrow> int \<Rightarrow> ('v, 's) world \<Rightarrow> nat \<times> ('v, 's) world" where
  "setTimeout t delay w =
     (next_timer w, w\<lparr>timers := timers w @ [(next_timer w, now w + delay, t)], next_timer := next_timer w + 1\<rparr>)"

definition clearTimeout :: "nat \<Rightarrow> ('v, 's) world \<Rightarrow> ('v, 's) world" where
  "clearTimeout i w = w\<lparr>timers := filter (\<lambda>(j, _). j \<noteq> i) (timers w)\<rparr>"

section \<open>Running a join point\<close>

text \<open>
  The part of \<open>unrollAdvice\<close> that enforces the rate. The advice is given with its address, which is missing for
  the copy that a timer runs. The result tells whether to go on.
\<close>

definition check_rate :: "bool \<Rightarrow> nat option \<Rightarrow> advice \<Rightarrow> 'v arg list \<Rightarrow> nat \<Rightarrow> ('v, 's) world \<Rightarrow> bool \<times> ('v, 's) world" where
  "check_rate canTimeout ai marr args aargs w =
     (if a_rate marr = 0 then (True, w)
      else case a_last marr of
        Some l \<Rightarrow>
          if now w - l \<le> a_rate marr
          then (False,
            if canTimeout
            then let w = (case a_delayTimer marr of Some t \<Rightarrow> clearTimeout t w | None \<Rightarrow> w);
                     (t, w) = setTimeout (RateCall (marr\<lparr>a_rate := 0\<rparr>) args aargs) (a_rate marr * 2) w
                 in case ai of Some i \<Rightarrow> w\<lparr>advices := (advices w)(i := marr\<lparr>a_delayTimer := Some t\<rparr>)\<rparr> | None \<Rightarrow> w
            else w)
          else (True, case ai of Some i \<Rightarrow> w\<lparr>advices := (advices w)(i := marr\<lparr>a_last := Some (now w)\<rparr>)\<rparr> | None \<Rightarrow> w)
      | None \<Rightarrow> (True, case ai of Some i \<Rightarrow> w\<lparr>advices := (advices w)(i := marr\<lparr>a_last := Some (now w)\<rparr>)\<rparr> | None \<Rightarrow> w))"

definition no_function :: "mref \<Rightarrow> js_error" where
  "no_function m = Raised (''function does not exist: '' @ snd m)"

definition unrollAdvice ::
  "bool \<Rightarrow> (mref \<Rightarrow> 'v arg list \<Rightarrow> ('v, 's) world \<Rightarrow> ('v, 's) out) \<Rightarrow> nat option \<Rightarrow> advice \<Rightarrow> 'v arg list \<Rightarrow> nat
    \<Rightarrow> ('v, 's) world \<Rightarrow> ('v, 's) out" where
  "unrollAdvice canTimeout call_method ai marr args aargs w =
     (if funcs w (a_target marr) = None then Some (Inl (no_function (a_target marr)), w)
      else let (t, w) = new_inv (To (a_target marr) aargs) w;
               (go, w) = check_rate canTimeout ai marr args aargs w
           in if \<not> go then Some (Inr None, w)
              else case a_around marr of
                Some ar \<Rightarrow> ebind (call_method ar [Inv t] w) (\<lambda>_ w. Some (Inr None, w))
              | None \<Rightarrow>
                  let callArgs = (if a_msg marr then [Inv t] else args)
                  in case a_delay marr of
                       Some d \<Rightarrow> Some (Inr None, snd (setTimeout (DelayedCall (a_target marr) callArgs) d w))
                     | None \<Rightarrow> ebind (call_method (a_target marr) callArgs w) (\<lambda>_ w. Some (Inr None, w)))"

text \<open>
  \<open>forEach\<close> over a copy of the advice of a kind. The function that is called looks for \<open>squelch\<close> in the global object, where
  it is not, so an error ends the loop.
\<close>

fun unroll_all ::
  "bool \<Rightarrow> (mref \<Rightarrow> 'v arg list \<Rightarrow> ('v, 's) world \<Rightarrow> ('v, 's) out) \<Rightarrow> nat list \<Rightarrow> 'v arg list \<Rightarrow> nat \<Rightarrow> ('v, 's) world \<Rightarrow> ('v, 's) out" where
  "unroll_all canTimeout call_method [] args aargs w = Some (Inr None, w)"
| "unroll_all canTimeout call_method (i # is) args aargs w =
     ebind (unrollAdvice canTimeout call_method (Some i) (advices w i) args aargs w) (\<lambda>_ w. unroll_all canTimeout call_method is args aargs w)"

text \<open>\<open>dojo.raise(e)\<close> throws a new error with the message of \<open>e\<close>; the messages of built-in errors are left open.\<close>

definition reraise :: "js_error \<Rightarrow> js_error" where
  "reraise e = (case e of Raised s \<Rightarrow> Raised s | _ \<Rightarrow> Raised [])"

text \<open>The function itself, \<open>object[methodname]\<close> of the join point.\<close>

definition call_raw :: "(nat \<Rightarrow> 'v arg list \<Rightarrow> ('v, 's) world \<Rightarrow> ('v, 's) out) \<Rightarrow> mref \<Rightarrow> 'v arg list \<Rightarrow> ('v, 's) world \<Rightarrow> ('v, 's) out" where
  "call_raw exec m args w =
     (case funcs w m of
        Some (Code c) \<Rightarrow> exec c args w
      | Some DoNothing \<Rightarrow> Some (Inr None, w)
      | None \<Rightarrow> Some (Inl TypeError, w))"

definition proceed_with ::
  "(nat \<Rightarrow> 'v arg list \<Rightarrow> ('v, 's) world \<Rightarrow> ('v, 's) out) \<Rightarrow> (mref \<Rightarrow> 'v arg list \<Rightarrow> ('v, 's) world \<Rightarrow> ('v, 's) out)
    \<Rightarrow> nat \<Rightarrow> ('v, 's) world \<Rightarrow> ('v, 's) out" where
  "proceed_with exec call_method i w =
     (case invs w i of
        To m a \<Rightarrow> call_method m (arrays w a) w
      | MI m a k \<Rightarrow>
          let k = k + 1; w = w\<lparr>invs := (invs w)(i := MI m a k)\<rparr>;
              arounds = (case joinpoints w m of Some jp \<Rightarrow> jp_around jp | None \<Rightarrow> [])
          in if k \<ge> int (length arounds) then call_raw exec m (arrays w a) w
             else call_method (a_target (advices w (arounds ! nat k))) [Inv i] w)"

definition run_joinpoint ::
  "bool \<Rightarrow> (nat \<Rightarrow> 'v arg list \<Rightarrow> ('v, 's) world \<Rightarrow> ('v, 's) out) \<Rightarrow> (mref \<Rightarrow> 'v arg list \<Rightarrow> ('v, 's) world \<Rightarrow> ('v, 's) out)
    \<Rightarrow> (nat \<Rightarrow> ('v, 's) world \<Rightarrow> ('v, 's) out) \<Rightarrow> mref \<Rightarrow> joinpoint \<Rightarrow> 'v arg list \<Rightarrow> ('v, 's) world \<Rightarrow> ('v, 's) out" where
  "run_joinpoint canTimeout exec call_method proceed m jp args w =
     (let (aargs, w) = new_array args w
      in ebind (unroll_all canTimeout call_method (jp_before jp) args aargs w) (\<lambda>_ w.
           let jp' = (case joinpoints w m of Some j \<Rightarrow> j | None \<Rightarrow> jp);
               mid = (if jp_around jp' \<noteq> []
                      then let (a, w) = new_array args w; (i, w) = new_inv (MI m a (- 1)) w in proceed i w
                      else call_raw exec m args w)
           in case mid of
                None \<Rightarrow> None
              | Some (r, w) \<Rightarrow>
                  let jp'' = (case joinpoints w m of Some j \<Rightarrow> j | None \<Rightarrow> jp)
                  in case r of
                       Inl e \<Rightarrow>
                         if jp_squelch jp''
                         then ebind (unroll_all canTimeout call_method (jp_after jp'') args aargs w) (\<lambda>_ w. Some (Inr None, w))
                         else Some (Inl (reraise e), w)
                     | Inr v \<Rightarrow> ebind (unroll_all canTimeout call_method (jp_after jp'') args aargs w) (\<lambda>_ w. Some (Inr v, w))))"

text \<open>
  A call of a method, and \<open>proceed\<close> of an invocation. The parameter \<open>canTimeout\<close> is \<open>dojo.event._canTimeout\<close>.
\<close>

fun call_method :: "bool \<Rightarrow> ('v, 's) code \<Rightarrow> nat \<Rightarrow> mref \<Rightarrow> 'v arg list \<Rightarrow> ('v, 's) world \<Rightarrow> ('v, 's) out"
  and proceed :: "bool \<Rightarrow> ('v, 's) code \<Rightarrow> nat \<Rightarrow> nat \<Rightarrow> ('v, 's) world \<Rightarrow> ('v, 's) out" where
  "call_method canTimeout code 0 m args w = None"
| "call_method canTimeout code (Suc n) m args w =
     (let exec = (\<lambda>c. code c (call_method canTimeout code n) (proceed canTimeout code n))
      in case joinpoints w m of
           Some jp \<Rightarrow> run_joinpoint canTimeout exec (call_method canTimeout code n) (proceed canTimeout code n) m jp args w
         | None \<Rightarrow> call_raw exec m args w)"
| "proceed canTimeout code 0 i w = None"
| "proceed canTimeout code (Suc n) i w =
     proceed_with (\<lambda>c. code c (call_method canTimeout code n) (proceed canTimeout code n)) (call_method canTimeout code n) i w"

text \<open>A timer that is due.\<close>

definition fire_timer :: "bool \<Rightarrow> ('v, 's) code \<Rightarrow> nat \<Rightarrow> nat \<Rightarrow> ('v, 's) world \<Rightarrow> ('v, 's) out" where
  "fire_timer canTimeout code n i w =
     (case map_of (timers w) i of
        None \<Rightarrow> Some (Inr None, w)
      | Some (t, timer) \<Rightarrow>
          let w = clearTimeout i w
          in case timer of
               DelayedCall m args \<Rightarrow> call_method canTimeout code n m args w
             | RateCall marr args aargs \<Rightarrow> unrollAdvice canTimeout (call_method canTimeout code n) None marr args aargs w)"

section \<open>Join points and advice\<close>

definition new_joinpoint :: joinpoint where
  "new_joinpoint = \<lparr>jp_before = [], jp_after = [], jp_around = [], jp_squelch = False\<rparr>"

text \<open>A missing function is supplied as \<open>function(){}\<close>. The original function of a join point stays in \<^const>\<open>funcs\<close>.\<close>

definition getForMethod :: "mref \<Rightarrow> ('v, 's) world \<Rightarrow> ('v, 's) world" where
  "getForMethod m w =
     (let w = (if funcs w m = None then w\<lparr>funcs := (funcs w)(m \<mapsto> DoNothing)\<rparr> else w)
      in if joinpoints w m = None then w\<lparr>joinpoints := (joinpoints w)(m \<mapsto> new_joinpoint)\<rparr> else w)"

text \<open>The join point of a method after \<^const>\<open>getForMethod\<close>, and the assignment to one of its fields.\<close>

definition jp_of :: "('v, 's) world \<Rightarrow> mref \<Rightarrow> joinpoint" where
  "jp_of w m = (case joinpoints w m of Some jp \<Rightarrow> jp | None \<Rightarrow> new_joinpoint)"

definition set_jp :: "mref \<Rightarrow> joinpoint \<Rightarrow> ('v, 's) world \<Rightarrow> ('v, 's) world" where
  "set_jp m jp w = w\<lparr>joinpoints := (joinpoints w)(m \<mapsto> jp)\<rparr>"

definition unintercept :: "mref \<Rightarrow> ('v, 's) world \<Rightarrow> ('v, 's) world" where
  "unintercept m w = set_jp m ((jp_of w m)\<lparr>jp_before := [], jp_after := [], jp_around := []\<rparr>) w"

text \<open>
  The kinds of advice: anything that contains \<open>before\<close>, exactly \<open>around\<close>, and everything else, a missing kind
  (the empty string) included.
\<close>

datatype kind = Before | After | Around

definition getArr_kind :: "string \<Rightarrow> kind" where
  "getArr_kind kind =
     (if js_indexOf ''before'' kind \<noteq> - 1 then Before else if kind = ''around'' then Around else After)"

definition getArr :: "kind \<Rightarrow> joinpoint \<Rightarrow> nat list" where
  "getArr k jp = (case k of Before \<Rightarrow> jp_before jp | After \<Rightarrow> jp_after jp | Around \<Rightarrow> jp_around jp)"

definition setArr :: "kind \<Rightarrow> nat list \<Rightarrow> joinpoint \<Rightarrow> joinpoint" where
  "setArr k xs jp =
     (case k of Before \<Rightarrow> jp\<lparr>jp_before := xs\<rparr> | After \<Rightarrow> jp\<lparr>jp_after := xs\<rparr> | Around \<Rightarrow> jp\<lparr>jp_around := xs\<rparr>)"

text \<open>The loop of \<open>hasAdvice\<close>: the index of the last connection to the target, or \<open>-1\<close>.\<close>

fun has_loop :: "(nat \<Rightarrow> advice) \<Rightarrow> mref \<Rightarrow> nat \<Rightarrow> int \<Rightarrow> nat list \<Rightarrow> int" where
  "has_loop adv target x ind [] = ind"
| "has_loop adv target x ind (a # as) =
     has_loop adv target (x + 1) (if a_target (adv a) = target then int x else ind) as"

definition hasAdvice :: "(nat \<Rightarrow> advice) \<Rightarrow> mref \<Rightarrow> nat list \<Rightarrow> int" where
  "hasAdvice adv target arr = has_loop adv target 0 (- 1) arr"

definition addAdvice :: "mref \<Rightarrow> advice \<Rightarrow> string \<Rightarrow> string \<Rightarrow> bool \<Rightarrow> ('v, 's) world \<Rightarrow> ('v, 's) world" where
  "addAdvice m ao adviceType precedence once w =
     (let k = getArr_kind adviceType; jp = jp_of w m; arr = getArr k jp
      in if once \<and> hasAdvice (advices w) (a_target ao) arr \<ge> 0 then w
         else let i = next_advice w; w = w\<lparr>advices := (advices w)(i := ao), next_advice := i + 1\<rparr>
              in set_jp m (setArr k (if precedence = ''first'' then i # arr else arr @ [i]) jp) w)"

text \<open>The loop of \<open>removeAdvice\<close>; each round shortens the array.\<close>

lemma has_loop_range:
  "ind < int x \<Longrightarrow> - 1 \<le> ind \<Longrightarrow>
    - 1 \<le> has_loop adv target x ind arr \<and> has_loop adv target x ind arr < int (x + length arr)"
  by (induction adv target x ind arr rule: has_loop.induct) auto

lemma hasAdvice_range: "- 1 \<le> hasAdvice adv target arr \<and> hasAdvice adv target arr < int (length arr)"
  unfolding hasAdvice_def using has_loop_range [of "- 1" 0] by simp

lemma splice_hasAdvice_shorter:
  assumes "hasAdvice adv target arr \<noteq> - 1"
  shows "length (js_splice arr (hasAdvice adv target arr) 1 []) < length arr"
proof -
  from assms hasAdvice_range [of adv target arr] obtain i where "hasAdvice adv target arr = int i" "i < length arr"
    by (cases "hasAdvice adv target arr") auto
  then show ?thesis by (simp add: js_splice_delete)
qed

function remove_loop :: "(nat \<Rightarrow> advice) \<Rightarrow> mref \<Rightarrow> bool \<Rightarrow> nat list \<Rightarrow> nat list" where
  "remove_loop adv target once arr =
     (let ind = hasAdvice adv target arr
      in if ind = - 1 then arr
         else let arr = js_splice arr ind 1 [] in if once then arr else remove_loop adv target once arr)"
  by pat_completeness auto
termination
  by (relation "measure (\<lambda>(_, _, _, arr). length arr)") (auto simp: splice_hasAdvice_shorter)

declare remove_loop.simps [simp del]

definition removeAdvice :: "mref \<Rightarrow> mref \<Rightarrow> string \<Rightarrow> bool \<Rightarrow> ('v, 's) world \<Rightarrow> ('v, 's) world" where
  "removeAdvice m target adviceType once w =
     (let k = getArr_kind adviceType; jp = jp_of w m
      in set_jp m (setArr k (remove_loop (advices w) target once (getArr k jp)) jp) w)"

section \<open>Connections\<close>

text \<open>The source of a connection is an object or a non-empty array of objects.\<close>

datatype source = Source nat | Sources "nat list"

text \<open>The object with the named parameters of \<open>connect\<close>. An empty \<open>adviceFunc\<close> stands for a missing one.\<close>

record connection =
  srcObj :: source
  srcFunc :: string
  adviceObj :: nat
  adviceFunc :: string
  aroundObj :: "nat option"
  aroundFunc :: "string option"
  adviceType :: string
  precedence :: string
  once :: bool
  delay :: "int option"
  rate :: int
  adviceMsg :: bool

definition connection_advice :: "connection \<Rightarrow> advice" where
  "connection_advice ao =
     \<lparr>a_target = (adviceObj ao, adviceFunc ao),
      a_around = map_option (\<lambda>f. (case aroundObj ao of Some ob \<Rightarrow> ob | None \<Rightarrow> dj_global, f)) (aroundFunc ao),
      a_delay = delay ao, a_rate = rate ao, a_msg = adviceMsg ao, a_last = None, a_delayTimer = None\<rparr>"

definition kwAddAdvice :: "mref \<Rightarrow> connection \<Rightarrow> ('v, 's) world \<Rightarrow> ('v, 's) world" where
  "kwAddAdvice m ao w = addAdvice m (connection_advice ao) (adviceType ao) (precedence ao) (once ao) w"

definition connect_method :: "connection \<Rightarrow> mref \<Rightarrow> ('v, 's) world \<Rightarrow> ('v, 's) world" where
  "connect_method ao m w =
     (let w = getForMethod m w;
          w = (if adviceFunc ao \<noteq> [] then getForMethod (adviceObj ao, adviceFunc ao) w else w)
      in kwAddAdvice m ao w)"

text \<open>\<open>onkey\<close> stands for the events of keys that the browser has; \<open>ie\<close> is \<open>dojo.render.html.ie\<close>.\<close>

definition event_names :: "bool \<Rightarrow> string \<Rightarrow> string list" where
  "event_names ie f =
     (if to_lower f = ''onkey'' then if ie then [''onkeydown'', ''onkeypress''] else [''onkeypress''] else [f])"

definition connect :: "bool \<Rightarrow> connection \<Rightarrow> ('v, 's) world \<Rightarrow> ('v, 's) world" where
  "connect ie ao w =
     fold (\<lambda>f. case srcObj ao of
               Source ob \<Rightarrow> connect_method ao (ob, f)
             | Sources obs \<Rightarrow> fold (\<lambda>ob. connect_method ao (ob, f)) obs)
       (event_names ie (srcFunc ao)) w"

text \<open>An array of sources has no function of the given name: \<open>disconnect\<close> does nothing for it.\<close>

definition disconnect_method :: "connection \<Rightarrow> mref \<Rightarrow> ('v, 's) world \<Rightarrow> ('v, 's) world" where
  "disconnect_method ao m w =
     (if funcs w m = None then w
      else removeAdvice m (adviceObj ao, adviceFunc ao) (adviceType ao) (once ao) (getForMethod m w))"

definition disconnect :: "bool \<Rightarrow> connection \<Rightarrow> ('v, 's) world \<Rightarrow> ('v, 's) world" where
  "disconnect ie ao w =
     (if adviceFunc ao = [] then w
      else case srcObj ao of
             Sources obs \<Rightarrow> w
           | Source ob \<Rightarrow> fold (\<lambda>f. disconnect_method ao (ob, f)) (event_names ie (srcFunc ao)) w)"

text \<open>The defaults that \<open>_kwConnectImpl\<close> fills in, for named functions.\<close>

definition kwConnectImpl :: "source option \<Rightarrow> nat option \<Rightarrow> nat option \<Rightarrow> string \<Rightarrow> string \<Rightarrow> connection \<Rightarrow> connection" where
  "kwConnectImpl src adviceOb targetOb adviceF targetF kwArgs =
     kwArgs\<lparr>srcObj := (case src of Some s \<Rightarrow> s | None \<Rightarrow> Source dj_global),
       adviceObj := (case adviceOb of Some ob \<Rightarrow> ob | None \<Rightarrow> case targetOb of Some ob \<Rightarrow> ob | None \<Rightarrow> dj_global),
       adviceFunc := (if adviceF \<noteq> [] then adviceF else targetF)\<rparr>"

section \<open>Topics\<close>

text \<open>
  A topic is an object with a method \<open>sendMessage\<close>, a stub. A name that every object inherits and that was not
  used before gives something that is not a topic, so that using it raises an error.
\<close>

definition getTopic :: "string \<Rightarrow> ('v, 's) world \<Rightarrow> (nat result \<times> ('v, 's) world)" where
  "getTopic topic w =
     (case topics w topic of
        Some t \<Rightarrow> (Inr t, w)
      | None \<Rightarrow>
          if inherited topic then (Inl TypeError, w)
          else let t = next_obj w
               in (Inr t, w\<lparr>next_obj := t + 1, topics := (topics w)(topic \<mapsto> t),
                           funcs := (funcs w)((t, ''sendMessage'') \<mapsto> DoNothing)\<rparr>))"

definition with_topic :: "string \<Rightarrow> (nat \<Rightarrow> ('v, 's) world \<Rightarrow> ('v, 's) out) \<Rightarrow> ('v, 's) world \<Rightarrow> ('v, 's) out" where
  "with_topic topic f w = (case getTopic topic w of (Inl e, w) \<Rightarrow> Some (Inl e, w) | (Inr t, w) \<Rightarrow> f t w)"

text \<open>The parameters of \<open>kwConnect\<close> in \<open>subscribe\<close> and \<open>unsubscribe\<close>.\<close>

definition listener_connection :: "nat \<Rightarrow> mref \<Rightarrow> connection" where
  "listener_connection t m =
     \<lparr>srcObj = Source t, srcFunc = ''sendMessage'', adviceObj = fst m, adviceFunc = snd m, aroundObj = None,
      aroundFunc = None, adviceType = [], precedence = [], once = False, delay = None, rate = 0, adviceMsg = False\<rparr>"

definition subscribe :: "bool \<Rightarrow> string \<Rightarrow> mref \<Rightarrow> ('v, 's) world \<Rightarrow> ('v, 's) out" where
  "subscribe ie topic m = with_topic topic (\<lambda>t w. Some (Inr None, connect ie (listener_connection t m) w))"

definition unsubscribe :: "bool \<Rightarrow> string \<Rightarrow> mref \<Rightarrow> ('v, 's) world \<Rightarrow> ('v, 's) out" where
  "unsubscribe ie topic m = with_topic topic (\<lambda>t w. Some (Inr None, disconnect ie (listener_connection t m) w))"

definition registerPublisher :: "bool \<Rightarrow> string \<Rightarrow> mref \<Rightarrow> ('v, 's) world \<Rightarrow> ('v, 's) out" where
  "registerPublisher ie topic m =
     with_topic topic (\<lambda>t w. Some (Inr None, connect ie
       ((listener_connection t m)\<lparr>srcObj := Source (fst m), srcFunc := snd m, adviceObj := t,
          adviceFunc := ''sendMessage'', adviceType := ''after'', precedence := ''last''\<rparr>) w))"

definition setSquelch :: "string \<Rightarrow> bool \<Rightarrow> ('v, 's) world \<Rightarrow> ('v, 's) out" where
  "setSquelch topic shouldSquelch =
     with_topic topic (\<lambda>t w. let m = (t, ''sendMessage''); w = getForMethod m w
       in Some (Inr None, set_jp m ((jp_of w m)\<lparr>jp_squelch := shouldSquelch\<rparr>) w))"

definition destroy :: "string \<Rightarrow> ('v, 's) world \<Rightarrow> ('v, 's) out" where
  "destroy topic =
     with_topic topic (\<lambda>t w. let m = (t, ''sendMessage''); w = unintercept m (getForMethod m w)
       in Some (Inr None, w\<lparr>topics := (topics w)(topic := None)\<rparr>))"

definition publish :: "bool \<Rightarrow> ('v, 's) code \<Rightarrow> nat \<Rightarrow> string \<Rightarrow> 'v arg list \<Rightarrow> ('v, 's) world \<Rightarrow> ('v, 's) out" where
  "publish canTimeout code n topic args =
     with_topic topic (\<lambda>t w. ebind (call_method canTimeout code n (t, ''sendMessage'') args w) (\<lambda>_ w. Some (Inr None, w)))"

end
