(* ===== verification/Events_Proofs.thy ===== *)
theory Events_Proofs
  imports Events
begin

text \<open>
  Properties of the event system of theory \<open>Events\<close>: the order in which advice runs, the delivery of messages
  to the subscribers of a topic, nesting of around advice, errors of listeners, and the rate of a connection.
\<close>

section \<open>Functions that only change the application\<close>

text \<open>
  \<open>f c args s\<close> is the new state of the application and the value returned when function \<open>c\<close> is called; \<open>pure_fn\<close> says that
  the function does nothing else.
\<close>

definition pure_fn :: "('v, 's) code \<Rightarrow> (nat \<Rightarrow> 'v arg list \<Rightarrow> 's \<Rightarrow> 's \<times> 'v option) \<Rightarrow> fn \<Rightarrow> bool" where
  "pure_fn code f g \<longleftrightarrow>
     (case g of DoNothing \<Rightarrow> True
      | Code c \<Rightarrow> \<forall>iv pro args w. code c iv pro args w = Some (Inr (snd (f c args (app w))), w\<lparr>app := fst (f c args (app w))\<rparr>))"

definition fn_result :: "(nat \<Rightarrow> 'v arg list \<Rightarrow> 's \<Rightarrow> 's \<times> 'v option) \<Rightarrow> fn option \<Rightarrow> 'v arg list \<Rightarrow> 's \<Rightarrow> 's \<times> 'v option" where
  "fn_result f g args s = (case g of Some (Code c) \<Rightarrow> f c args s | _ \<Rightarrow> (s, None))"

abbreviation fn_effect :: "(nat \<Rightarrow> 'v arg list \<Rightarrow> 's \<Rightarrow> 's \<times> 'v option) \<Rightarrow> fn option \<Rightarrow> 'v arg list \<Rightarrow> 's \<Rightarrow> 's" where
  "fn_effect f g args s \<equiv> fst (fn_result f g args s)"

text \<open>A join point without advice, or none at all.\<close>

definition idle :: "joinpoint option \<Rightarrow> bool" where
  "idle j \<longleftrightarrow> (case j of None \<Rightarrow> True | Some jp \<Rightarrow> jp_before jp = [] \<and> jp_after jp = [] \<and> jp_around jp = [])"

definition simple_method :: "('v, 's) code \<Rightarrow> (nat \<Rightarrow> 'v arg list \<Rightarrow> 's \<Rightarrow> 's \<times> 'v option) \<Rightarrow> ('v, 's) world \<Rightarrow> mref \<Rightarrow> bool" where
  "simple_method code f w m \<longleftrightarrow> (\<exists>g. funcs w m = Some g \<and> pure_fn code f g) \<and> idle (joinpoints w m)"

text \<open>Two states that differ only in the application, and in arrays and invocations.\<close>

definition same_events :: "('v, 's) world \<Rightarrow> ('v, 's) world \<Rightarrow> bool" where
  "same_events w w' \<longleftrightarrow>
     funcs w' = funcs w \<and> joinpoints w' = joinpoints w \<and> advices w' = advices w \<and> next_advice w' = next_advice w
     \<and> topics w' = topics w \<and> next_obj w' = next_obj w \<and> timers w' = timers w \<and> next_timer w' = next_timer w
     \<and> now w' = now w"

lemma same_events_refl [simp]: "same_events w w"
  by (simp add: same_events_def)

lemma same_events_trans: "same_events w w' \<Longrightarrow> same_events w' w'' \<Longrightarrow> same_events w w''"
  by (simp add: same_events_def)

lemma same_events_simple: "same_events w w' \<Longrightarrow> simple_method code f w' m = simple_method code f w m"
  by (simp add: same_events_def simple_method_def)

lemma ebind_simps [simp]:
  "ebind None g = None" "ebind (Some (Inl e, w)) g = Some (Inl e, w)" "ebind (Some (Inr a, w)) g = g a w"
  by (simp_all add: ebind_def)

lemma new_simps [simp]:
  "new_array xs w = (next_array w, w\<lparr>arrays := (arrays w)(next_array w := xs), next_array := next_array w + 1\<rparr>)"
  "new_inv i w = (next_inv w, w\<lparr>invs := (invs w)(next_inv w := i), next_inv := next_inv w + 1\<rparr>)"
  by (simp_all add: new_array_def new_inv_def)

lemma call_raw_pure:
  assumes "funcs w m = Some g" "pure_fn code f g"
  shows "call_raw (\<lambda>c. code c iv pro) m args w =
    Some (Inr (snd (fn_result f (funcs w m) args (app w))), w\<lparr>app := fn_effect f (funcs w m) args (app w)\<rparr>)"
  using assms by (cases g) (simp_all add: call_raw_def pure_fn_def fn_result_def)

text \<open>Calling a simple method runs its function and nothing else.\<close>

lemma invoke_simple:
  assumes "simple_method code f w m"
  shows "\<exists>w'. call_method ct code (Suc n) m args w = Some (Inr (snd (fn_result f (funcs w m) args (app w))), w')
    \<and> same_events w w' \<and> app w' = fn_effect f (funcs w m) args (app w)"
proof -
  obtain g where g: "funcs w m = Some g" "pure_fn code f g" and idle: "idle (joinpoints w m)"
    using assms by (auto simp: simple_method_def)
  show ?thesis
  proof (cases "joinpoints w m")
    case None
    then show ?thesis using call_raw_pure [OF g] by (simp add: same_events_def Let_def)
  next
    case (Some jp)
    let ?w = "w\<lparr>arrays := (arrays w)(next_array w := args), next_array := next_array w + 1\<rparr>"
    have "funcs ?w m = Some g" using g by simp
    from call_raw_pure [OF this g(2)] show ?thesis
      using Some idle by (simp add: idle_def run_joinpoint_def Let_def same_events_def)
  qed
qed

section \<open>The order of advice\<close>

text \<open>Advice without mediation, delay, rate or message object.\<close>

definition direct :: "advice \<Rightarrow> bool" where
  "direct a \<longleftrightarrow> a_around a = None \<and> a_delay a = None \<and> a_rate a = 0 \<and> \<not> a_msg a"

text \<open>The effect of calling the targets of a list of advice.\<close>

definition advice_effect ::
  "(nat \<Rightarrow> 'v arg list \<Rightarrow> 's \<Rightarrow> 's \<times> 'v option) \<Rightarrow> ('v, 's) world \<Rightarrow> 'v arg list \<Rightarrow> mref list \<Rightarrow> 's \<Rightarrow> 's" where
  "advice_effect f w args ms s = fold (\<lambda>m. fn_effect f (funcs w m) args) ms s"

lemma advice_effect_simps [simp]:
  "advice_effect f w args [] s = s"
  "advice_effect f w args (m # ms) s = advice_effect f w args ms (fn_effect f (funcs w m) args s)"
  by (simp_all add: advice_effect_def)

lemma unrollAdvice_direct:
  assumes "direct a" "simple_method code f w (a_target a)"
  shows "\<exists>w'. unrollAdvice ct (call_method ct code (Suc n)) ai a args aargs w = Some (Inr None, w')
    \<and> same_events w w' \<and> app w' = fn_effect f (funcs w (a_target a)) args (app w)"
proof -
  let ?w = "w\<lparr>invs := (invs w)(next_inv w := To (a_target a) aargs), next_inv := next_inv w + 1\<rparr>"
  have same: "same_events w ?w" by (simp add: same_events_def)
  from invoke_simple [of code f ?w "a_target a" ct n args] assms(2) obtain v w' where
    "call_method ct code (Suc n) (a_target a) args ?w = Some (Inr v, w')" "same_events ?w w'"
    "app w' = fn_effect f (funcs w (a_target a)) args (app w)"
    using same_events_simple [OF same] by auto
  moreover have "funcs w (a_target a) \<noteq> None" using assms(2) by (auto simp: simple_method_def)
  ultimately show ?thesis
    using assms(1) same_events_trans [OF same] by (auto simp: unrollAdvice_def direct_def check_rate_def Let_def simp del: call_method.simps)
qed

lemma unroll_all_direct:
  assumes "\<forall>i \<in> set is. direct (advices w i) \<and> simple_method code f w (a_target (advices w i))"
  shows "\<exists>w'. unroll_all ct (call_method ct code (Suc n)) is args aargs w = Some (Inr None, w') \<and> same_events w w'
    \<and> app w' = advice_effect f w args (map (\<lambda>i. a_target (advices w i)) is) (app w)"
  using assms
proof (induction "is" arbitrary: w)
  case (Cons i "is")
  then obtain w1 where w1: "unrollAdvice ct (call_method ct code (Suc n)) (Some i) (advices w i) args aargs w = Some (Inr None, w1)"
    "same_events w w1" "app w1 = fn_effect f (funcs w (a_target (advices w i))) args (app w)"
    using unrollAdvice_direct [of "advices w i" code f w ct n "Some i" args aargs] by auto
  then have "\<forall>i \<in> set is. direct (advices w1 i) \<and> simple_method code f w1 (a_target (advices w1 i))"
    using Cons.prems by (simp add: same_events_simple) (simp add: same_events_def)
  from Cons.IH [OF this] obtain w2 where w2: "unroll_all ct (call_method ct code (Suc n)) is args aargs w1 = Some (Inr None, w2)"
    "same_events w1 w2" "app w2 = advice_effect f w1 args (map (\<lambda>i. a_target (advices w1 i)) is) (app w1)" by blast
  have "funcs w1 = funcs w" "advices w1 = advices w" using w1(2) by (simp_all add: same_events_def)
  then have "app w2 = advice_effect f w args (map (\<lambda>i. a_target (advices w i)) (i # is)) (app w)"
    using w2(3) w1(3) by (simp add: advice_effect_def)
  moreover have "unroll_all ct (call_method ct code (Suc n)) (i # is) args aargs w = Some (Inr None, w2)"
    by (simp only: unroll_all.simps w1(1) w2(1) ebind_simps)
  ultimately show ?case using same_events_trans [OF w1(2) w2(2)] by blast
qed simp

text \<open>A method with direct advice and no around advice: first the advice before it, then the method, then the advice after it.\<close>

lemma invoke_order:
  fixes args :: "'v arg list" and w :: "('v, 's) world"
  assumes "joinpoints w m = Some jp" "jp_around jp = []" "funcs w m = Some g" "pure_fn code f g"
    and "\<forall>i \<in> set (jp_before jp) \<union> set (jp_after jp). direct (advices w i) \<and> simple_method code f w (a_target (advices w i))"
  defines "s1 \<equiv> advice_effect f w args (map (\<lambda>i. a_target (advices w i)) (jp_before jp)) (app w)"
  shows "\<exists>w'. call_method ct code (Suc (Suc n)) m args w = Some (Inr (snd (fn_result f (funcs w m) args s1)), w') \<and> same_events w w'
    \<and> app w' = advice_effect f w args (map (\<lambda>i. a_target (advices w i)) (jp_after jp)) (fn_effect f (funcs w m) args s1)"
proof -
  let ?w = "w\<lparr>arrays := (arrays w)(next_array w := args), next_array := next_array w + 1\<rparr>"
  let ?a = "next_array w"
  have same: "same_events w ?w" by (simp add: same_events_def)
  have "\<forall>i \<in> set (jp_before jp). direct (advices ?w i) \<and> simple_method code f ?w (a_target (advices ?w i))"
    using assms(5) same_events_simple [OF same] by simp
  from unroll_all_direct [OF this, of ct n args ?a] obtain w1 where
    w1: "unroll_all ct (call_method ct code (Suc n)) (jp_before jp) args ?a ?w = Some (Inr None, w1)" "same_events w w1" "app w1 = s1"
    unfolding s1_def using same_events_trans [OF same] by (auto simp: advice_effect_def)
  let ?w2 = "w1\<lparr>app := fn_effect f (funcs w m) args s1\<rparr>"
  have call: "call_raw (\<lambda>c. code c iv pro) m args w1 = Some (Inr (snd (fn_result f (funcs w m) args s1)), ?w2)" for iv pro
    using call_raw_pure [of w1 m g code f] assms(3,4) w1 by (simp add: same_events_def)
  have same2: "same_events w ?w2" using w1(2) by (simp add: same_events_def)
  have "\<forall>i \<in> set (jp_after jp). direct (advices ?w2 i) \<and> simple_method code f ?w2 (a_target (advices ?w2 i))"
    using assms(5) same_events_simple [OF same2] same2 by (simp add: same_events_def)
  from unroll_all_direct [OF this, of ct n args ?a] obtain w3 where
    w3: "unroll_all ct (call_method ct code (Suc n)) (jp_after jp) args ?a ?w2 = Some (Inr None, w3)" "same_events w w3"
      "app w3 = advice_effect f w args (map (\<lambda>i. a_target (advices w i)) (jp_after jp)) (fn_effect f (funcs w m) args s1)"
    using same_events_trans [OF same2] same2 by (auto simp: advice_effect_def same_events_def)
  have "joinpoints w1 m = Some jp" using w1(2) assms(1) by (simp add: same_events_def)
  then show ?thesis
    using w1(1) call w3 assms(1,2)
    by (subst call_method.simps) (auto simp: run_joinpoint_def Let_def simp del: call_method.simps)
qed

section \<open>Lists of advice\<close>

text \<open>The advice of a kind at a method, and the validity of all addresses of advice.\<close>

definition view :: "('v, 's) world \<Rightarrow> mref \<Rightarrow> kind \<Rightarrow> advice list" where
  "view w m k = map (advices w) (getArr k (jp_of w m))"

definition advice_ok :: "('v, 's) world \<Rightarrow> bool" where
  "advice_ok w \<longleftrightarrow> (\<forall>m k. \<forall>i \<in> set (getArr k (jp_of w m)). i < next_advice w)"

lemma jp_of_set_jp [simp]: "jp_of (set_jp m jp w) m' = (if m' = m then jp else jp_of w m')"
  by (simp add: jp_of_def set_jp_def)

lemma set_jp_fields [simp]:
  "advices (set_jp m jp w) = advices w" "next_advice (set_jp m jp w) = next_advice w" "funcs (set_jp m jp w) = funcs w"
  "topics (set_jp m jp w) = topics w" "next_obj (set_jp m jp w) = next_obj w" "app (set_jp m jp w) = app w"
  "joinpoints (set_jp m jp w) = (joinpoints w)(m \<mapsto> jp)"
  by (simp_all add: set_jp_def)

lemma getArr_setArr [simp]: "getArr k' (setArr k xs jp) = (if k' = k then xs else getArr k' jp)"
  by (cases k; cases k') (simp_all add: getArr_def setArr_def)

lemma getArr_new [simp]: "getArr k new_joinpoint = []"
  by (cases k) (simp_all add: getArr_def new_joinpoint_def)

lemma jp_of_getForMethod [simp]: "jp_of (getForMethod m w) m' = jp_of w m'"
  by (simp add: getForMethod_def jp_of_def Let_def)

lemma getForMethod_fields [simp]:
  "advices (getForMethod m w) = advices w" "next_advice (getForMethod m w) = next_advice w"
  "topics (getForMethod m w) = topics w" "next_obj (getForMethod m w) = next_obj w" "app (getForMethod m w) = app w"
  "funcs (getForMethod m w) = (funcs w)(m := (case funcs w m of None \<Rightarrow> Some DoNothing | Some g \<Rightarrow> Some g))"
  "joinpoints (getForMethod m w) = (joinpoints w)(m := Some (jp_of w m))"
  by (auto simp: getForMethod_def Let_def jp_of_def split: option.splits)

lemma view_getForMethod [simp]: "view (getForMethod m w) = view w"
  by (intro ext) (simp add: view_def)

lemma advice_ok_getForMethod [simp]: "advice_ok (getForMethod m w) = advice_ok w"
  by (simp add: advice_ok_def)

text \<open>\<open>hasAdvice\<close> finds the last matching entry.\<close>

lemma has_loop_append:
  "has_loop adv target x ind (xs @ ys) = has_loop adv target (x + length xs) (has_loop adv target x ind xs) ys"
  by (induction adv target x ind xs rule: has_loop.induct) simp_all

lemma has_loop_none: "\<forall>i \<in> set xs. a_target (adv i) \<noteq> target \<Longrightarrow> has_loop adv target x ind xs = ind"
  by (induction adv target x ind xs rule: has_loop.induct) simp_all

lemma hasAdvice_last:
  "a_target (adv i) = target \<Longrightarrow> \<forall>j \<in> set ys. a_target (adv j) \<noteq> target \<Longrightarrow>
    hasAdvice adv target (xs @ i # ys) = int (length xs)"
  by (simp add: hasAdvice_def has_loop_append has_loop_none)

lemma hasAdvice_none_iff: "hasAdvice adv target xs = - 1 \<longleftrightarrow> (\<forall>i \<in> set xs. a_target (adv i) \<noteq> target)"
proof
  assume none: "hasAdvice adv target xs = - 1"
  show "\<forall>i \<in> set xs. a_target (adv i) \<noteq> target"
  proof (rule ccontr)
    assume "\<not> ?thesis"
    then have "\<exists>i \<in> set xs. a_target (adv i) = target" by blast
    then obtain ys i zs where "xs = ys @ i # zs" "a_target (adv i) = target" "\<forall>j \<in> set zs. a_target (adv j) \<noteq> target"
      using split_list_last_prop [of xs "\<lambda>i. a_target (adv i) = target"] by blast
    then show False using none hasAdvice_last [of adv i target zs ys] by simp
  qed
qed (simp add: hasAdvice_def has_loop_none)

text \<open>The loop of \<open>removeAdvice\<close> removes all matching entries, or the last one if \<open>once\<close> is set.\<close>

lemma remove_loop_all: "remove_loop adv target False xs = filter (\<lambda>i. a_target (adv i) \<noteq> target) xs"
proof (induction "length xs" arbitrary: xs rule: less_induct)
  case less
  show ?case
  proof (cases "\<exists>i \<in> set xs. a_target (adv i) = target")
    case True
    then obtain ys i zs where xs: "xs = ys @ i # zs" and hit: "a_target (adv i) = target"
      and zs: "\<forall>j \<in> set zs. a_target (adv j) \<noteq> target"
      using split_list_last_prop [of xs "\<lambda>i. a_target (adv i) = target"] by blast
    have ind: "hasAdvice adv target xs = int (length ys)" using hasAdvice_last [of adv i target zs ys] hit zs xs by simp
    have "js_splice xs (int (length ys)) 1 [] = ys @ zs" using js_splice_delete [of "length ys" xs] xs by simp
    moreover have "remove_loop adv target False (ys @ zs) = filter (\<lambda>i. a_target (adv i) \<noteq> target) (ys @ zs)"
      using less xs by simp
    ultimately show ?thesis using ind xs hit zs by (subst remove_loop.simps) (simp add: Let_def)
  next
    case False
    then show ?thesis by (subst remove_loop.simps) (auto simp: hasAdvice_none_iff Let_def intro: filter_True [symmetric])
  qed
qed

lemma remove_loop_last:
  assumes "a_target (adv i) = target" "\<forall>j \<in> set zs. a_target (adv j) \<noteq> target"
  shows "remove_loop adv target True (ys @ i # zs) = ys @ zs"
  using js_splice_delete [of "length ys" "ys @ i # zs"] hasAdvice_last [of adv i target zs ys] assms
  by (subst remove_loop.simps) (simp add: Let_def)

lemma remove_loop_subset: "set (remove_loop adv target one xs) \<subseteq> set xs"
proof (cases "one \<and> (\<exists>i \<in> set xs. a_target (adv i) = target)")
  case True
  then obtain ys i zs where "xs = ys @ i # zs" "a_target (adv i) = target" "\<forall>j \<in> set zs. a_target (adv j) \<noteq> target"
    using split_list_last_prop [of xs "\<lambda>i. a_target (adv i) = target"] by blast
  then show ?thesis using True remove_loop_last [of adv i target zs ys] by auto
next
  case False
  then have "one \<Longrightarrow> remove_loop adv target one xs = xs"
    using hasAdvice_none_iff [of adv target xs] by (subst remove_loop.simps) (auto simp: Let_def)
  then show ?thesis by (cases one) (auto simp: remove_loop_all)
qed

lemma advice_ok_addAdvice: "advice_ok w \<Longrightarrow> advice_ok (addAdvice m ao ty pr one w)"
  by (auto simp: advice_ok_def addAdvice_def Let_def jp_of_def set_jp_def less_Suc_eq split: if_splits)

lemma view_addAdvice:
  assumes "advice_ok w"
  shows "view (addAdvice m ao ty pr one w) m' k =
    (if m' = m \<and> k = getArr_kind ty
     then if one \<and> (\<exists>a \<in> set (view w m k). a_target a = a_target ao) then view w m k
          else if pr = ''first'' then ao # view w m k else view w m k @ [ao]
     else view w m' k)"
proof -
  let ?k = "getArr_kind ty"
  let ?arr = "getArr ?k (jp_of w m)"
  have has: "hasAdvice (advices w) (a_target ao) ?arr \<ge> 0 \<longleftrightarrow> (\<exists>a \<in> set (view w m ?k). a_target a = a_target ao)"
  proof -
    have "hasAdvice (advices w) (a_target ao) ?arr \<ge> 0 \<longleftrightarrow> hasAdvice (advices w) (a_target ao) ?arr \<noteq> - 1"
      using hasAdvice_range [of "advices w" "a_target ao" ?arr] by linarith
    then show ?thesis by (simp add: hasAdvice_none_iff view_def)
  qed
  have old: "map ((advices w)(next_advice w := ao)) (getArr k (jp_of w m)) = view w m k" for m k
  proof -
    have "next_advice w \<notin> set (getArr k (jp_of w m))" using assms unfolding advice_ok_def by blast
    then show ?thesis by (auto simp: view_def)
  qed
  let ?w = "w\<lparr>advices := (advices w)(next_advice w := ao), next_advice := next_advice w + 1\<rparr>"
  have jp: "jp_of (w\<lparr>advices := adv, next_advice := i\<rparr>) m = jp_of w m" for m adv i by (simp add: jp_of_def)
  show ?thesis
  proof (cases "one \<and> (\<exists>a \<in> set (view w m ?k). a_target a = a_target ao)")
    case True
    then show ?thesis using has by (auto simp: addAdvice_def Let_def)
  next
    case False
    then have "addAdvice m ao ty pr one w =
        set_jp m (setArr ?k (if pr = ''first'' then next_advice w # ?arr else ?arr @ [next_advice w]) (jp_of w m)) ?w"
      using has by (auto simp: addAdvice_def Let_def)
    then show ?thesis using False by (auto simp: view_def [of "set_jp m jp w" for jp w] jp old)
  qed
qed

lemma advice_ok_removeAdvice: "advice_ok w \<Longrightarrow> advice_ok (removeAdvice m target ty one w)"
  using remove_loop_subset by (fastforce simp: advice_ok_def removeAdvice_def Let_def)

lemma view_removeAdvice:
  "view (removeAdvice m target ty False w) m' k =
    (if m' = m \<and> k = getArr_kind ty then filter (\<lambda>a. a_target a \<noteq> target) (view w m k) else view w m' k)"
  by (auto simp: view_def removeAdvice_def Let_def remove_loop_all filter_map comp_def)

section \<open>Sequences of connections\<close>

lemma getArr_kind_simps [simp]:
  "getArr_kind ''before'' = Before" "getArr_kind ''after'' = After" "getArr_kind ''around'' = Around" "getArr_kind [] = After"
  by (simp_all add: getArr_kind_def js_indexOf.simps)

definition conn_target :: "connection \<Rightarrow> mref" where
  "conn_target c = (adviceObj c, adviceFunc c)"

abbreviation conn_kind :: "connection \<Rightarrow> kind" where
  "conn_kind c \<equiv> getArr_kind (adviceType c)"

text \<open>
  The contract of connecting and disconnecting: what they do to the lists of advice of each kind. Connections
  with precedence \<open>first\<close> go to the front.
\<close>

locale advice_lists =
  fixes good :: "'w \<Rightarrow> bool"
    and lists :: "'w \<Rightarrow> mref \<Rightarrow> kind \<Rightarrow> advice list"
    and conn :: "connection \<Rightarrow> mref \<Rightarrow> 'w \<Rightarrow> 'w"
    and disc :: "connection \<Rightarrow> mref \<Rightarrow> 'w \<Rightarrow> 'w"
  assumes good_conn: "good w \<Longrightarrow> good (conn c m w)"
    and good_disc: "good w \<Longrightarrow> good (disc c m w)"
    and lists_conn: "good w \<Longrightarrow> \<not> once c \<Longrightarrow> lists (conn c m w) m' k =
      (if m' = m \<and> k = conn_kind c
       then if precedence c = ''first'' then connection_advice c # lists w m k else lists w m k @ [connection_advice c]
       else lists w m' k)"
    and lists_disc: "good w \<Longrightarrow> \<not> once c \<Longrightarrow> lists (disc c m w) m' k =
      (if m' = m \<and> k = conn_kind c then filter (\<lambda>a. a_target a \<noteq> conn_target c) (lists w m k) else lists w m' k)"
begin

lemma good_conns: "good w \<Longrightarrow> good (fold (\<lambda>c. conn c m) cs w)"
  by (induction cs arbitrary: w) (simp_all add: good_conn)

lemma good_discs: "good w \<Longrightarrow> good (fold (\<lambda>c. disc c m) cs w)"
  by (induction cs arbitrary: w) (simp_all add: good_disc)

lemma lists_conns:
  assumes "good w" "\<forall>c \<in> set cs. \<not> once c"
  shows "lists (fold (\<lambda>c. conn c m) cs w) m' k =
    (if m' = m
     then map connection_advice (rev (filter (\<lambda>c. conn_kind c = k \<and> precedence c = ''first'') cs)) @ lists w m k
       @ map connection_advice (filter (\<lambda>c. conn_kind c = k \<and> precedence c \<noteq> ''first'') cs)
     else lists w m' k)"
  using assms by (induction cs arbitrary: w) (auto simp: good_conn lists_conn)

lemma lists_discs:
  assumes "good w" "\<forall>c \<in> set ds. \<not> once c"
  shows "lists (fold (\<lambda>c. disc c m) ds w) m' k =
    (if m' = m then filter (\<lambda>a. \<forall>d \<in> set ds. conn_kind d = k \<longrightarrow> a_target a \<noteq> conn_target d) (lists w m k) else lists w m' k)"
  using assms by (induction ds arbitrary: w) (auto simp: good_disc lists_disc intro!: filter_cong)

end

lemma advice_ok_connect_method: "advice_ok w \<Longrightarrow> advice_ok (connect_method c m w)"
  by (simp add: connect_method_def kwAddAdvice_def Let_def advice_ok_addAdvice)

lemma advice_ok_disconnect_method: "advice_ok w \<Longrightarrow> advice_ok (disconnect_method c m w)"
  by (simp add: disconnect_method_def advice_ok_removeAdvice)

text \<open>A disconnection where the function is missing does nothing; then nothing is connected either.\<close>

definition lists_ok :: "('v, 's) world \<Rightarrow> bool" where
  "lists_ok w \<longleftrightarrow> advice_ok w \<and> (\<forall>m. funcs w m = None \<longrightarrow> joinpoints w m = None)"

lemma lists_ok_connect: "lists_ok w \<Longrightarrow> lists_ok (connect_method c m w)"
  by (auto simp: lists_ok_def advice_ok_connect_method)
    (auto simp: connect_method_def kwAddAdvice_def addAdvice_def Let_def split: if_splits option.splits)

lemma lists_ok_disconnect: "lists_ok w \<Longrightarrow> lists_ok (disconnect_method c m w)"
  by (auto simp: lists_ok_def advice_ok_disconnect_method)
    (auto simp: disconnect_method_def removeAdvice_def Let_def split: if_splits option.splits)

interpretation connections: advice_lists lists_ok view connect_method disconnect_method
proof
  fix c :: connection and m m' k and w :: "('v, 's) world"
  assume ok: "lists_ok w" and "\<not> once c"
  then show "view (connect_method c m w) m' k =
      (if m' = m \<and> k = conn_kind c
       then if precedence c = ''first'' then connection_advice c # view w m k else view w m k @ [connection_advice c]
       else view w m' k)"
    by (simp add: connect_method_def kwAddAdvice_def Let_def view_addAdvice lists_ok_def)
  show "view (disconnect_method c m w) m' k =
      (if m' = m \<and> k = conn_kind c then filter (\<lambda>a. a_target a \<noteq> conn_target c) (view w m k) else view w m' k)"
  proof (cases "funcs w m = None")
    case True
    then have "joinpoints w m = None" using ok unfolding lists_ok_def by blast
    then have "view w m k = []" by (simp add: view_def jp_of_def)
    with True show ?thesis by (auto simp: disconnect_method_def)
  next
    case False
    then obtain g where "funcs w m = Some g" by blast
    then show ?thesis using \<open>\<not> once c\<close> by (simp add: disconnect_method_def view_removeAdvice conn_target_def)
  qed
qed (simp_all add: lists_ok_connect lists_ok_disconnect)

text \<open>What a connection leaves as it was, or at least as simple.\<close>

lemma idle_view: "idle (joinpoints w m) \<longleftrightarrow> (\<forall>k. view w m k = [])"
proof -
  have "(\<forall>k. getArr k jp = []) \<longleftrightarrow> jp_before jp = [] \<and> jp_after jp = [] \<and> jp_around jp = []" for jp
    by (metis (full_types) getArr_def kind.exhaust kind.simps(7,8,9))
  then show ?thesis by (auto simp: idle_def view_def jp_of_def new_joinpoint_def split: option.splits)
qed

lemma funcs_connect_method: "funcs w m' = Some g \<Longrightarrow> funcs (connect_method c m w) m' = Some g"
  by (auto simp: connect_method_def kwAddAdvice_def addAdvice_def Let_def split: option.splits)

lemma funcs_disconnect_method: "funcs w m' = Some g \<Longrightarrow> funcs (disconnect_method c m w) m' = Some g"
  by (auto simp: disconnect_method_def removeAdvice_def Let_def split: option.splits)

lemma app_connect_method [simp]: "app (connect_method c m w) = app w" "app (disconnect_method c m w) = app w"
  by (simp_all add: connect_method_def kwAddAdvice_def addAdvice_def disconnect_method_def removeAdvice_def Let_def)

lemma fold_connect_method:
  "funcs w m' = Some g \<Longrightarrow> funcs (fold (\<lambda>c. connect_method c m) cs w) m' = Some g"
  "app (fold (\<lambda>c. connect_method c m) cs w) = app w"
  by (induction cs arbitrary: w) (simp_all add: funcs_connect_method)

lemma fold_disconnect_method:
  "funcs w m' = Some g \<Longrightarrow> funcs (fold (\<lambda>c. disconnect_method c m) cs w) m' = Some g"
  "app (fold (\<lambda>c. disconnect_method c m) cs w) = app w"
  by (induction cs arbitrary: w) (simp_all add: funcs_disconnect_method)

lemma connect_single:
  assumes "srcObj c = Source ob" "srcFunc c = nm" "to_lower nm \<noteq> ''onkey''"
  shows "connect ie c = connect_method c (ob, nm)"
    and "adviceFunc c \<noteq> [] \<Longrightarrow> disconnect ie c = disconnect_method c (ob, nm)"
  using assms by (auto simp: connect_def disconnect_def event_names_def)

text \<open>The targets that are left of a kind, in the order in which they are called.\<close>

definition call_order :: "kind \<Rightarrow> connection list \<Rightarrow> connection list \<Rightarrow> mref list" where
  "call_order k cs ds =
     filter (\<lambda>m. \<forall>d \<in> set ds. conn_kind d = k \<longrightarrow> m \<noteq> conn_target d)
       (map conn_target (rev (filter (\<lambda>c. conn_kind c = k \<and> precedence c = ''first'') cs)
          @ filter (\<lambda>c. conn_kind c = k \<and> precedence c \<noteq> ''first'') cs))"

lemma a_target_connection [simp]: "a_target (connection_advice c) = conn_target c"
  by (simp add: connection_advice_def conn_target_def)

lemma view_connected:
  fixes m :: mref
  assumes "joinpoints w = Map.empty" "\<forall>c \<in> set cs \<union> set ds. \<not> once c"
  defines "w' \<equiv> fold (\<lambda>c. disconnect_method c m) ds (fold (\<lambda>c. connect_method c m) cs w)"
  shows "map a_target (view w' m k) = call_order k cs ds"
    and "set (view w' m k) \<subseteq> connection_advice ` {c \<in> set cs. conn_kind c = k}"
    and "m' \<noteq> m \<Longrightarrow> view w' m' k = []"
proof -
  have ok: "lists_ok w" and none: "view w m k = []" for m k
    using assms(1) by (simp_all add: lists_ok_def advice_ok_def view_def jp_of_def)
  have "\<forall>c \<in> set cs. \<not> once c" "\<forall>c \<in> set ds. \<not> once c" using assms(2) by auto
  note view = connections.lists_discs [OF connections.good_conns [OF ok] this(2)] connections.lists_conns [OF ok this(1)] none
  show "map a_target (view w' m k) = call_order k cs ds"
    unfolding w'_def view call_order_def by (simp add: filter_map comp_def)
  show "set (view w' m k) \<subseteq> connection_advice ` {c \<in> set cs. conn_kind c = k}" unfolding w'_def view by auto
  show "m' \<noteq> m \<Longrightarrow> view w' m' k = []" unfolding w'_def view by simp
qed

text \<open>The calls, with all connections of its kind removed by a disconnection.\<close>

lemma connected_calls:
  assumes "joinpoints w = Map.empty" "to_lower nm \<noteq> ''onkey''" "funcs w (ob, nm) = Some g" "pure_fn code f g"
    and "\<forall>c \<in> set cs \<union> set ds. srcObj c = Source ob \<and> srcFunc c = nm \<and> \<not> once c \<and> adviceFunc c \<noteq> []"
    and "\<forall>c \<in> set cs. conn_kind c \<noteq> Around \<and> conn_target c \<noteq> (ob, nm) \<and> direct (connection_advice c)
        \<and> (\<exists>h. funcs w (conn_target c) = Some h \<and> pure_fn code f h)"
  shows "\<exists>s w'. s = advice_effect f w args (call_order Before cs ds) (app w)
    \<and> call_method ct code (Suc (Suc n)) (ob, nm) args (fold (disconnect ie) ds (fold (connect ie) cs w))
        = Some (Inr (snd (fn_result f (Some g) args s)), w')
    \<and> app w' = advice_effect f w args (call_order After cs ds) (fn_effect f (Some g) args s)"
proof -
  let ?m = "(ob, nm)"
  let ?w1 = "fold (\<lambda>c. connect_method c ?m) cs w"
  let ?w2 = "fold (\<lambda>c. disconnect_method c ?m) ds ?w1"
  have "fold (connect ie) cs w = ?w1"
    using assms(5) connect_single(1) [OF _ _ assms(2)] by (intro fold_cong) auto
  moreover have "fold (disconnect ie) ds ?w1 = ?w2"
    using assms(5) connect_single(2) [OF _ _ assms(2)] by (intro fold_cong) auto
  ultimately have w2: "fold (disconnect ie) ds (fold (connect ie) cs w) = ?w2" by simp
  have once: "\<forall>c \<in> set cs \<union> set ds. \<not> once c" using assms(5) by blast
  note view = view_connected [OF assms(1) once, where m = ?m]
  have funcs: "funcs ?w2 m = Some h" if "funcs w m = Some h" for m h
    using that by (simp add: fold_connect_method fold_disconnect_method)
  have simple: "direct a \<and> simple_method code f ?w2 (a_target a)" if a: "a \<in> set (view ?w2 ?m k)" for a k
  proof -
    obtain c where c: "c \<in> set cs" "a = connection_advice c" using view(2) a by blast
    then have "conn_target c \<noteq> ?m" "direct a" using assms(6) by auto
    moreover obtain h where "funcs w (conn_target c) = Some h" "pure_fn code f h" using assms(6) c(1) by blast
    ultimately show ?thesis using c view(3) funcs by (auto simp: simple_method_def idle_view)
  qed
  have noaround: "view ?w2 ?m Around = []"
  proof (rule ccontr)
    assume "view ?w2 ?m Around \<noteq> []"
    then have "hd (view ?w2 ?m Around) \<in> set (view ?w2 ?m Around)" by (rule hd_in_set)
    then obtain c where "c \<in> set cs" "conn_kind c = Around" using view(2) [of Around] by blast
    then show False using assms(6) by blast
  qed
  have args: "advice_effect f ?w2 args (call_order k cs ds) s = advice_effect f w args (call_order k cs ds) s" for k s
  proof -
    have "funcs ?w2 m = funcs w m" if m: "m \<in> set (call_order k cs ds)" for m
    proof -
      obtain c where "c \<in> set cs" "m = conn_target c" using m by (auto simp: call_order_def)
      then obtain h where "funcs w m = Some h" using assms(6) by blast
      then show ?thesis using funcs by simp
    qed
    then show ?thesis unfolding advice_effect_def by (intro fold_cong) auto
  qed
  show ?thesis
  proof (cases "joinpoints ?w2 ?m")
    case None
    then have "view ?w2 ?m k = []" for k by (simp add: view_def jp_of_def)
    then have "call_order k cs ds = []" for k using view(1) by (metis list.map_disc_iff)
    moreover have "simple_method code f ?w2 ?m" using None funcs assms(3,4) by (simp add: simple_method_def idle_def)
    ultimately show ?thesis
      using invoke_simple [of code f ?w2 ?m ct "Suc n" args] funcs [OF assms(3)]
      unfolding w2 by (auto simp: fold_connect_method fold_disconnect_method simp del: call_method.simps)
  next
    case (Some jp)
    then have jp: "view ?w2 ?m k = map (advices ?w2) (getArr k jp)" for k by (simp add: view_def jp_of_def)
    have "jp_around jp = []" using noaround by (simp add: jp getArr_def)
    moreover have "\<forall>i \<in> set (jp_before jp) \<union> set (jp_after jp). direct (advices ?w2 i) \<and> simple_method code f ?w2 (a_target (advices ?w2 i))"
      using simple [of _ Before] simple [of _ After] by (auto simp: jp getArr_def)
    moreover have "map (\<lambda>i. a_target (advices ?w2 i)) (jp_before jp) = call_order Before cs ds"
      "map (\<lambda>i. a_target (advices ?w2 i)) (jp_after jp) = call_order After cs ds"
      using view(1) [of Before] view(1) [of After] by (simp_all add: jp getArr_def comp_def)
    ultimately show ?thesis
      using invoke_order [OF Some _ funcs [OF assms(3)] assms(4), where args = args and ct = ct and n = n] funcs [OF assms(3)]
      unfolding w2 by (auto simp: args fold_connect_method fold_disconnect_method simp del: call_method.simps)
  qed
qed

text \<open>
  The order that the comments of the source specify: each disconnection removes one connection. The code removes all connections of the kind to the listener, which is the same
  when there is at most one.
\<close>

definition specified_order :: "kind \<Rightarrow> connection list \<Rightarrow> connection list \<Rightarrow> mref list" where
  "specified_order k cs ds =
     fold remove1 (map conn_target (filter (\<lambda>d. conn_kind d = k) ds))
       (map conn_target (rev (filter (\<lambda>c. conn_kind c = k \<and> precedence c = ''first'') cs)
          @ filter (\<lambda>c. conn_kind c = k \<and> precedence c \<noteq> ''first'') cs))"

lemma remove1_once: "count_list xs x \<le> 1 \<Longrightarrow> remove1 x xs = filter (\<lambda>y. y \<noteq> x) xs"
proof (induction xs)
  case (Cons y ys)
  have "x \<notin> set ys \<Longrightarrow> filter (\<lambda>y. y \<noteq> x) ys = ys" by (metis (mono_tags, lifting) filter_True)
  then show ?case using Cons by (auto simp: count_list_0_iff)
qed simp

lemma count_list_filter: "count_list (filter P xs) x \<le> count_list xs x"
  by (induction xs) auto

lemma fold_remove1_once: "\<forall>t \<in> set ts. count_list xs t \<le> 1 \<Longrightarrow> fold remove1 ts xs = filter (\<lambda>y. y \<notin> set ts) xs"
proof (induction ts arbitrary: xs)
  case (Cons t ts)
  have r: "remove1 t xs = filter (\<lambda>y. y \<noteq> t) xs" using Cons.prems by (simp add: remove1_once)
  have "\<forall>u \<in> set ts. count_list (filter (\<lambda>y. y \<noteq> t) xs) u \<le> 1"
    using Cons.prems count_list_filter [of "\<lambda>y. y \<noteq> t" xs] order_trans by (metis list.set_intros(2))
  from Cons.IH [OF this] show ?case by (simp add: r conj_commute)
qed simp

lemma specified_call_order:
  assumes "\<forall>d \<in> set ds. length (filter (\<lambda>c. conn_kind c = conn_kind d \<and> conn_target c = conn_target d) cs) \<le> 1"
  shows "specified_order k cs ds = call_order k cs ds"
proof -
  let ?xs = "map conn_target (rev (filter (\<lambda>c. conn_kind c = k \<and> precedence c = ''first'') cs)
    @ filter (\<lambda>c. conn_kind c = k \<and> precedence c \<noteq> ''first'') cs)"
  have "count_list ?xs t = length (filter (\<lambda>c. conn_kind c = k \<and> conn_target c = t) cs)" for t by (induction cs) auto
  then have "\<forall>t \<in> set (map conn_target (filter (\<lambda>d. conn_kind d = k) ds)). count_list ?xs t \<le> 1" using assms by auto
  moreover have "(y \<notin> set (map conn_target (filter (\<lambda>d. conn_kind d = k) ds))) = (\<forall>d \<in> set ds. conn_kind d = k \<longrightarrow> y \<noteq> conn_target d)" for y by auto
  ultimately show ?thesis
    unfolding specified_order_def call_order_def using fold_remove1_once [of "map conn_target (filter (\<lambda>d. conn_kind d = k) ds)" ?xs] by (simp only:)
qed

text \<open>
  Claim C28. A call of a method runs the listeners that were connected before it, then the method, then those connected
  after it, and returns what the method returned. Within a kind, listeners connected with precedence \<open>first\<close> come first, the latest
  at the front, and the others follow in the order of connection. A disconnection takes one connection away, when the listener that is disconnected was connected at most once in
  the kind. This is shown for listeners and methods that change the application in an arbitrary way but not the connections.
\<close>

theorem connected_call_order:
  assumes "joinpoints w = Map.empty" "to_lower nm \<noteq> ''onkey''" "funcs w (ob, nm) = Some g" "pure_fn code f g"
    and "\<forall>c \<in> set cs \<union> set ds. srcObj c = Source ob \<and> srcFunc c = nm \<and> \<not> once c \<and> adviceFunc c \<noteq> []"
    and "\<forall>c \<in> set cs. conn_kind c \<noteq> Around \<and> conn_target c \<noteq> (ob, nm) \<and> direct (connection_advice c)
        \<and> (\<exists>h. funcs w (conn_target c) = Some h \<and> pure_fn code f h)"
    and "\<forall>d \<in> set ds. length (filter (\<lambda>c. conn_kind c = conn_kind d \<and> conn_target c = conn_target d) cs) \<le> 1"
  shows "\<exists>s w'. s = advice_effect f w args (specified_order Before cs ds) (app w)
    \<and> call_method ct code (Suc (Suc n)) (ob, nm) args (fold (disconnect ie) ds (fold (connect ie) cs w))
        = Some (Inr (snd (fn_result f (Some g) args s)), w')
    \<and> app w' = advice_effect f w args (specified_order After cs ds) (fn_effect f (Some g) args s)"
  unfolding specified_call_order [OF assms(7)] by (rule connected_calls [OF assms(1-6)])

text \<open>
  An application whose state is the list of the functions called so far; function 9 returns its first argument.
\<close>

definition log_fn :: "nat \<Rightarrow> nat arg list \<Rightarrow> nat list \<Rightarrow> nat list \<times> nat option" where
  "log_fn c args s = (s @ [c], case args of [Val v] \<Rightarrow> Some v | _ \<Rightarrow> None)"

definition log_code :: "(nat, nat list) code" where
  "log_code c iv pro args w = Some (Inr (snd (log_fn c args (app w))), w\<lparr>app := fst (log_fn c args (app w))\<rparr>)"

lemma log_code_pure [simp]: "pure_fn log_code log_fn g"
  by (cases g) (simp_all add: pure_fn_def log_code_def)

definition log_world :: "(nat, nat list) world" where
  "log_world = \<lparr>funcs = (\<lambda>(ob, nm). if ob < 5 then Some (Code ob) else None), joinpoints = Map.empty,
     advices = (\<lambda>_. connection_advice (listener_connection 0 (0, ''f''))), next_advice = 0, invs = (\<lambda>_. To (0, ''f'') 0),
     next_inv = 0, arrays = (\<lambda>_. []), next_array = 0, timers = [], next_timer = 0, topics = Map.empty, next_obj = 5,
     now = 0, app = []\<rparr>"

lemma log_world_simps [simp]:
  "funcs log_world m = (if fst m < 5 then Some (Code (fst m)) else None)" "joinpoints log_world = Map.empty"
  "topics log_world = Map.empty" "next_obj log_world = 5" "app log_world = []" "now log_world = 0"
  by (auto simp: log_world_def split: prod.splits)

definition log_conn :: "nat \<Rightarrow> string \<Rightarrow> string \<Rightarrow> connection" where
  "log_conn ob ty pr = (listener_connection 0 (ob, ''f''))\<lparr>srcFunc := ''f'', adviceType := ty, precedence := pr\<rparr>"

theorem connected_call_order_witness:
  "\<exists>w'. call_method True log_code 2 (0, ''f'') [Val 7]
      (fold (disconnect False) [log_conn 3 ''after'' []]
         (fold (connect False) [log_conn 1 ''after'' [], log_conn 2 ''after'' ''first'', log_conn 3 ''after'' [], log_conn 4 ''before'' []] log_world))
    = Some (Inr (Some 7), w') \<and> app w' = [4, 0, 2, 1]"
  using connected_call_order [of log_world "''f''" 0 "Code 0" log_code log_fn
      "[log_conn 1 ''after'' [], log_conn 2 ''after'' ''first'', log_conn 3 ''after'' [], log_conn 4 ''before'' []]" "[log_conn 3 ''after'' []]"
      "[Val 7]" True 0 False]
  by (simp add: log_conn_def listener_connection_def to_lower_def direct_def connection_advice_def conn_target_def
      specified_order_def advice_effect_def fn_result_def log_fn_def numeral_2_eq_2 del: call_method.simps)

section \<open>Topics\<close>

text \<open>The operations on topics, and the abstract state that they implement: the list of subscribers of each topic.\<close>

datatype 'v topic_op = Subscribe string mref | Unsubscribe string mref | Publish string "'v arg list" | Destroy string
  | Squelch string bool

fun topic_step :: "bool \<Rightarrow> bool \<Rightarrow> ('v, 's) code \<Rightarrow> nat \<Rightarrow> 'v topic_op \<Rightarrow> ('v, 's) world \<Rightarrow> ('v, 's) out" where
  "topic_step ie ct code n (Subscribe t m) w = subscribe ie t m w"
| "topic_step ie ct code n (Unsubscribe t m) w = unsubscribe ie t m w"
| "topic_step ie ct code n (Publish t args) w = publish ct code n t args w"
| "topic_step ie ct code n (Destroy t) w = destroy t w"
| "topic_step ie ct code n (Squelch t b) w = setSquelch t b w"

fun topic_run :: "bool \<Rightarrow> bool \<Rightarrow> ('v, 's) code \<Rightarrow> nat \<Rightarrow> 'v topic_op list \<Rightarrow> ('v, 's) world \<Rightarrow> ('v, 's) out" where
  "topic_run ie ct code n [] w = Some (Inr None, w)"
| "topic_run ie ct code n (p # ps) w = ebind (topic_step ie ct code n p w) (\<lambda>_ w. topic_run ie ct code n ps w)"

fun subscribers_step ::
  "('v arg list \<Rightarrow> mref \<Rightarrow> 's \<Rightarrow> 's) \<Rightarrow> 'v topic_op \<Rightarrow> (string \<Rightarrow> mref list) \<times> 's \<Rightarrow> (string \<Rightarrow> mref list) \<times> 's" where
  "subscribers_step eff (Subscribe t m) (A, s) = (A(t := A t @ [m]), s)"
| "subscribers_step eff (Unsubscribe t m) (A, s) = (A(t := filter (\<lambda>x. x \<noteq> m) (A t)), s)"
| "subscribers_step eff (Publish t args) (A, s) = (A, fold (eff args) (A t) s)"
| "subscribers_step eff (Destroy t) (A, s) = (A(t := []), s)"
| "subscribers_step eff (Squelch t b) (A, s) = (A, s)"

fun op_topic :: "'v topic_op \<Rightarrow> string" where
  "op_topic (Subscribe t m) = t"
| "op_topic (Unsubscribe t m) = t"
| "op_topic (Publish t args) = t"
| "op_topic (Destroy t) = t"
| "op_topic (Squelch t b) = t"

fun op_listener :: "'v topic_op \<Rightarrow> mref set" where
  "op_listener (Subscribe t m) = {m}"
| "op_listener (Unsubscribe t m) = {m}"
| "op_listener _ = {}"

text \<open>
  The invariant: \<open>A\<close> gives the subscribers of each topic, all of them in \<open>L\<close>; \<open>b\<close> separates the objects of the application from
  those of the topics.
\<close>

abbreviation sender :: "nat \<Rightarrow> mref" where
  "sender a \<equiv> (a, ''sendMessage'')"

definition topic_ok :: "('v, 's) world \<Rightarrow> nat \<Rightarrow> mref list \<Rightarrow> bool" where
  "topic_ok w a ms \<longleftrightarrow> funcs w (sender a) = Some DoNothing
     \<and> (\<forall>k. view w (sender a) k = (if k = After then map (\<lambda>m. connection_advice (listener_connection 0 m)) ms else []))"

definition topic_inv ::
  "('v, 's) code \<Rightarrow> (nat \<Rightarrow> 'v arg list \<Rightarrow> 's \<Rightarrow> 's \<times> 'v option) \<Rightarrow> (mref \<rightharpoonup> fn) \<Rightarrow> nat \<Rightarrow> mref set \<Rightarrow> (string \<Rightarrow> mref list) \<Rightarrow> ('v, 's) world \<Rightarrow> bool" where
  "topic_inv code f F b L A w \<longleftrightarrow>
     lists_ok w \<and> b \<le> next_obj w
     \<and> (\<forall>m \<in> L. fst m < b \<and> snd m \<noteq> [] \<and> simple_method code f w m \<and> funcs w m = F m)
     \<and> (\<forall>t a. topics w t = Some a \<longrightarrow> b \<le> a \<and> a < next_obj w \<and> topic_ok w a (A t) \<and> set (A t) \<subseteq> L)
     \<and> (\<forall>t. topics w t = None \<longrightarrow> A t = [])
     \<and> (\<forall>t t' a. topics w t = Some a \<and> topics w t' = Some a \<longrightarrow> t = t')
     \<and> (\<forall>a k. next_obj w \<le> a \<longrightarrow> view w (sender a) k = [])"

lemma listener_advice: "connection_advice (listener_connection t m) = connection_advice (listener_connection 0 m)"
  by (simp add: connection_advice_def listener_connection_def)

lemma listener_connection_simps [simp]:
  "conn_target (listener_connection t m) = m" "\<not> once (listener_connection t m)" "adviceType (listener_connection t m) = []"
  "precedence (listener_connection t m) = []" "direct (connection_advice (listener_connection t m))"
  by (simp_all add: conn_target_def listener_connection_def direct_def connection_advice_def)

lemma connect_listener:
  "connect ie (listener_connection t m) = connect_method (listener_connection t m) (sender t)"
  "snd m \<noteq> [] \<Longrightarrow> disconnect ie (listener_connection t m) = disconnect_method (listener_connection t m) (sender t)"
  using connect_single [of "listener_connection t m" t "''sendMessage''" ie]
  by (simp_all add: listener_connection_def to_lower_def)

lemma connect_method_fields [simp]:
  "topics (connect_method c m w) = topics w" "next_obj (connect_method c m w) = next_obj w"
  "topics (disconnect_method c m w) = topics w" "next_obj (disconnect_method c m w) = next_obj w"
  by (simp_all add: connect_method_def kwAddAdvice_def addAdvice_def disconnect_method_def removeAdvice_def Let_def)

lemma topic_inv_topic:
  assumes "topic_inv code f F b L A w" "topics w t = Some a"
  shows "b \<le> a" "a < next_obj w" "topic_ok w a (A t)" "set (A t) \<subseteq> L"
    "topics w t' = Some a \<Longrightarrow> t' = t"
  using assms unfolding topic_inv_def by blast+

lemma topic_inv_listener:
  assumes "topic_inv code f F b L A w" "m \<in> L"
  shows "fst m < b" "snd m \<noteq> []" "simple_method code f w m" "funcs w m = F m"
  using assms unfolding topic_inv_def by blast+

text \<open>A change of the advice of one topic.\<close>

lemma topic_inv_change:
  assumes inv: "topic_inv code f F b L A w" "topics w t = Some a"
    and ok: "lists_ok w'" and fields: "topics w' = topics w" "next_obj w' = next_obj w"
    and funcs: "\<And>m g. funcs w m = Some g \<Longrightarrow> funcs w' m = Some g"
    and view: "\<And>m k. view w' m k = (if m = sender a \<and> k = After then map (\<lambda>m. connection_advice (listener_connection 0 m)) ms else view w m k)"
    and ms: "set ms \<subseteq> L"
  shows "topic_inv code f F b L (A(t := ms)) w'"
proof -
  have simple: "fst m < b \<and> snd m \<noteq> [] \<and> simple_method code f w' m \<and> funcs w' m = F m" if "m \<in> L" for m
  proof -
    note m = topic_inv_listener [OF inv(1) that]
    then have "m \<noteq> sender a" using topic_inv_topic(1) [OF inv] by auto
    moreover obtain g where "funcs w m = Some g" using m(3) by (auto simp: simple_method_def)
    ultimately show ?thesis using m view funcs by (simp add: simple_method_def idle_view)
  qed
  have topic: "b \<le> x \<and> x < next_obj w \<and> topic_ok w' x ((A(t := ms)) y) \<and> set ((A(t := ms)) y) \<subseteq> L" if x: "topics w y = Some x" for x y
  proof (cases "y = t")
    case True
    then have "x = a" using x inv(2) by simp
    then show ?thesis using topic_inv_topic [OF inv] True funcs view ms by (simp add: topic_ok_def)
  next
    case False
    then have "x \<noteq> a" using topic_inv_topic(5) [OF inv] x by blast
    then show ?thesis using topic_inv_topic [OF inv(1) x] False funcs view by (simp add: topic_ok_def)
  qed
  have fresh: "view w' (sender x) k = []" if "next_obj w \<le> x" for x k
    using that view topic_inv_topic(2) [OF inv] inv(1) by (auto simp: topic_inv_def)
  show ?thesis
    unfolding topic_inv_def fields
    using ok simple topic fresh inv by (simp add: topic_inv_def)
qed

lemma getTopic_inv:
  assumes "topic_inv code f F b L A w" "\<not> inherited t"
  shows "\<exists>a w1. getTopic t w = (Inr a, w1) \<and> topics w1 t = Some a \<and> topic_inv code f F b L A w1 \<and> app w1 = app w"
proof (cases "topics w t")
  case None
  let ?w = "w\<lparr>next_obj := Suc (next_obj w), topics := (topics w)(t \<mapsto> next_obj w), funcs := (funcs w)(sender (next_obj w) \<mapsto> DoNothing)\<rparr>"
  have view: "view ?w = view w" by (intro ext) (simp add: view_def jp_of_def)
  have "topic_inv code f F b L A ?w"
  proof -
    have "lists_ok ?w"
      using assms(1) by (auto simp: topic_inv_def lists_ok_def advice_ok_def jp_of_def)
    moreover have "\<forall>m \<in> L. fst m < b \<and> snd m \<noteq> [] \<and> simple_method code f ?w m \<and> funcs ?w m = F m"
    proof
      fix m assume "m \<in> L"
      note m = topic_inv_listener [OF assms(1) this]
      moreover have "b \<le> next_obj w" using assms(1) by (simp add: topic_inv_def)
      ultimately have "m \<noteq> sender (next_obj w)" by auto
      then show "fst m < b \<and> snd m \<noteq> [] \<and> simple_method code f ?w m \<and> funcs ?w m = F m" using m by (simp add: simple_method_def)
    qed
    moreover have "b \<le> x \<and> x < next_obj ?w \<and> topic_ok ?w x (A y) \<and> set (A y) \<subseteq> L" if "topics ?w y = Some x" for x y
    proof (cases "y = t")
      case True
      then show ?thesis using that assms(1) None by (auto simp: topic_inv_def topic_ok_def view)
    next
      case False
      then have "topics w y = Some x" using that by simp
      from topic_inv_topic [OF assms(1) this] show ?thesis by (simp add: topic_ok_def view)
    qed
    moreover have "y = y'" if "topics ?w y = Some x" "topics ?w y' = Some x" for x y y'
    proof -
      have less: "topics w z = Some x \<Longrightarrow> x < next_obj w" for z using topic_inv_topic(2) [OF assms(1)] by blast
      show ?thesis
      proof (cases "y = t \<or> y' = t")
        case True
        then show ?thesis using that less [of y] less [of y'] by (auto simp: fun_upd_def split: if_splits)
      next
        case False
        then have "topics w y = Some x" "topics w y' = Some x" using that by simp_all
        then show ?thesis using topic_inv_topic(5) [OF assms(1)] by blast
      qed
    qed
    moreover have "b \<le> next_obj ?w" "\<forall>y. topics ?w y = None \<longrightarrow> A y = []" "\<forall>a k. next_obj ?w \<le> a \<longrightarrow> view ?w (sender a) k = []"
      using assms(1) unfolding view topic_inv_def by simp_all
    ultimately show ?thesis unfolding topic_inv_def by blast
  qed
  then show ?thesis using None assms(2) by (simp add: getTopic_def Let_def)
qed (use assms in \<open>simp add: getTopic_def\<close>)

lemma subscribe_inv:
  assumes "topic_inv code f F b L A w" "topics w t = Some a" "m \<in> L"
  shows "topic_inv code f F b L (A(t := A t @ [m])) (connect_method (listener_connection a m) (sender a) w)"
proof (rule topic_inv_change [OF assms(1,2)])
  have ok: "lists_ok w" using assms(1) by (simp add: topic_inv_def)
  then show "lists_ok (connect_method (listener_connection a m) (sender a) w)" by (rule lists_ok_connect)
  show "view (connect_method (listener_connection a m) (sender a) w) m' k =
      (if m' = sender a \<and> k = After then map (\<lambda>m. connection_advice (listener_connection 0 m)) (A t @ [m]) else view w m' k)" for m' k
    using connections.lists_conn [OF ok, of "listener_connection a m" "sender a" m' k] topic_inv_topic(3) [OF assms(1,2)]
    by (simp add: topic_ok_def listener_advice [of a])
  show "set (A t @ [m]) \<subseteq> L" using topic_inv_topic(4) [OF assms(1,2)] assms(3) by simp
qed (simp_all add: funcs_connect_method)

lemma unsubscribe_inv:
  assumes "topic_inv code f F b L A w" "topics w t = Some a" "m \<in> L"
  shows "topic_inv code f F b L (A(t := filter (\<lambda>x. x \<noteq> m) (A t))) (disconnect_method (listener_connection a m) (sender a) w)"
proof (rule topic_inv_change [OF assms(1,2)])
  have ok: "lists_ok w" using assms(1) by (simp add: topic_inv_def)
  then show "lists_ok (disconnect_method (listener_connection a m) (sender a) w)" by (rule lists_ok_disconnect)
  show "view (disconnect_method (listener_connection a m) (sender a) w) m' k =
      (if m' = sender a \<and> k = After then map (\<lambda>m. connection_advice (listener_connection 0 m)) (filter (\<lambda>x. x \<noteq> m) (A t)) else view w m' k)" for m' k
    using connections.lists_disc [OF ok, of "listener_connection a m" "sender a" m' k] topic_inv_topic(3) [OF assms(1,2)]
    by (simp add: topic_ok_def filter_map comp_def)
  show "set (filter (\<lambda>x. x \<noteq> m) (A t)) \<subseteq> L" using topic_inv_topic(4) [OF assms(1,2)] by auto
qed (simp_all add: funcs_disconnect_method)

lemma topic_inv_getForMethod:
  assumes "topic_inv code f F b L A w" "topics w t = Some a"
  shows "topic_inv code f F b L A (getForMethod (sender a) w)"
proof -
  have "topic_inv code f F b L (A(t := A t)) (getForMethod (sender a) w)"
    using topic_inv_topic [OF assms] assms(1)
    by (intro topic_inv_change [OF assms]) (auto simp: topic_ok_def topic_inv_def lists_ok_def split: option.splits)
  then show ?thesis by simp
qed

lemma squelch_inv:
  assumes "topic_inv code f F b L A w" "topics w t = Some a" "joinpoints w (sender a) = Some jp"
  shows "topic_inv code f F b L A (set_jp (sender a) (jp\<lparr>jp_squelch := q\<rparr>) w)"
proof -
  have jp: "jp_of w (sender a) = jp" using assms(3) by (simp add: jp_of_def)
  have arr: "getArr k (jp\<lparr>jp_squelch := q\<rparr>) = getArr k jp" for k by (cases k) (simp_all add: getArr_def)
  have view: "view (set_jp (sender a) (jp\<lparr>jp_squelch := q\<rparr>) w) m k = view w m k" for m k
    by (simp add: view_def arr jp)
  have "advice_ok (set_jp (sender a) (jp\<lparr>jp_squelch := q\<rparr>) w)"
    using assms(1) unfolding topic_inv_def lists_ok_def advice_ok_def by (metis arr jp jp_of_set_jp set_jp_fields(2))
  then have ok: "lists_ok (set_jp (sender a) (jp\<lparr>jp_squelch := q\<rparr>) w)"
    using topic_inv_topic(3) [OF assms(1,2)] assms(1) by (auto simp: lists_ok_def topic_ok_def topic_inv_def)
  have "topic_inv code f F b L (A(t := A t)) (set_jp (sender a) (jp\<lparr>jp_squelch := q\<rparr>) w)"
    using topic_inv_topic [OF assms(1,2)] view
    by (intro topic_inv_change [OF assms(1,2) ok]) (auto simp: topic_ok_def)
  then show ?thesis by simp
qed

lemma topic_inv_forget:
  assumes "topic_inv code f F b L A w" "A t = []"
  shows "topic_inv code f F b L A (w\<lparr>topics := (topics w)(t := None)\<rparr>)"
proof -
  have "view (w\<lparr>topics := T\<rparr>) = view w" "simple_method code f (w\<lparr>topics := T\<rparr>) = simple_method code f w"
    "lists_ok (w\<lparr>topics := T\<rparr>) = lists_ok w" for T
    by (auto simp: view_def jp_of_def simple_method_def lists_ok_def advice_ok_def fun_eq_iff)
  then show ?thesis using assms by (simp add: topic_inv_def topic_ok_def)
qed

lemma unintercept_inv:
  assumes "topic_inv code f F b L A w" "topics w t = Some a"
  shows "topic_inv code f F b L (A(t := [])) (unintercept (sender a) w)"
proof -
  have arr: "getArr k (jp\<lparr>jp_before := [], jp_after := [], jp_around := []\<rparr>) = []" for k jp
    by (cases k) (simp_all add: getArr_def)
  have view: "view (unintercept (sender a) w) m k = (if m = sender a then [] else view w m k)" for m k
    by (simp add: view_def unintercept_def arr)
  have "advice_ok (unintercept (sender a) w)"
    using assms(1) unfolding topic_inv_def lists_ok_def advice_ok_def by (auto simp: arr unintercept_def)
  then have "lists_ok (unintercept (sender a) w)"
    using topic_inv_topic(3) [OF assms] assms(1) by (auto simp: lists_ok_def topic_ok_def topic_inv_def unintercept_def)
  then show ?thesis
    using topic_inv_topic [OF assms] view
    by (intro topic_inv_change [OF assms]) (auto simp: topic_ok_def unintercept_def)
qed

text \<open>Publishing calls the subscribers in order.\<close>

lemma publish_delivers:
  assumes "topic_inv code f F b L A w" "topics w t = Some a"
  shows "\<exists>v w'. call_method ct code (Suc (Suc n)) (sender a) args w = Some (Inr v, w') \<and> same_events w w'
    \<and> app w' = fold (\<lambda>m. fn_effect f (F m) args) (A t) (app w)"
proof -
  note ok = topic_inv_topic [OF assms]
  have fn: "funcs w (sender a) = Some DoNothing" "pure_fn code f DoNothing" using ok(3) by (auto simp: topic_ok_def pure_fn_def)
  have views: "view w (sender a) k = (if k = After then map (\<lambda>m. connection_advice (listener_connection 0 m)) (A t) else [])" for k
    using ok(3) by (simp add: topic_ok_def)
  have eff: "advice_effect f w args (A t) s = fold (\<lambda>m. fn_effect f (F m) args) (A t) s" for s
    unfolding advice_effect_def using ok(4) topic_inv_listener(4) [OF assms(1)] by (intro fold_cong) auto
  show ?thesis
  proof (cases "joinpoints w (sender a)")
    case None
    then have "A t = []" using views [of After] by (simp add: view_def jp_of_def)
    moreover have "simple_method code f w (sender a)" using None fn by (auto simp: simple_method_def idle_def)
    ultimately show ?thesis using invoke_simple [of code f w "sender a" ct "Suc n" args] fn by (auto simp: fn_result_def simp del: call_method.simps)
  next
    case (Some jp)
    then have jp: "map (advices w) (getArr k jp) = (if k = After then map (\<lambda>m. connection_advice (listener_connection 0 m)) (A t) else [])" for k
      using views [of k] by (simp add: view_def jp_of_def)
    have none: "jp_around jp = []" "jp_before jp = []" using jp [of Around] jp [of Before] by (simp_all add: getArr_def)
    have after: "map (advices w) (jp_after jp) = map (\<lambda>m. connection_advice (listener_connection 0 m)) (A t)"
      using jp [of After] by (simp add: getArr_def)
    have "direct (advices w i) \<and> simple_method code f w (a_target (advices w i))" if "i \<in> set (jp_after jp)" for i
    proof -
      have "advices w i \<in> set (map (advices w) (jp_after jp))" using that by simp
      then obtain m where "m \<in> set (A t)" "advices w i = connection_advice (listener_connection 0 m)" unfolding after by auto
      moreover from this have "simple_method code f w m" using topic_inv_listener(3) [OF assms(1)] ok(4) by blast
      ultimately show ?thesis by simp
    qed
    then have all: "\<forall>i \<in> set (jp_before jp) \<union> set (jp_after jp). direct (advices w i) \<and> simple_method code f w (a_target (advices w i))"
      using none by simp
    have "map (\<lambda>i. a_target (advices w i)) (jp_after jp) = map a_target (map (advices w) (jp_after jp))" by simp
    also have "\<dots> = A t" unfolding after by (simp add: comp_def)
    finally show ?thesis
      using invoke_order [OF Some none(1) fn all, where args = args and ct = ct and n = n] none(2) fn eff
      by (auto simp: fn_result_def simp del: call_method.simps)
  qed
qed

lemma topic_inv_same_events:
  assumes "topic_inv code f F b L A w" "same_events w w'"
  shows "topic_inv code f F b L A w'"
proof -
  have "view w' = view w" using assms(2) by (auto simp: view_def jp_of_def same_events_def fun_eq_iff)
  moreover have "lists_ok w' = lists_ok w"
    using assms(2) by (auto simp: lists_ok_def advice_ok_def jp_of_def same_events_def)
  ultimately show ?thesis
    using assms same_events_simple [OF assms(2)] by (simp add: topic_inv_def topic_ok_def) (simp add: same_events_def)
qed

lemma topic_step_refines:
  assumes inv: "topic_inv code f F b L A w" and "\<not> inherited (op_topic p)" "op_listener p \<subseteq> L"
  shows "\<exists>w'. topic_step ie ct code (Suc (Suc n)) p w = Some (Inr None, w')
    \<and> topic_inv code f F b L (fst (subscribers_step (\<lambda>args m. fn_effect f (F m) args) p (A, app w))) w'
    \<and> app w' = snd (subscribers_step (\<lambda>args m. fn_effect f (F m) args) p (A, app w))"
proof -
  obtain a w1 where get: "getTopic (op_topic p) w = (Inr a, w1)" and t: "topics w1 (op_topic p) = Some a"
    and inv1: "topic_inv code f F b L A w1" and app: "app w1 = app w"
    using getTopic_inv [OF inv assms(2)] by blast
  have sel: "with_topic (op_topic p) g w = g a w1" for g using get by (simp add: with_topic_def)
  have inv2: "topic_inv code f F b L A (getForMethod (sender a) w1)" by (rule topic_inv_getForMethod [OF inv1 t])
  show ?thesis
  proof (cases p)
    case (Subscribe t m)
    then show ?thesis using sel subscribe_inv [OF inv1 t, of m] assms(3) app
      by (simp add: subscribe_def connect_listener)
  next
    case (Unsubscribe t m)
    then show ?thesis using sel unsubscribe_inv [OF inv1 t, of m] topic_inv_listener(2) [OF inv1, of m] assms(3) app
      by (simp add: unsubscribe_def connect_listener)
  next
    case (Publish t args)
    obtain v w' where w': "call_method ct code (Suc (Suc n)) (sender a) args w1 = Some (Inr v, w')" "same_events w1 w'"
      "app w' = fold (\<lambda>m. fn_effect f (F m) args) (A (op_topic p)) (app w1)"
      using publish_delivers [OF inv1 t] by blast
    then show ?thesis using Publish sel topic_inv_same_events [OF inv1 w'(2)] app
      by (simp add: publish_def del: call_method.simps)
  next
    case (Destroy t)
    have "topic_inv code f F b L (A(op_topic p := [])) (unintercept (sender a) (getForMethod (sender a) w1))"
      using t by (intro unintercept_inv [OF inv2]) simp
    from topic_inv_forget [OF this, of "op_topic p"] show ?thesis using Destroy sel app
      by (simp add: destroy_def Let_def unintercept_def)
  next
    case (Squelch t q)
    have "topic_inv code f F b L A (set_jp (sender a) ((jp_of w1 (sender a))\<lparr>jp_squelch := q\<rparr>) (getForMethod (sender a) w1))"
      using t by (intro squelch_inv [OF inv2]) simp_all
    then show ?thesis using Squelch sel app by (simp add: setSquelch_def Let_def)
  qed
qed

lemma topic_run_refines:
  assumes "topic_inv code f F b L A w" "\<forall>p \<in> set ps. \<not> inherited (op_topic p) \<and> op_listener p \<subseteq> L"
  shows "\<exists>w'. topic_run ie ct code (Suc (Suc n)) ps w = Some (Inr None, w')
    \<and> app w' = snd (fold (subscribers_step (\<lambda>args m. fn_effect f (F m) args)) ps (A, app w))"
  using assms
proof (induction ps arbitrary: A w)
  case (Cons p ps)
  let ?A = "subscribers_step (\<lambda>args m. fn_effect f (F m) args) p (A, app w)"
  obtain w1 where w1: "topic_step ie ct code (Suc (Suc n)) p w = Some (Inr None, w1)"
    "topic_inv code f F b L (fst ?A) w1" "app w1 = snd ?A"
    using topic_step_refines [OF Cons.prems(1)] Cons.prems(2) by (metis list.set_intros(1))
  have "\<forall>p \<in> set ps. \<not> inherited (op_topic p) \<and> op_listener p \<subseteq> L" using Cons.prems(2) by simp
  from Cons.IH [OF w1(2) this] w1(3) obtain w' where "topic_run ie ct code (Suc (Suc n)) ps w1 = Some (Inr None, w')"
    "app w' = snd (fold (subscribers_step (\<lambda>args m. fn_effect f (F m) args)) ps ?A)" by auto
  then show ?case using w1(1) by (auto simp del: topic_step.simps)
qed simp

text \<open>
  Claim C9. Topics are lists of subscribers. Any sequence of subscriptions, cancellations, publications and destructions of topics
  succeeds and has the effect of the same sequence on the abstract state, in which a topic is just the list of its subscribers: a
  message is delivered to the listeners that are subscribed at that time, once for each subscription, in the order of subscription;
  a cancellation cancels all subscriptions of the listener to the topic and no others; topics do not interfere, and a destroyed topic starts anew.
  Listeners may change the application in any way, but not the subscriptions.
\<close>

theorem topic_delivery:
  assumes "joinpoints w = Map.empty" "topics w = Map.empty" "2 \<le> n"
    and "\<forall>p \<in> set ps. \<not> inherited (op_topic p)
        \<and> (\<forall>m \<in> op_listener p. fst m < next_obj w \<and> snd m \<noteq> [] \<and> (\<exists>g. funcs w m = Some g \<and> pure_fn code f g))"
  shows "\<exists>w'. topic_run ie ct code n ps w = Some (Inr None, w')
    \<and> app w' = snd (fold (subscribers_step (\<lambda>args m. fn_effect f (funcs w m) args)) ps (\<lambda>_. [], app w))"
proof -
  let ?L = "\<Union>p \<in> set ps. op_listener p"
  have "lists_ok w" "\<And>m k. view w m k = []"
    using assms(1) by (simp_all add: lists_ok_def advice_ok_def view_def jp_of_def)
  then have init: "topic_inv code f (funcs w) (next_obj w) ?L (\<lambda>_. []) w"
    using assms(1,2,4) by (auto simp: topic_inv_def simple_method_def idle_def)
  obtain k where n: "n = Suc (Suc k)" using assms(3) by (metis add_2_eq_Suc le_Suc_ex)
  from topic_run_refines [OF init, of ps ie ct k] show ?thesis using assms(4) n by blast
qed

theorem topic_delivery_witness:
  "\<exists>w'. topic_run False True log_code 2
      [Subscribe ''t'' (1, ''f''), Subscribe ''t'' (2, ''f''), Subscribe ''u'' (3, ''f''), Subscribe ''t'' (1, ''f''), Publish ''t'' [Val 5],
       Unsubscribe ''t'' (1, ''f''), Publish ''t'' [], Publish ''u'' []] log_world = Some (Inr None, w')
    \<and> app w' = [1, 2, 1, 2, 3]"
  using topic_delivery [of log_world 2
      "[Subscribe ''t'' (1, ''f''), Subscribe ''t'' (2, ''f''), Subscribe ''u'' (3, ''f''), Subscribe ''t'' (1, ''f''), Publish ''t'' [Val 5],
       Unsubscribe ''t'' (1, ''f''), Publish ''t'' [], Publish ''u'' []]" log_code log_fn False True]
  by (simp add: inherited_def proto_names_def fn_result_def log_fn_def del: topic_run.simps)

section \<open>Errors of listeners\<close>

lemma unroll_all_append:
  "unroll_all ct iv (xs @ ys) args a w = ebind (unroll_all ct iv xs args a w) (\<lambda>_ w. unroll_all ct iv ys args a w)"
proof (induction xs arbitrary: w)
  case (Cons x xs)
  show ?case
  proof (cases "unrollAdvice ct iv (Some x) (advices w x) args a w")
    case (Some p)
    then show ?thesis by (cases p; cases "fst p") (auto simp: Cons.IH)
  qed simp
qed simp

lemma invoke_raises:
  assumes "funcs w m = Some (Code c)" "joinpoints w m \<in> {None, Some new_joinpoint}"
    and "\<And>iv pro w. code c iv pro args w = Some (Inl e, w\<lparr>app := h (app w)\<rparr>)"
  shows "\<exists>e' w'. call_method ct code (Suc n) m args w = Some (Inl e', w') \<and> e' \<in> {e, reraise e}
    \<and> same_events w w' \<and> app w' = h (app w)"
  using assms(1,2) by (auto simp: run_joinpoint_def call_raw_def same_events_def new_joinpoint_def assms(3) Let_def)

text \<open>
  The error of a listener ends the delivery of a message, whether or not the topic was told to squelch errors: the
  listeners before it are called, those after it are not, and the error reaches the caller of \<open>publish\<close>. The comment
  of \<open>setSquelch\<close> says that its argument determines whether an error stops the chain, but the function that
  calls a listener looks for the flag in the global object instead of the join point.
\<close>

theorem squelch_without_effect:
  assumes "topics w t = Some a" "funcs w (sender a) = Some DoNothing" "joinpoints w (sender a) = Some jp"
    and "jp_before jp = []" "jp_around jp = []" "jp_after jp = is @ i # js"
    and "\<forall>j \<in> set is. direct (advices w j) \<and> simple_method code f w (a_target (advices w j)) \<and> a_target (advices w j) \<noteq> sender a"
    and "direct (advices w i)" "a_target (advices w i) = m" "m \<noteq> sender a"
    and "funcs w m = Some (Code c)" "joinpoints w m \<in> {None, Some new_joinpoint}"
    and "\<forall>iv pro w. code c iv pro args w = Some (Inl e, w\<lparr>app := h (app w)\<rparr>)"
  shows "\<exists>e' w'. ebind (setSquelch t q w) (\<lambda>_ w. publish ct code (Suc (Suc n)) t args w) = Some (Inl e', w')
    \<and> e' \<in> {e, reraise e}
    \<and> app w' = h (advice_effect f w args (map (\<lambda>j. a_target (advices w j)) is) (app w))"
proof -
  let ?jp = "jp\<lparr>jp_squelch := q\<rparr>"
  let ?w = "set_jp (sender a) ?jp w"
  let ?w1 = "?w\<lparr>arrays := (arrays ?w)(next_array ?w := args), next_array := next_array ?w + 1\<rparr>"
  have set: "setSquelch t q w = Some (Inr None, ?w)"
    using assms(1-3) by (simp add: setSquelch_def with_topic_def getTopic_def getForMethod_def jp_of_def Let_def)
  have "\<forall>j \<in> set is. direct (advices ?w1 j) \<and> simple_method code f ?w1 (a_target (advices ?w1 j))"
    using assms(7) by (simp add: simple_method_def)
  from unroll_all_direct [OF this, of ct n args "next_array ?w"] obtain w2 where
    w2: "unroll_all ct (call_method ct code (Suc n)) is args (next_array ?w) ?w1 = Some (Inr None, w2)" "same_events ?w1 w2"
      "app w2 = advice_effect f w args (map (\<lambda>j. a_target (advices w j)) is) (app w)"
    by (auto simp: advice_effect_def)
  let ?w3 = "w2\<lparr>invs := (invs w2)(next_inv w2 := To m (next_array ?w)), next_inv := next_inv w2 + 1\<rparr>"
  have "funcs ?w3 m = Some (Code c)" "joinpoints ?w3 m \<in> {None, Some new_joinpoint}" and adv: "advices w2 i = advices w i"
    using w2(2) assms(10-12) by (simp_all add: same_events_def)
  from invoke_raises [where h = h and code = code and e = e and args = args and ct = ct and n = n, OF this(1,2)] assms(13) obtain e' w' where
    w': "call_method ct code (Suc n) m args ?w3 = Some (Inl e', w')" "e' \<in> {e, reraise e}" "app w' = h (app w2)" by fastforce
  have "unrollAdvice ct (call_method ct code (Suc n)) (Some i) (advices w2 i) args (next_array ?w) w2 = Some (Inl e', w')"
    using \<open>funcs ?w3 m = Some (Code c)\<close> assms(8,9) w'(1) adv
    by (simp add: unrollAdvice_def direct_def check_rate_def del: call_method.simps)
  then have "unroll_all ct (call_method ct code (Suc n)) (jp_after jp) args (next_array ?w) ?w1 = Some (Inl e', w')"
    using w2(1) by (simp add: assms(6) unroll_all_append del: call_method.simps)
  then have "call_method ct code (Suc (Suc n)) (sender a) args ?w = Some (Inl e', w')"
    using assms(2,4,5) by (subst call_method.simps) (simp add: run_joinpoint_def call_raw_def Let_def del: call_method.simps)
  then show ?thesis
    using set assms(1) w'(2,3) w2(3) by (simp add: publish_def with_topic_def getTopic_def del: call_method.simps)
qed

text \<open>Function 2 raises an error after its call was recorded.\<close>

definition fail_code :: "(nat, nat list) code" where
  "fail_code c iv pro args w =
     (if c = 2 then Some (Inl (Raised ''broken''), w\<lparr>app := app w @ [c]\<rparr>) else log_code c iv pro args w)"

lemma fail_code_pure [simp]: "c \<noteq> 2 \<Longrightarrow> pure_fn fail_code log_fn (Code c)"
  by (simp add: pure_fn_def fail_code_def log_code_def)

definition fail_world :: "(nat, nat list) world" where
  "fail_world = log_world\<lparr>topics := [''t'' \<mapsto> 7], funcs := (funcs log_world)(sender 7 \<mapsto> DoNothing),
     joinpoints := [sender 7 \<mapsto> \<lparr>jp_before = [], jp_after = [1, 2, 3], jp_around = [], jp_squelch = False\<rparr>],
     advices := (\<lambda>i. connection_advice (listener_connection 0 (i, ''f'')))\<rparr>"

theorem squelch_without_effect_witness:
  "\<exists>e' w'. ebind (setSquelch ''t'' True fail_world) (\<lambda>_ w. publish True fail_code 2 ''t'' [] w) = Some (Inl e', w')
    \<and> e' = Raised ''broken'' \<and> app w' = [1, 2]"
  using squelch_without_effect [of fail_world "''t''" 7 "\<lparr>jp_before = [], jp_after = [1, 2, 3], jp_around = [], jp_squelch = False\<rparr>"
      "[1]" 2 "[3]" fail_code log_fn "(2, ''f'')" 2 "[]" "Raised ''broken''" "\<lambda>s. s @ [2]" True True 0]
  by (simp add: fail_world_def fail_code_def simple_method_def idle_def advice_effect_def fn_result_def log_fn_def reraise_def numeral_2_eq_2
      del: call_method.simps)

section \<open>Around advice\<close>

text \<open>
  An around function changes the application, proceeds, and changes the application and the result. \<open>pre c\<close> and \<open>post c\<close> say what
  function \<open>c\<close> does before and after.
\<close>

definition around_fn ::
  "('v, 's) code \<Rightarrow> (nat \<Rightarrow> 's \<Rightarrow> 's) \<Rightarrow> (nat \<Rightarrow> 's \<times> 'v option \<Rightarrow> 's \<times> 'v option) \<Rightarrow> nat \<Rightarrow> bool" where
  "around_fn code pre post c \<longleftrightarrow>
     (\<forall>iv pro i w. code c iv pro [Inv i] w =
        ebind (pro i (w\<lparr>app := pre c (app w)\<rparr>)) (\<lambda>v w.
          Some (Inr (snd (post c (app w, v))), w\<lparr>app := fst (post c (app w, v))\<rparr>)))"

text \<open>The nested calls: the first around function is the outermost.\<close>

fun nested :: "(nat \<Rightarrow> 's \<Rightarrow> 's) \<Rightarrow> (nat \<Rightarrow> 's \<times> 'v option \<Rightarrow> 's \<times> 'v option) \<Rightarrow> ('s \<Rightarrow> 's \<times> 'v option) \<Rightarrow> nat list \<Rightarrow> 's \<Rightarrow> 's \<times> 'v option" where
  "nested pre post g [] s = g s"
| "nested pre post g (c # cs) s = post c (nested pre post g cs (pre c s))"

lemma invoke_around:
  assumes "funcs w t = Some (Code c)" "idle (joinpoints w t)" "around_fn code pre post c"
    and go: "\<And>w1. same_events w w1 \<Longrightarrow> app w1 = pre c (app w) \<Longrightarrow> invs w1 = invs w \<Longrightarrow> next_inv w1 = next_inv w \<Longrightarrow>
      \<forall>x < next_array w. arrays w1 x = arrays w x \<Longrightarrow> next_array w \<le> next_array w1 \<Longrightarrow>
      \<exists>w2. proceed ct code n i w1 = Some (Inr v, w2) \<and> same_events w1 w2 \<and> app w2 = s"
  shows "\<exists>w'. call_method ct code (Suc n) t [Inv i] w = Some (Inr (snd (post c (s, v))), w') \<and> same_events w w' \<and> app w' = fst (post c (s, v))"
proof -
  let ?w1 = "case joinpoints w t of None \<Rightarrow> w
    | Some jp \<Rightarrow> w\<lparr>arrays := (arrays w)(next_array w := [Inv i]), next_array := Suc (next_array w)\<rparr>"
  let ?w2 = "?w1\<lparr>app := pre c (app ?w1)\<rparr>"
  have fields: "same_events w ?w2" "app ?w2 = pre c (app w)" "invs ?w2 = invs w" "next_inv ?w2 = next_inv w"
    "\<forall>x < next_array w. arrays ?w2 x = arrays w x" "next_array w \<le> next_array ?w2"
    by (simp_all add: same_events_def split: option.splits)
  from go [OF this] obtain w3 where w3: "proceed ct code n i ?w2 = Some (Inr v, w3)" "same_events ?w2 w3" "app w3 = s" by blast
  let ?w' = "w3\<lparr>app := fst (post c (s, v))\<rparr>"
  have same: "same_events w ?w'" using same_events_trans [OF fields(1) w3(2)] by (simp add: same_events_def)
  have "funcs ?w1 t = Some (Code c)" using assms(1) by (simp split: option.splits)
  then have call: "call_raw (\<lambda>c. code c (call_method ct code n) (proceed ct code n)) t [Inv i] ?w1 = Some (Inr (snd (post c (s, v))), ?w')"
    using w3 assms(3) by (simp add: call_raw_def around_fn_def del: call_method.simps proceed.simps)
  have "call_method ct code (Suc n) t [Inv i] w = Some (Inr (snd (post c (s, v))), ?w')"
  proof (cases "joinpoints w t")
    case None
    then show ?thesis using call by (subst call_method.simps) (simp del: call_method.simps proceed.simps)
  next
    case (Some jp)
    moreover from this have "joinpoints ?w' t = Some jp" using same by (simp add: same_events_def)
    ultimately show ?thesis using call assms(2)
      by (subst call_method.simps) (simp add: run_joinpoint_def idle_def Let_def del: call_method.simps proceed.simps)
  qed
  then show ?thesis using same by auto
qed

lemma proceed_nested:
  assumes "joinpoints w m = Some jp" "funcs w m = Some g" "pure_fn code f g"
    and "invs w i = MI m a k" "i < next_inv w" "arrays w a = args" "a < next_array w"
    and "- 1 \<le> k" "k + 1 + int (length cs) = int (length (jp_around jp))"
    and "\<forall>j < length cs. let t = a_target (advices w (jp_around jp ! (nat (k + 1) + j))) in
          funcs w t = Some (Code (cs ! j)) \<and> idle (joinpoints w t) \<and> around_fn code pre post (cs ! j)"
    and "2 * length cs < n"
  shows "\<exists>w'. proceed ct code n i w = Some (Inr (snd (nested pre post (fn_result f (Some g) args) cs (app w))), w')
    \<and> same_events w w' \<and> app w' = fst (nested pre post (fn_result f (Some g) args) cs (app w))"
  using assms
proof (induction cs arbitrary: w k n)
  case Nil
  obtain n' where n: "n = Suc n'" using Nil.prems(11) by (cases n) auto
  let ?w = "w\<lparr>invs := (invs w)(i := MI m a (k + 1))\<rparr>"
  have "funcs ?w m = Some g" using Nil.prems(2) by simp
  from call_raw_pure [OF this Nil.prems(3)] show ?case
    using Nil.prems by (simp add: n proceed_with_def Let_def same_events_def)
next
  case (Cons c cs)
  obtain n' where n: "n = Suc (Suc n')" "2 * length cs < n'" using Cons.prems(11) by (cases n; cases "n - 1") auto
  let ?w = "w\<lparr>invs := (invs w)(i := MI m a (k + 1))\<rparr>"
  let ?t = "a_target (advices w (jp_around jp ! nat (k + 1)))"
  let ?r = "nested pre post (fn_result f (Some g) args) cs (pre c (app w))"
  have t: "funcs w ?t = Some (Code c)" "idle (joinpoints w ?t)" "around_fn code pre post c"
    using Cons.prems(10) by (auto simp: Let_def)
  have later: "\<forall>j < length cs. let t = a_target (advices w (jp_around jp ! (nat (k + 1 + 1) + j))) in
      funcs w t = Some (Code (cs ! j)) \<and> idle (joinpoints w t) \<and> around_fn code pre post (cs ! j)"
  proof (intro allI impI)
    fix j assume "j < length cs"
    then have "Suc j < length (c # cs)" by simp
    note hit = Cons.prems(10) [rule_format, OF this]
    have "nat (k + 1) + Suc j = nat (k + 1 + 1) + j" using Cons.prems(8) by auto
    with hit show "let t = a_target (advices w (jp_around jp ! (nat (k + 1 + 1) + j))) in
        funcs w t = Some (Code (cs ! j)) \<and> idle (joinpoints w t) \<and> around_fn code pre post (cs ! j)"
      by (simp only: nth_Cons_Suc)
  qed
  have "\<exists>w'. call_method ct code (Suc n') ?t [Inv i] ?w = Some (Inr (snd (post c (fst ?r, snd ?r))), w')
      \<and> same_events ?w w' \<and> app w' = fst (post c (fst ?r, snd ?r))"
  proof (rule invoke_around)
    fix w1
    assume w1: "same_events ?w w1" "app w1 = pre c (app ?w)" "invs w1 = invs ?w" "next_inv w1 = next_inv ?w"
      "\<forall>x < next_array ?w. arrays w1 x = arrays ?w x" "next_array ?w \<le> next_array w1"
    then have "\<exists>w2. proceed ct code n' i w1 = Some (Inr (snd (nested pre post (fn_result f (Some g) args) cs (app w1))), w2)
        \<and> same_events w1 w2 \<and> app w2 = fst (nested pre post (fn_result f (Some g) args) cs (app w1))"
      using Cons.prems later n(2) by (intro Cons.IH [where k = "k + 1"]) (simp_all add: same_events_def)
    then show "\<exists>w2. proceed ct code n' i w1 = Some (Inr (snd ?r), w2) \<and> same_events w1 w2 \<and> app w2 = fst ?r"
      using w1(2) by simp
  qed (use t in simp_all)
  moreover have "\<not> int (length (jp_around jp)) \<le> k + 1" using Cons.prems(9) by simp
  ultimately show ?case
    using Cons.prems(1,4) unfolding n(1)
    by (subst proceed.simps) (auto simp: proceed_with_def same_events_def Let_def simp del: call_method.simps proceed.simps)
qed

text \<open>
  Claim C33. Around advice nests: a call of a method with around advice calls the first around function, whose \<open>proceed\<close> calls the second one, and so on;
  the last \<open>proceed\<close> calls the method with the original arguments. Each function gets the result of the next one from \<open>proceed\<close>, and the result of the
  first is the result of the call. The depth of calls is bounded by twice the number of around functions.
\<close>

theorem around_advice_nests:
  assumes "joinpoints w m = Some jp" "jp_before jp = []" "jp_after jp = []" "funcs w m = Some g" "pure_fn code f g"
    and "jp_around jp \<noteq> []" "length cs = length (jp_around jp)"
    and "\<forall>j < length cs. let t = a_target (advices w (jp_around jp ! j)) in
          funcs w t = Some (Code (cs ! j)) \<and> idle (joinpoints w t) \<and> around_fn code pre post (cs ! j)"
    and "2 * length cs < n"
  shows "\<exists>w'. call_method ct code (Suc n) m args w = Some (Inr (snd (nested pre post (fn_result f (Some g) args) cs (app w))), w')
    \<and> same_events w w' \<and> app w' = fst (nested pre post (fn_result f (Some g) args) cs (app w))"
proof -
  let ?w1 = "w\<lparr>arrays := (arrays w)(next_array w := args), next_array := Suc (next_array w)\<rparr>"
  let ?w2 = "?w1\<lparr>arrays := (arrays ?w1)(next_array ?w1 := args), next_array := Suc (next_array ?w1),
    invs := (invs w)(next_inv w := MI m (next_array ?w1) (- 1)), next_inv := Suc (next_inv w)\<rparr>"
  have "\<exists>w'. proceed ct code n (next_inv w) ?w2 = Some (Inr (snd (nested pre post (fn_result f (Some g) args) cs (app ?w2))), w')
      \<and> same_events ?w2 w' \<and> app w' = fst (nested pre post (fn_result f (Some g) args) cs (app ?w2))"
    by (rule proceed_nested [where m = m and jp = jp and k = "- 1" and a = "next_array ?w1"]) (use assms in simp_all)
  then obtain w' where w': "proceed ct code n (next_inv w) ?w2 = Some (Inr (snd (nested pre post (fn_result f (Some g) args) cs (app w))), w')"
    "same_events ?w2 w'" "app w' = fst (nested pre post (fn_result f (Some g) args) cs (app w))" by auto
  moreover have "joinpoints w' m = Some jp" "same_events w w'" using w'(2) assms(1) by (simp_all add: same_events_def)
  ultimately show ?thesis using assms(1-3,6)
    by (subst call_method.simps) (simp add: run_joinpoint_def Let_def del: call_method.simps proceed.simps)
qed

text \<open>Around functions that double the result and record the moments before and after it.\<close>

definition twice_pre :: "nat \<Rightarrow> nat list \<Rightarrow> nat list" where
  "twice_pre c s = s @ [c]"

definition twice_post :: "nat \<Rightarrow> nat list \<times> nat option \<Rightarrow> nat list \<times> nat option" where
  "twice_post c r = (fst r @ [10 + c], map_option (\<lambda>v. 2 * v) (snd r))"

definition twice_code :: "(nat, nat list) code" where
  "twice_code c iv pro args w =
     (case args of
        [Inv i] \<Rightarrow> ebind (pro i (w\<lparr>app := twice_pre c (app w)\<rparr>)) (\<lambda>v w.
          Some (Inr (snd (twice_post c (app w, v))), w\<lparr>app := fst (twice_post c (app w, v))\<rparr>))
      | _ \<Rightarrow> log_code c iv pro args w)"

definition twice_world :: "(nat, nat list) world" where
  "twice_world = log_world\<lparr>joinpoints := [(0, ''f'') \<mapsto> \<lparr>jp_before = [], jp_after = [], jp_around = [1, 2], jp_squelch = False\<rparr>],
     funcs := (funcs log_world)((0, ''f'') \<mapsto> DoNothing), advices := (\<lambda>i. connection_advice (listener_connection 0 (i, ''f'')))\<rparr>"

theorem around_advice_nests_witness:
  "\<exists>w'. call_method True twice_code 6 (0, ''f'') [Val 5] twice_world = Some (Inr None, w') \<and> app w' = [1, 2, 12, 11]"
proof -
  have "around_fn twice_code twice_pre twice_post c" for c by (simp add: around_fn_def twice_code_def)
  moreover have "\<forall>j < length [1, 2]. let t = a_target (advices twice_world ([1, 2] ! j)) in
      funcs twice_world t = Some (Code ([1, 2] ! j)) \<and> idle (joinpoints twice_world t)"
    by (simp add: twice_world_def less_Suc_eq numeral_2_eq_2 idle_def)
  ultimately have "\<exists>w'. call_method True twice_code (Suc 5) (0, ''f'') [Val 5] twice_world =
      Some (Inr (snd (nested twice_pre twice_post (fn_result log_fn (Some DoNothing) [Val 5]) [1, 2] (app twice_world))), w')
      \<and> same_events twice_world w' \<and> app w' = fst (nested twice_pre twice_post (fn_result log_fn (Some DoNothing) [Val 5]) [1, 2] (app twice_world))"
    by (intro around_advice_nests [where jp = "\<lparr>jp_before = [], jp_after = [], jp_around = [1, 2], jp_squelch = False\<rparr>"])
      (simp_all add: twice_world_def pure_fn_def)
  then show ?thesis
    by (auto simp: twice_pre_def twice_post_def fn_result_def twice_world_def simp del: call_method.simps)
qed

section \<open>The rate of a connection\<close>

text \<open>A listener that records the time of each call.\<close>

definition clock_fn :: "('v, int list) code \<Rightarrow> nat \<Rightarrow> bool" where
  "clock_fn code c \<longleftrightarrow> (\<forall>iv pro args w. code c iv pro args w = Some (Inr None, w\<lparr>app := app w @ [now w]\<rparr>))"

text \<open>A method that does nothing, with one listener whose connection has a rate.\<close>

definition rated :: "('v, int list) code \<Rightarrow> mref \<Rightarrow> nat \<Rightarrow> mref \<Rightarrow> int \<Rightarrow> ('v, int list) world \<Rightarrow> bool" where
  "rated code m i x r w \<longleftrightarrow>
     funcs w m = Some DoNothing \<and> joinpoints w m = Some (new_joinpoint\<lparr>jp_after := [i]\<rparr>)
     \<and> a_rate (advices w i) = r \<and> a_around (advices w i) = None \<and> a_delay (advices w i) = None
     \<and> a_target (advices w i) = x \<and> joinpoints w x = None \<and> (\<exists>c. funcs w x = Some (Code c) \<and> clock_fn code c)"

lemma rated_call_fires:
  assumes "rated code m i x r w" "r \<noteq> 0" "\<forall>l. a_last (advices w i) = Some l \<longrightarrow> r < now w - l"
  shows "\<exists>w'. call_method ct code (Suc (Suc n)) m args w = Some (Inr None, w') \<and> rated code m i x r w'
    \<and> app w' = app w @ [now w] \<and> a_last (advices w' i) = Some (now w) \<and> a_delayTimer (advices w' i) = a_delayTimer (advices w i)
    \<and> timers w' = timers w \<and> next_timer w' = next_timer w"
  using assms by (cases "a_last (advices w i)") (auto simp: rated_def new_joinpoint_def run_joinpoint_def call_raw_def unrollAdvice_def check_rate_def clock_fn_def Let_def)

lemma rated_call_waits:
  assumes "rated code m i x r w" "r \<noteq> 0" "a_last (advices w i) = Some l" "now w - l \<le> r"
  shows "\<exists>w'. call_method True code (Suc (Suc n)) m args w = Some (Inr None, w') \<and> rated code m i x r w'
    \<and> app w' = app w \<and> a_last (advices w' i) = Some l \<and> a_delayTimer (advices w' i) = Some (next_timer w)
    \<and> (\<exists>a. timers w' = (case a_delayTimer (advices w i) of Some t \<Rightarrow> filter (\<lambda>(j, _). j \<noteq> t) (timers w) | None \<Rightarrow> timers w)
          @ [(next_timer w, now w + 2 * r, RateCall ((advices w i)\<lparr>a_rate := 0\<rparr>) args a)])
    \<and> next_timer w' = Suc (next_timer w)"
  using assms by (cases "a_delayTimer (advices w i)") (auto simp: rated_def new_joinpoint_def run_joinpoint_def call_raw_def unrollAdvice_def check_rate_def setTimeout_def clearTimeout_def Let_def)

lemma rated_now [simp]: "rated code m i x r (w\<lparr>now := t\<rparr>) = rated code m i x r w"
  by (simp add: rated_def)

text \<open>
  The rate of a connection does not keep two calls of the listener apart. A call at time \<open>t0\<close> reaches the
  listener; one at \<open>t1\<close>, within the interval, is put off until \<open>t1 + 2r\<close>; one at \<open>t2\<close>, after the interval but before that moment, reaches the listener
  at once and does not clear the timer; then the timer calls the listener as well, any short time later. The comment of \<open>connect\<close> promises that
  the connection will not fire more than once in the interval.
\<close>

theorem rate_fires_twice:
  assumes "rated code m i x r w" "a_last (advices w i) = None" "a_delayTimer (advices w i) = None" "timers w = []"
    and "0 < r" "t0 \<le> t1" "t1 \<le> t0 + r" "t0 + r < t2" "t2 \<le> t1 + 2 * r" "2 \<le> n"
  shows "\<exists>w1 w2 w3 w4. call_method True code n m args (w\<lparr>now := t0\<rparr>) = Some (Inr None, w1)
    \<and> call_method True code n m args (w1\<lparr>now := t1\<rparr>) = Some (Inr None, w2)
    \<and> call_method True code n m args (w2\<lparr>now := t2\<rparr>) = Some (Inr None, w3)
    \<and> map (\<lambda>(k, due, _). (k, due)) (timers w3) = [(next_timer w, t1 + 2 * r)]
    \<and> fire_timer True code n (next_timer w) (w3\<lparr>now := t1 + 2 * r\<rparr>) = Some (Inr None, w4)
    \<and> app w4 = app w @ [t0, t2, t1 + 2 * r]"
proof -
  obtain k where n: "n = Suc (Suc k)" using assms(10) by (metis add_2_eq_Suc le_Suc_ex)
  have r: "r \<noteq> 0" using assms(5) by simp
  from rated_call_fires [of code m i x r "w\<lparr>now := t0\<rparr>" True k args] obtain w1 where
    w1: "call_method True code n m args (w\<lparr>now := t0\<rparr>) = Some (Inr None, w1)" "rated code m i x r w1" "app w1 = app w @ [t0]"
      "a_last (advices w1 i) = Some t0" "a_delayTimer (advices w1 i) = None" "timers w1 = []" "next_timer w1 = next_timer w"
    using assms r unfolding n by (auto simp del: call_method.simps)
  from rated_call_waits [of code m i x r "w1\<lparr>now := t1\<rparr>" t0 k args] obtain w2 a where
    w2: "call_method True code n m args (w1\<lparr>now := t1\<rparr>) = Some (Inr None, w2)" "rated code m i x r w2" "app w2 = app w1"
      "a_last (advices w2 i) = Some t0"
      "timers w2 = [(next_timer w, t1 + 2 * r, RateCall ((advices w1 i)\<lparr>a_rate := 0\<rparr>) args a)]"
    using w1 assms r unfolding n by (auto simp del: call_method.simps)
  from rated_call_fires [of code m i x r "w2\<lparr>now := t2\<rparr>" True k args] obtain w3 where
    w3: "call_method True code n m args (w2\<lparr>now := t2\<rparr>) = Some (Inr None, w3)" "rated code m i x r w3" "app w3 = app w2 @ [t2]"
      "timers w3 = timers w2"
    using w2 assms r unfolding n by (auto simp del: call_method.simps)
  have "fire_timer True code n (next_timer w) (w3\<lparr>now := t1 + 2 * r\<rparr>) =
      Some (Inr None, (w3\<lparr>now := t1 + 2 * r, timers := [], invs := (invs w3)(next_inv w3 := To x a), next_inv := Suc (next_inv w3),
        app := app w3 @ [t1 + 2 * r]\<rparr>))"
    using w1(2) w2(5) w3(2,4) unfolding n
    by (auto simp: fire_timer_def clearTimeout_def unrollAdvice_def check_rate_def rated_def call_raw_def clock_fn_def Let_def)
  then show ?thesis using w1(1,3) w2(1,3,5) w3(1,3,4) by (auto simp del: call_method.simps)
qed

text \<open>A world with such a connection, of rate 100.\<close>

definition rate_world :: "(nat, int list) world" where
  "rate_world = \<lparr>funcs = [(0, ''f'') \<mapsto> DoNothing, (1, ''g'') \<mapsto> Code 1],
     joinpoints = [(0, ''f'') \<mapsto> new_joinpoint\<lparr>jp_after := [0]\<rparr>],
     advices = (\<lambda>_. (connection_advice (listener_connection 0 (1, ''g'')))\<lparr>a_rate := 100\<rparr>), next_advice = 1,
     invs = (\<lambda>_. To (0, ''f'') 0), next_inv = 0, arrays = (\<lambda>_. []), next_array = 0, timers = [], next_timer = 0,
     topics = Map.empty, next_obj = 5, now = 0, app = []\<rparr>"

definition clock_code :: "(nat, int list) code" where
  "clock_code c iv pro args w = Some (Inr None, w\<lparr>app := app w @ [now w]\<rparr>)"

theorem rate_fires_twice_witness:
  "\<exists>w1 w2 w3 w4. call_method True clock_code 2 (0, ''f'') [] (rate_world\<lparr>now := 1000\<rparr>) = Some (Inr None, w1)
    \<and> call_method True clock_code 2 (0, ''f'') [] (w1\<lparr>now := 1050\<rparr>) = Some (Inr None, w2)
    \<and> call_method True clock_code 2 (0, ''f'') [] (w2\<lparr>now := 1249\<rparr>) = Some (Inr None, w3)
    \<and> fire_timer True clock_code 2 0 (w3\<lparr>now := 1250\<rparr>) = Some (Inr None, w4)
    \<and> app w4 = [1000, 1249, 1250]"
proof -
  have "rated clock_code (0, ''f'') 0 (1, ''g'') 100 rate_world"
    by (simp add: rated_def rate_world_def clock_fn_def clock_code_def connection_advice_def listener_connection_def)
  then have "\<exists>w1 w2 w3 w4. call_method True clock_code 2 (0, ''f'') [] (rate_world\<lparr>now := 1000\<rparr>) = Some (Inr None, w1)
    \<and> call_method True clock_code 2 (0, ''f'') [] (w1\<lparr>now := 1050\<rparr>) = Some (Inr None, w2)
    \<and> call_method True clock_code 2 (0, ''f'') [] (w2\<lparr>now := 1249\<rparr>) = Some (Inr None, w3)
    \<and> map (\<lambda>(k, due, _). (k, due)) (timers w3) = [(next_timer rate_world, 1050 + 2 * 100)]
    \<and> fire_timer True clock_code 2 (next_timer rate_world) (w3\<lparr>now := 1050 + 2 * 100\<rparr>) = Some (Inr None, w4)
    \<and> app w4 = app rate_world @ [1000, 1249, 1050 + 2 * 100]"
    by (rule rate_fires_twice) (simp_all add: rate_world_def connection_advice_def)
  then show ?thesis by (auto simp: rate_world_def simp del: call_method.simps)
qed

end
