(* ===== verification/Event_Arguments.thy ===== *)
theory Event_Arguments
  imports Events Json
begin

text \<open>
  The positional arguments of \<open>connect\<close>: \<open>interpolateArgs\<close> of \<open>src/event/common.js\<close>, with \<open>nameAnonFunc\<close> of \<open>src/lang/func.js\<close> and \<open>getNameInObj\<close> of
  \<open>src/lang/extras.js\<close>, which find or make names for functions. Functions are known by numbers. Of an object
  the properties that are functions are kept, in the order in which they are enumerated.
\<close>

section \<open>Names of functions\<close>

record scope =
  props :: "nat \<Rightarrow> (string \<times> nat) list"
  anonCtr :: nat

text \<open>The object \<open>dojo.lang.anon\<close>.\<close>

definition lang_anon :: nat where
  "lang_anon = 1"

definition anon_name :: "nat \<Rightarrow> string" where
  "anon_name n = ''__'' @ to_dec n"

lemma anon_name_inj: "inj anon_name"
  by (rule injI) (metis anon_name_def append_same_eq dec_val_to_dec append.left_neutral same_append_eq)

text \<open>The loop that looks for a name that is not taken; there are finitely many taken names.\<close>

function anon_loop :: "string list \<Rightarrow> nat \<Rightarrow> nat" where
  "anon_loop taken n = (if anon_name n \<in> set taken then anon_loop taken (Suc n) else n)"
  by pat_completeness auto
termination
proof (relation "measure (\<lambda>(taken, n). card {k. n \<le> k \<and> anon_name k \<in> set taken})")
  fix taken n
  assume hit: "anon_name n \<in> set taken"
  have "finite (anon_name -` set taken)" by (intro finite_vimageI anon_name_inj) simp
  then have "finite {k. n \<le> k \<and> anon_name k \<in> set taken}" by (rule rev_finite_subset) auto
  then show "((taken, Suc n), taken, n) \<in> measure (\<lambda>(taken, n). card {k. n \<le> k \<and> anon_name k \<in> set taken})"
    using hit by (auto simp: Suc_le_eq intro!: psubset_card_mono)
qed simp

declare anon_loop.simps [simp del]

text \<open>\<open>ob\<close> is \<^term>\<open>None\<close> when no object is given.\<close>

definition nameAnonFunc :: "nat \<Rightarrow> nat option \<Rightarrow> bool \<Rightarrow> scope \<Rightarrow> string \<times> scope" where
  "nameAnonFunc fn ob searchForNames sc =
     (let nso = (case ob of Some x \<Rightarrow> x | None \<Rightarrow> lang_anon)
      in case (if searchForNames then find (\<lambda>(x, g). g = fn) (props sc nso) else None) of
           Some (x, g) \<Rightarrow> (x, sc)
         | None \<Rightarrow>
             let n = anon_loop (map fst (props sc nso)) (anonCtr sc)
             in (anon_name n, sc\<lparr>anonCtr := Suc n, props := (props sc)(nso := props sc nso @ [(anon_name n, fn)])\<rparr>))"

definition getNameInObj :: "nat \<Rightarrow> nat \<Rightarrow> scope \<Rightarrow> string option" where
  "getNameInObj ns fn sc = map_option fst (find (\<lambda>(x, g). g = fn) (props sc ns))"

section \<open>Arguments\<close>

datatype earg = AObj nat | AStr string | AFun nat | ANull | AUndef | ABool bool | ANum int

text \<open>Functions and \<open>null\<close> are objects for \<open>dojo.lang.isObject\<close>.\<close>

definition isObject :: "earg \<Rightarrow> bool" where
  "isObject a = (case a of AObj _ \<Rightarrow> True | AFun _ \<Rightarrow> True | ANull \<Rightarrow> True | _ \<Rightarrow> False)"

definition isString :: "earg \<Rightarrow> bool" where
  "isString a = (case a of AStr _ \<Rightarrow> True | _ \<Rightarrow> False)"

definition isFunction :: "earg \<Rightarrow> bool" where
  "isFunction a = (case a of AFun _ \<Rightarrow> True | _ \<Rightarrow> False)"

definition truthy :: "earg \<Rightarrow> bool" where
  "truthy a = (case a of AStr s \<Rightarrow> s \<noteq> [] | ANull \<Rightarrow> False | AUndef \<Rightarrow> False | ABool b \<Rightarrow> b | ANum n \<Rightarrow> n \<noteq> 0 | _ \<Rightarrow> True)"

definition arg_at :: "earg list \<Rightarrow> nat \<Rightarrow> earg" where
  "arg_at args i = (if i < length args then args ! i else AUndef)"

text \<open>The object that \<open>interpolateArgs\<close> returns.\<close>

record ao_fields =
  o_srcObj :: earg
  o_srcFunc :: earg
  o_adviceObj :: earg
  o_adviceFunc :: earg
  o_aroundObj :: earg
  o_aroundFunc :: earg
  o_adviceType :: earg
  o_precedence :: string
  o_once :: earg
  o_delay :: earg
  o_rate :: earg
  o_adviceMsg :: earg

abbreviation global :: earg where
  "global \<equiv> AObj dj_global"

definition initial_ao :: "earg list \<Rightarrow> ao_fields" where
  "initial_ao args =
     \<lparr>o_srcObj = global, o_srcFunc = ANull, o_adviceObj = global, o_adviceFunc = ANull, o_aroundObj = ANull, o_aroundFunc = ANull,
      o_adviceType = (if length args > 2 then arg_at args 0 else AStr ''after''), o_precedence = ''last'', o_once = ABool False,
      o_delay = ANull, o_rate = ANum 0, o_adviceMsg = ABool False\<rparr>"

text \<open>The name of a function argument in the global object.\<close>

definition name_global :: "earg \<Rightarrow> bool \<Rightarrow> scope \<Rightarrow> earg \<times> scope" where
  "name_global a search sc =
     (case a of AFun g \<Rightarrow> (case nameAnonFunc g (Some dj_global) search sc of (x, sc) \<Rightarrow> (AStr x, sc)) | _ \<Rightarrow> (a, sc))"

text \<open>The cases of three and of four arguments.\<close>

definition three_args :: "earg \<Rightarrow> earg \<Rightarrow> earg \<Rightarrow> bool \<Rightarrow> scope \<Rightarrow> ao_fields \<Rightarrow> ao_fields \<times> scope" where
  "three_args a0 a1 a2 search sc ao =
     (if isObject a0 \<and> isString a1 \<and> isString a2
      then (ao\<lparr>o_adviceType := AStr ''after'', o_srcObj := a0, o_srcFunc := a1, o_adviceFunc := a2\<rparr>, sc)
      else if isString a1 \<and> isString a2 then (ao\<lparr>o_srcFunc := a1, o_adviceFunc := a2\<rparr>, sc)
      else if isObject a0 \<and> isString a1 \<and> isFunction a2
      then (case name_global a2 search sc of (tmpName, sc) \<Rightarrow>
              (ao\<lparr>o_adviceType := AStr ''after'', o_srcObj := a0, o_srcFunc := a1, o_adviceFunc := tmpName\<rparr>, sc))
      else if isFunction a0 \<and> isObject a1 \<and> isString a2
      then (case name_global a0 search sc of (tmpName, sc) \<Rightarrow>
              (ao\<lparr>o_adviceType := AStr ''after'', o_srcObj := global, o_srcFunc := tmpName, o_adviceObj := a1, o_adviceFunc := a2\<rparr>, sc))
      else (ao, sc))"

definition four_args :: "earg \<Rightarrow> earg \<Rightarrow> earg \<Rightarrow> earg \<Rightarrow> bool \<Rightarrow> scope \<Rightarrow> ao_fields \<Rightarrow> ao_fields \<times> scope" where
  "four_args a0 a1 a2 a3 search sc ao =
     (if isObject a0 \<and> isObject a2
      then (ao\<lparr>o_adviceType := AStr ''after'', o_srcObj := a0, o_srcFunc := a1, o_adviceObj := a2, o_adviceFunc := a3\<rparr>, sc)
      else if isString a0 \<and> isString a1 \<and> isObject a2
      then (ao\<lparr>o_adviceType := a0, o_srcObj := global, o_srcFunc := a1, o_adviceObj := a2, o_adviceFunc := a3\<rparr>, sc)
      else if isString a0 \<and> isFunction a1 \<and> isObject a2
      then (case name_global a1 search sc of (tmpName, sc) \<Rightarrow>
              (ao\<lparr>o_adviceType := a0, o_srcObj := global, o_srcFunc := tmpName, o_adviceObj := a2, o_adviceFunc := a3\<rparr>, sc))
      else if isString a0 \<and> isObject a1 \<and> isString a2 \<and> isFunction a3
      then (case name_global a3 search sc of (tmpName, sc) \<Rightarrow>
              (ao\<lparr>o_srcObj := a1, o_srcFunc := a2, o_adviceObj := global, o_adviceFunc := tmpName\<rparr>, sc))
      else if isObject a1 then (ao\<lparr>o_srcObj := a1, o_srcFunc := a2, o_adviceObj := global, o_adviceFunc := a3\<rparr>, sc)
      else if isObject a2 then (ao\<lparr>o_srcObj := global, o_srcFunc := a1, o_adviceObj := a2, o_adviceFunc := a3\<rparr>, sc)
      else (ao\<lparr>o_srcObj := global, o_adviceObj := global, o_aroundObj := global, o_srcFunc := a1, o_adviceFunc := a2,
               o_aroundFunc := a3\<rparr>, sc))"

definition many_args :: "earg list \<Rightarrow> ao_fields \<Rightarrow> ao_fields" where
  "many_args args ao =
     (let ao = ao\<lparr>o_srcObj := arg_at args 1, o_srcFunc := arg_at args 2, o_adviceObj := arg_at args 3, o_adviceFunc := arg_at args 4\<rparr>
      in if length args = 6 then ao\<lparr>o_aroundFunc := arg_at args 5, o_aroundObj := global\<rparr>
         else ao\<lparr>o_aroundObj := arg_at args 5, o_aroundFunc := arg_at args 6, o_once := arg_at args 7, o_delay := arg_at args 8,
                 o_rate := arg_at args 9, o_adviceMsg := arg_at args 10\<rparr>)"

text \<open>The name of a function in an object, for what is left as a function; a missing object stands for the global object.\<close>

definition name_in :: "earg \<Rightarrow> earg \<Rightarrow> scope \<Rightarrow> earg" where
  "name_in ob a sc =
     (case a of
        AFun g \<Rightarrow>
          (case (case ob of AObj x \<Rightarrow> getNameInObj x g sc | _ \<Rightarrow> if truthy ob then None else getNameInObj dj_global g sc) of
             Some x \<Rightarrow> AStr x
           | None \<Rightarrow> ANull)
      | _ \<Rightarrow> a)"

definition resolve_names :: "bool \<Rightarrow> scope \<Rightarrow> ao_fields \<Rightarrow> ao_fields \<times> scope" where
  "resolve_names search sc ao =
     (let (ao, sc) =
            (case o_aroundFunc ao of
               AFun g \<Rightarrow>
                 (case nameAnonFunc g (case o_aroundObj ao of AObj x \<Rightarrow> Some x | _ \<Rightarrow> None) search sc of
                    (x, sc) \<Rightarrow> (ao\<lparr>o_aroundFunc := AStr x\<rparr>, sc))
             | _ \<Rightarrow> (ao, sc));
          ao = ao\<lparr>o_srcFunc := name_in (o_srcObj ao) (o_srcFunc ao) sc\<rparr>;
          ao = ao\<lparr>o_adviceFunc := name_in (o_adviceObj ao) (o_adviceFunc ao) sc\<rparr>
      in (ao, sc))"

text \<open>An argument in a message.\<close>

definition arg_text :: "earg \<Rightarrow> string" where
  "arg_text a = (case a of AStr s \<Rightarrow> s | ANull \<Rightarrow> ''null'' | AUndef \<Rightarrow> ''undefined'' | ABool b \<Rightarrow> if b then ''true'' else ''false''
     | ANum n \<Rightarrow> num_text n | AObj _ \<Rightarrow> ''[object Object]'' | AFun _ \<Rightarrow> [])"

definition bad_object :: "string \<Rightarrow> string \<Rightarrow> earg \<Rightarrow> js_error" where
  "bad_object ob fn a = Raised (''bad '' @ ob @ '' for '' @ fn @ '': '' @ arg_text a)"

definition choose_args :: "earg list \<Rightarrow> bool \<Rightarrow> scope \<Rightarrow> ao_fields \<times> scope" where
  "choose_args args search sc =
     (let ao = initial_ao args
      in case args of
           [a0, a1] \<Rightarrow> (ao\<lparr>o_srcFunc := a0, o_adviceFunc := a1\<rparr>, sc)
         | [a0, a1, a2] \<Rightarrow> three_args a0 a1 a2 search sc ao
         | [a0, a1, a2, a3] \<Rightarrow> four_args a0 a1 a2 a3 search sc ao
         | _ \<Rightarrow> (many_args args ao, sc))"

text \<open>The result is \<^term>\<open>None\<close>, \<open>undefined\<close>, for fewer than two arguments.\<close>

definition interpolateArgs :: "earg list \<Rightarrow> bool \<Rightarrow> scope \<Rightarrow> ao_fields option result \<times> scope" where
  "interpolateArgs args search sc =
     (if length args < 2 then (Inr None, sc)
      else case choose_args args search sc of (ao, sc) \<Rightarrow>
        (case resolve_names search sc ao of (ao, sc) \<Rightarrow>
           (if \<not> truthy (o_srcObj ao) then Inl (bad_object ''srcObj'' ''srcFunc'' (o_srcFunc ao))
            else if \<not> truthy (o_adviceObj ao) then Inl (bad_object ''adviceObj'' ''adviceFunc'' (o_adviceFunc ao))
            else Inr (Some ao), sc)))"

definition connectBefore_args :: "earg list \<Rightarrow> bool \<Rightarrow> scope \<Rightarrow> ao_fields option result \<times> scope" where
  "connectBefore_args args search sc = interpolateArgs (AStr ''before'' # args) search sc"

definition connectAround_args :: "earg list \<Rightarrow> bool \<Rightarrow> scope \<Rightarrow> ao_fields option result \<times> scope" where
  "connectAround_args args search sc = interpolateArgs (AStr ''around'' # args) search sc"

section \<open>What the arguments mean\<close>

text \<open>The name \<open>v\<close> that was chosen is the name given, or the name of the function given in the object.\<close>

definition refers :: "scope \<Rightarrow> nat \<Rightarrow> earg \<Rightarrow> earg \<Rightarrow> bool" where
  "refers sc ob v a \<longleftrightarrow>
     (case v of AStr x \<Rightarrow> (case a of AStr y \<Rightarrow> x = y | AFun g \<Rightarrow> (x, g) \<in> set (props sc ob) | _ \<Rightarrow> False) | _ \<Rightarrow> False)"

text \<open>The arguments stand for a connection of the given type from one method to another.\<close>

definition means :: "ao_fields option result \<times> scope \<Rightarrow> string \<Rightarrow> nat \<Rightarrow> earg \<Rightarrow> nat \<Rightarrow> earg \<Rightarrow> bool" where
  "means r ty so sf ad af \<longleftrightarrow>
     (\<exists>ao. fst r = Inr (Some ao) \<and> o_adviceType ao = AStr ty \<and> o_srcObj ao = AObj so \<and> refers (snd r) so (o_srcFunc ao) sf
        \<and> o_adviceObj ao = AObj ad \<and> refers (snd r) ad (o_adviceFunc ao) af)"

text \<open>A string, or a function that is a property of the global object.\<close>

definition global_fn :: "scope \<Rightarrow> earg \<Rightarrow> bool" where
  "global_fn sc a \<longleftrightarrow> (case a of AStr _ \<Rightarrow> True | AFun g \<Rightarrow> g \<in> snd ` set (props sc dj_global) | _ \<Rightarrow> False)"

lemma find_pair: "find (\<lambda>(x, g). g = fn) ps = Some (x, g) \<Longrightarrow> (x, fn) \<in> set ps"
  by (auto simp: find_Some_iff dest: nth_mem)

lemma nameAnonFunc_refers:
  assumes "nameAnonFunc g ob search sc = (x, sc')"
  shows "(x, g) \<in> set (props sc' (case ob of Some y \<Rightarrow> y | None \<Rightarrow> lang_anon)) \<and> (\<forall>y. set (props sc y) \<subseteq> set (props sc' y))"
  using assms find_pair by (fastforce simp: nameAnonFunc_def Let_def split: option.splits if_splits)

lemma name_in_refers: "global_fn sc a \<Longrightarrow> refers sc dj_global (name_in global a sc) a"
  using find_pair [of _ "props sc dj_global"]
  by (fastforce simp: global_fn_def refers_def name_in_def getNameInObj_def find_None_iff split: earg.splits option.splits)

lemmas argument_defs = interpolateArgs_def choose_args_def resolve_names_def initial_ao_def arg_at_def many_args_def three_args_def
  four_args_def isObject_def isString_def isFunction_def truthy_def name_global_def

text \<open>
  The positional arguments of \<open>connect\<close> mean what its comment says, for functions given by name or by reference: two global functions; an
  object and a method with a global function, which gets a name if it has none; a global function with an object and a method; two methods; and two methods after an advice type. But the form
  with the name of a global function, an object and the name of its method, which the comment lists as well, is not recognised: neither function is found, and the first name is taken
  for the advice type.
\<close>

theorem connect_positional_arguments:
  assumes "global_fn sc a" "global_fn sc b"
  shows "means (interpolateArgs [a, b] True sc) ''after'' dj_global a dj_global b
    \<and> means (interpolateArgs [AObj s, AStr p, AStr q] True sc) ''after'' s (AStr p) dj_global (AStr q)
    \<and> means (interpolateArgs [AObj s, AStr p, AFun g] True sc) ''after'' s (AStr p) dj_global (AFun g)
    \<and> means (interpolateArgs [AFun g, AObj t, AStr q] True sc) ''after'' dj_global (AFun g) t (AStr q)
    \<and> means (interpolateArgs [AObj s, AStr p, AObj t, AStr q] True sc) ''after'' s (AStr p) t (AStr q)
    \<and> means (interpolateArgs [AStr ty, AObj s, AStr p, AObj t, AStr q] True sc) ty s (AStr p) t (AStr q)
    \<and> means (connectBefore_args [AObj s, AStr p, AObj t, AStr q] True sc) ''before'' s (AStr p) t (AStr q)
    \<and> (\<exists>ao. interpolateArgs [AStr p, AObj t, AStr q] True sc = (Inr (Some ao), sc)
         \<and> o_srcFunc ao = ANull \<and> o_adviceFunc ao = ANull \<and> o_adviceType ao = AStr p)"
proof (intro conjI)
  show "means (interpolateArgs [a, b] True sc) ''after'' dj_global a dj_global b"
    using name_in_refers [OF assms(1)] name_in_refers [OF assms(2)] by (simp add: means_def argument_defs)
  show "means (interpolateArgs [AObj s, AStr p, AFun g] True sc) ''after'' s (AStr p) dj_global (AFun g)"
    using nameAnonFunc_refers [of g "Some dj_global" True sc]
    by (auto simp: means_def argument_defs refers_def name_in_def split: prod.splits)
  show "means (interpolateArgs [AFun g, AObj t, AStr q] True sc) ''after'' dj_global (AFun g) t (AStr q)"
    using nameAnonFunc_refers [of g "Some dj_global" True sc]
    by (auto simp: means_def argument_defs refers_def name_in_def split: prod.splits)
qed (simp_all add: means_def connectBefore_args_def argument_defs refers_def name_in_def)

theorem connect_positional_arguments_witness:
  "means (interpolateArgs [AFun 7, AStr ''stop''] True \<lparr>props = (\<lambda>_. [(''start'', 7)]), anonCtr = 0\<rparr>)
      ''after'' dj_global (AFun 7) dj_global (AStr ''stop'')
    \<and> (\<exists>ao. interpolateArgs [AStr ''start'', AObj 4, AStr ''stop''] True \<lparr>props = (\<lambda>_. [(''start'', 7)]), anonCtr = 0\<rparr> =
          (Inr (Some ao), \<lparr>props = (\<lambda>_. [(''start'', 7)]), anonCtr = 0\<rparr>) \<and> o_adviceFunc ao = ANull)"
  using connect_positional_arguments [of "\<lparr>props = (\<lambda>_. [(''start'', 7)]), anonCtr = 0\<rparr>" "AFun 7" "AStr ''stop''" 4 "''start''" "''stop''" 5 4]
  by (auto simp: global_fn_def)

end
