(* ===== verification/Remote_Store.thy ===== *)
theory Remote_Store
  imports Collections "HOL-Library.AList"
begin

text \<open>
  \<open>src/data/core/RemoteStore.js\<close>: items cached from queries to a server, with changes that are saved or reverted together. The objects that serve as
  tables are association lists in the order of their properties. The server is outside: what it answers to a query is an argument of
  the function that handles the answer, and saving is modelled by what happens when the server has accepted it. The
  callbacks of a request are not modelled. Items are given by their identities. Values that the server sends are not \<open>null\<close>. Properties that all objects
  inherit are found in the tables like those of their own.
\<close>

section \<open>State\<close>

text \<open>A value as the server sends it: plain, or with the name of a datatype.\<close>

datatype 'v remote_value = Plain 'v | Typed string 'v

type_synonym 'v attributes = "(string \<times> 'v list) list"

record 'v remote_store =
  r_deleted :: "(string \<times> nat) list"
  r_changed :: "(string \<times> 'v attributes) list"
  r_added :: "(string \<times> nat) list"
  r_results :: "(string \<times> string list) list"
  r_data :: "(string \<times> 'v attributes \<times> int) list"
  r_numItems :: int

definition remote_init :: "'v remote_store" where
  "remote_init = \<lparr>r_deleted = [], r_changed = [], r_added = [], r_results = [], r_data = [], r_numItems = 0\<rparr>"

text \<open>A test \<open>if(table[key])\<close>, where the values of the table are objects or positive numbers: inherited names pass as well.\<close>

definition holds :: "(string \<times> 'a) list \<Rightarrow> string \<Rightarrow> bool" where
  "holds table key \<longleftrightarrow> map_of table key \<noteq> None \<or> inherited key"

text \<open>The lengths of the inherited functions, which are the numbers of their parameters.\<close>

definition proto_length :: "string \<Rightarrow> nat" where
  "proto_length k = (if k \<in> {''constructor'', ''hasOwnProperty'', ''isPrototypeOf'', ''propertyIsEnumerable''} then 1 else 0)"

section \<open>Reading\<close>

definition isItem :: "'v remote_store \<Rightarrow> string \<Rightarrow> bool" where
  "isItem s ident \<longleftrightarrow>
     ident \<noteq> [] \<and> \<not> holds (r_deleted s) ident \<and> (holds (r_data s) ident \<or> holds (r_added s) ident)"

definition getIdentity :: "'v remote_store \<Rightarrow> string \<Rightarrow> string option" where
  "getIdentity s item = (if isItem s item then Some item else None)"

definition not_an_item :: js_error where
  "not_an_item = Raised ''dojo.data.RemoteStore: a function was passed an item argument that was not an item''"

text \<open>The result is \<^term>\<open>Undefined\<close> for an item without uncommitted changes that does not have the attribute.\<close>

definition getValues :: "'v remote_store \<Rightarrow> string \<Rightarrow> string \<Rightarrow> 'v list prop_value result" where
  "getValues s item attribute =
     (case getIdentity s item of
        None \<Rightarrow> Inl not_an_item
      | Some ident \<Rightarrow>
          (case map_of (r_changed s) ident of
             Some changes \<Rightarrow> Inr (case obj_get changes attribute of Undefined \<Rightarrow> Own [] | newvalues \<Rightarrow> newvalues)
           | None \<Rightarrow>
               (case map_of (r_data s) ident of
                  None \<Rightarrow> Inl TypeError
                | Some (atts, _) \<Rightarrow> Inr (obj_get atts attribute))))"

text \<open>\<open>valueArray.length\<close> raises when the array is \<open>undefined\<close>; an inherited function has a length, but no elements.\<close>

definition with_values :: "'v remote_store \<Rightarrow> string \<Rightarrow> string \<Rightarrow> ('v list \<Rightarrow> 'a) \<Rightarrow> (nat \<Rightarrow> 'a) \<Rightarrow> 'a result" where
  "with_values s item attribute f g =
     rbind (getValues s item attribute) (\<lambda>vs. case vs of Undefined \<Rightarrow> Inl TypeError | Own xs \<Rightarrow> Inr (f xs) | Inherited k \<Rightarrow> Inr (g (proto_length k)))"

definition rs_get :: "'v remote_store \<Rightarrow> string \<Rightarrow> string \<Rightarrow> 'v option \<Rightarrow> 'v option result" where
  "rs_get s item attribute defaultValue =
     with_values s item attribute (\<lambda>xs. if xs = [] then defaultValue else Some (xs ! 0)) (\<lambda>n. if n = 0 then defaultValue else None)"

definition hasAttribute :: "'v remote_store \<Rightarrow> string \<Rightarrow> string \<Rightarrow> bool result" where
  "hasAttribute s item attribute = with_values s item attribute (\<lambda>xs. xs \<noteq> []) (\<lambda>n. n \<noteq> 0)"

fun contains_loop :: "'v \<Rightarrow> 'v list \<Rightarrow> bool" where
  "contains_loop v [] = False"
| "contains_loop v (x # xs) = (if x = v then True else contains_loop v xs)"

definition containsValue :: "'v remote_store \<Rightarrow> string \<Rightarrow> string \<Rightarrow> 'v \<Rightarrow> bool result" where
  "containsValue s item attribute v = with_values s item attribute (contains_loop v) (\<lambda>n. False)"

text \<open>An item that was added and not saved has no data, which raises.\<close>

definition getAttributes :: "'v remote_store \<Rightarrow> string \<Rightarrow> string list option result" where
  "getAttributes s item =
     (case getIdentity s item of
        None \<Rightarrow> Inr None
      | Some ident \<Rightarrow>
          (case map_of (r_data s) ident of None \<Rightarrow> Inl TypeError | Some (atts, _) \<Rightarrow> Inr (Some (map fst atts))))"

definition getSize :: "'v remote_store \<Rightarrow> int" where
  "getSize s = r_numItems s"

section \<open>Writing\<close>

definition setValues :: "string \<Rightarrow> string \<Rightarrow> 'v list \<Rightarrow> 'v remote_store \<Rightarrow> 'v remote_store" where
  "setValues item attribute vs s =
     (case getIdentity s item of
        None \<Rightarrow> s
      | Some ident \<Rightarrow>
          let changes = (case map_of (r_changed s) ident of Some c \<Rightarrow> c | None \<Rightarrow> [])
          in s\<lparr>r_changed := AList.update ident (AList.update attribute vs changes) (r_changed s)\<rparr>)"

definition rs_set :: "string \<Rightarrow> string \<Rightarrow> 'v \<Rightarrow> 'v remote_store \<Rightarrow> 'v remote_store" where
  "rs_set item attribute v s = setValues item attribute [v] s"

definition unsetAttribute :: "string \<Rightarrow> string \<Rightarrow> 'v remote_store \<Rightarrow> 'v remote_store" where
  "unsetAttribute item attribute s = setValues item attribute [] s"

definition newItem :: "'v attributes \<Rightarrow> string \<Rightarrow> 'v remote_store \<Rightarrow> 'v remote_store" where
  "newItem attributes identity s =
     (let s = (if holds (r_deleted s) identity then s\<lparr>r_deleted := AList.delete identity (r_deleted s)\<rparr>
               else s\<lparr>r_added := AList.update identity 1 (r_added s)\<rparr>)
      in fold (\<lambda>(attribute, vs). setValues identity attribute vs) attributes s)"

definition deleteItem :: "string \<Rightarrow> 'v remote_store \<Rightarrow> bool \<times> 'v remote_store" where
  "deleteItem item s =
     (case getIdentity s item of
        None \<Rightarrow> (False, s)
      | Some identity \<Rightarrow>
          let s = (if holds (r_added s) identity then s\<lparr>r_added := AList.delete identity (r_added s)\<rparr>
                   else s\<lparr>r_deleted := AList.update identity 1 (r_deleted s)\<rparr>)
          in (True, s\<lparr>r_changed := AList.delete identity (r_changed s)\<rparr>))"

definition initChanges :: "'v remote_store \<Rightarrow> 'v remote_store" where
  "initChanges s = s\<lparr>r_deleted := [], r_changed := [], r_added := []\<rparr>"

definition revert :: "'v remote_store \<Rightarrow> 'v remote_store" where
  "revert s = initChanges s"

definition isDirty :: "'v remote_store \<Rightarrow> string option \<Rightarrow> bool" where
  "isDirty s item =
     (case item of
        Some identity \<Rightarrow> holds (r_deleted s) identity \<or> holds (r_changed s) identity
      | None \<Rightarrow> r_changed s \<noteq> [] \<or> r_deleted s \<noteq> [] \<or> r_added s \<noteq> [])"

text \<open>What the server is sent: the uncommitted changes and the deleted identities.\<close>

definition saveStruct :: "'v remote_store \<Rightarrow> (string \<times> 'v attributes) list \<times> string list" where
  "saveStruct s = (r_changed s, map fst (r_deleted s))"

text \<open>The three loops of the handler in \<open>save\<close>, after the server has accepted the changes.\<close>

definition save_added :: "string \<times> nat \<Rightarrow> (string \<times> 'v attributes \<times> int) list \<Rightarrow> (string \<times> 'v attributes \<times> int) list" where
  "save_added p data = (if holds data (fst p) then data else AList.update (fst p) ([], 1) data)"

definition save_changed :: "string \<times> 'v attributes \<Rightarrow> (string \<times> 'v attributes \<times> int) list \<Rightarrow> (string \<times> 'v attributes \<times> int) list" where
  "save_changed p data =
     (case map_of data (fst p) of
        Some (_, refCount) \<Rightarrow> AList.update (fst p) (snd p, refCount) data
      | None \<Rightarrow> AList.update (fst p) (snd p, 1) data)"

definition save_deleted :: "string \<times> nat \<Rightarrow> (string \<times> 'v attributes \<times> int) list \<Rightarrow> (string \<times> 'v attributes \<times> int) list" where
  "save_deleted p data = AList.delete (fst p) data"

definition save_loaded :: "'v remote_store \<Rightarrow> 'v remote_store" where
  "save_loaded s =
     initChanges (s\<lparr>r_data := fold save_deleted (r_deleted s) (fold save_changed (r_changed s) (fold save_added (r_added s) (r_data s)))\<rparr>)"

section \<open>Queries\<close>

text \<open>\<open>dmap\<close> is the look-up in \<open>_datatypeMap\<close>; the function it finds is called with the whole value.\<close>

definition remoteToLocal :: "(string \<rightharpoonup> 'v remote_value \<Rightarrow> 'v) \<Rightarrow> 'v remote_value \<Rightarrow> 'v" where
  "remoteToLocal dmap v = (case v of Plain x \<Rightarrow> x | Typed ty x \<Rightarrow> (case dmap ty of Some f \<Rightarrow> f v | None \<Rightarrow> x))"

definition remoteToLocalValues :: "(string \<rightharpoonup> 'v remote_value \<Rightarrow> 'v) \<Rightarrow> (string \<times> 'v remote_value list) list \<Rightarrow> 'v attributes" where
  "remoteToLocalValues dmap attributes = map (\<lambda>(key, vs). (key, map (remoteToLocal dmap) vs)) attributes"

text \<open>The loop over the answer of the server: the new data, the keys of the result and the number of new items.\<close>

fun load_loop ::
  "(string \<rightharpoonup> 'v remote_value \<Rightarrow> 'v) \<Rightarrow> (string \<times> nat) list \<Rightarrow> (string \<times> (string \<times> 'v remote_value list) list) list
    \<Rightarrow> (string \<times> 'v attributes \<times> int) list \<Rightarrow> string list \<Rightarrow> int \<Rightarrow> (string \<times> 'v attributes \<times> int) list \<times> string list \<times> int" where
  "load_loop dmap del [] data resultData newItemCount = (data, resultData, newItemCount)"
| "load_loop dmap del ((key, vs) # dataDict) data resultData newItemCount =
     (if \<not> holds del key
      then (case map_of data key of
              Some (_, refCount) \<Rightarrow>
                load_loop dmap del dataDict (AList.update key (remoteToLocalValues dmap vs, refCount + 1) data) (resultData @ [key]) newItemCount
            | None \<Rightarrow>
                load_loop dmap del dataDict (AList.update key (remoteToLocalValues dmap vs, 1) data) (resultData @ [key]) (newItemCount + 1))
      else load_loop dmap del dataDict data resultData newItemCount)"

definition find_loaded ::
  "(string \<rightharpoonup> 'v remote_value \<Rightarrow> 'v) \<Rightarrow> string \<Rightarrow> (string \<times> (string \<times> 'v remote_value list) list) list \<Rightarrow> 'v remote_store \<Rightarrow> 'v remote_store" where
  "find_loaded dmap query dataDict s =
     (case load_loop dmap (r_deleted s) dataDict (r_data s) [] 0 of
        (data, resultData, newItemCount) \<Rightarrow>
          s\<lparr>r_data := data, r_results := AList.update query resultData (r_results s), r_numItems := r_numItems s + newItemCount\<rparr>)"

text \<open>The loop of \<open>forgetResults\<close>: the data and the number of removed items, or an error when there are no data for a key.\<close>

fun forget_loop :: "string list \<Rightarrow> (string \<times> 'v attributes \<times> int) list \<Rightarrow> int \<Rightarrow> ((string \<times> 'v attributes \<times> int) list \<times> int) result" where
  "forget_loop [] data removed = Inr (data, removed)"
| "forget_loop (key # keys) data removed =
     (case map_of data key of
        None \<Rightarrow> Inl TypeError
      | Some (atts, refCount) \<Rightarrow>
          if refCount \<le> 1 then forget_loop keys (AList.delete key data) (removed + 1)
          else forget_loop keys (AList.update key (atts, refCount - 1) data) removed)"

text \<open>The look-up of the results also finds inherited functions, whose elements are \<open>undefined\<close>; as a key this is the string.\<close>

definition results_for :: "string \<Rightarrow> 'v remote_store \<Rightarrow> string list option" where
  "results_for query s =
     (case obj_get (r_results s) query of
        Undefined \<Rightarrow> None
      | Own keys \<Rightarrow> Some keys
      | Inherited k \<Rightarrow> Some (replicate (proto_length k) ''undefined''))"

definition forgetResults :: "string \<Rightarrow> 'v remote_store \<Rightarrow> (bool \<times> 'v remote_store) result" where
  "forgetResults query s =
     (case results_for query s of
        None \<Rightarrow> Inr (False, s)
      | Some keys \<Rightarrow>
          rbind (forget_loop keys (r_data s) 0) (\<lambda>(data, removed).
            Inr (True, s\<lparr>r_data := data, r_results := AList.delete query (r_results s), r_numItems := r_numItems s - removed\<rparr>)))"

end
