(* ===== verification/Remote_Store_Proofs.thy ===== *)
theory Remote_Store_Proofs
  imports Remote_Store
begin

text \<open>
  Properties of the remote store of theory \<open>Remote_Store\<close>: saving and reverting, the cache of queries with its reference counts, and
  what a change of one attribute does to the others.
\<close>

section \<open>Requests\<close>

datatype 'v change = NewItem "'v attributes" string | DeleteItem string | SetValues string string "'v list"

fun store_write :: "'v change \<Rightarrow> 'v remote_store \<Rightarrow> 'v remote_store" where
  "store_write (NewItem atts k) s = newItem atts k s"
| "store_write (DeleteItem k) s = snd (deleteItem k s)"
| "store_write (SetValues k a vs) s = setValues k a vs s"

datatype 'v store_request = Write "'v change" | Found string "(string \<times> (string \<times> 'v remote_value list) list) list" | Forgot string | Reverted | Saved

fun request :: "(string \<rightharpoonup> 'v remote_value \<Rightarrow> 'v) \<Rightarrow> 'v store_request \<Rightarrow> 'v remote_store \<Rightarrow> 'v remote_store result" where
  "request dmap (Write p) s = Inr (store_write p s)"
| "request dmap (Found q dict) s = Inr (find_loaded dmap q dict s)"
| "request dmap (Forgot q) s = rbind (forgetResults q s) (\<lambda>(_, s). Inr s)"
| "request dmap Reverted s = Inr (revert s)"
| "request dmap Saved s = Inr (save_loaded s)"

fun requests :: "(string \<rightharpoonup> 'v remote_value \<Rightarrow> 'v) \<Rightarrow> 'v store_request list \<Rightarrow> 'v remote_store \<Rightarrow> 'v remote_store result" where
  "requests dmap [] s = Inr s"
| "requests dmap (r # rs) s = rbind (request dmap r s) (requests dmap rs)"

text \<open>The fields that writing leaves alone.\<close>

lemma setValues_fields [simp]:
  "r_deleted (setValues k a vs s) = r_deleted s" "r_added (setValues k a vs s) = r_added s" "r_results (setValues k a vs s) = r_results s"
  "r_data (setValues k a vs s) = r_data s" "r_numItems (setValues k a vs s) = r_numItems s"
  by (simp_all add: setValues_def Let_def split: option.splits)

lemma fold_setValues_fields [simp]:
  "r_deleted (fold (\<lambda>(a, vs). setValues k a vs) atts s) = r_deleted s" "r_added (fold (\<lambda>(a, vs). setValues k a vs) atts s) = r_added s"
  "r_results (fold (\<lambda>(a, vs). setValues k a vs) atts s) = r_results s" "r_data (fold (\<lambda>(a, vs). setValues k a vs) atts s) = r_data s"
  "r_numItems (fold (\<lambda>(a, vs). setValues k a vs) atts s) = r_numItems s"
  by (induction atts arbitrary: s) auto

lemma write_fields [simp]:
  "r_results (store_write p s) = r_results s" "r_data (store_write p s) = r_data s" "r_numItems (store_write p s) = r_numItems s"
  by (cases p; simp add: newItem_def deleteItem_def Let_def split: option.splits)+

lemma fold_write_fields [simp]:
  "r_results (fold store_write ps s) = r_results s" "r_data (fold store_write ps s) = r_data s" "r_numItems (fold store_write ps s) = r_numItems s"
  by (induction ps arbitrary: s) auto

section \<open>The invariant of pending changes\<close>

definition keys :: "('a \<times> 'b) list \<Rightarrow> 'a set" where
  "keys al = fst ` set al"

lemma keys_simps [simp]:
  "keys [] = {}" "keys (p # al) = insert (fst p) (keys al)" "keys (AList.update k v al) = insert k (keys al)" "keys (AList.delete k al) = keys al - {k}"
  using arg_cong [OF delete_keys [of k al], of set] by (simp_all add: keys_def dom_update)

lemma map_of_None_keys: "map_of al k = None \<longleftrightarrow> k \<notin> keys al"
  by (simp add: keys_def map_of_eq_None_iff)

lemma map_of_Some_keys: "map_of al k = Some v \<Longrightarrow> k \<in> keys al"
  using map_of_None_keys [of al k] by simp

lemma holds_keys: "holds al k \<longleftrightarrow> k \<in> keys al \<or> inherited k"
  by (simp add: holds_def map_of_None_keys)

lemma isItem_iff: "isItem s k \<longleftrightarrow> k \<noteq> [] \<and> \<not> inherited k \<and> k \<notin> keys (r_deleted s) \<and> k \<in> keys (r_data s) \<union> keys (r_added s)"
  by (auto simp: isItem_def holds_keys)

definition pending_ok :: "'v remote_store \<Rightarrow> bool" where
  "pending_ok s \<longleftrightarrow>
     distinct (map fst (r_changed s)) \<and> keys (r_changed s) \<subseteq> {k. isItem s k} \<and> keys (r_deleted s) \<inter> keys (r_added s) = {}"

lemma pending_ok_init: "pending_ok remote_init"
  by (simp add: pending_ok_def remote_init_def)

lemma pending_ok_setValues: "pending_ok s \<Longrightarrow> pending_ok (setValues k a vs s)"
  by (auto simp: pending_ok_def setValues_def getIdentity_def Let_def distinct_update isItem_iff)

lemma pending_ok_fold: "pending_ok s \<Longrightarrow> pending_ok (fold (\<lambda>(a, vs). setValues k a vs) atts s)"
  by (induction atts arbitrary: s) (auto simp: pending_ok_setValues)

lemma pending_ok_newItem:
  assumes "pending_ok s"
  shows "pending_ok (newItem atts k s)"
  unfolding newItem_def Let_def
  by (rule pending_ok_fold)
    (use assms in \<open>auto simp: pending_ok_def isItem_iff holds_keys\<close>)

lemma pending_ok_deleteItem:
  assumes "pending_ok s"
  shows "pending_ok (snd (deleteItem k s))"
  using assms
  by (auto simp: pending_ok_def deleteItem_def getIdentity_def isItem_iff holds_keys distinct_delete Let_def)

lemma pending_ok_write: "pending_ok s \<Longrightarrow> pending_ok (store_write p s)"
  by (cases p) (simp_all add: pending_ok_newItem pending_ok_deleteItem pending_ok_setValues)

lemma pending_ok_initChanges: "pending_ok (initChanges s)"
  by (simp add: pending_ok_def initChanges_def)

lemma load_loop_keys:
  "load_loop dmap del dict data res n = (data', res', n') \<Longrightarrow> keys data \<subseteq> keys data'"
  by (induction dmap del dict data res n arbitrary: data' res' n' rule: load_loop.induct) (fastforce split: if_splits option.splits)+

lemma pending_ok_find:
  assumes "pending_ok s"
  shows "pending_ok (find_loaded dmap q dict s)"
proof -
  obtain data res n where ll: "load_loop dmap (r_deleted s) dict (r_data s) [] 0 = (data, res, n)" by (cases "load_loop dmap (r_deleted s) dict (r_data s) [] 0")
  show ?thesis using assms load_loop_keys [OF ll] by (auto simp: pending_ok_def find_loaded_def ll isItem_iff)
qed

section \<open>Saving and reverting\<close>

lemma map_of_save_added:
  "map_of (fold save_added ps data) k =
    (if k \<in> keys data then map_of data k else if k \<in> keys ps \<and> \<not> inherited k then Some ([], 1) else None)"
  by (induction ps arbitrary: data) (auto simp: save_added_def holds_keys update_conv' map_of_None_keys)

lemma map_of_save_changed:
  "distinct (map fst ps) \<Longrightarrow> map_of (fold save_changed ps data) k =
    (case map_of ps k of
       Some c \<Rightarrow> Some (c, case map_of data k of Some (_, r) \<Rightarrow> r | None \<Rightarrow> 1)
     | None \<Rightarrow> map_of data k)"
proof (induction ps arbitrary: data)
  case (Cons p ps)
  then have none: "map_of ps (fst p) = None" by (simp add: map_of_eq_None_iff)
  show ?case using Cons none by (cases p) (auto simp: save_changed_def update_conv' split: option.splits)
qed simp

lemma map_of_save_deleted: "map_of (fold save_deleted ps data) k = (if k \<in> keys ps then None else map_of data k)"
  by (induction ps arbitrary: data) (auto simp: save_deleted_def delete_conv')

lemma keys_saves:
  "keys (fold save_added ps data) = keys data \<union> {k \<in> keys ps. \<not> inherited k}"
  "keys (fold save_changed cs data) = keys data \<union> keys cs"
  "keys (fold save_deleted ps data) = keys data - keys ps"
proof -
  show "keys (fold save_added ps data) = keys data \<union> {k \<in> keys ps. \<not> inherited k}"
    by (induction ps arbitrary: data) (auto simp: save_added_def holds_keys)
  show "keys (fold save_changed cs data) = keys data \<union> keys cs"
    by (induction cs arbitrary: data) (auto simp: save_changed_def split: option.splits)
  show "keys (fold save_deleted ps data) = keys data - keys ps"
    by (induction ps arbitrary: data) (auto simp: save_deleted_def)
qed

lemma map_of_saved:
  assumes "distinct (map fst (r_changed s))"
  shows "map_of (r_data (save_loaded s)) k =
    (if k \<in> keys (r_deleted s) then None
     else let d = (if k \<in> keys (r_data s) then map_of (r_data s) k else if k \<in> keys (r_added s) \<and> \<not> inherited k then Some ([], 1) else None)
          in case map_of (r_changed s) k of Some c \<Rightarrow> Some (c, case d of Some (_, r) \<Rightarrow> r | None \<Rightarrow> 1) | None \<Rightarrow> d)"
proof -
  have "r_data (save_loaded s) = fold save_deleted (r_deleted s) (fold save_changed (r_changed s) (fold save_added (r_added s) (r_data s)))"
    by (simp add: save_loaded_def initChanges_def)
  then show ?thesis by (simp only: map_of_save_deleted map_of_save_changed [OF assms] map_of_save_added Let_def)
qed

lemma saved_fields [simp]:
  "r_changed (save_loaded s) = []" "r_deleted (save_loaded s) = []" "r_added (save_loaded s) = []"
  "r_results (save_loaded s) = r_results s" "r_numItems (save_loaded s) = r_numItems s"
  by (simp_all add: save_loaded_def initChanges_def)

lemma pending_ok_requests:
  "requests dmap rs s = Inr s' \<Longrightarrow> pending_ok s \<Longrightarrow> \<forall>q. Forgot q \<notin> set rs \<Longrightarrow> pending_ok s'"
proof (induction dmap rs s arbitrary: s' rule: requests.induct)
  case (2 dmap r rs s)
  then obtain s1 where s1: "request dmap r s = Inr s1" "requests dmap rs s1 = Inr s'" by (auto simp: rbind_Inr_iff)
  have "pending_ok s1"
    using s1(1) 2(3,4) by (cases r) (auto simp: pending_ok_write pending_ok_find revert_def pending_ok_initChanges save_loaded_def)
  then show ?case using 2(1) s1 2(4) by simp
qed simp

text \<open>The values that a reader sees, none if there is no item or no attribute.\<close>

definition visible :: "'v remote_store \<Rightarrow> string \<Rightarrow> string \<Rightarrow> 'v list" where
  "visible s k a = (case getValues s k a of Inr (Own vs) \<Rightarrow> vs | _ \<Rightarrow> [])"

lemma save_keeps:
  assumes "pending_ok s"
  shows "isItem (save_loaded s) k = isItem s k" "visible (save_loaded s) k a = visible s k a"
proof -
  have dist: "distinct (map fst (r_changed s))" and sub: "map_of (r_changed s) k \<noteq> None \<Longrightarrow> isItem s k"
    using assms by (auto simp: pending_ok_def map_of_None_keys)
  note data = map_of_saved [OF dist, of k]
  have item: "k \<in> keys (r_data (save_loaded s)) \<longleftrightarrow> isItem s k" if "k \<noteq> []" "\<not> inherited k"
    using that sub by (auto simp: save_loaded_def initChanges_def keys_saves isItem_iff map_of_None_keys)
  then show same: "isItem (save_loaded s) k = isItem s k" by (auto simp: isItem_iff)
  show "visible (save_loaded s) k a = visible s k a"
  proof (cases "isItem s k")
    case True
    then have k: "k \<notin> keys (r_deleted s)" "k \<in> keys (r_data s) \<union> keys (r_added s)" "\<not> inherited k" by (auto simp: isItem_iff)
    then show ?thesis using True same
      by (cases "map_of (r_changed s) k"; cases "map_of (r_data s) k")
        (use map_of_None_keys [of "r_data s" k] in \<open>auto simp: visible_def getValues_def getIdentity_def obj_get_def data Let_def split: option.splits\<close>)
  qed (simp add: visible_def getValues_def getIdentity_def same)
qed

text \<open>
  Claim C10. Saving commits what the reader sees: in a store that was reached by queries, changes, reversals and saves, the same identities are items
  before and after a save, every attribute has the same values, and nothing is pending any more. What the server is told to delete
  is no item after the save.
\<close>

theorem save_commits_view:
  assumes "requests dmap rs remote_init = Inr s" "\<forall>q. Forgot q \<notin> set rs"
  shows "isItem (save_loaded s) k = isItem s k \<and> visible (save_loaded s) k a = visible s k a
    \<and> \<not> isDirty (save_loaded s) None \<and> (k \<in> set (snd (saveStruct s)) \<longrightarrow> \<not> isItem (save_loaded s) k)"
proof -
  have ok: "pending_ok s" using pending_ok_requests [OF assms(1) pending_ok_init assms(2)] .
  have "k \<in> set (snd (saveStruct s)) \<Longrightarrow> \<not> isItem s k" by (auto simp: saveStruct_def isItem_iff keys_def)
  then show ?thesis using save_keeps [OF ok] by (auto simp: isDirty_def)
qed

text \<open>
  Reverting drops all changes since the last save or reversal, whatever they were, and nothing else: new items, deletions and new values
  disappear, and the store is as if they had never been made.
\<close>

theorem revert_discards_changes:
  "revert (fold store_write ps s) = revert s \<and> (\<not> isDirty s None \<longrightarrow> revert (fold store_write ps s) = s)"
proof -
  have "revert (fold store_write ps s) = revert s" by (simp add: revert_def initChanges_def)
  moreover have "\<not> isDirty s None \<Longrightarrow> revert s = s" by (simp add: isDirty_def revert_def initChanges_def)
  ultimately show ?thesis by simp
qed

text \<open>
  Claim C37. A change of one attribute of a saved item hides all its other attributes: they read as empty until the change is reverted, and
  saving the change removes them from the item for good, while the server is only sent the attribute that was changed.
\<close>

theorem set_loses_other_attributes:
  assumes "pending_ok s" "isItem s k" "map_of (r_changed s) k = None" "map_of (r_data s) k = Some (atts, r)" "b \<noteq> a"
  shows "visible s k b = (case map_of atts b of Some vs \<Rightarrow> vs | None \<Rightarrow> [])
    \<and> visible (setValues k a ws s) k b = []
    \<and> map_of (r_data (save_loaded (setValues k a ws s))) k = Some ([(a, ws)], r)
    \<and> map_of (fst (saveStruct (setValues k a ws s))) k = Some [(a, ws)]"
proof -
  let ?s = "setValues k a ws s"
  have changed: "r_changed ?s = AList.update k [(a, ws)] (r_changed s)"
    using assms(2,3) by (simp add: setValues_def getIdentity_def)
  have item: "isItem ?s k" using assms(2) by (simp add: isItem_iff)
  have "distinct (map fst (r_changed ?s))" using pending_ok_setValues [OF assms(1)] by (simp add: pending_ok_def)
  from map_of_saved [OF this] have "map_of (r_data (save_loaded ?s)) k = Some ([(a, ws)], r)"
    using assms(2,4) map_of_Some_keys [OF assms(4)] by (simp add: changed update_conv' isItem_iff)
  moreover have "visible ?s k b = []" using item assms(5) by (simp add: visible_def getValues_def getIdentity_def obj_get_def changed update_conv')
  moreover have "visible s k b = (case map_of atts b of Some vs \<Rightarrow> vs | None \<Rightarrow> [])"
    using assms(2-4) by (simp add: visible_def getValues_def getIdentity_def obj_get_def split: option.splits)
  ultimately show ?thesis by (simp add: saveStruct_def changed update_conv')
qed

section \<open>The cache of queries\<close>

text \<open>The reference count of a key, and the number of times it occurs in the cached results.\<close>

definition rc :: "(string \<times> 'v attributes \<times> int) list \<Rightarrow> string \<Rightarrow> int" where
  "rc data k = (case map_of data k of Some (_, r) \<Rightarrow> r | None \<Rightarrow> 0)"

definition refs :: "(string \<times> string list) list \<Rightarrow> string \<Rightarrow> int" where
  "refs results k = sum_list (map (\<lambda>(q, ks). int (count_list ks k)) results)"

definition data_ok :: "(string \<times> 'v attributes \<times> int) list \<Rightarrow> bool" where
  "data_ok data \<longleftrightarrow> distinct (map fst data) \<and> (\<forall>k \<in> keys data. 1 \<le> rc data k)"

definition cache_ok :: "'v remote_store \<Rightarrow> bool" where
  "cache_ok s \<longleftrightarrow> data_ok (r_data s) \<and> (\<forall>k. refs (r_results s) k \<le> rc (r_data s) k) \<and> r_numItems s = int (length (r_data s))"

lemma rc_update [simp]: "rc (AList.update k (atts, r) data) k' = (if k' = k then r else rc data k')"
  by (simp add: rc_def update_conv')

lemma rc_delete [simp]: "rc (AList.delete k data) k' = (if k' = k then 0 else rc data k')"
  by (simp add: rc_def delete_conv')

lemma rc_Some: "map_of data k = Some (atts, r) \<Longrightarrow> rc data k = r"
  by (simp add: rc_def)

lemma rc_None: "map_of data k = None \<Longrightarrow> rc data k = 0"
  by (simp add: rc_def)

lemma data_ok_update: "data_ok data \<Longrightarrow> 1 \<le> r \<Longrightarrow> data_ok (AList.update k (atts, r) data)"
  by (auto simp: data_ok_def distinct_update)

lemma data_ok_delete: "data_ok data \<Longrightarrow> data_ok (AList.delete k data)"
  by (auto simp: data_ok_def distinct_delete)

lemma length_update: "length (AList.update k v al) = (if k \<in> keys al then length al else Suc (length al))"
  by (induction al) auto

lemma length_delete: "distinct (map fst al) \<Longrightarrow> k \<in> keys al \<Longrightarrow> Suc (length (AList.delete k al)) = length al"
proof (induction al)
  case (Cons p al)
  then have "fst p \<notin> fst ` set al" by simp
  then show ?case using Cons by (auto simp: delete_id)
qed simp

lemma refs_nonneg: "0 \<le> refs results k"
  by (auto simp: refs_def intro!: sum_list_nonneg)

lemma refs_update: "refs (AList.update q ks results) k \<le> refs results k + int (count_list ks k)"
  by (induction results) (auto simp: refs_def)

lemma refs_delete: "map_of results q = Some ks \<Longrightarrow> refs (AList.delete q results) k + int (count_list ks k) \<le> refs results k"
proof (induction results)
  case (Cons p results)
  have le: "refs (AList.delete q results) k \<le> refs results k" by (induction results) (auto simp: refs_def)
  show ?case using Cons le by (cases p) (auto simp: refs_def split: if_splits)
qed simp

lemma load_loop_counts:
  assumes "load_loop dmap del dict data res n = (data', res', n')" "data_ok data"
  shows "\<exists>ks. res' = res @ ks \<and> (\<forall>k. rc data' k = rc data k + int (count_list ks k)) \<and> data_ok data'
    \<and> int (length data') - n' = int (length data) - n"
  using assms
proof (induction dmap del dict data res n arbitrary: data' res' n' rule: load_loop.induct)
  case (2 dmap del key vs dict data res n)
  show ?case
  proof (cases "holds del key")
    case True
    then show ?thesis using 2 by simp
  next
    case False
    show ?thesis
    proof (cases "map_of data key")
      case None
      then have "rc data key = 0" "key \<notin> keys data" by (simp_all add: rc_None map_of_None_keys)
      then show ?thesis
        using 2(1) [OF False None] 2(4,5) False None data_ok_update [of data 1] by (fastforce simp: length_update)
    next
      case (Some p)
      then obtain atts r where p: "map_of data key = Some (atts, r)" by (cases p) auto
      then have key: "rc data key = r" "key \<in> keys data" by (auto simp: rc_Some dest: map_of_Some_keys)
      then have "1 \<le> r" using 2(5) by (auto simp: data_ok_def)
      then show ?thesis
        using 2(2) [OF False p refl] 2(4,5) False p key data_ok_update [of data "r + 1"] by (fastforce simp: length_update)
    qed
  qed
qed simp

lemma forget_loop_counts:
  assumes "data_ok data" "\<forall>k. int (count_list ks k) \<le> rc data k"
  shows "\<exists>data' removed'. forget_loop ks data removed = Inr (data', removed') \<and> (\<forall>k. rc data' k = rc data k - int (count_list ks k))
    \<and> data_ok data' \<and> int (length data') + removed' = int (length data) + removed"
  using assms
proof (induction ks data removed rule: forget_loop.induct)
  case (2 key ks data removed)
  have "0 < rc data key" using 2(4) [rule_format, of key] by simp
  then obtain atts r where p: "map_of data key = Some (atts, r)" by (auto simp: rc_def split: option.splits)
  then have key: "rc data key = r" "key \<in> keys data" by (auto simp: rc_Some dest: map_of_Some_keys)
  then have r: "1 \<le> r" using 2(3) by (auto simp: data_ok_def)
  show ?case
  proof (cases "r \<le> 1")
    case True
    then have "r = 1" using r by simp
    have len: "Suc (length (AList.delete key data)) = length data" using 2(3) key(2) by (intro length_delete) (auto simp: data_ok_def)
    have "\<forall>k. int (count_list ks k) \<le> rc (AList.delete key data) k"
      using 2(4) key(1) \<open>r = 1\<close> by (auto split: if_splits)
    from 2(1) [OF p refl True data_ok_delete [OF 2(3)] this] show ?thesis
      using p True len key(1) \<open>r = 1\<close> 2(4) [rule_format, of key] by force
  next
    case False
    have "\<forall>k. int (count_list ks k) \<le> rc (AList.update key (atts, r - 1) data) k"
      using 2(4) key(1) by (auto split: if_splits)
    from 2(2) [OF p refl False data_ok_update [OF 2(3)] this] show ?thesis
      using p False key by (force simp: length_update)
  qed
qed simp

lemma refs_pos:
  assumes "map_of results q = Some ks" "k \<in> set ks"
  shows "1 \<le> refs results k"
proof -
  have "0 < count_list ks k" using assms(2) count_list_0_iff [of ks k] by linarith
  then show ?thesis using refs_delete [OF assms(1), of k] refs_nonneg [of "AList.delete q results" k] by simp
qed

lemma cache_ok_le: "cache_ok s \<Longrightarrow> refs (r_results s) k \<le> rc (r_data s) k"
  by (simp add: cache_ok_def)

lemma cache_ok_write: "cache_ok s \<Longrightarrow> cache_ok (store_write p s)"
  by (simp add: cache_ok_def)

lemma cache_ok_find:
  assumes "cache_ok s"
  shows "cache_ok (find_loaded dmap q dict s)"
proof -
  obtain data res n where ll: "load_loop dmap (r_deleted s) dict (r_data s) [] 0 = (data, res, n)"
    by (cases "load_loop dmap (r_deleted s) dict (r_data s) [] 0")
  have "data_ok (r_data s)" using assms by (simp add: cache_ok_def)
  from load_loop_counts [OF ll this] have counts: "\<forall>k. rc data k = rc (r_data s) k + int (count_list res k)"
    "data_ok data" "int (length data) = int (length (r_data s)) + n" by auto
  have "refs (AList.update q res (r_results s)) k \<le> rc data k" for k
    using refs_update [of q res "r_results s" k] counts(1) [rule_format, of k] cache_ok_le [OF assms, of k] by linarith
  then show ?thesis using counts assms by (simp add: cache_ok_def find_loaded_def ll)
qed

lemma results_for: "\<not> inherited q \<Longrightarrow> results_for q s = map_of (r_results s) q" "map_of (r_results s) q = Some ks \<Longrightarrow> results_for q s = Some ks"
  by (simp_all add: results_for_def obj_get_def split: option.split)

lemma cache_ok_forget:
  assumes "cache_ok s" "\<not> inherited q"
  shows "\<exists>b s'. forgetResults q s = Inr (b, s') \<and> cache_ok s'"
proof (cases "map_of (r_results s) q")
  case (Some ks)
  have le: "int (count_list ks k) \<le> rc (r_data s) k" for k
    using refs_delete [OF Some, of k] refs_nonneg [of "AList.delete q (r_results s)" k] cache_ok_le [OF assms(1), of k] by linarith
  have "data_ok (r_data s)" using assms by (simp add: cache_ok_def)
  then obtain data removed where f: "forget_loop ks (r_data s) 0 = Inr (data, removed)"
    "\<forall>k. rc data k = rc (r_data s) k - int (count_list ks k)" "data_ok data" "int (length data) + removed = int (length (r_data s))"
    using forget_loop_counts [of "r_data s" ks 0] le by auto
  have "refs (AList.delete q (r_results s)) k \<le> rc data k" for k
    using refs_delete [OF Some, of k] f(2) [rule_format, of k] cache_ok_le [OF assms(1), of k] by linarith
  then show ?thesis using f assms Some by (auto simp: cache_ok_def forgetResults_def results_for)
qed (use assms in \<open>auto simp: forgetResults_def results_for\<close>)

lemma cache_ok_requests:
  "cache_ok s \<Longrightarrow> Saved \<notin> set rs \<Longrightarrow> \<forall>q. Forgot q \<in> set rs \<longrightarrow> \<not> inherited q \<Longrightarrow> \<exists>s'. requests dmap rs s = Inr s' \<and> cache_ok s'"
proof (induction dmap rs s rule: requests.induct)
  case (2 dmap r rs s)
  have "\<exists>s1. request dmap r s = Inr s1 \<and> cache_ok s1"
  proof (cases r)
    case (Forgot q)
    then show ?thesis using cache_ok_forget [OF 2(2), of q] 2(4) by auto
  qed (use 2(2,3) in \<open>simp_all add: cache_ok_write cache_ok_find\<close>, simp add: cache_ok_def revert_def initChanges_def)
  then show ?case using 2(1,3,4) by auto
qed simp

text \<open>
  Claim C32. As long as nothing is saved, and no query named like an inherited property (\<open>constructor\<close>, \<open>toString\<close>, ...) is forgotten, the cache of queries is consistent: forgetting results
  does not fail, the size of the store is the number of items whose data are kept, and the data of all items in a remembered result are kept, whatever queries overlap,
  are repeated or are forgotten.
\<close>

theorem cached_results_kept:
  assumes "Saved \<notin> set rs" "\<forall>q. Forgot q \<in> set rs \<longrightarrow> \<not> inherited q"
  shows "\<exists>s. requests dmap rs remote_init = Inr s \<and> getSize s = int (card (keys (r_data s)))
    \<and> (\<forall>q ks. map_of (r_results s) q = Some ks \<longrightarrow> set ks \<subseteq> keys (r_data s))"
proof -
  have "cache_ok remote_init" by (simp add: cache_ok_def data_ok_def remote_init_def rc_def refs_def)
  from cache_ok_requests [OF this assms, of dmap] obtain s where s: "requests dmap rs remote_init = Inr s" "cache_ok s" by blast
  have "k \<in> keys (r_data s)" if "map_of (r_results s) q = Some ks" "k \<in> set ks" for q ks k
  proof -
    have "1 \<le> rc (r_data s) k" using refs_pos [OF that] cache_ok_le [OF s(2), of k] by linarith
    then show ?thesis using map_of_None_keys [of "r_data s" k] by (auto simp: rc_def split: option.splits)
  qed
  moreover have "length (r_data s) = card (keys (r_data s))"
    using s(2) by (metis cache_ok_def data_ok_def distinct_card keys_def length_map list.set_map)
  ultimately show ?thesis using s by (auto simp: getSize_def cache_ok_def)
qed

lemma forget_missing: "k \<in> set ks \<Longrightarrow> k \<notin> keys data \<Longrightarrow> forget_loop ks data n = Inl TypeError"
proof (induction ks data n rule: forget_loop.induct)
  case (2 key ks data n)
  show ?case
  proof (cases "map_of data key")
    case (Some p)
    then obtain atts r where p: "map_of data key = Some (atts, r)" by (cases p) auto
    then have "k \<noteq> key" using 2(4) map_of_Some_keys by metis
    then show ?thesis using 2(1) [OF p refl] 2(2) [OF p refl] 2(3,4) p by simp
  qed simp
qed simp

text \<open>Forgetting a query that is named like an inherited function with a parameter raises, unless the query was made or there is an item named \<open>undefined\<close>.\<close>

lemma forget_inherited:
  assumes "map_of (r_results s) ''constructor'' = None" "''undefined'' \<notin> keys (r_data s)"
  shows "forgetResults ''constructor'' s = Inl TypeError"
proof -
  have "results_for ''constructor'' s = Some [''undefined'']"
    using assms(1) by (simp add: results_for_def obj_get_def inherited_def proto_names_def proto_length_def)
  moreover have "map_of (r_data s) ''undefined'' = None" using assms(2) map_of_None_keys by metis
  ultimately show ?thesis by (simp add: forgetResults_def)
qed

text \<open>
  Once the deletion of an item has been saved, the results that contain it can no longer be forgotten: \<open>forgetResults\<close> raises a \<open>TypeError\<close>
  when it comes to the item, whose data are gone, and the results stay remembered. The size of the store still counts the item.
\<close>

theorem forget_fails_after_saved_deletion:
  assumes "map_of (r_results s) q = Some ks" "k \<in> set ks" "isItem s k" "k \<notin> keys (r_added s)"
  defines "s' \<equiv> save_loaded (snd (deleteItem k s))"
  shows "forgetResults q s' = Inl TypeError \<and> \<not> isItem s' k \<and> getSize s' = getSize s"
proof -
  have del: "snd (deleteItem k s) = s\<lparr>r_deleted := AList.update k 1 (r_deleted s), r_changed := AList.delete k (r_changed s)\<rparr>"
    using assms(3,4) by (auto simp: deleteItem_def getIdentity_def holds_keys isItem_iff)
  have gone: "k \<notin> keys (r_data s')" unfolding s'_def del by (simp add: save_loaded_def initChanges_def keys_saves)
  then have "forgetResults q s' = Inl TypeError"
    using assms(1,2) forget_missing [OF assms(2) gone, of 0] by (simp add: forgetResults_def results_for(2) s'_def del)
  moreover have "\<not> isItem s' k" using gone unfolding isItem_iff by (simp add: s'_def)
  ultimately show ?thesis by (simp add: getSize_def s'_def del)
qed

section \<open>Examples\<close>

definition films :: "(string \<times> (string \<times> nat remote_value list) list) list" where
  "films = [(''alien'', [(''year'', [Plain 1979]), (''rank'', [Plain 1])]), (''brazil'', [(''year'', [Plain 1985])])]"

definition film_store :: "nat remote_store" where
  "film_store = find_loaded Map.empty ''all'' films remote_init"

lemma film_store_eq:
  "film_store = \<lparr>r_deleted = [], r_changed = [], r_added = [], r_results = [(''all'', [''alien'', ''brazil''])],
     r_data = [(''alien'', [(''year'', [1979]), (''rank'', [1])], 1), (''brazil'', [(''year'', [1985])], 1)], r_numItems = 2\<rparr>"
  by (simp add: film_store_def find_loaded_def films_def remote_init_def holds_def inherited_def proto_names_def remoteToLocalValues_def remoteToLocal_def)

theorem save_commits_view_witness:
  "\<exists>s. requests Map.empty [Found ''all'' films, Write (DeleteItem ''brazil''), Write (SetValues ''alien'' ''rank'' [2])] remote_init = Inr s
    \<and> visible (save_loaded s) ''alien'' ''rank'' = [2] \<and> \<not> isItem (save_loaded s) ''brazil''"
proof -
  define s where "s = setValues ''alien'' ''rank'' [2] (snd (deleteItem ''brazil'' film_store))"
  have run: "requests Map.empty [Found ''all'' films, Write (DeleteItem ''brazil''), Write (SetValues ''alien'' ''rank'' [2])] remote_init = Inr s"
    by (simp add: s_def film_store_def)
  have "\<forall>q. Forgot q \<notin> set [Found ''all'' films, Write (DeleteItem ''brazil''), Write (SetValues ''alien'' ''rank'' [2])]" by simp
  note save_commits_view [OF run this]
  moreover have "visible s ''alien'' ''rank'' = [2]" "\<not> isItem s ''brazil''"
    by (simp_all add: s_def film_store_eq deleteItem_def setValues_def visible_def getValues_def getIdentity_def obj_get_def isItem_def holds_def inherited_def proto_names_def)
  ultimately show ?thesis using run by metis
qed

theorem revert_discards_changes_witness:
  "\<not> isDirty film_store None \<and> revert (fold store_write [NewItem [(''year'', [2000])] ''x'', DeleteItem ''alien''] film_store) = film_store"
proof -
  have "\<not> isDirty film_store None" by (simp add: film_store_eq isDirty_def)
  then show ?thesis using revert_discards_changes by blast
qed

theorem set_loses_other_attributes_witness:
  "visible film_store ''alien'' ''year'' = [1979] \<and> visible (setValues ''alien'' ''rank'' [2] film_store) ''alien'' ''year'' = []"
  using set_loses_other_attributes [of film_store "''alien''" "[(''year'', [1979]), (''rank'', [1])]" 1 "''year''" "''rank''" "[2]"]
  by (simp add: film_store_eq pending_ok_def isItem_iff inherited_def proto_names_def)

theorem cached_results_kept_witness:
  "\<exists>s. requests Map.empty [Found ''all'' films, Found ''all'' films, Forgot ''all''] remote_init = Inr s \<and> getSize s = int (card (keys (r_data s)))"
  using cached_results_kept [of "[Found ''all'' films, Found ''all'' films, Forgot ''all'']" Map.empty] by (auto simp: inherited_def proto_names_def)

theorem forget_fails_after_saved_deletion_witness:
  "forgetResults ''all'' (save_loaded (snd (deleteItem ''alien'' film_store))) = Inl TypeError"
  using forget_fails_after_saved_deletion [of film_store "''all''" "[''alien'', ''brazil'']" "''alien''"]
  by (simp add: film_store_eq isItem_iff inherited_def proto_names_def)

end
