(* ===== verification/Csv_Store.thy ===== *)
theory Csv_Store
  imports Remote_Store_Proofs String_Extras
begin

text \<open>
  \<open>src/data/CsvStore.js\<close>: a remote store whose data come from a text of comma-separated values. The methods that change items are not
  implemented by the store and raise an error; the rest is inherited from \<open>RemoteStore\<close>.
\<close>

section \<open>Lines and fields\<close>

text \<open>\<open>split(/\r\n|\n|\r/)\<close>.\<close>

fun split_lines :: "string \<Rightarrow> string list" where
  "split_lines [] = [[]]"
| "split_lines (c # cs) =
     (if c = ch_r \<and> take 1 cs = [ch_n] then [] # split_lines (drop 1 cs)
      else if c = ch_n \<or> c = ch_r then [] # split_lines cs
      else case split_lines cs of [] \<Rightarrow> [[c]] | w # ws \<Rightarrow> (c # w) # ws)"

definition ltrim :: "string \<Rightarrow> string" where
  "ltrim s = dropWhile is_space s"

definition rtrim :: "string \<Rightarrow> string" where
  "rtrim s = rev (dropWhile is_space (rev s))"

text \<open>\<open>field.charAt(field.length - n)\<close>, for positive \<open>n\<close>.\<close>

definition from_end :: "string \<Rightarrow> nat \<Rightarrow> string" where
  "from_end s n = (if n \<le> length s then [s ! (length s - n)] else [])"

text \<open>The test whether a field that starts with a quotation mark goes on after the comma.\<close>

definition goes_on :: "string \<Rightarrow> bool" where
  "goes_on field \<longleftrightarrow>
     char_at field 0 = [dquote]
     \<and> (from_end field 1 \<noteq> [dquote]
        \<or> from_end field 1 = [dquote] \<and> from_end field 2 = [dquote] \<and> from_end field 3 \<noteq> [dquote])"

text \<open>\<open>replace(/""/g, '"')\<close>.\<close>

fun single_quotes :: "string \<Rightarrow> string" where
  "single_quotes [] = []"
| "single_quotes [c] = [c]"
| "single_quotes (c # d # cs) =
     (if c = dquote \<and> d = dquote then dquote # single_quotes cs else c # single_quotes (d # cs))"

definition unquote :: "string \<Rightarrow> string" where
  "unquote field =
     (if char_at field 0 = [dquote] \<and> from_end field 1 = [dquote]
      then single_quotes (substring field 1 (length field - 1)) else field)"

text \<open>The loop over the fields of a line, on those that are left; \<^term>\<open>None\<close> for \<open>null\<close>.\<close>

function merge_fields :: "string list \<Rightarrow> string list option" where
  "merge_fields [] = Some []"
| "merge_fields (f # fs) =
     (let field_space = ltrim f; field = rtrim field_space
      in if goes_on field
         then (case fs of [] \<Rightarrow> None | nextField # rest \<Rightarrow> merge_fields ((field_space @ '','' @ nextField) # rest))
         else map_option (\<lambda>r. unquote field # r) (merge_fields fs))"
  by pat_completeness auto
termination
  by (relation "measure length") auto

declare merge_fields.simps(2) [simp del]

fun csv_records :: "string list \<Rightarrow> string list list option" where
  "csv_records [] = Some []"
| "csv_records (l # ls) =
     (if l = [] then csv_records ls
      else case merge_fields (split_on CHR '','' l) of
             None \<Rightarrow> None
           | Some fs \<Rightarrow> map_option (\<lambda>r. fs # r) (csv_records ls))"

definition getArrayOfArrays :: "string \<Rightarrow> string list list option" where
  "getArrayOfArrays csvFileContents = csv_records (split_lines csvFileContents)"

section \<open>Items\<close>

text \<open>The object of a row. A column without a key in the first row goes to the property \<open>undefined\<close>.\<close>

definition row_item :: "string list \<Rightarrow> string list \<Rightarrow> (string \<times> string) list" where
  "row_item arrayOfKeys row =
     foldl (\<lambda>item j. AList.update (if j < length arrayOfKeys then arrayOfKeys ! j else ''undefined'') (row ! j) item) [] [0..<length row]"

definition getArrayOfObjects :: "string list list \<Rightarrow> (string \<times> string) list list" where
  "getArrayOfObjects arrayOfArrays =
     (case arrayOfArrays of [] \<Rightarrow> [] | arrayOfKeys # rows \<Rightarrow> map (row_item arrayOfKeys) rows)"

text \<open>The identity of an item is its index.\<close>

definition getRemoteStoreData :: "(string \<times> string) list list \<Rightarrow> (string \<times> (string \<times> string remote_value list) list) list" where
  "getRemoteStoreData arrayOfObjects =
     map (\<lambda>i. (to_dec i, map (\<lambda>(key, v). (key, [Plain v])) (arrayOfObjects ! i))) [0..<length arrayOfObjects]"

definition type_mismatch :: js_error where
  "type_mismatch = Raised (''An assert statement failed.'' @ [ch_n] @ ''The method dojo.lang.assert() was called with a '' @ [squote] @ ''false''
     @ [squote] @ '' value.'' @ [ch_n] @ ''Here'' @ [squote] @ ''s the assert message:'' @ [ch_n] @ ''Type mismatch: dojo.lang.assertType() failed.'' @ [ch_n])"

definition resultToQueryData :: "string \<Rightarrow> (string \<times> (string \<times> string remote_value list) list) list result" where
  "resultToQueryData serverResponseData =
     (case getArrayOfArrays serverResponseData of
        None \<Rightarrow> Inl type_mismatch
      | Some arrayOfArrays \<Rightarrow> Inr (getRemoteStoreData (getArrayOfObjects arrayOfArrays)))"

text \<open>The handler of the answer to a query.\<close>

definition csv_find_loaded :: "string \<Rightarrow> string \<Rightarrow> string remote_store \<Rightarrow> string remote_store result" where
  "csv_find_loaded query serverResponseData s =
     rbind (resultToQueryData serverResponseData) (\<lambda>dataDict. Inr (find_loaded Map.empty query dataDict s))"

definition csv_query_url :: "string \<Rightarrow> string \<Rightarrow> string" where
  "csv_query_url serverQueryUrl query = serverQueryUrl @ query"

text \<open>The methods that are not implemented.\<close>

definition csv_unimplemented :: "string \<Rightarrow> js_error" where
  "csv_unimplemented m = Raised ([squote] @ ''dojo.data.CsvStore.'' @ m @ [squote] @ '' not implemented'')"

section \<open>Writing a table\<close>

text \<open>
  How a table is written: a field that needs it is put in quotation marks, with its own quotation marks doubled.
\<close>

definition csv_plain :: "string \<Rightarrow> bool" where
  "csv_plain v \<longleftrightarrow> CHR '','' \<notin> set v \<and> (v \<noteq> [] \<longrightarrow> hd v \<noteq> dquote \<and> \<not> is_space (hd v) \<and> \<not> is_space (last v))"

definition doubled :: "string \<Rightarrow> string" where
  "doubled v = replace_all dquote [dquote, dquote] v"

definition csv_field :: "string \<Rightarrow> string" where
  "csv_field v = (if csv_plain v then v else dquote # doubled v @ [dquote])"

definition csv_text :: "string list list \<Rightarrow> string" where
  "csv_text rows = join_with [ch_n] (map (\<lambda>row. join_with '','' (map csv_field row)) rows)"

text \<open>
  The fields for which the reader of the store is right. Where a quoted field has a comma, the part before the comma must not be
  blank and must not end in two quotation marks, nor consist of one.
\<close>

definition cut_ok :: "string \<Rightarrow> bool" where
  "cut_ok t \<longleftrightarrow> t \<noteq> [] \<and> (last t \<noteq> dquote \<or> 2 \<le> length t \<and> t ! (length t - 2) \<noteq> dquote)"

definition field_ok :: "string \<Rightarrow> bool" where
  "field_ok v \<longleftrightarrow> ch_n \<notin> set v \<and> ch_r \<notin> set v \<and> list_all (\<lambda>i. v ! i = CHR '','' \<longrightarrow> cut_ok (rtrim (take i v))) [0..<length v]"

definition row_ok :: "string list \<Rightarrow> bool" where
  "row_ok row \<longleftrightarrow> row \<noteq> [] \<and> row \<noteq> [[]] \<and> list_all field_ok row"

end
