(* ===== verification/Csv_Proofs.thy ===== *)
theory Csv_Proofs
  imports Csv_Store Json
begin

text \<open>
  Properties of the store of comma-separated values: reading what was written, and the values that a query makes visible.
\<close>

section \<open>Quotation marks\<close>

lemma not_space_dquote [simp]: "\<not> is_space dquote"
  by (simp add: is_space_def dquote_def)

lemma doubled_simps [simp]:
  "doubled [] = []" "doubled (c # v) = (if c = dquote then dquote # dquote # doubled v else c # doubled v)"
  "doubled (v @ w) = doubled v @ doubled w"
  by (simp_all add: doubled_def replace_all_def)

lemma single_quotes_doubled: "single_quotes (doubled v) = v"
proof (induction v)
  case (Cons c v)
  have "c \<noteq> dquote \<Longrightarrow> single_quotes (c # doubled v) = c # single_quotes (doubled v)"
    by (cases "doubled v") simp_all
  then show ?case using Cons by simp
qed simp

lemma set_doubled: "set (doubled v) = set v"
  by (induction v) auto

lemma rtrim_snoc: "rtrim (s @ [c]) = (if is_space c then rtrim s else s @ [c])"
  by (simp add: rtrim_def)

lemma rtrim_Nil [simp]: "rtrim [] = []"
  by (simp add: rtrim_def)

lemma rtrim_doubled: "rtrim (dquote # doubled v) = dquote # doubled (rtrim v)"
proof (induction v rule: rev_induct)
  case (snoc c v)
  show ?case
  proof (cases "is_space c")
    case True
    then have "c \<noteq> dquote" by auto
    then have "dquote # doubled (v @ [c]) = (dquote # doubled v) @ [c]" by simp
    then show ?thesis using True snoc by (simp only: rtrim_snoc if_True)
  next
    case False
    then show ?thesis
      using rtrim_snoc [of "dquote # doubled v @ [dquote]" dquote] rtrim_snoc [of "dquote # doubled v" c] by (auto simp: rtrim_snoc)
  qed
qed (simp add: rtrim_def)

lemma ltrim_dquote [simp]: "ltrim (dquote # s) = dquote # s"
  by (simp add: ltrim_def)

lemma from_end_simps [simp]:
  "from_end (s @ [c]) 1 = [c]" "from_end (s @ [c]) (Suc 0) = [c]" "from_end (s @ [c, d]) 2 = [c]" "from_end (s @ [c, d, e]) 3 = [c]"
  by (simp_all add: from_end_def nth_append numeral_2_eq_2 numeral_3_eq_3)

lemma char_at_0 [simp]: "char_at (c # s) 0 = [c]" "char_at [] 0 = []"
  by (simp_all add: char_at_def)

text \<open>A part of a quoted field, cut at one of its commas, goes on; a whole quoted field does not.\<close>

lemma goes_on_cut:
  assumes "cut_ok t"
  shows "goes_on (dquote # doubled t)"
proof (cases "last t = dquote")
  case False
  then obtain u c where "t = u @ [c]" "c \<noteq> dquote" using assms by (cases t rule: rev_cases) (auto simp: cut_ok_def)
  then show ?thesis using from_end_simps(1) [of "dquote # doubled u" c] by (simp add: goes_on_def)
next
  case True
  with assms have "2 \<le> length t" "t ! (length t - 2) \<noteq> dquote" "t \<noteq> []" by (auto simp: cut_ok_def)
  then obtain u c where t: "t = u @ [c, dquote]" and c: "c \<noteq> dquote"
    using True by (cases t rule: rev_cases; cases "butlast t" rule: rev_cases) (auto simp: nth_append)
  then have "dquote # doubled t = (dquote # doubled u) @ [c, dquote, dquote]" by simp
  then show ?thesis
    using c from_end_simps(1) [of "dquote # doubled u @ [c, dquote]" dquote] from_end_simps(3) [of "dquote # doubled u @ [c]" dquote dquote]
      from_end_simps(4) [of "dquote # doubled u" c dquote dquote]
    by (simp add: goes_on_def)
qed

lemma whole_field:
  assumes "v \<noteq> []"
  shows "\<not> goes_on (dquote # doubled v @ [dquote])" "unquote (dquote # doubled v @ [dquote]) = v"
proof -
  have last: "from_end (dquote # doubled v @ [dquote]) 1 = [dquote]" using from_end_simps(1) [of "dquote # doubled v" dquote] by simp
  obtain u c where v: "v = u @ [c]" using assms by (cases v rule: rev_cases) auto
  show "\<not> goes_on (dquote # doubled v @ [dquote])"
  proof (cases "c = dquote")
    case True
    then have "dquote # doubled v @ [dquote] = (dquote # doubled u) @ [dquote, dquote, dquote]" using v by simp
    then have "from_end (dquote # doubled v @ [dquote]) 3 = [dquote]" by (simp only: from_end_simps)
    then show ?thesis using last by (simp add: goes_on_def)
  next
    case False
    then have "dquote # doubled v @ [dquote] = (dquote # doubled u) @ [c, dquote]" using v by simp
    then have "from_end (dquote # doubled v @ [dquote]) 2 = [c]" by (simp only: from_end_simps)
    then show ?thesis using last False by (simp add: goes_on_def)
  qed
  show "unquote (dquote # doubled v @ [dquote]) = v" using last by (simp add: unquote_def substring_def single_quotes_doubled)
qed

section \<open>Fields, lines and texts\<close>

lemma split_on_append_sep: "split_on d (a @ d # b) = split_on d a @ split_on d b"
  by (induction a) (auto split: list.split)

lemma split_on_cons: "split_on d s = w # ws \<Longrightarrow> split_on d (c # s) = (if c = d then [] # w # ws else (c # w) # ws)"
  by simp

lemma first_comma: "CHR '','' \<in> set v \<Longrightarrow> \<exists>x y. v = x @ CHR '','' # y \<and> CHR '','' \<notin> set x"
  using split_list_first by metis

lemma merge_quoted:
  assumes "v = v1 @ v2" "v \<noteq> []" "field_ok v"
  shows "merge_fields ((dquote # doubled v1 @ hd (split_on CHR '','' (doubled v2 @ [dquote]))) # tl (split_on CHR '','' (doubled v2 @ [dquote])) @ R)
    = map_option (\<lambda>r. v # r) (merge_fields R)"
  using assms
proof (induction "length v2" arbitrary: v1 v2 rule: less_induct)
  case less
  show ?case
  proof (cases "CHR '','' \<in> set v2")
    case False
    then have "CHR '','' \<notin> set (doubled v2 @ [dquote])" by (simp add: set_doubled dquote_def)
    then have split: "split_on CHR '','' (doubled v2 @ [dquote]) = [doubled v2 @ [dquote]]" by (rule split_on_none)
    have "rtrim (dquote # doubled v @ [dquote]) = dquote # doubled v @ [dquote]"
      using rtrim_snoc [of "dquote # doubled v" dquote] by simp
    then show ?thesis using whole_field [OF less(3)] less(2) by (simp add: merge_fields.simps(2) split Let_def)
  next
    case True
    then obtain x y where v2: "v2 = x @ CHR '','' # y" and x: "CHR '','' \<notin> set x" using first_comma by blast
    have "CHR '','' \<noteq> dquote" by (simp add: dquote_def)
    then have "doubled v2 @ [dquote] = doubled x @ CHR '','' # (doubled y @ [dquote])" using v2 by simp
    then have split: "split_on CHR '','' (doubled v2 @ [dquote]) = doubled x # split_on CHR '','' (doubled y @ [dquote])"
      using x by (simp add: split_on_append_sep split_on_none set_doubled)
    obtain p ps where p: "split_on CHR '','' (doubled y @ [dquote]) = p # ps" by (cases "split_on CHR '','' (doubled y @ [dquote])") auto
    have "take (length (v1 @ x)) v = v1 @ x" "length (v1 @ x) < length v" "v ! length (v1 @ x) = CHR '',''"
      using less(2) v2 by (simp_all add: nth_append)
    then have "cut_ok (rtrim (v1 @ x))" using less(4) by (auto simp: field_ok_def list_all_iff)
    then have "goes_on (rtrim (dquote # doubled (v1 @ x)))" using goes_on_cut by (simp only: rtrim_doubled)
    then have "merge_fields ((dquote # doubled v1 @ doubled x) # (p # ps) @ R)
        = merge_fields (((dquote # doubled v1 @ doubled x) @ '','' @ p) # ps @ R)"
      by (simp add: merge_fields.simps(2) Let_def)
    also have "(dquote # doubled v1 @ doubled x) @ '','' @ p = dquote # doubled (v1 @ x @ '','') @ p" using \<open>CHR '','' \<noteq> dquote\<close> by simp
    also have "merge_fields ((dquote # doubled (v1 @ x @ '','') @ p) # ps @ R) = map_option (\<lambda>r. v # r) (merge_fields R)"
      using less(1) [of y "v1 @ x @ '',''"] less(2-4) v2 unfolding p list.sel by simp
    finally show ?thesis unfolding split p by simp
  qed
qed

lemma merge_field:
  assumes "field_ok v"
  shows "merge_fields (split_on CHR '','' (csv_field v) @ R) = map_option (\<lambda>r. v # r) (merge_fields R)"
proof (cases "csv_plain v")
  case True
  then have "split_on CHR '','' (csv_field v) = [v]" by (simp add: csv_field_def csv_plain_def split_on_none)
  moreover have "ltrim v = v" using True by (cases v) (simp_all add: ltrim_def csv_plain_def)
  moreover have "rtrim v = v" using True by (cases v rule: rev_cases) (simp_all add: rtrim_def csv_plain_def)
  moreover have "\<not> goes_on v" "unquote v = v" using True by (cases v; auto simp: goes_on_def unquote_def csv_plain_def)+
  ultimately show ?thesis by (simp add: merge_fields.simps(2))
next
  case False
  then have "v \<noteq> []" by (auto simp: csv_plain_def)
  moreover have "split_on CHR '','' (dquote # s) = (dquote # hd (split_on CHR '','' s)) # tl (split_on CHR '','' s)" for s
    by (cases "split_on CHR '','' s") (simp_all add: dquote_def)
  ultimately show ?thesis using merge_quoted [of v "[]" v R] False assms by (simp add: csv_field_def)
qed

lemma split_line: "split_on CHR '','' (join_with '','' ws) = (if ws = [] then [[]] else concat (map (split_on CHR '','') ws))"
  by (induction "'',''" ws rule: join_with.induct) (auto simp: split_on_append_sep)

lemma merge_row:
  assumes "list_all field_ok row"
  shows "merge_fields (concat (map (\<lambda>v. split_on CHR '','' (csv_field v)) row) @ R) = map_option (\<lambda>r. row @ r) (merge_fields R)"
  using assms by (induction row) (cases "merge_fields R", simp_all add: merge_field)+

lemma record_row:
  assumes "row_ok row"
  shows "merge_fields (split_on CHR '','' (join_with '','' (map csv_field row)) @ R) = map_option (\<lambda>r. row @ r) (merge_fields R)"
  using assms merge_row [of row] by (simp add: row_ok_def split_line comp_def)

lemma csv_field_empty: "csv_field v = [] \<longleftrightarrow> v = []"
  by (auto simp: csv_field_def csv_plain_def)

lemma line_nonempty: "row_ok row \<Longrightarrow> join_with '','' (map csv_field row) \<noteq> []"
  by (cases row; cases "tl row") (auto simp: row_ok_def csv_field_empty)

lemma set_join_with: "set (join_with d ws) \<subseteq> set d \<union> \<Union> (set ` set ws)"
  by (induction d ws rule: join_with.induct) auto

lemma set_csv_field: "set (csv_field v) \<subseteq> insert dquote (set v)"
  by (auto simp: csv_field_def set_doubled)

lemma line_one:
  assumes "row_ok row" "c = ch_n \<or> c = ch_r"
  shows "c \<notin> set (join_with '','' (map csv_field row))"
proof
  assume "c \<in> set (join_with '','' (map csv_field row))"
  then consider "c = CHR '',''" | v where "v \<in> set row" "c \<in> set (csv_field v)" using set_join_with by fastforce
  then show False
  proof cases
    case 1
    then show False using assms by (auto simp: ch_n_def ch_r_def)
  next
    case 2
    then have "field_ok v" "c \<in> insert dquote (set v)" using assms(1) set_csv_field by (auto simp: row_ok_def list_all_iff)
    then show False using assms(2) by (auto simp: field_ok_def ch_n_def ch_r_def dquote_def)
  qed
qed

lemma split_lines_one: "ch_n \<notin> set l \<Longrightarrow> ch_r \<notin> set l \<Longrightarrow> split_lines l = [l]"
  by (induction l) auto

lemma split_lines_append: "ch_n \<notin> set l \<Longrightarrow> ch_r \<notin> set l \<Longrightarrow> split_lines (l @ ch_n # t) = l # split_lines t"
  by (induction l) (auto simp: ch_n_def ch_r_def)

lemma split_lines_join:
  assumes "ls \<noteq> []" "\<forall>l \<in> set ls. ch_n \<notin> set l \<and> ch_r \<notin> set l"
  shows "split_lines (join_with [ch_n] ls) = ls"
  using assms by (induction "[ch_n]" ls rule: join_with.induct) (auto simp: split_lines_one split_lines_append)

lemma csv_records_rows:
  assumes "list_all row_ok rows"
  shows "csv_records (map (\<lambda>row. join_with '','' (map csv_field row)) rows) = Some rows"
  using assms by (induction rows) (auto simp: line_nonempty record_row [of _ "[]", simplified])

lemma csv_read:
  assumes "rows \<noteq> []" "list_all row_ok rows"
  shows "getArrayOfArrays (csv_text rows) = Some rows"
proof -
  have "split_lines (csv_text rows) = map (\<lambda>row. join_with '','' (map csv_field row)) rows"
    unfolding csv_text_def using assms line_one by (intro split_lines_join) (auto simp: list_all_iff)
  then show ?thesis using assms(2) by (simp add: getArrayOfArrays_def csv_records_rows)
qed

text \<open>
  Claim C11. A table whose fields have no line breaks, and whose commas do not stand right after a double quotation mark or at the start of
  a field, is read back from its text as it was: fields with commas, quotation marks and spaces at their ends are quoted, cut at every
  comma, put together again and unquoted.
\<close>

theorem csv_roundtrip:
  assumes "rows \<noteq> []" "list_all row_ok rows"
  shows "getArrayOfArrays (csv_text rows) = Some rows"
  using csv_read assms .

theorem csv_roundtrip_witness:
  "getArrayOfArrays (csv_text [[''Title'', ''Year''], [''Good, Bad, Ugly '', ''1966'']])
     = Some [[''Title'', ''Year''], [''Good, Bad, Ugly '', ''1966'']]"
  by (rule csv_roundtrip) (simp, simp add: row_ok_def field_ok_def cut_ok_def rtrim_def is_space_def ch_n_def ch_r_def dquote_def upt_rec)

section \<open>A query\<close>









section \<open>An empty field in quotation marks\<close>

lemma join_with_snoc: "join_with d (ws @ [w]) @ t = join_with d (ws @ [w @ t])"
  by (induction d ws rule: join_with.induct) simp_all

lemma csv_records_bad:
  assumes "list_all row_ok rows" "l \<noteq> []" "merge_fields (split_on CHR '','' l) = None"
  shows "csv_records (map (\<lambda>row. join_with '','' (map csv_field row)) rows @ [l]) = None"
  using assms by (induction rows) (auto simp: record_row [of _ "[]", simplified])

lemma merge_empty_quoted: "merge_fields [[dquote, dquote]] = None"
  by (simp add: merge_fields.simps(2) rtrim_def goes_on_def from_end_def)

text \<open>
  An empty field in quotation marks, which is how many programs write an empty field, is taken for the start of a longer field:
  at the end of the last line of an otherwise good text it makes the whole text unreadable, and the query fails with a type mismatch.
\<close>

theorem csv_empty_quoted_fails:
  assumes "list_all row_ok (rows @ [row])"
  shows "csv_find_loaded query (csv_text (rows @ [row]) @ '','' @ [dquote, dquote]) s = Inl type_mismatch"
proof -
  let ?line = "\<lambda>row. join_with '','' (map csv_field row)"
  let ?l = "?line row @ '','' @ [dquote, dquote]"
  have ok: "list_all row_ok rows" "row_ok row" using assms by simp_all
  have "csv_text (rows @ [row]) @ '','' @ [dquote, dquote] = join_with [ch_n] (map ?line rows @ [?l])"
    by (simp add: csv_text_def join_with_snoc)
  moreover have "split_lines (join_with [ch_n] (map ?line rows @ [?l])) = map ?line rows @ [?l]"
    using ok line_one by (intro split_lines_join) (auto simp: list_all_iff ch_n_def ch_r_def dquote_def)
  moreover have "split_on CHR '','' [dquote, dquote] = [[dquote, dquote]]" by (simp add: dquote_def)
  then have "merge_fields (split_on CHR '','' ?l) = None"
    using split_on_append_sep [of "CHR '',''" "?line row" "[dquote, dquote]"] record_row [OF ok(2), of "[[dquote, dquote]]"]
    by (simp add: merge_empty_quoted)
  then have "csv_records (map ?line rows @ [?l]) = None" using csv_records_bad [OF ok(1)] by simp
  ultimately show ?thesis by (simp add: csv_find_loaded_def resultToQueryData_def getArrayOfArrays_def)
qed

theorem csv_empty_quoted_fails_witness:
  "csv_find_loaded ''films.csv'' (csv_text ([[''Title'', ''Year'']] @ [[''Alien'']]) @ '','' @ [dquote, dquote]) remote_init = Inl type_mismatch"
  by (rule csv_empty_quoted_fails) (simp add: row_ok_def field_ok_def ch_n_def ch_r_def upt_rec)

end
