(* ===== verification/Uri.thy ===== *)
theory Uri
  imports Loader
begin

text \<open>
  \<open>src/uri/Uri.js\<close>: objects for URIs, taken apart by two regular expressions and resolved relative to each other. A regular expression is
  modelled by the list of its matches in the order in which the language tries them: the first one counts.
\<close>

section \<open>Regular expressions\<close>

text \<open>\<open>[...]*\<close> and \<open>[...]+\<close>, longest match first: the matched text and the rest.\<close>

definition greedy :: "(char \<Rightarrow> bool) \<Rightarrow> string \<Rightarrow> (string \<times> string) list" where
  "greedy P s = map (\<lambda>k. (take k s, drop k s)) (rev [0..<Suc (length (takeWhile P s))])"

definition greedy1 :: "(char \<Rightarrow> bool) \<Rightarrow> string \<Rightarrow> (string \<times> string) list" where
  "greedy1 P s = map (\<lambda>k. (take k s, drop k s)) (rev [1..<Suc (length (takeWhile P s))])"

definition lit :: "char \<Rightarrow> string \<Rightarrow> string list" where
  "lit c s = (case s of [] \<Rightarrow> [] | d # t \<Rightarrow> if d = c then [t] else [])"

text \<open>\<open>(...)?\<close>, present first.\<close>

definition optional :: "(string \<Rightarrow> ('a \<times> string) list) \<Rightarrow> string \<Rightarrow> ('a option \<times> string) list" where
  "optional m s = map (\<lambda>(x, t). (Some x, t)) (m s) @ [(None, s)]"

definition scheme_group :: "string \<Rightarrow> (string \<times> string) list" where
  "scheme_group s = [(x, u). (x, t) \<leftarrow> greedy1 (\<lambda>c. c \<notin> set '':/?#'') s, u \<leftarrow> lit CHR '':'' t]"

definition authority_group :: "string \<Rightarrow> (string \<times> string) list" where
  "authority_group s = [r. t \<leftarrow> lit CHR ''/'' s, u \<leftarrow> lit CHR ''/'' t, r \<leftarrow> greedy (\<lambda>c. c \<notin> set ''/?#'') u]"

definition query_group :: "string \<Rightarrow> (string \<times> string) list" where
  "query_group s = [r. t \<leftarrow> lit CHR ''?'' s, r \<leftarrow> greedy (\<lambda>c. c \<noteq> CHR ''#'') t]"

text \<open>\<open>.\<close> does not match the end of a line.\<close>

definition no_line_end :: "char \<Rightarrow> bool" where
  "no_line_end c \<longleftrightarrow> c \<noteq> CHR 0x0A \<and> c \<noteq> CHR 0x0D"

definition fragment_group :: "string \<Rightarrow> (string \<times> string) list" where
  "fragment_group s = [r. t \<leftarrow> lit CHR ''#'' s, r \<leftarrow> greedy no_line_end t]"

type_synonym uri_parts = "string option \<times> string option \<times> string \<times> string option \<times> string option"

definition uri_regexp :: "string \<Rightarrow> uri_parts list" where
  "uri_regexp s =
     [(sch, auth, path, query, frag).
        (sch, s1) \<leftarrow> optional scheme_group s,
        (auth, s2) \<leftarrow> optional authority_group s1,
        (path, s3) \<leftarrow> greedy (\<lambda>c. c \<notin> set ''?#'') s2,
        (query, s4) \<leftarrow> optional query_group s3,
        (frag, s5) \<leftarrow> optional fragment_group s4,
        s5 = []]"

text \<open>The group for the user keeps its colon.\<close>

definition user_group :: "string \<Rightarrow> (string \<times> string) list" where
  "user_group s = [(x @ '':'', u). (x, t) \<leftarrow> greedy1 (\<lambda>c. c \<noteq> CHR '':'') s, u \<leftarrow> lit CHR '':'' t]"

definition login_group :: "string \<Rightarrow> ((string option \<times> string) \<times> string) list" where
  "login_group s =
     [((user, password), v). (user, t) \<leftarrow> optional user_group s, (password, u) \<leftarrow> greedy1 (\<lambda>c. c \<noteq> CHR ''@'') t, v \<leftarrow> lit CHR ''@'' u]"

definition decimal :: "char \<Rightarrow> bool" where
  "decimal c \<longleftrightarrow> c \<in> set ''0123456789''"

definition port_group :: "string \<Rightarrow> (string \<times> string) list" where
  "port_group s = [r. t \<leftarrow> lit CHR '':'' s, r \<leftarrow> greedy1 decimal t]"

definition server_regexp :: "string \<Rightarrow> ((string option \<times> string) option \<times> string \<times> string option) list" where
  "server_regexp s =
     [(login, host, port).
        (login, s1) \<leftarrow> optional login_group s,
        (host, s2) \<leftarrow> greedy (\<lambda>c. c \<noteq> CHR '':'') s1,
        (port, s3) \<leftarrow> optional port_group s2,
        s3 = []]"

section \<open>Objects\<close>

record uri =
  u_uri :: string
  u_scheme :: "string option"
  u_authority :: "string option"
  u_path :: string
  u_query :: "string option"
  u_fragment :: "string option"
  u_user :: "string option"
  u_password :: "string option"
  u_host :: "string option"
  u_port :: "string option"

text \<open>The second half of the constructor. A text that does not match raises when the groups are read.\<close>

definition uri_split :: "string \<Rightarrow> uri result" where
  "uri_split s =
     (case uri_regexp s of
        [] \<Rightarrow> Inl TypeError
      | (sch, auth, path, query, frag) # _ \<Rightarrow>
          let u = \<lparr>u_uri = s, u_scheme = sch, u_authority = auth, u_path = path, u_query = query, u_fragment = frag,
                u_user = None, u_password = None, u_host = None, u_port = None\<rparr>
          in (case auth of
                None \<Rightarrow> Inr u
              | Some a \<Rightarrow>
                  (case server_regexp a of
                     [] \<Rightarrow> Inl TypeError
                   | (login, host, port) # _ \<Rightarrow>
                       Inr (u\<lparr>u_user := (case login of None \<Rightarrow> None | Some l \<Rightarrow> fst l), u_password := map_option snd login,
                         u_host := Some host, u_port := port\<rparr>))))"

section \<open>Resolving\<close>

text \<open>The loop over the segments of a path.\<close>

function segs_loop :: "string list \<Rightarrow> nat \<Rightarrow> string list" where
  "segs_loop segs j =
     (if j < length segs
      then if segs ! j = ''.''
           then if j = length segs - 1 then segs_loop (segs[j := []]) (j + 1)
                else segs_loop (take j segs @ drop (j + 1) segs) j
           else if j > 0 \<and> \<not> (j = 1 \<and> segs ! 0 = []) \<and> segs ! j = ''..'' \<and> segs ! (j - 1) \<noteq> ''..''
           then if j = length segs - 1 then segs_loop ((take j segs)[j - 1 := []]) (j + 1)
                else segs_loop (take (j - 1) segs @ drop (j + 1) segs) (j - 1)
           else segs_loop segs (j + 1)
      else segs)"
  by pat_completeness auto
termination
  by (relation "measure (\<lambda>(segs, j). length segs - j)") auto

declare segs_loop.simps [simp del]

text \<open>\<open>substring(0, lastIndexOf("/") + 1)\<close>.\<close>

definition base_dir :: "string \<Rightarrow> string" where
  "base_dir path = rev (dropWhile (\<lambda>c. c \<noteq> CHR ''/'') (rev path))"

definition merge_path :: "string \<Rightarrow> string \<Rightarrow> string" where
  "merge_path base rel = join_with ''/'' (segs_loop (split_on CHR ''/'' (base_dir base @ rel)) 0)"

definition relative_to :: "uri \<Rightarrow> uri \<Rightarrow> uri" where
  "relative_to uriobj relobj =
     (if u_path relobj = [] \<and> u_scheme relobj = None \<and> u_authority relobj = None \<and> u_query relobj = None
      then if u_fragment relobj \<noteq> None then uriobj\<lparr>u_fragment := u_fragment relobj\<rparr> else uriobj
      else if u_scheme relobj = None
      then let relobj = relobj\<lparr>u_scheme := u_scheme uriobj\<rparr>
           in if u_authority relobj = None
              then let relobj = relobj\<lparr>u_authority := u_authority uriobj\<rparr>
                   in if char_at (u_path relobj) 0 \<noteq> ''/''
                      then relobj\<lparr>u_path := merge_path (u_path uriobj) (u_path relobj)\<rparr>
                      else relobj
              else relobj
      else relobj)"

definition uri_text :: "uri \<Rightarrow> string" where
  "uri_text u =
     (case u_scheme u of Some x \<Rightarrow> x @ '':'' | None \<Rightarrow> [])
     @ (case u_authority u of Some a \<Rightarrow> ''//'' @ a | None \<Rightarrow> [])
     @ u_path u
     @ (case u_query u of Some q \<Rightarrow> ''?'' @ q | None \<Rightarrow> [])
     @ (case u_fragment u of Some f \<Rightarrow> ''#'' @ f | None \<Rightarrow> [])"

text \<open>One step of the loop over the arguments, of which the empty ones are skipped, and the constructor.\<close>

definition uri_step :: "string result \<Rightarrow> string option \<Rightarrow> string result" where
  "uri_step uri arg =
     rbind uri (\<lambda>uri.
       case arg of
         None \<Rightarrow> Inr uri
       | Some a \<Rightarrow>
           if a = [] then Inr uri
           else rbind (uri_split a) (\<lambda>relobj. rbind (uri_split uri) (\<lambda>uriobj. Inr (uri_text (relative_to uriobj relobj)))))"

definition Uri :: "string \<Rightarrow> string option list \<Rightarrow> uri result" where
  "Uri uri args = rbind (foldl uri_step (Inr uri) args) uri_split"

text \<open>The base of the scripts is a property of the host. For a module, \<open>null\<close> is the result when its path is empty.\<close>

definition dojoUri :: "config \<Rightarrow> string option \<Rightarrow> uri result" where
  "dojoUri cfg uri = Uri (baseScriptUri cfg) [uri]"

definition moduleUri :: "config \<Rightarrow> hostenv \<Rightarrow> string \<Rightarrow> string option \<Rightarrow> uri option result" where
  "moduleUri cfg h module uri =
     (let loc = join_with ''/'' (getModuleSymbols module h)
      in if loc = [] then Inr None
         else let loc = (if last loc \<noteq> CHR ''/'' then loc @ ''/'' else loc)
              in rbind (Uri (baseScriptUri cfg @ loc) [uri]) (\<lambda>u. Inr (Some u)))"

end
