(* ===== verification/Uri_Proofs.thy ===== *)
theory Uri_Proofs
  imports Uri
begin

text \<open>
  Properties of URIs: taking apart and putting together are inverse to each other, and resolving a reference follows RFC 2396.
\<close>

section \<open>Matches\<close>

text \<open>The first match.\<close>

definition starts :: "'a list \<Rightarrow> 'a \<Rightarrow> bool" where
  "starts xs x \<longleftrightarrow> (\<exists>ys. xs = x # ys)"

lemma starts_bind: "starts xs x \<Longrightarrow> starts (f x) y \<Longrightarrow> starts (concat (map f xs)) y"
  by (auto simp: starts_def)

lemma starts_one [simp]: "starts (x # xs) x"
  by (simp add: starts_def)

lemma starts_optional_Some: "starts (m s) (x, t) \<Longrightarrow> starts (optional m s) (Some x, t)"
  by (auto simp: starts_def optional_def)

lemma starts_optional_None: "m s = [] \<Longrightarrow> starts (optional m s) (None, s)"
  by (simp add: starts_def optional_def)

lemma set_optional: "(x, t) \<in> set (optional m s) \<longleftrightarrow> (case x of Some y \<Rightarrow> (y, t) \<in> set (m s) | None \<Rightarrow> t = s)"
  by (cases x) (auto simp: optional_def)

lemma take_class:
  assumes "k \<le> length (takeWhile P s)"
  shows "list_all P (take k s)"
proof -
  have "take k s = take k (takeWhile P s)" using assms by (metis takeWhile_eq_take take_take min.absorb1)
  then show ?thesis by (auto simp: list_all_iff dest: in_set_takeD set_takeWhileD)
qed

lemma greedy_sound: "(x, t) \<in> set (greedy P s) \<Longrightarrow> s = x @ t \<and> list_all P x"
  by (auto simp: greedy_def intro!: take_class)

lemma greedy1_sound: "(x, t) \<in> set (greedy1 P s) \<Longrightarrow> s = x @ t \<and> list_all P x \<and> x \<noteq> []"
  by (auto simp: greedy1_def intro!: take_class)

lemma set_lit: "t \<in> set (lit c s) \<longleftrightarrow> s = c # t"
  by (auto simp: lit_def split: list.splits)

lemma lit_simps [simp]: "lit c (c # s) = [s]" "lit c [] = []" "d \<noteq> c \<Longrightarrow> lit c (d # s) = []"
  by (simp_all add: lit_def)

text \<open>The rest does not go on with a character of the class.\<close>

definition stops :: "(char \<Rightarrow> bool) \<Rightarrow> string \<Rightarrow> bool" where
  "stops P t \<longleftrightarrow> t = [] \<or> \<not> P (hd t)"

lemma stops_simps [simp]: "stops P []" "stops P (c # t) \<longleftrightarrow> \<not> P c"
  by (simp_all add: stops_def)

lemma takeWhile_stops: "list_all P x \<Longrightarrow> stops P t \<Longrightarrow> takeWhile P (x @ t) = x"
  by (cases t) (auto simp: list_all_iff stops_def takeWhile_eq_all_conv)

lemma starts_greedy: "list_all P x \<Longrightarrow> stops P t \<Longrightarrow> starts (greedy P (x @ t)) (x, t)"
  by (simp add: greedy_def takeWhile_stops)

lemma starts_greedy1: "list_all P x \<Longrightarrow> stops P t \<Longrightarrow> x \<noteq> [] \<Longrightarrow> starts (greedy1 P (x @ t)) (x, t)"
  by (simp add: greedy1_def takeWhile_stops Suc_leI)

section \<open>Parts of a URI\<close>

definition parts :: "uri \<Rightarrow> uri_parts" where
  "parts u = (u_scheme u, u_authority u, u_path u, u_query u, u_fragment u)"

definition parts_text :: "uri_parts \<Rightarrow> string" where
  "parts_text p =
     (case p of (sch, auth, path, query, frag) \<Rightarrow>
        (case sch of Some x \<Rightarrow> x @ '':'' | None \<Rightarrow> [])
        @ (case auth of Some a \<Rightarrow> ''//'' @ a | None \<Rightarrow> [])
        @ path
        @ (case query of Some q \<Rightarrow> ''?'' @ q | None \<Rightarrow> [])
        @ (case frag of Some f \<Rightarrow> ''#'' @ f | None \<Rightarrow> []))"

lemma uri_text_parts: "uri_text u = parts_text (parts u)"
  by (simp add: uri_text_def parts_text_def parts_def)

text \<open>The characters that a part may have.\<close>

definition opt_all :: "(char \<Rightarrow> bool) \<Rightarrow> string option \<Rightarrow> bool" where
  "opt_all P x = (case x of None \<Rightarrow> True | Some s \<Rightarrow> list_all P s)"

lemma opt_all_simps [simp]: "opt_all P None" "opt_all P (Some s) = list_all P s"
  by (simp_all add: opt_all_def)

definition parts_chars :: "uri_parts \<Rightarrow> bool" where
  "parts_chars p =
     (case p of (sch, auth, path, query, frag) \<Rightarrow>
        sch \<noteq> Some [] \<and> opt_all (\<lambda>c. c \<notin> set '':/?#'') sch \<and> opt_all (\<lambda>c. c \<notin> set ''/?#'') auth
        \<and> list_all (\<lambda>c. c \<notin> set ''?#'') path \<and> opt_all (\<lambda>c. c \<noteq> CHR ''#'') query \<and> opt_all no_line_end frag)"

text \<open>
  The parts that can be told apart in a text: without a scheme the path must not look as if it had one, without an authority it must not
  start with two slashes, and after an authority it must be empty or start with a slash.
\<close>

definition parts_clear :: "uri_parts \<Rightarrow> bool" where
  "parts_clear p =
     (case p of (sch, auth, path, query, frag) \<Rightarrow>
        (sch = None \<and> auth = None \<longrightarrow> CHR '':'' \<notin> set (takeWhile (\<lambda>c. c \<noteq> CHR ''/'') path))
        \<and> (auth = None \<longrightarrow> take 2 path \<noteq> ''//'')
        \<and> (auth \<noteq> None \<longrightarrow> path = [] \<or> hd path = CHR ''/''))"

lemma scheme_group_sound: "(x, t) \<in> set (scheme_group s) \<Longrightarrow> s = x @ '':'' @ t \<and> x \<noteq> [] \<and> list_all (\<lambda>c. c \<notin> set '':/?#'') x"
  unfolding scheme_group_def by (auto simp: set_lit dest!: greedy1_sound)

lemma authority_group_sound: "(x, t) \<in> set (authority_group s) \<Longrightarrow> s = ''//'' @ x @ t \<and> list_all (\<lambda>c. c \<notin> set ''/?#'') x"
  unfolding authority_group_def by (auto simp: set_lit dest!: greedy_sound)

lemma query_group_sound: "(x, t) \<in> set (query_group s) \<Longrightarrow> s = ''?'' @ x @ t \<and> list_all (\<lambda>c. c \<noteq> CHR ''#'') x"
  unfolding query_group_def by (auto simp: set_lit dest!: greedy_sound)

lemma fragment_group_sound: "(x, t) \<in> set (fragment_group s) \<Longrightarrow> s = ''#'' @ x @ t \<and> list_all no_line_end x"
  unfolding fragment_group_def by (auto simp: set_lit dest!: greedy_sound)

lemma uri_regexp_sound:
  assumes "p \<in> set (uri_regexp s)"
  shows "s = parts_text p \<and> parts_chars p"
proof -
  obtain sch auth path query frag s1 s2 s3 s4 where p: "p = (sch, auth, path, query, frag)"
    and m: "(sch, s1) \<in> set (optional scheme_group s)" "(auth, s2) \<in> set (optional authority_group s1)"
      "(path, s3) \<in> set (greedy (\<lambda>c. c \<notin> set ''?#'') s2)" "(query, s4) \<in> set (optional query_group s3)"
      "(frag, []) \<in> set (optional fragment_group s4)"
    using assms unfolding uri_regexp_def by (auto split: if_splits)
  have "s = (case sch of Some x \<Rightarrow> x @ '':'' | None \<Rightarrow> []) @ s1 \<and> sch \<noteq> Some [] \<and> opt_all (\<lambda>c. c \<notin> set '':/?#'') sch"
    using m(1) by (cases sch) (auto simp: set_optional dest: scheme_group_sound)
  moreover have "s1 = (case auth of Some a \<Rightarrow> ''//'' @ a | None \<Rightarrow> []) @ s2 \<and> opt_all (\<lambda>c. c \<notin> set ''/?#'') auth"
    using m(2) by (cases auth) (auto simp: set_optional dest: authority_group_sound)
  moreover have "s2 = path @ s3 \<and> list_all (\<lambda>c. c \<notin> set ''?#'') path" using greedy_sound [OF m(3)] .
  moreover have "s3 = (case query of Some q \<Rightarrow> ''?'' @ q | None \<Rightarrow> []) @ s4 \<and> opt_all (\<lambda>c. c \<noteq> CHR ''#'') query"
    using m(4) by (cases query) (auto simp: set_optional dest: query_group_sound)
  moreover have "s4 = (case frag of Some f \<Rightarrow> ''#'' @ f | None \<Rightarrow> []) \<and> opt_all no_line_end frag"
    using m(5) by (cases frag) (auto simp: set_optional dest: fragment_group_sound)
  ultimately show ?thesis unfolding p parts_text_def parts_chars_def prod.case by simp
qed

lemma starts_scheme_group:
  assumes "x \<noteq> []" "list_all (\<lambda>c. c \<notin> set '':/?#'') x"
  shows "starts (scheme_group (x @ CHR '':'' # t)) (x, t)"
  unfolding scheme_group_def by (rule starts_bind [OF starts_greedy1]) (use assms in simp_all)

lemma scheme_group_none:
  assumes "CHR '':'' \<notin> set (takeWhile (\<lambda>c. c \<noteq> CHR ''/'') path)" "stops (\<lambda>c. c \<notin> set ''?#'') t"
  shows "scheme_group (path @ t) = []"
proof (rule ccontr)
  assume "scheme_group (path @ t) \<noteq> []"
  then obtain x u where "(x, u) \<in> set (scheme_group (path @ t))" by (metis list.set_intros(1) neq_Nil_conv surj_pair)
  then have xu: "path @ t = x @ CHR '':'' # u" and x: "list_all (\<lambda>c. c \<notin> set '':/?#'') x" using scheme_group_sound by fastforce+
  from xu consider w where "path = x @ CHR '':'' # w" | w where "t = w @ CHR '':'' # u" "x = path @ w"
    by (auto simp: append_eq_append_conv2 append_eq_Cons_conv)
  then show False
  proof cases
    case 1
    have "takeWhile (\<lambda>c. c \<noteq> CHR ''/'') path = x @ CHR '':'' # takeWhile (\<lambda>c. c \<noteq> CHR ''/'') w"
      unfolding 1 using x by (subst takeWhile_append2) (auto simp: list_all_iff)
    then show False using assms(1) by simp
  next
    case 2
    then show False using assms(2) x by (cases w) auto
  qed
qed

lemma starts_authority_group:
  assumes "list_all (\<lambda>c. c \<notin> set ''/?#'') a" "stops (\<lambda>c. c \<notin> set ''/?#'') t"
  shows "starts (authority_group (''//'' @ a @ t)) (a, t)"
  using starts_greedy [OF assms] by (simp add: authority_group_def)

lemma authority_group_none: "take 2 s \<noteq> ''//'' \<Longrightarrow> authority_group s = []"
  by (auto simp: authority_group_def lit_def numeral_2_eq_2 split: list.splits)

lemma starts_query_group:
  assumes "list_all (\<lambda>c. c \<noteq> CHR ''#'') q" "stops (\<lambda>c. c \<noteq> CHR ''#'') t"
  shows "starts (query_group (CHR ''?'' # q @ t)) (q, t)"
  using starts_greedy [OF assms] by (simp add: query_group_def)

lemma starts_fragment_group:
  assumes "list_all no_line_end f"
  shows "starts (fragment_group (CHR ''#'' # f)) (f, [])"
  using starts_greedy [OF assms, of "[]"] by (simp add: fragment_group_def)

text \<open>The end of a text: the fragment, and the query with the fragment.\<close>

definition frag_text :: "string option \<Rightarrow> string" where
  "frag_text frag = (case frag of Some f \<Rightarrow> CHR ''#'' # f | None \<Rightarrow> [])"

definition query_text :: "string option \<Rightarrow> string option \<Rightarrow> string" where
  "query_text query frag = (case query of Some q \<Rightarrow> CHR ''?'' # q @ frag_text frag | None \<Rightarrow> frag_text frag)"

lemma starts_frag: "opt_all no_line_end frag \<Longrightarrow> starts (optional fragment_group (frag_text frag)) (frag, [])"
proof (cases frag)
  case None
  have "fragment_group [] = []" by (simp add: fragment_group_def)
  then show ?thesis using None starts_optional_None [of fragment_group "[]"] by (simp add: frag_text_def)
qed (simp add: frag_text_def starts_optional_Some starts_fragment_group)

lemma starts_query: "opt_all (\<lambda>c. c \<noteq> CHR ''#'') query \<Longrightarrow> starts (optional query_group (query_text query frag)) (query, frag_text frag)"
proof (cases query)
  case None
  have "query_group (frag_text frag) = []" by (cases frag) (simp_all add: query_group_def frag_text_def)
  then show ?thesis using None by (simp add: query_text_def starts_optional_None)
next
  case (Some q)
  assume "opt_all (\<lambda>c. c \<noteq> CHR ''#'') query"
  moreover have "stops (\<lambda>c. c \<noteq> CHR ''#'') (frag_text frag)" by (cases frag) (simp_all add: frag_text_def)
  ultimately show ?thesis using Some by (simp add: query_text_def starts_optional_Some starts_query_group)
qed

lemma stops_query: "CHR ''?'' \<in> set cs \<Longrightarrow> CHR ''#'' \<in> set cs \<Longrightarrow> stops (\<lambda>c. c \<notin> set cs) (query_text query frag)"
  by (cases query; cases frag) (simp_all add: query_text_def frag_text_def)

lemma uri_regexp_complete:
  assumes "parts_chars p" "parts_clear p"
  shows "starts (uri_regexp (parts_text p)) p"
proof -
  obtain sch auth path query frag where p: "p = (sch, auth, path, query, frag)" by (cases p)
  let ?t = "path @ query_text query frag"
  let ?u = "(case auth of Some a \<Rightarrow> ''//'' @ a | None \<Rightarrow> []) @ ?t"
  have chars: "sch \<noteq> Some []" "opt_all (\<lambda>c. c \<notin> set '':/?#'') sch" "opt_all (\<lambda>c. c \<notin> set ''/?#'') auth" "list_all (\<lambda>c. c \<notin> set ''?#'') path"
    "opt_all (\<lambda>c. c \<noteq> CHR ''#'') query" "opt_all no_line_end frag"
    using assms(1) unfolding p parts_chars_def prod.case by simp_all
  have clear: "sch = None \<Longrightarrow> auth = None \<Longrightarrow> CHR '':'' \<notin> set (takeWhile (\<lambda>c. c \<noteq> CHR ''/'') path)" "auth = None \<Longrightarrow> take 2 path \<noteq> ''//''"
    "auth \<noteq> None \<Longrightarrow> path = [] \<or> hd path = CHR ''/''"
    using assms(2) unfolding p parts_clear_def prod.case by simp_all
  have eq: "parts_text p = (case sch of Some x \<Rightarrow> x @ CHR '':'' # ?u | None \<Rightarrow> ?u)"
    unfolding p parts_text_def prod.case by (cases sch; cases query; cases frag) (simp_all add: query_text_def frag_text_def)
  have sch: "starts (optional scheme_group (parts_text p)) (sch, ?u)"
  proof (cases sch)
    case None
    have "scheme_group ?u = []"
    proof (cases auth)
      case None
      then show ?thesis using clear(1) \<open>sch = None\<close> scheme_group_none [OF _ stops_query] by simp
    next
      case (Some a)
      then show ?thesis by (simp add: scheme_group_def greedy1_def)
    qed
    then show ?thesis using None starts_optional_None eq by simp
  next
    case (Some x)
    then show ?thesis using chars(1,2) starts_scheme_group [of x ?u] by (simp add: eq starts_optional_Some)
  qed
  have auth: "starts (optional authority_group ?u) (auth, ?t)"
  proof (cases auth)
    case None
    have "take 2 ?t \<noteq> ''//''"
    proof
      assume "take 2 ?t = ''//''"
      then have "take 2 path = ''//''" using stops_query [of "''?#''" query frag] clear(2) [OF None]
        by (cases path; cases "tl path"; cases "query_text query frag"; cases query; cases frag) (auto simp: query_text_def frag_text_def)
      then show False using clear(2) [OF None] by blast
    qed
    then show ?thesis using None authority_group_none starts_optional_None [of authority_group ?t] by simp
  next
    case (Some a)
    then have "stops (\<lambda>c. c \<notin> set ''/?#'') ?t" using clear(3) stops_query [of "''/?#''"] by (cases path) auto
    then show ?thesis using chars(3) Some starts_authority_group [of a ?t] by (simp add: starts_optional_Some)
  qed
  have path: "starts (greedy (\<lambda>c. c \<notin> set ''?#'') ?t) (path, query_text query frag)"
    using starts_greedy [OF chars(4)] stops_query [of "''?#''"] by simp
  show ?thesis unfolding uri_regexp_def
    by (rule starts_bind [OF sch], unfold prod.case, rule starts_bind [OF auth], unfold prod.case, rule starts_bind [OF path],
        unfold prod.case, rule starts_bind [OF starts_query [OF chars(5)]], unfold prod.case, rule starts_bind [OF starts_frag [OF chars(6)]])
      (simp add: p)
qed

section \<open>Segments of a path\<close>

text \<open>
  Section 5.2 of RFC 2396, step 6, on the list of segments: single dots are removed (c, d), then the leftmost pair of a segment and two dots,
  as long as there is one (e), and such a pair at the end (f). The empty segment in front of an absolute path is no segment.
\<close>

definition rfc_dots :: "string list \<Rightarrow> string list" where
  "rfc_dots segs = filter (\<lambda>w. w \<noteq> ''.'') (butlast segs) @ [if last segs = ''.'' then [] else last segs]"

definition up_pair :: "string list \<Rightarrow> nat \<Rightarrow> bool" where
  "up_pair segs i \<longleftrightarrow> segs ! i = ''..'' \<and> segs ! (i - 1) \<noteq> ''..'' \<and> \<not> (i = 1 \<and> segs ! 0 = [])"

function rfc_pairs :: "string list \<Rightarrow> string list" where
  "rfc_pairs segs =
     (case find (up_pair segs) [1..<length segs - 1] of
        None \<Rightarrow> segs
      | Some i \<Rightarrow> rfc_pairs (take (i - 1) segs @ drop (i + 1) segs))"
  by pat_completeness auto
termination
  by (relation "measure length") (auto simp: find_Some_iff)

declare rfc_pairs.simps [simp del]

definition rfc_last :: "string list \<Rightarrow> string list" where
  "rfc_last segs =
     (if 2 \<le> length segs \<and> up_pair segs (length segs - 1) then take (length segs - 2) segs @ [[]] else segs)"

definition rfc_path :: "string list \<Rightarrow> string list" where
  "rfc_path segs = rfc_last (rfc_pairs (rfc_dots segs))"

text \<open>Both the loop and the specification work like a stack of the segments that are done.\<close>

definition poppable :: "string list \<Rightarrow> bool" where
  "poppable dn \<longleftrightarrow> dn \<noteq> [] \<and> hd dn \<noteq> ''..'' \<and> dn \<noteq> [[]]"

fun seg_stack :: "string list \<Rightarrow> string list \<Rightarrow> string list" where
  "seg_stack dn [] = rev dn"
| "seg_stack dn (w # rest) =
     (if w = ''.'' then if rest = [] then rev ([] # dn) else seg_stack dn rest
      else if w = ''..'' \<and> poppable dn then if rest = [] then rev ([] # tl dn) else seg_stack (tl dn) rest
      else seg_stack (w # dn) rest)"

lemma nth_done: "(rev dn @ w # rest) ! length dn = w" "dn \<noteq> [] \<Longrightarrow> (rev dn @ w # rest) ! (length dn - 1) = hd dn"
  by (simp_all add: nth_append rev_nth hd_conv_nth)

lemma first_done: "(length dn = 1 \<and> (rev dn @ rest) ! 0 = []) = (dn = [[]])"
  by (cases dn) auto

lemma up_pair_done: "dn \<noteq> [] \<Longrightarrow> up_pair (rev dn @ w # rest) (length dn) \<longleftrightarrow> w = ''..'' \<and> poppable dn"
  using first_done [of dn "w # rest"] unfolding up_pair_def poppable_def nth_done by auto

lemma segs_loop_stack: "segs_loop (rev dn @ rest) (length dn) = seg_stack dn rest"
proof (induction dn rest rule: seg_stack.induct)
  case (2 dn w rest)
  have test: "(length dn > 0 \<and> \<not> (length dn = 1 \<and> (rev dn @ w # rest) ! 0 = []) \<and> w = ''..'' \<and> (rev dn @ w # rest) ! (length dn - 1) \<noteq> ''..'')
      = (w = ''..'' \<and> poppable dn)"
    using first_done [of dn "w # rest"] nth_done(2) [of dn w rest] by (auto simp: poppable_def)
  have end_loop: "length segs \<le> j \<Longrightarrow> segs_loop segs j = segs" for segs j by (simp add: segs_loop.simps)
  have pop: "dn \<noteq> [] \<Longrightarrow> take (length dn - 1) (rev dn) = rev (tl dn)" by (cases dn) auto
  have blank: "dn \<noteq> [] \<Longrightarrow> (rev dn)[length dn - 1 := []] = rev ([] # tl dn)" by (cases dn) (auto simp: list_update_append)
  show ?case
  proof (cases "w = ''.''")
    case True
    show ?thesis
    proof (cases "rest = []")
      case True
      then show ?thesis using \<open>w = ''.''\<close> by (subst segs_loop.simps) (simp add: nth_done end_loop list_update_append)
    next
      case False
      then show ?thesis using \<open>w = ''.''\<close> 2(1) by (subst segs_loop.simps) (simp add: nth_done)
    qed
  next
    case False
    show ?thesis
    proof (cases "w = ''..'' \<and> poppable dn")
      case True
      then have ne: "dn \<noteq> []" by (simp add: poppable_def)
      show ?thesis
      proof (cases "rest = []")
        case True
        then show ?thesis using test \<open>w = ''..'' \<and> poppable dn\<close> \<open>w \<noteq> ''.''\<close>
          by (subst segs_loop.simps) (simp add: nth_done end_loop blank [OF ne, simplified])
      next
        case False
        have "segs_loop (rev dn @ w # rest) (length dn) = segs_loop (rev (tl dn) @ rest) (length (tl dn))"
          using test \<open>w = ''..'' \<and> poppable dn\<close> \<open>w \<noteq> ''.''\<close> False by (subst segs_loop.simps) (simp add: nth_done pop [OF ne, simplified])
        then show ?thesis using 2(2) True \<open>w \<noteq> ''.''\<close> False by simp
      qed
    next
      case False
      have "segs_loop (rev dn @ w # rest) (length dn) = segs_loop (rev (w # dn) @ rest) (length (w # dn))"
        using test False \<open>w \<noteq> ''.''\<close> by (subst segs_loop.simps) (auto simp: nth_done)
      then show ?thesis using 2(3) False \<open>w \<noteq> ''.''\<close> by auto
    qed
  qed
qed (simp add: segs_loop.simps)

lemma seg_stack_dots: "rest \<noteq> [] \<Longrightarrow> seg_stack dn (rfc_dots rest) = seg_stack dn rest"
proof (induction dn rest rule: seg_stack.induct)
  case (2 dn w rest)
  show ?case
  proof (cases "rest = []")
    case True
    then show ?thesis by (simp add: rfc_dots_def)
  next
    case False
    then have "rfc_dots (w # rest) = (if w = ''.'' then rfc_dots rest else w # rfc_dots rest)" "rfc_dots rest \<noteq> []"
      by (simp_all add: rfc_dots_def)
    then show ?thesis using 2 False by simp
  qed
qed simp

text \<open>A stack without pairs.\<close>

definition no_pair :: "string list \<Rightarrow> bool" where
  "no_pair dn \<longleftrightarrow> (\<forall>i. 1 \<le> i \<and> i < length dn \<longrightarrow> \<not> up_pair (rev dn) i)"

lemma up_pair_append: "i < length xs \<Longrightarrow> up_pair (xs @ ys) i = up_pair xs i"
proof -
  assume "i < length xs"
  moreover from this have "i - 1 < length xs" "0 < length xs" by linarith+
  ultimately show ?thesis unfolding up_pair_def by (simp only: nth_append if_True)
qed

lemma no_pair_tl: "no_pair dn \<Longrightarrow> no_pair (tl dn)"
  by (cases dn) (auto simp: no_pair_def up_pair_append)

lemma no_pair_push:
  assumes "no_pair dn" "\<not> (w = ''..'' \<and> poppable dn)"
  shows "no_pair (w # dn)"
  unfolding no_pair_def
proof (intro allI impI)
  fix i assume i: "1 \<le> i \<and> i < length (w # dn)"
  show "\<not> up_pair (rev (w # dn)) i"
  proof (cases "i < length dn")
    case True
    then show ?thesis using assms(1) i by (simp add: no_pair_def up_pair_append)
  next
    case False
    then have "i = length dn" "dn \<noteq> []" using i by auto
    then show ?thesis using up_pair_done [of dn w "[]"] assms(2) by simp
  qed
qed

lemma rfc_pairs_none: "no_pair dn \<Longrightarrow> rfc_pairs (rev dn @ [w]) = rev dn @ [w]"
proof -
  assume "no_pair dn"
  then have "find (up_pair (rev dn @ [w])) [1..<length (rev dn @ [w]) - 1] = None" by (auto simp: no_pair_def up_pair_append find_None_iff)
  then show ?thesis by (subst rfc_pairs.simps) simp
qed

lemma rfc_pairs_pop:
  assumes "no_pair dn" "poppable dn" "rest \<noteq> []"
  shows "rfc_pairs (rev dn @ ''..'' # rest) = rfc_pairs (rev (tl dn) @ rest)"
proof -
  let ?segs = "rev dn @ ''..'' # rest"
  have ne: "dn \<noteq> []" using assms(2) by (simp add: poppable_def)
  have len: "0 < length dn" "0 < length rest" "length ?segs - 1 = length dn + length rest" using ne assms(3) by simp_all
  then have at: "[1..<length ?segs - 1] ! (length dn - 1) = length dn" by simp
  have "find (up_pair ?segs) [1..<length ?segs - 1] = Some (length dn)"
    unfolding find_Some_iff
  proof (intro exI [of _ "length dn - 1"] conjI allI impI)
    show "length dn - 1 < length [1..<length ?segs - 1]" using len unfolding length_upt by linarith
    show "up_pair ?segs ([1..<length ?segs - 1] ! (length dn - 1))" unfolding at using up_pair_done [OF ne, of "''..''" rest] assms(2) by simp
    show "length dn = [1..<length ?segs - 1] ! (length dn - 1)" using at by simp
  next
    fix j assume j: "j < length dn - 1"
    then have "[1..<length ?segs - 1] ! j = Suc j" using len by simp
    then show "\<not> up_pair ?segs ([1..<length ?segs - 1] ! j)" using assms(1) j by (simp add: no_pair_def up_pair_append)
  qed
  moreover have "take (length dn - 1) ?segs @ drop (length dn + 1) ?segs = rev (tl dn) @ rest" using ne by (cases dn) auto
  ultimately show ?thesis by (subst rfc_pairs.simps) simp
qed

lemma rfc_stack:
  assumes "no_pair dn" "rest \<noteq> []" "''.'' \<notin> set rest"
  shows "rfc_last (rfc_pairs (rev dn @ rest)) = seg_stack dn rest"
  using assms
proof (induction dn rest rule: seg_stack.induct)
  case (2 dn w rest)
  show ?case
  proof (cases "rest = []")
    case True
    have "dn \<noteq> [] \<Longrightarrow> take (length dn - 1) (rev dn) = rev (tl dn)" by (cases dn) auto
    then have "rfc_last (rev dn @ [w]) = (if w = ''..'' \<and> poppable dn then rev ([] # tl dn) else rev (w # dn))"
      using up_pair_done [of dn w "[]"] by (cases "dn = []") (auto simp: rfc_last_def poppable_def Suc_le_eq)
    then show ?thesis using True 2(4,6) by (auto simp: rfc_pairs_none)
  next
    case False
    then show ?thesis
    proof (cases "w = ''..'' \<and> poppable dn")
      case True
      then show ?thesis using 2(2) [OF _ True False] 2(4,6) False rfc_pairs_pop no_pair_tl by auto
    next
      case False
      then show ?thesis using 2(3) [OF _ False] 2(4,6) \<open>rest \<noteq> []\<close> no_pair_push [OF _ False] by auto
    qed
  qed
qed simp

lemma segs_loop_rfc: "segs \<noteq> [] \<Longrightarrow> segs_loop segs 0 = rfc_path segs"
proof -
  assume "segs \<noteq> []"
  then have "rfc_dots segs \<noteq> []" "''.'' \<notin> set (rfc_dots segs)" by (auto simp: rfc_dots_def)
  then have "rfc_path segs = seg_stack [] (rfc_dots segs)" using rfc_stack [of "[]" "rfc_dots segs"] by (simp add: rfc_path_def no_pair_def)
  then show ?thesis using segs_loop_stack [of "[]" segs] seg_stack_dots [OF \<open>segs \<noteq> []\<close>] by simp
qed

section \<open>Resolving references\<close>

definition rfc2396_resolve :: "uri_parts \<Rightarrow> uri_parts \<Rightarrow> uri_parts" where
  "rfc2396_resolve base ref =
     (case (base, ref) of ((bs, ba, bp, bq, bf), (rs, ra, rp, rq, rf)) \<Rightarrow>
        if rp = [] \<and> rs = None \<and> ra = None \<and> rq = None then (bs, ba, bp, bq, if rf = None then bf else rf)
        else if rs \<noteq> None then ref
        else if ra \<noteq> None then (bs, ra, rp, rq, rf)
        else if take 1 rp = ''/'' then (bs, ba, rp, rq, rf)
        else (bs, ba, join_with ''/'' (rfc_path (split_on CHR ''/'' (base_dir bp @ rp))), rq, rf))"

lemma char_at_take: "char_at s 0 = take 1 s"
  by (cases s) (simp_all add: char_at_def)

lemma parts_relative_to: "parts (relative_to b r) = rfc2396_resolve (parts b) (parts r)"
  unfolding relative_to_def rfc2396_resolve_def parts_def merge_path_def
  by (auto simp: Let_def char_at_take segs_loop_rfc)

lemma uri_split_Inr:
  assumes "uri_split s = Inr u"
  shows "starts (uri_regexp s) (parts u)" "u_uri u = s" "u_authority u = Some a \<Longrightarrow> server_regexp a \<noteq> []"
  using assms unfolding uri_split_def parts_def starts_def by (auto simp: Let_def split: list.splits option.splits)

lemma uri_split_starts:
  assumes "starts (uri_regexp s) p" "\<And>a. fst (snd p) = Some a \<Longrightarrow> server_regexp a \<noteq> []"
  shows "\<exists>u. uri_split s = Inr u \<and> parts u = p \<and> u_uri u = s"
proof -
  obtain sch auth path query frag ys where p: "p = (sch, auth, path, query, frag)" "uri_regexp s = p # ys"
    using assms(1) unfolding starts_def by (cases p) auto
  show ?thesis
  proof (cases auth)
    case None
    then show ?thesis unfolding uri_split_def using p by (simp add: parts_def)
  next
    case (Some a)
    then obtain login host port zs where "server_regexp a = (login, host, port) # zs"
      using assms(2) p(1) by (cases "server_regexp a") auto
    then show ?thesis unfolding uri_split_def using p Some by (simp add: parts_def)
  qed
qed

lemma uri_split_sound: "uri_split s = Inr u \<Longrightarrow> s = parts_text (parts u) \<and> parts_chars (parts u)"
  using uri_split_Inr(1) [of s u] uri_regexp_sound [of "parts u" s] by (auto simp: starts_def)

text \<open>The characters of a merged path.\<close>

lemma set_split_on: "\<Union> (set ` set (split_on d s)) \<subseteq> set s"
proof (induction s)
  case (Cons c s)
  obtain w ws where w: "split_on d s = w # ws" by (cases "split_on d s") auto
  then have "\<Union> (set ` set (split_on d (c # s))) \<subseteq> insert c (\<Union> (set ` set (split_on d s)))" by auto
  also have "\<dots> \<subseteq> set (c # s)" using Cons by (simp add: subset_insertI2)
  finally show ?case .
qed simp

lemma set_joined: "set (join_with d ws) \<subseteq> set d \<union> \<Union> (set ` set ws)"
  by (induction d ws rule: join_with.induct) auto

lemma set_seg_stack: "set (seg_stack dn rest) \<subseteq> insert [] (set dn \<union> set rest)"
proof (induction dn rest rule: seg_stack.induct)
  case (2 dn w rest)
  have "set (tl dn) \<subseteq> set dn" by (cases dn) auto
  then show ?case using 2 by auto
qed auto

lemma set_rfc_path: "segs \<noteq> [] \<Longrightarrow> set (rfc_path segs) \<subseteq> insert [] (set segs)"
  using set_seg_stack [of "[]" segs] segs_loop_stack [of "[]" segs] segs_loop_rfc [of segs] by simp

lemma set_base_dir: "set (base_dir p) \<subseteq> set p"
  unfolding base_dir_def by (auto dest: set_dropWhileD)

lemma merged_chars:
  assumes "list_all P bp" "list_all P rp" "P CHR ''/''"
  shows "list_all P (join_with ''/'' (rfc_path (split_on CHR ''/'' (base_dir bp @ rp))))"
proof -
  let ?segs = "split_on CHR ''/'' (base_dir bp @ rp)"
  have "\<Union> (set ` set (rfc_path ?segs)) \<subseteq> \<Union> (set ` set ?segs)" using set_rfc_path [of ?segs] by auto
  also have "\<dots> \<subseteq> set bp \<union> set rp" using set_split_on [of "CHR ''/''" "base_dir bp @ rp"] set_base_dir [of bp] by auto
  finally show ?thesis using set_joined [of "''/''" "rfc_path ?segs"] assms unfolding list_all_iff by fastforce
qed

lemma resolve_chars: "parts_chars b \<Longrightarrow> parts_chars r \<Longrightarrow> parts_chars (rfc2396_resolve b r)"
  unfolding parts_chars_def rfc2396_resolve_def by (auto intro!: merged_chars split: if_splits)

lemma resolve_authority: "fst (snd (rfc2396_resolve b r)) \<in> {fst (snd b), fst (snd r)}"
  unfolding rfc2396_resolve_def by (cases b; cases r) auto

text \<open>
  Claim C12. Resolving a reference against a base URI is section 5.2 of RFC 2396, with its iterated removal of dots replaced by one pass: the
  object has the parts that the RFC gives, and its text is composed of them. The parts must be such that a text shows them.
\<close>

theorem uri_resolves_rfc2396:
  assumes "uri_split base = Inr b" "uri_split rel = Inr r" "rel \<noteq> []"
    and "parts_clear (rfc2396_resolve (parts b) (parts r))"
  shows "\<exists>u. Uri base [Some rel] = Inr u \<and> parts u = rfc2396_resolve (parts b) (parts r) \<and> u_uri u = parts_text (parts u)"
proof -
  let ?p = "rfc2396_resolve (parts b) (parts r)"
  have "server_regexp a \<noteq> []" if "fst (snd ?p) = Some a" for a
  proof -
    have "u_authority b = Some a \<or> u_authority r = Some a"
      using resolve_authority [of "parts b" "parts r"] that by (auto simp: parts_def)
    then show ?thesis using uri_split_Inr(3) assms(1,2) by blast
  qed
  moreover have "parts_chars ?p" using uri_split_sound [OF assms(1)] uri_split_sound [OF assms(2)] resolve_chars by blast
  ultimately obtain u where "uri_split (parts_text ?p) = Inr u" "parts u = ?p" "u_uri u = parts_text ?p"
    using uri_split_starts [OF uri_regexp_complete] assms(4) by metis
  moreover have "Uri base [Some rel] = uri_split (parts_text ?p)"
    using assms(1-3) by (simp add: Uri_def uri_step_def uri_text_parts parts_relative_to)
  ultimately show ?thesis by simp
qed

text \<open>
  Claim C21. A URI that was taken apart is put together to the same text, and parts with the right characters that are clear in a text, with an authority
  that the constructor accepts, are found again when their text is taken apart.
\<close>

theorem uri_parts_roundtrip:
  "(uri_split s = Inr u \<longrightarrow> uri_text u = s)
   \<and> (parts_chars (sch, auth, path, query, frag) \<and> parts_clear (sch, auth, path, query, frag) \<and> (\<forall>a. auth = Some a \<longrightarrow> server_regexp a \<noteq> [])
      \<longrightarrow> (\<exists>v. uri_split (parts_text (sch, auth, path, query, frag)) = Inr v \<and> parts v = (sch, auth, path, query, frag)))"
  using uri_split_sound [of s u] uri_regexp_complete [of "(sch, auth, path, query, frag)"]
    uri_split_starts [of "parts_text (sch, auth, path, query, frag)" "(sch, auth, path, query, frag)"]
  unfolding uri_text_parts by force

text \<open>A merged path is in normal form.\<close>

lemma seg_stack_normal: "no_pair dn \<Longrightarrow> ''.'' \<notin> set dn \<Longrightarrow> no_pair (rev (seg_stack dn rest)) \<and> ''.'' \<notin> set (seg_stack dn rest)"
proof (induction dn rest rule: seg_stack.induct)
  case (2 dn w rest)
  have tl: "''.'' \<notin> set (tl dn)" using 2(5) by (cases dn) auto
  show ?case using 2 tl no_pair_tl [OF 2(4)] no_pair_push [of dn "[]"] no_pair_push [of "tl dn" "[]"] no_pair_push [of dn w] by auto
qed simp

lemma seg_stack_stays: "no_pair (rev (rev dn @ rest)) \<Longrightarrow> ''.'' \<notin> set rest \<Longrightarrow> seg_stack dn rest = rev dn @ rest"
proof (induction dn rest rule: seg_stack.induct)
  case (2 dn w rest)
  have "\<not> up_pair (rev dn @ w # rest) (length dn)" if "dn \<noteq> []" using 2(4) that unfolding no_pair_def by (auto simp: Suc_le_eq)
  then have "\<not> (w = ''..'' \<and> poppable dn)" using up_pair_done [of dn w rest] by (auto simp: poppable_def)
  then show ?case using 2 by auto
qed simp

lemma seg_stack_nonempty: "rest \<noteq> [] \<Longrightarrow> seg_stack dn rest \<noteq> []"
  by (induction dn rest rule: seg_stack.induct) auto

lemma split_joined: "ws \<noteq> [] \<Longrightarrow> list_all (\<lambda>w. d \<notin> set w) ws \<Longrightarrow> split_on d (join_with [d] ws) = ws"
  by (induction "[d]" ws rule: join_with.induct) (simp_all add: split_on_none split_on_append)

lemma split_no_sep: "list_all (\<lambda>w. d \<notin> set w) (split_on d s)"
  by (induction s) (auto split: list.splits)

text \<open>
  The merged path of a base and a reference has no segment that is a single dot, and two dots only at its front, where there is nothing to
  remove: every segment of two dots is the first one, follows another one or follows the initial slash. Merging the result again changes nothing.
\<close>

theorem merged_path_normal:
  assumes "segs = split_on CHR ''/'' (merge_path base rel)"
  shows "''.'' \<notin> set segs
    \<and> (\<forall>i. 1 \<le> i \<and> i < length segs \<and> segs ! i = ''..'' \<longrightarrow> segs ! (i - 1) = ''..'' \<or> i = 1 \<and> segs ! 0 = [])
    \<and> segs_loop segs 0 = segs"
proof -
  let ?s = "split_on CHR ''/'' (base_dir base @ rel)"
  let ?r = "seg_stack [] ?s"
  have r: "segs_loop ?s 0 = ?r" using segs_loop_stack [of "[]"] by simp
  have "list_all (\<lambda>w. CHR ''/'' \<notin> set w) ?r"
    using set_seg_stack [of "[]" ?s] split_no_sep [of "CHR ''/''" "base_dir base @ rel"] by (auto simp: list_all_iff)
  then have segs: "segs = ?r" unfolding assms merge_path_def r by (intro split_joined) (simp_all add: seg_stack_nonempty)
  have normal: "no_pair (rev ?r)" "''.'' \<notin> set ?r" using seg_stack_normal [of "[]" ?s] by (simp_all add: no_pair_def)
  then have "segs_loop ?r 0 = ?r" using segs_loop_stack [of "[]" ?r] seg_stack_stays [of "[]" ?r] by simp
  then show ?thesis using normal unfolding segs no_pair_def up_pair_def by auto
qed

section \<open>Logins and bare hosts\<close>

definition name_char :: "char \<Rightarrow> bool" where
  "name_char c \<longleftrightarrow> c \<notin> set '':@/?#''"

lemma name_chars:
  assumes "list_all name_char x"
  shows "list_all (\<lambda>c. c \<notin> set ''/?#'') x" "list_all (\<lambda>c. c \<noteq> CHR '':'') x" "list_all (\<lambda>c. c \<noteq> CHR ''@'') x" "list_all (\<lambda>c. c \<notin> set ''?#'') x"
    "list_all (\<lambda>c. c \<notin> set '':/?#'') x"
  using assms by (auto simp: list_all_iff name_char_def)

lemma starts_host:
  assumes "list_all name_char h" "starts (optional login_group s) (login, h)"
  shows "starts (server_regexp s) (login, h, None)"
proof -
  have host: "starts (greedy (\<lambda>c. c \<noteq> CHR '':'') h) (h, [])" using starts_greedy [OF name_chars(2) [OF assms(1)], of "[]"] by simp
  have port: "starts (optional port_group []) (None, [])" by (rule starts_optional_None) (simp add: port_group_def)
  show ?thesis unfolding server_regexp_def
    by (rule starts_bind [OF assms(2)], unfold prod.case, rule starts_bind [OF host], unfold prod.case, rule starts_bind [OF port]) simp
qed

lemma user_group_none: "CHR '':'' \<notin> set s \<Longrightarrow> user_group s = []"
proof (rule ccontr)
  assume "CHR '':'' \<notin> set s" "user_group s \<noteq> []"
  then obtain y where "y \<in> set (user_group s)" by (metis list.set_intros(1) neq_Nil_conv)
  then obtain x t u where "(x, t) \<in> set (greedy1 (\<lambda>c. c \<noteq> CHR '':'') s)" "u \<in> set (lit CHR '':'' t)" unfolding user_group_def by auto
  then have "s = x @ CHR '':'' # u" using greedy1_sound set_lit by fastforce
  then show False using \<open>CHR '':'' \<notin> set s\<close> by simp
qed

lemma starts_login_user:
  assumes "list_all name_char u" "u \<noteq> []" "list_all name_char h"
  shows "starts (optional login_group (u @ CHR ''@'' # h)) (Some (None, u), h)"
proof (rule starts_optional_Some)
  have "CHR '':'' \<notin> set (u @ CHR ''@'' # h)" using assms by (auto simp: list_all_iff name_char_def)
  then have user: "starts (optional user_group (u @ CHR ''@'' # h)) (None, u @ CHR ''@'' # h)"
    using starts_optional_None [of user_group] user_group_none by blast
  have pw: "starts (greedy1 (\<lambda>c. c \<noteq> CHR ''@'') (u @ CHR ''@'' # h)) (u, CHR ''@'' # h)"
    using starts_greedy1 [OF name_chars(3) [OF assms(1)]] assms(2) by simp
  show "starts (login_group (u @ CHR ''@'' # h)) ((None, u), h)" unfolding login_group_def
    by (rule starts_bind [OF user], unfold prod.case, rule starts_bind [OF pw]) simp
qed

lemma starts_login_both:
  assumes "list_all name_char u" "u \<noteq> []" "list_all name_char p" "p \<noteq> []"
  shows "starts (optional login_group (u @ CHR '':'' # p @ CHR ''@'' # h)) (Some (Some (u @ '':''), p), h)"
proof (rule starts_optional_Some)
  have "starts (user_group (u @ CHR '':'' # p @ CHR ''@'' # h)) (u @ '':'', p @ CHR ''@'' # h)" unfolding user_group_def
    by (rule starts_bind [OF starts_greedy1 [OF name_chars(2) [OF assms(1)]]]) (use assms(2) in simp_all)
  then have user: "starts (optional user_group (u @ CHR '':'' # p @ CHR ''@'' # h)) (Some (u @ '':''), p @ CHR ''@'' # h)"
    by (rule starts_optional_Some)
  have pw: "starts (greedy1 (\<lambda>c. c \<noteq> CHR ''@'') (p @ CHR ''@'' # h)) (p, CHR ''@'' # h)"
    using starts_greedy1 [OF name_chars(3) [OF assms(3)]] assms(4) by simp
  show "starts (login_group (u @ CHR '':'' # p @ CHR ''@'' # h)) ((Some (u @ '':''), p), h)" unfolding login_group_def
    by (rule starts_bind [OF user], unfold prod.case, rule starts_bind [OF pw]) simp
qed

lemma uri_split_server:
  assumes "list_all (\<lambda>c. c \<notin> set ''/?#'') a" "starts (server_regexp a) (login, h, port)"
  shows "uri_split (''http://'' @ a) = Inr \<lparr>u_uri = ''http://'' @ a, u_scheme = Some ''http'', u_authority = Some a, u_path = [], u_query = None, u_fragment = None,
    u_user = (case login of None \<Rightarrow> None | Some l \<Rightarrow> fst l), u_password = map_option snd login, u_host = Some h, u_port = port\<rparr>"
proof -
  have "starts (uri_regexp (''http://'' @ a)) (Some ''http'', Some a, [], None, None)"
    using uri_regexp_complete [of "(Some ''http'', Some a, [], None, None)"] assms(1)
    by (simp add: parts_chars_def parts_clear_def parts_text_def)
  then show ?thesis using assms(2) by (auto simp: starts_def uri_split_def)
qed

lemma login_group_none:
  assumes "list_all name_char s"
  shows "login_group s = []"
proof (rule ccontr)
  assume "login_group s \<noteq> []"
  then obtain y where "y \<in> set (login_group s)" by (metis list.set_intros(1) neq_Nil_conv)
  then obtain user t pw u v where "(user, t) \<in> set (optional user_group s)" "(pw, u) \<in> set (greedy1 (\<lambda>c. c \<noteq> CHR ''@'') t)" "v \<in> set (lit CHR ''@'' u)"
    unfolding login_group_def by auto
  moreover have "CHR '':'' \<notin> set s" using assms by (auto simp: list_all_iff name_char_def)
  ultimately have "s = pw @ CHR ''@'' # v" using greedy1_sound [of pw u] by (simp add: optional_def user_group_none set_lit)
  then show False using assms by (simp add: name_char_def)
qed

text \<open>
  The login of an authority is taken apart wrongly: a user name alone ends up as the password, with no user, and in front of a password it keeps the
  colon. Only the host is right.
\<close>

theorem uri_login_misread:
  assumes "list_all name_char u" "u \<noteq> []" "list_all name_char p" "p \<noteq> []" "list_all name_char h"
  shows "(\<exists>x. Uri (''http://'' @ u @ ''@'' @ h) [] = Inr x \<and> u_user x = None \<and> u_password x = Some u \<and> u_host x = Some h)
    \<and> (\<exists>x. Uri (''http://'' @ u @ '':'' @ p @ ''@'' @ h) [] = Inr x \<and> u_user x = Some (u @ '':'') \<and> u_password x = Some p \<and> u_host x = Some h)"
  using uri_split_server [OF _ starts_host [OF assms(5) starts_login_user [OF assms(1,2,5)]]]
    uri_split_server [OF _ starts_host [OF assms(5) starts_login_both [OF assms(1-4)]]] name_chars(1) [OF assms(1)] name_chars(1) [OF assms(3)]
    name_chars(1) [OF assms(5)]
  by (simp add: Uri_def)

text \<open>
  A relative reference to a base that consists of a scheme and a host runs into the host: the slash between them is not supplied, and the
  result names another host.
\<close>

theorem uri_bare_host_merged:
  assumes "list_all name_char h" "list_all name_char r" "r \<notin> {[], ''.'', ''..''}"
  shows "\<exists>x. Uri (''http://'' @ h) [Some r] = Inr x \<and> u_uri x = ''http://'' @ h @ r \<and> u_host x = Some (h @ r) \<and> u_path x = []"
proof -
  have base: "\<exists>b. uri_split (''http://'' @ s) = Inr b \<and> parts b = (Some ''http'', Some s, [], None, None) \<and> u_host b = Some s \<and> u_uri b = ''http://'' @ s"
    if "list_all name_char s" for s
    using uri_split_server [OF name_chars(1) [OF that] starts_host [OF that starts_optional_None [of login_group, OF login_group_none [OF that]]]] by (simp add: parts_def)
  have slash: "CHR ''/'' \<notin> set r" and colon: "CHR '':'' \<notin> set r" using assms(2) by (auto simp: list_all_iff name_char_def)
  have "take 2 r \<noteq> ''//''" using slash in_set_takeD [of "CHR ''/''" 2 r] by auto
  moreover have "CHR '':'' \<notin> set (takeWhile (\<lambda>c. c \<noteq> CHR ''/'') r)" using colon set_takeWhileD by fast
  ultimately have "starts (uri_regexp r) (None, None, r, None, None)"
    using uri_regexp_complete [of "(None, None, r, None, None)"] name_chars(4) [OF assms(2)]
    by (simp add: parts_chars_def parts_clear_def parts_text_def)
  then obtain u where u: "uri_split r = Inr u" "parts u = (None, None, r, None, None)"
    using uri_split_starts [of r "(None, None, r, None, None)"] by auto
  obtain b where b: "uri_split (''http://'' @ h) = Inr b" "parts b = (Some ''http'', Some h, [], None, None)" using base [OF assms(1)] by auto
  have "segs_loop (split_on CHR ''/'' r) 0 = [r]" using assms(3) slash segs_loop_stack [of "[]" "[r]"] by (auto simp: split_on_none poppable_def)
  moreover have "take 1 r \<noteq> ''/''" using slash by (cases r) auto
  ultimately have "rfc2396_resolve (parts b) (parts u) = (Some ''http'', Some h, r, None, None)"
    using assms(3) unfolding u b by (simp add: rfc2396_resolve_def base_dir_def flip: segs_loop_rfc)
  then have "Uri (''http://'' @ h) [Some r] = uri_split (''http://'' @ h @ r)"
    using assms(3) u b by (simp add: Uri_def uri_step_def uri_text_parts parts_relative_to parts_text_def)
  then show ?thesis using base [of "h @ r"] assms(1,2) by (auto simp: parts_def)
qed

section \<open>Examples\<close>

lemma example_base: "uri_split ''http://a/b/c/d'' = Inr \<lparr>u_uri = ''http://a/b/c/d'', u_scheme = Some ''http'', u_authority = Some ''a'', u_path = ''/b/c/d'',
    u_query = None, u_fragment = None, u_user = None, u_password = None, u_host = Some ''a'', u_port = None\<rparr>"
  by code_simp

lemma example_rel: "uri_split ''../g/./h'' = Inr \<lparr>u_uri = ''../g/./h'', u_scheme = None, u_authority = None, u_path = ''../g/./h'',
    u_query = None, u_fragment = None, u_user = None, u_password = None, u_host = None, u_port = None\<rparr>"
  by code_simp

theorem uri_resolves_rfc2396_witness: "\<exists>u. Uri ''http://a/b/c/d'' [Some ''../g/./h''] = Inr u \<and> u_uri u = ''http://a/b/g/h''"
proof -
  have "rfc2396_resolve (Some ''http'', Some ''a'', ''/b/c/d'', None, None) (None, None, ''../g/./h'', None, None)
      = (Some ''http'', Some ''a'', ''/b/g/h'', None, None)"
    by code_simp
  then show ?thesis
    using uri_resolves_rfc2396 [OF example_base example_rel] by (auto simp: parts_def parts_clear_def parts_text_def)
qed

theorem uri_parts_roundtrip_witness:
  "\<exists>v. uri_split ''x:/y?z'' = Inr v \<and> parts v = (Some ''x'', None, ''/y'', Some ''z'', None)"
  using uri_parts_roundtrip [of _ _ "Some ''x''" None "''/y''" "Some ''z''" None]
  by (simp add: parts_chars_def parts_clear_def parts_text_def)

theorem merged_path_normal_witness:
  "''.'' \<notin> set (split_on CHR ''/'' (merge_path ''/a/b'' ''../../../c/.''))"
  using merged_path_normal [OF refl] by blast

theorem uri_login_misread_witness:
  "\<exists>x. Uri (''http://'' @ ''joe'' @ ''@'' @ ''a.org'') [] = Inr x \<and> u_user x = None \<and> u_password x = Some ''joe'' \<and> u_host x = Some ''a.org''"
  using uri_login_misread [of "''joe''" "''pw''" "''a.org''"] by (simp add: name_char_def)

theorem uri_bare_host_merged_witness:
  "\<exists>x. Uri (''http://'' @ ''a.org'') [Some ''index.html''] = Inr x \<and> u_host x = Some (''a.org'' @ ''index.html'')"
  using uri_bare_host_merged [of "''a.org''" "''index.html''"] by (auto simp: name_char_def)

end
