(* ===== verification/Xd_Loader.thy ===== *)
theory Xd_Loader
  imports Loader
begin

text \<open>
  \<open>src/loader_xd.js\<close>: loading across domains. Packages arrive in any order as scripts that call \<open>packageLoaded\<close>; when nothing is in flight
  any more, a timer walks through the requirements and evaluates the contents of the packages. Names of modules are strings and not names of properties that
  arrays or objects inherit. The entries of a package name one of the functions that \<open>createXdPackage\<close> looks for. What the contents do is outside; that they were evaluated is recorded by their indices. The address
  of a module is a parameter, which stands for the paths computed by the loader.
\<close>

section \<open>State\<close>

text \<open>An entry of \<open>depends\<close> in a package is an array: the name of a function and its arguments. \<open>VReq\<close> is an object with the name of a required module.\<close>

datatype xd_val = VStr string | VBool bool | VArr "xd_val list" | VMap "(string \<times> xd_val list) list" | VReq string

type_synonym xd_dep = "xd_val list"

record xd_pkg =
  pkg_requires :: "string list"
  pkg_requiresAfter :: "string list"
  contentIndex :: nat

text \<open>
  \<open>xdScripts\<close> are the sources of the script elements that were added to the document, \<open>xdProvided\<close> the modules that were provided. The last three fields: the contents that were evaluated, and the array \<open>reqChain\<close>, with its end in front, and the names that are marked in it.
\<close>

record xd_loader =
  isXDomain :: bool
  xdTimer :: bool
  xdStartTime :: int
  xdInFlight :: "string \<rightharpoonup> bool"
  xdOrderedReqs :: "string list"
  xdDepMap :: "string \<rightharpoonup> xd_pkg"
  xdContents :: "bool list"
  xdLoadedUris :: "string list"
  xdScripts :: "string list"
  xdProvided :: "string list"
  xdInFlightCount :: nat
  xdEvaluated :: "nat list"
  reqChain :: "string list"
  chainMarks :: "string list"

definition resetXd :: "bool \<Rightarrow> xd_loader \<Rightarrow> xd_loader" where
  "resetXd forceXDomain s =
     s\<lparr>isXDomain := forceXDomain, xdTimer := False, xdInFlight := Map.empty, xdOrderedReqs := [], xdDepMap := Map.empty, xdContents := []\<rparr>"

section \<open>Requests\<close>

text \<open>The name of the cross-domain file: \<open>.xd\<close> goes before the extension.\<close>

definition lastIndexOf_dot :: "string \<Rightarrow> int" where
  "lastIndexOf_dot s = (if CHR ''.'' \<in> set s then int (length s) - 1 - int (length (takeWhile (\<lambda>c. c \<noteq> CHR ''.'') (rev s))) else - 1)"

definition xd_uri :: "string \<Rightarrow> string" where
  "xd_uri uri =
     (let lastIndex = (if lastIndexOf_dot uri \<le> 0 then int (length uri) - 1 else lastIndexOf_dot uri);
          xdUri = take (nat lastIndex) uri @ ''.xd''
      in if lastIndex \<noteq> int (length uri) - 1 then xdUri @ drop (nat lastIndex) uri else xdUri)"

text \<open>\<open>loadUri\<close> for a file of another domain; the script is requested and the call returns at once.\<close>

definition xd_loadUri :: "int \<Rightarrow> string \<Rightarrow> string \<Rightarrow> xd_loader \<Rightarrow> xd_loader" where
  "xd_loadUri now uri module s =
     (if uri \<in> set (xdLoadedUris s) then s
      else let s = s\<lparr>xdOrderedReqs := xdOrderedReqs s @ [module]\<rparr>;
               module = (if js_indexOf ''__package__'' uri \<noteq> - 1 then module @ ''.*'' else module)
           in s\<lparr>xdInFlight := (xdInFlight s)(module \<mapsto> True), xdInFlightCount := xdInFlightCount s + 1, xdTimer := True, xdStartTime := now,
                xdScripts := xdScripts s @ [xd_uri uri], xdLoadedUris := xdLoadedUris s @ [uri]\<rparr>)"

text \<open>The name of a package without the suffix \<open>.*\<close>.\<close>

definition strip_star :: "string \<Rightarrow> string" where
  "strip_star m = (let syms = split_on CHR ''.'' m in if last syms = ''*'' then join_with ''.'' (butlast syms) else m)"

text \<open>A requirement: nothing is done for a module that was provided. The file is loaded under the name without the suffix. A provided module is registered under both names.\<close>

definition xd_require :: "(string \<Rightarrow> string) \<Rightarrow> int \<Rightarrow> string \<Rightarrow> xd_loader \<Rightarrow> xd_loader" where
  "xd_require uri_of now module s =
     (if module = [] \<or> module \<in> set (xdProvided s) then s
      else xd_loadUri now (uri_of module) (strip_star module) (s\<lparr>isXDomain := True\<rparr>))"

definition xd_provide :: "string \<Rightarrow> xd_loader \<Rightarrow> xd_loader" where
  "xd_provide m s = s\<lparr>xdProvided := xdProvided s @ [m, strip_star m]\<rparr>"

section \<open>Packages\<close>

text \<open>Reading an entry of an array; a name that is not given is \<open>undefined\<close>, which is treated like the empty string.\<close>

definition dep_at :: "xd_dep \<Rightarrow> nat \<Rightarrow> xd_val option" where
  "dep_at dep i = (if i < length dep then Some (dep ! i) else None)"

definition name_of :: "xd_val option \<Rightarrow> string" where
  "name_of v = (case v of Some (VStr s) \<Rightarrow> s | Some (VReq s) \<Rightarrow> s | _ \<Rightarrow> [])"

text \<open>The test of a conditional requirement.\<close>

definition xd_holds :: "(string \<Rightarrow> bool) \<Rightarrow> xd_val option \<Rightarrow> bool result" where
  "xd_holds capable c =
     (case c of
        None \<Rightarrow> Inr False
      | Some (VBool b) \<Rightarrow> Inr b
      | Some (VStr r) \<Rightarrow> Inr (r = ''common'' \<or> r \<noteq> [] \<and> capable r)
      | Some _ \<Rightarrow> Inl TypeError)"

definition flattenRequireArray :: "xd_val list \<Rightarrow> xd_val list" where
  "flattenRequireArray target = map (\<lambda>v. VReq (name_of (case v of VArr vs \<Rightarrow> dep_at vs 0 | _ \<Rightarrow> Some v))) target"

text \<open>The modules of a compound requirement for the host.\<close>

definition compound :: "string \<Rightarrow> xd_val option \<Rightarrow> xd_val list result" where
  "compound hostName modMap =
     (case modMap of
        None \<Rightarrow> Inl TypeError
      | Some (VMap m) \<Rightarrow>
          (let listed = (\<lambda>k. case map_of m k of Some vs \<Rightarrow> vs | None \<Rightarrow> [])
           in Inr (listed ''common'' @ (if map_of m hostName \<noteq> None then listed hostName else listed ''default'')))
      | Some _ \<Rightarrow> Inr [])"

text \<open>
  The requirements of an entry, before and after the package, and the entry afterwards: that of \<open>requireAll\<close> loses its first element, and its other elements are replaced by objects.
\<close>

definition unpackXdDependency ::
  "(string \<Rightarrow> bool) \<Rightarrow> string \<Rightarrow> xd_dep \<Rightarrow> ((xd_val list \<times> xd_val list) \<times> xd_dep) result" where
  "unpackXdDependency capable hostName dep =
     (case dep of
        VStr f # args \<Rightarrow>
          if f \<in> {''requireIf'', ''requireAfterIf'', ''conditionalRequire''}
          then rbind (xd_holds capable (dep_at dep 1)) (\<lambda>c.
                 let newDeps = (if c then [VReq (name_of (dep_at dep 2))] else [])
                 in Inr (if f = ''requireAfterIf'' then ([], newDeps) else (newDeps, []), dep))
          else if f = ''requireAll''
          then (let dep = flattenRequireArray args in Inr ((dep, []), dep))
          else if f \<in> {''kwCompoundRequire'', ''hostenv.conditionalLoadModule''}
          then rbind (compound hostName (dep_at dep 1)) (\<lambda>newDeps. Inr ((flattenRequireArray newDeps, []), dep))
          else if f \<in> {''require'', ''requireAfter'', ''hostenv.loadModule''}
          then Inr (([VReq (name_of (dep_at dep 1))], []), dep)
          else Inr (([], []), dep)
      | _ \<Rightarrow> Inr (([], []), dep))"

text \<open>
  The call of the function that an entry names. The name is looked up in \<open>dojo\<close>, after it was split at a dot; the functions \<open>requireAfter\<close>, \<open>requireAll\<close>, \<open>conditionalRequire\<close>,
  \<open>hostenv.moduleLoaded\<close> and \<open>hostenv.conditionalLoadModule\<close> are not defined, and a first element that is not a string has no method \<open>split\<close>.
\<close>

definition call_entry ::
  "(string \<Rightarrow> bool) \<Rightarrow> string \<Rightarrow> (string \<Rightarrow> string) \<Rightarrow> int \<Rightarrow> xd_dep \<Rightarrow> xd_loader \<Rightarrow> unit result \<times> xd_loader" where
  "call_entry capable hostName uri_of now dep s =
     (case dep of
        VStr f # args \<Rightarrow>
          if f = ''provide'' then (case dep_at args 0 of Some (VStr m) \<Rightarrow> (Inr (), xd_provide m s) | _ \<Rightarrow> (Inl TypeError, s))
          else if f \<in> {''require'', ''hostenv.loadModule''} then (Inr (), xd_require uri_of now (name_of (dep_at args 0)) s)
          else if f \<in> {''requireIf'', ''requireAfterIf''}
          then (case xd_holds capable (dep_at args 0) of
                  Inl e \<Rightarrow> (Inl e, s)
                | Inr c \<Rightarrow> (Inr (), if c then xd_require uri_of now (name_of (dep_at args 1)) s else s))
          else if f = ''kwCompoundRequire''
          then (case compound hostName (dep_at args 0) of
                  Inl e \<Rightarrow> (Inl e, s)
                | Inr vs \<Rightarrow> (Inr (), fold (\<lambda>v. xd_require uri_of now (name_of (Some v))) (flattenRequireArray vs) s))
          else (Inl TypeError, s)
      | _ \<Rightarrow> (Inl TypeError, s))"

text \<open>The loop over the entries.\<close>

fun package_deps ::
  "(string \<Rightarrow> bool) \<Rightarrow> string \<Rightarrow> (string \<Rightarrow> string) \<Rightarrow> int \<Rightarrow> xd_dep list \<Rightarrow> string list \<Rightarrow> xd_val list \<Rightarrow> xd_val list \<Rightarrow> xd_loader
    \<Rightarrow> (string list \<times> xd_val list \<times> xd_val list) result \<times> xd_loader" where
  "package_deps capable hostName uri_of now [] provideList requireList requireAfterList s = (Inr (provideList, requireList, requireAfterList), s)"
| "package_deps capable hostName uri_of now (dep # deps) provideList requireList requireAfterList s =
     (case (if dep_at dep 0 \<in> {Some (VStr ''provide''), Some (VStr ''hostenv.moduleLoaded'')}
            then Inr (provideList @ [name_of (dep_at dep 1)], requireList, requireAfterList, dep)
            else rbind (unpackXdDependency capable hostName dep) (\<lambda>((rs, as), dep). Inr (provideList, requireList @ rs, requireAfterList @ as, dep))) of
        Inl e \<Rightarrow> (Inl e, s)
      | Inr (provideList, requireList, requireAfterList, dep) \<Rightarrow>
          (case call_entry capable hostName uri_of now dep s of
             (Inl e, s) \<Rightarrow> (Inl e, s)
           | (Inr _, s) \<Rightarrow> package_deps capable hostName uri_of now deps provideList requireList requireAfterList s))"

definition packageLoaded ::
  "(string \<Rightarrow> bool) \<Rightarrow> string \<Rightarrow> (string \<Rightarrow> string) \<Rightarrow> int \<Rightarrow> xd_dep list \<Rightarrow> xd_loader \<Rightarrow> unit result \<times> xd_loader" where
  "packageLoaded capable hostName uri_of now deps s =
     (if deps = [] then (Inr (), s)
      else case package_deps capable hostName uri_of now deps [] [] [] s of
             (Inl e, s) \<Rightarrow> (Inl e, s)
           | (Inr (provideList, requireList, requireAfterList), s) \<Rightarrow>
               let ci = length (xdContents s);
                   s = s\<lparr>xdContents := xdContents s @ [False]\<rparr>;
                   pkg = \<lparr>pkg_requires = map (\<lambda>r. name_of (Some r)) requireList,
                          pkg_requiresAfter = map (\<lambda>r. name_of (Some r)) requireAfterList, contentIndex = ci\<rparr>;
                   s = fold (\<lambda>m s. s\<lparr>xdDepMap := (xdDepMap s)(m \<mapsto> pkg)\<rparr>) provideList s;
                   s = fold (\<lambda>m s. s\<lparr>xdInFlight := (xdInFlight s)(m \<mapsto> False)\<rparr>) provideList s
               in (Inr (), s))"

section \<open>Evaluation\<close>

definition eval_content :: "nat \<Rightarrow> xd_loader \<Rightarrow> xd_loader" where
  "eval_content i s =
     (if \<not> xdContents s ! i then s\<lparr>xdContents := (xdContents s)[i := True], xdEvaluated := xdEvaluated s @ [i]\<rparr> else s)"

text \<open>Both functions take a bound on nested calls of \<open>xdEvalReqs\<close>. In \<open>xdTraceReqs\<close> the first argument is the rest of the array.\<close>

fun xdEvalReqs :: "nat \<Rightarrow> xd_loader \<Rightarrow> xd_loader option"
  and xdTraceReqs :: "string list \<Rightarrow> nat \<Rightarrow> xd_loader \<Rightarrow> xd_loader option" where
  "xdEvalReqs 0 s = None"
| "xdEvalReqs (Suc n) s =
     (case reqChain s of
        [] \<Rightarrow> Some s
      | req # _ \<Rightarrow>
          Option.bind
            (case xdDepMap s req of
               None \<Rightarrow> Some s
             | Some pkg \<Rightarrow>
                 Option.bind (xdTraceReqs (pkg_requires pkg) n s) (\<lambda>s.
                   let s = eval_content (contentIndex pkg) s;
                       s = s\<lparr>xdDepMap := (xdDepMap s)(req := None)\<rparr>
                   in xdTraceReqs (pkg_requiresAfter pkg) n s))
            (\<lambda>s. xdEvalReqs n (s\<lparr>reqChain := tl (reqChain s)\<rparr>)))"
| "xdTraceReqs [] n s = Some s"
| "xdTraceReqs (nextReq # reqs) n s =
     (if nextReq \<noteq> [] \<and> nextReq \<notin> set (chainMarks s)
      then Option.bind (xdEvalReqs n (s\<lparr>reqChain := nextReq # reqChain s, chainMarks := nextReq # chainMarks s\<rparr>)) (xdTraceReqs reqs n)
      else xdTraceReqs reqs n s)"

fun walk_loop :: "nat \<Rightarrow> string list \<Rightarrow> xd_loader \<Rightarrow> xd_loader option" where
  "walk_loop n [] s = Some s"
| "walk_loop n (req # reqs) s =
     (if xdDepMap s req \<noteq> None
      then Option.bind (xdEvalReqs n (s\<lparr>reqChain := [req], chainMarks := [req]\<rparr>)) (walk_loop n reqs)
      else walk_loop n reqs s)"

definition xdWalkReqs :: "nat \<Rightarrow> xd_loader \<Rightarrow> xd_loader option" where
  "xdWalkReqs n s = walk_loop n (xdOrderedReqs s) s"

text \<open>The packages that were not evaluated by the walk.\<close>

definition eval_rest :: "xd_loader \<Rightarrow> xd_loader" where
  "eval_rest s = s\<lparr>xdEvaluated := xdEvaluated s @ filter (\<lambda>i. \<not> xdContents s ! i) [0..<length (xdContents s)]\<rparr>"

definition clearXdInterval :: "xd_loader \<Rightarrow> xd_loader" where
  "clearXdInterval s = s\<lparr>xdTimer := False\<rparr>"

text \<open>
  The function of the timer, with the time in milliseconds and the configured number of seconds, if any. The names of the message are in the order
  of the table, which is given by \<open>order\<close>. The result tells whether loading is finished.
\<close>

definition watchInFlightXDomain ::
  "bool \<Rightarrow> nat option \<Rightarrow> string list \<Rightarrow> int \<Rightarrow> nat \<Rightarrow> xd_loader \<Rightarrow> (bool result \<times> xd_loader) option" where
  "watchInFlightXDomain forceXDomain xdWaitSeconds order now n s =
     (let waitInterval = int (case xdWaitSeconds of Some w \<Rightarrow> if w = 0 then 30 else w | None \<Rightarrow> 30) * 1000;
          waiting = filter (\<lambda>m. xdInFlight s m = Some True) order
      in if xdStartTime s + waitInterval < now
         then Some (Inl (Raised (''Could not load cross-domain packages: '' @ concat (map (\<lambda>m. m @ '' '') waiting))), clearXdInterval s)
         else if waiting \<noteq> [] then Some (Inr False, s)
         else map_option (\<lambda>s. (Inr True, (resetXd forceXDomain (eval_rest s))\<lparr>xdInFlightCount := 0\<rparr>)) (xdWalkReqs n (clearXdInterval s)))"

end
