(* ===== verification/Xd_Proofs.thy ===== *)
theory Xd_Proofs
  imports Xd_Loader
begin

text \<open>
  Properties of loading across domains: the walk through the requirements ends, evaluates every package once and evaluates requirements first.
\<close>

section \<open>Requirements\<close>

type_synonym dep_map = "string \<rightharpoonup> xd_pkg"

definition pkg_names :: "xd_pkg \<Rightarrow> string set" where
  "pkg_names p = set (pkg_requires p) \<union> set (pkg_requiresAfter p)"

text \<open>The requirements of the packages, as a relation and as a set of names.\<close>

definition xd_edges :: "dep_map \<Rightarrow> (string \<times> string) set" where
  "xd_edges D = {(m, q). \<exists>p. D m = Some p \<and> q \<in> pkg_names p}"

definition xd_names :: "dep_map \<Rightarrow> string set" where
  "xd_names D = \<Union> (pkg_names ` ran D)"

lemma xd_edgesI: "D m = Some p \<Longrightarrow> q \<in> pkg_names p \<Longrightarrow> (m, q) \<in> xd_edges D"
  by (auto simp: xd_edges_def)

lemma pkg_names_subset: "D m = Some p \<Longrightarrow> pkg_names p \<subseteq> xd_names D"
  by (auto simp: xd_names_def ran_def)

text \<open>
  The order that the evaluation keeps: each evaluated content belongs to a package all of whose requirements were evaluated before, except those from which there
  is a way back to the package.
\<close>

definition xd_ordered :: "dep_map \<Rightarrow> nat list \<Rightarrow> bool" where
  "xd_ordered D l \<longleftrightarrow>
     (\<forall>k < length l. \<exists>r p. D r = Some p \<and> contentIndex p = l ! k
        \<and> (\<forall>q \<in> set (pkg_requires p). \<forall>p'. D q = Some p' \<and> q \<noteq> [] \<and> (q, r) \<notin> (xd_edges D)\<^sup>* \<longrightarrow> contentIndex p' \<in> set (take k l)))"

lemma xd_ordered_snoc:
  assumes "xd_ordered D l" "D r = Some p"
    and "\<And>q p'. q \<in> set (pkg_requires p) \<Longrightarrow> D q = Some p' \<Longrightarrow> q \<noteq> [] \<Longrightarrow> (q, r) \<notin> (xd_edges D)\<^sup>* \<Longrightarrow> contentIndex p' \<in> set l"
  shows "xd_ordered D (l @ [contentIndex p])"
  unfolding xd_ordered_def
proof (intro allI impI)
  fix k assume k: "k < length (l @ [contentIndex p])"
  show "\<exists>r p'. D r = Some p' \<and> contentIndex p' = (l @ [contentIndex p]) ! k
    \<and> (\<forall>q \<in> set (pkg_requires p'). \<forall>p''. D q = Some p'' \<and> q \<noteq> [] \<and> (q, r) \<notin> (xd_edges D)\<^sup>* \<longrightarrow> contentIndex p'' \<in> set (take k (l @ [contentIndex p])))"
  proof (cases "k = length l")
    case True
    then show ?thesis using assms(2,3) by (intro exI [of _ r] exI [of _ p]) auto
  next
    case False
    then show ?thesis using assms(1) k by (auto simp: xd_ordered_def nth_append)
  qed
qed

section \<open>The invariant of the walk\<close>

text \<open>\<open>D\<close> is the table of dependencies before the walk, and \<open>c\<close> the number of contents.\<close>

definition walk_ok :: "dep_map \<Rightarrow> nat \<Rightarrow> xd_loader \<Rightarrow> bool" where
  "walk_ok D c s \<longleftrightarrow>
     (\<forall>m. xdDepMap s m = D m \<or> xdDepMap s m = None)
     \<and> successively (\<lambda>x y. (y, x) \<in> xd_edges D) (reqChain s)
     \<and> set (reqChain s) \<subseteq> set (chainMarks s)
     \<and> (\<forall>m \<in> set (chainMarks s). m \<in> set (reqChain s) \<or> xdDepMap s m = None)
     \<and> (\<forall>m p. D m = Some p \<and> xdDepMap s m = None \<longrightarrow> contentIndex p \<in> set (xdEvaluated s))
     \<and> length (xdContents s) = c \<and> (\<forall>i < c. xdContents s ! i \<longleftrightarrow> i \<in> set (xdEvaluated s))
     \<and> distinct (xdEvaluated s) \<and> set (xdEvaluated s) \<subseteq> {..<c} \<and> xd_ordered D (xdEvaluated s)"

definition deps_ok :: "dep_map \<Rightarrow> nat \<Rightarrow> bool" where
  "deps_ok D c \<longleftrightarrow> (\<forall>m p. D m = Some p \<longrightarrow> contentIndex p < c)"

definition potential :: "dep_map \<Rightarrow> xd_loader \<Rightarrow> nat" where
  "potential D s = 2 * card (xd_names D - set (chainMarks s)) + length (reqChain s)"

lemma chain_path:
  assumes "successively (\<lambda>x y. (y, x) \<in> E) (x # ys)" "q \<in> set (x # ys)"
  shows "(q, x) \<in> E\<^sup>*"
  using assms
proof (induction ys arbitrary: x)
  case (Cons y ys)
  show ?case
  proof (cases "q = x")
    case False
    then have "(q, y) \<in> E\<^sup>*" "(y, x) \<in> E" using Cons by (auto simp: successively_Cons)
    then show ?thesis by simp
  qed simp
qed simp

lemma walk_ok_push:
  assumes "walk_ok D c s" "reqChain s = [] \<or> (hd (reqChain s), q) \<in> xd_edges D"
  shows "walk_ok D c (s\<lparr>reqChain := q # reqChain s, chainMarks := q # chainMarks s\<rparr>)"
  using assms by (cases "reqChain s") (auto simp: walk_ok_def)

lemma walk_ok_pop:
  assumes "walk_ok D c s" "reqChain s = [] \<or> xdDepMap s (hd (reqChain s)) = None"
  shows "walk_ok D c (s\<lparr>reqChain := tl (reqChain s)\<rparr>)"
  using assms by (cases "reqChain s") (auto simp: walk_ok_def successively_Cons)

lemma walk_ok_eval:
  assumes "walk_ok D c s" "deps_ok D c" "reqChain s = req # chain" "xdDepMap s req = Some p"
    and "\<And>q. q \<in> set (pkg_requires p) \<Longrightarrow> q = [] \<or> q \<in> set (chainMarks s)"
  shows "walk_ok D c ((eval_content (contentIndex p) s)\<lparr>xdDepMap := (xdDepMap s)(req := None)\<rparr>)"
proof -
  have D: "D req = Some p" using assms(1,4) unfolding walk_ok_def by (metis option.distinct(1))
  have i: "contentIndex p < c" using assms(2) D by (auto simp: deps_ok_def)
  have "contentIndex p' \<in> set (xdEvaluated s)"
    if "q \<in> set (pkg_requires p)" "D q = Some p'" "q \<noteq> []" "(q, req) \<notin> (xd_edges D)\<^sup>*" for q p'
  proof -
    have "q \<notin> set (reqChain s)" using chain_path [of "xd_edges D" req chain q] assms(1,3) that(4) by (auto simp: walk_ok_def)
    then have "xdDepMap s q = None" using assms(1) assms(5) [OF that(1)] that(3) by (auto simp: walk_ok_def)
    then show ?thesis using assms(1) that(2) by (auto simp: walk_ok_def)
  qed
  then have "xd_ordered D (xdEvaluated s @ [contentIndex p])" using assms(1) D by (intro xd_ordered_snoc) (auto simp: walk_ok_def)
  then show ?thesis using assms(1,3) D i by (auto simp: walk_ok_def eval_content_def nth_list_update)
qed

section \<open>The walk ends\<close>

lemma potential_push:
  assumes "finite (xd_names D)" "q \<in> xd_names D" "q \<notin> set (chainMarks s)"
  shows "potential D (s\<lparr>reqChain := q # reqChain s, chainMarks := q # chainMarks s\<rparr>) < potential D s"
proof -
  have "xd_names D - set (chainMarks s) = insert q (xd_names D - insert q (set (chainMarks s)))" using assms(2,3) by auto
  then have "card (xd_names D - set (chainMarks s)) = Suc (card (xd_names D - insert q (set (chainMarks s))))"
    using assms(1) by (metis card_insert_disjoint Diff_iff finite_Diff insertI1)
  then show ?thesis by (simp add: potential_def)
qed

lemma potential_marks:
  assumes "finite (xd_names D)" "set (chainMarks s) \<subseteq> set (chainMarks s')" "length (reqChain s') \<le> length (reqChain s)"
  shows "potential D s' \<le> potential D s"
proof -
  have "card (xd_names D - set (chainMarks s')) \<le> card (xd_names D - set (chainMarks s))" using assms(1,2) by (intro card_mono) auto
  then show ?thesis using assms(3) by (simp add: potential_def)
qed

text \<open>What a call of \<open>xdEvalReqs\<close> promises to \<open>xdTraceReqs\<close>: it ends, keeps the invariant and leaves the chain empty.\<close>

definition eval_done :: "dep_map \<Rightarrow> nat \<Rightarrow> xd_loader \<Rightarrow> xd_loader option \<Rightarrow> bool" where
  "eval_done D c s r \<longleftrightarrow> (\<exists>s'. r = Some s' \<and> walk_ok D c s' \<and> reqChain s' = [] \<and> set (chainMarks s) \<subseteq> set (chainMarks s'))"

lemma trace_done:
  assumes "finite (xd_names D)" and eval: "\<And>s. walk_ok D c s \<Longrightarrow> potential D s < n \<Longrightarrow> eval_done D c s (xdEvalReqs n s)"
    and "walk_ok D c s" "potential D s \<le> n" "set reqs \<subseteq> xd_names D" "reqChain s = [] \<or> (\<forall>q \<in> set reqs. (hd (reqChain s), q) \<in> xd_edges D)"
  shows "\<exists>s'. xdTraceReqs reqs n s = Some s' \<and> walk_ok D c s' \<and> set (chainMarks s) \<subseteq> set (chainMarks s')
    \<and> (reqChain s' = [] \<or> s' = s \<and> (\<forall>q \<in> set reqs. q = [] \<or> q \<in> set (chainMarks s)))"
  using assms(3-6)
proof (induction reqs arbitrary: s)
  case (Cons q reqs)
  show ?case
  proof (cases "q \<noteq> [] \<and> q \<notin> set (chainMarks s)")
    case True
    let ?s = "s\<lparr>reqChain := q # reqChain s, chainMarks := q # chainMarks s\<rparr>"
    have "walk_ok D c ?s" using walk_ok_push Cons.prems(1,4) by auto
    moreover have "potential D ?s < n" using potential_push [OF assms(1), of q s] True Cons.prems(2,3) by simp
    ultimately obtain s1 where s1: "xdEvalReqs n ?s = Some s1" "walk_ok D c s1" "reqChain s1 = []" "set (q # chainMarks s) \<subseteq> set (chainMarks s1)"
      using eval [of ?s] by (auto simp: eval_done_def)
    have "potential D s1 \<le> n" using potential_marks [OF assms(1), of s s1] s1(3,4) Cons.prems(2) by simp
    from Cons.IH [OF s1(2) this] s1(3) Cons.prems(3)
    obtain s' where "xdTraceReqs reqs n s1 = Some s'" "walk_ok D c s'" "set (chainMarks s1) \<subseteq> set (chainMarks s')" "reqChain s' = [] \<or> s' = s1"
      by auto
    then show ?thesis using True s1 by auto
  next
    case False
    then show ?thesis using Cons by auto
  qed
qed simp

text \<open>The part of \<open>xdEvalReqs\<close> between reading the end of the chain and removing it.\<close>

definition null_dep :: "string \<Rightarrow> xd_loader \<Rightarrow> xd_loader" where
  "null_dep req s = s\<lparr>xdDepMap := (xdDepMap s)(req := None)\<rparr>"

definition process :: "nat \<Rightarrow> string \<Rightarrow> xd_loader \<Rightarrow> xd_loader option" where
  "process n req s =
     (case xdDepMap s req of
        None \<Rightarrow> Some s
      | Some pkg \<Rightarrow>
          Option.bind (xdTraceReqs (pkg_requires pkg) n s) (\<lambda>s.
            xdTraceReqs (pkg_requiresAfter pkg) n (null_dep req (eval_content (contentIndex pkg) s))))"

lemma xdEvalReqs_process:
  "reqChain s = req # chain \<Longrightarrow> xdEvalReqs (Suc n) s = Option.bind (process n req s) (\<lambda>s. xdEvalReqs n (s\<lparr>reqChain := tl (reqChain s)\<rparr>))"
  by (cases "xdDepMap s req") (simp_all add: process_def null_dep_def Let_def)

lemma eval_content_fields [simp]:
  "xdDepMap (eval_content i s) = xdDepMap s" "reqChain (eval_content i s) = reqChain s" "chainMarks (eval_content i s) = chainMarks s"
  by (simp_all add: eval_content_def)

lemma null_dep_fields [simp]: "reqChain (null_dep req s) = reqChain s" "chainMarks (null_dep req s) = chainMarks s" "xdDepMap (null_dep req s) req = None"
  by (simp_all add: null_dep_def)

lemma walk_ok_D: "walk_ok D c s \<Longrightarrow> xdDepMap s req = Some p \<Longrightarrow> D req = Some p"
  unfolding walk_ok_def by (metis option.distinct(1))

text \<open>Evaluating the package, after its requirements were traced: when a nested call has emptied the chain, it was done there.\<close>

lemma walk_ok_evaluated:
  assumes "walk_ok D c s" "deps_ok D c" "reqChain s = req # chain" "xdDepMap s req = Some p" "walk_ok D c s1" "set (chainMarks s) \<subseteq> set (chainMarks s1)"
    and "reqChain s1 = [] \<or> s1 = s \<and> (\<forall>q \<in> set (pkg_requires p). q = [] \<or> q \<in> set (chainMarks s))"
  shows "walk_ok D c (null_dep req (eval_content (contentIndex p) s1))"
proof (cases "reqChain s1 = []")
  case True
  have D: "D req = Some p" using walk_ok_D assms(1,4) by blast
  have "req \<in> set (chainMarks s1)" using assms(1,3,6) by (auto simp: walk_ok_def)
  then have gone: "xdDepMap s1 req = None" using assms(5) True by (auto simp: walk_ok_def)
  then have "contentIndex p \<in> set (xdEvaluated s1)" using assms(5) D by (auto simp: walk_ok_def)
  then have "eval_content (contentIndex p) s1 = s1" using assms(2,5) D by (auto simp: walk_ok_def eval_content_def deps_ok_def)
  then show ?thesis using gone assms(5) by (simp add: null_dep_def fun_upd_idem)
next
  case False
  then have "s1 = s" "\<forall>q \<in> set (pkg_requires p). q = [] \<or> q \<in> set (chainMarks s)" using assms(7) by auto
  then show ?thesis using walk_ok_eval [OF assms(1-4)] by (simp add: null_dep_def)
qed

lemma process_done:
  assumes "finite (xd_names D)" "deps_ok D c" and eval: "\<And>s. walk_ok D c s \<Longrightarrow> potential D s < n \<Longrightarrow> eval_done D c s (xdEvalReqs n s)"
    and "walk_ok D c s" "potential D s \<le> n" "reqChain s = req # chain"
  shows "\<exists>s'. process n req s = Some s' \<and> walk_ok D c s' \<and> set (chainMarks s) \<subseteq> set (chainMarks s')
    \<and> (reqChain s' = [] \<or> reqChain s' = reqChain s \<and> xdDepMap s' req = None)"
proof (cases "xdDepMap s req")
  case None
  then show ?thesis using assms(4) by (simp add: process_def)
next
  case (Some p)
  then have D: "D req = Some p" using walk_ok_D assms(4) by blast
  have names: "set (pkg_requires p) \<subseteq> xd_names D" "set (pkg_requiresAfter p) \<subseteq> xd_names D"
    using pkg_names_subset [of D req p, OF D] by (auto simp: pkg_names_def)
  have edges: "\<forall>q \<in> set (pkg_requires p). (req, q) \<in> xd_edges D" "\<forall>q \<in> set (pkg_requiresAfter p). (req, q) \<in> xd_edges D"
    using xd_edgesI [of D req p, OF D] by (auto simp: pkg_names_def)
  note tr = trace_done [OF assms(1) eval]
  obtain s1 where s1: "xdTraceReqs (pkg_requires p) n s = Some s1" "walk_ok D c s1" "set (chainMarks s) \<subseteq> set (chainMarks s1)"
    "reqChain s1 = [] \<or> s1 = s \<and> (\<forall>q \<in> set (pkg_requires p). q = [] \<or> q \<in> set (chainMarks s))"
    using tr [OF _ _ assms(4,5) names(1)] edges(1) assms(6) by auto
  let ?s2 = "null_dep req (eval_content (contentIndex p) s1)"
  have s2: "walk_ok D c ?s2" using walk_ok_evaluated [OF assms(4,2,6) Some s1(2-4)] .
  have "potential D ?s2 \<le> n" using potential_marks [OF assms(1), of s ?s2] s1(3,4) assms(5) by auto
  then obtain s3 where "xdTraceReqs (pkg_requiresAfter p) n ?s2 = Some s3" "walk_ok D c s3" "set (chainMarks ?s2) \<subseteq> set (chainMarks s3)"
    "reqChain s3 = [] \<or> s3 = ?s2"
    using tr [OF _ _ s2 _ names(2)] edges(2) s1(4) assms(6) by auto
  then show ?thesis using Some s1 by (auto simp: process_def)
qed

lemma xdEvalReqs_done:
  assumes "finite (xd_names D)" "deps_ok D c"
  shows "walk_ok D c s \<Longrightarrow> potential D s < n \<Longrightarrow> eval_done D c s (xdEvalReqs n s)"
proof (induction n arbitrary: s)
  case (Suc n)
  show ?case
  proof (cases "reqChain s")
    case Nil
    then show ?thesis using Suc.prems(1) by (simp add: eval_done_def)
  next
    case (Cons req chain)
    then obtain s' where s': "process n req s = Some s'" "walk_ok D c s'" "set (chainMarks s) \<subseteq> set (chainMarks s')"
      "reqChain s' = [] \<or> reqChain s' = reqChain s \<and> xdDepMap s' req = None"
      using process_done [OF assms Suc.IH Suc.prems(1) _ Cons] Suc.prems(2) by auto
    let ?t = "s'\<lparr>reqChain := tl (reqChain s')\<rparr>"
    have "walk_ok D c ?t" using walk_ok_pop [OF s'(2)] s'(4) Cons by auto
    moreover have "card (xd_names D - set (chainMarks s')) \<le> card (xd_names D - set (chainMarks s))"
      using assms(1) s'(3) by (intro card_mono) auto
    then have "potential D ?t < n" using s'(4) Cons Suc.prems(2) by (auto simp: potential_def)
    ultimately have "eval_done D c ?t (xdEvalReqs n ?t)" by (rule Suc.IH)
    then show ?thesis using s'(1,3) unfolding xdEvalReqs_process [OF Cons] eval_done_def by auto
  qed
qed simp

section \<open>Packages that arrive\<close>

text \<open>A table is good when the indices are those of contents, and names with the same contents have the same requirements.\<close>

definition same_pkg :: "dep_map \<Rightarrow> bool" where
  "same_pkg D \<longleftrightarrow> (\<forall>m m' p p'. D m = Some p \<and> D m' = Some p' \<and> contentIndex p = contentIndex p' \<longrightarrow> p = p')"

definition tables_ok :: "xd_loader \<Rightarrow> bool" where
  "tables_ok s \<longleftrightarrow> finite (dom (xdDepMap s)) \<and> deps_ok (xdDepMap s) (length (xdContents s)) \<and> same_pkg (xdDepMap s) \<and> xdEvaluated s = [] \<and> list_all Not (xdContents s)"

lemma finite_xd_names: "finite (dom D) \<Longrightarrow> finite (xd_names D)"
  by (auto simp: xd_names_def pkg_names_def finite_ran)

datatype xd_event = Requested string int | Arrived "xd_dep list" int

text \<open>The state after some requests of the page and some packages that arrived, in the order in which they happened.\<close>

fun xd_happens :: "(string \<Rightarrow> bool) \<Rightarrow> string \<Rightarrow> (string \<Rightarrow> string) \<Rightarrow> xd_event \<Rightarrow> xd_loader \<Rightarrow> xd_loader" where
  "xd_happens capable hostName uri_of (Requested m now) s = xd_require uri_of now m s"
| "xd_happens capable hostName uri_of (Arrived deps now) s = snd (packageLoaded capable hostName uri_of now deps s)"

definition xd_init :: xd_loader where
  "xd_init = \<lparr>isXDomain = False, xdTimer = False, xdStartTime = 0, xdInFlight = Map.empty, xdOrderedReqs = [], xdDepMap = Map.empty, xdContents = [],
     xdLoadedUris = [], xdScripts = [], xdProvided = [], xdInFlightCount = 0, xdEvaluated = [], reqChain = [], chainMarks = []\<rparr>"

text \<open>The fields that requests do not touch.\<close>

definition tables :: "xd_loader \<Rightarrow> dep_map \<times> bool list \<times> nat list" where
  "tables s = (xdDepMap s, xdContents s, xdEvaluated s)"

lemma tables_ok_cong: "tables s = tables s' \<Longrightarrow> tables_ok s = tables_ok s'"
  by (simp add: tables_def tables_ok_def)

lemma tables_require [simp]: "tables (xd_require uri_of now m s) = tables s"
  by (simp add: tables_def xd_require_def xd_loadUri_def Let_def)

lemma tables_requires [simp]: "tables (fold (\<lambda>v. xd_require uri_of now (f v)) ms s) = tables s"
  by (induction ms arbitrary: s) simp_all

lemma tables_provide [simp]: "tables (xd_provide m s) = tables s"
  by (simp add: tables_def xd_provide_def)

lemma tables_call: "tables (snd (call_entry capable hostName uri_of now dep s)) = tables s"
  by (simp add: call_entry_def split: list.split xd_val.split sum.split option.split)

lemma tables_deps: "package_deps capable hostName uri_of now deps ps rs as s = (r, s') \<Longrightarrow> tables s' = tables s"
proof (induction deps arbitrary: ps rs as s)
  case (Cons d deps)
  have "call_entry capable hostName uri_of now d' s = (r', t) \<Longrightarrow> tables t = tables s" for d' r' t
    using tables_call [of capable hostName uri_of now d' s] by simp
  then show ?case using Cons by (fastforce split: sum.splits prod.splits)
qed simp

lemma fold_dep_fields [simp]:
  "xdDepMap (fold (\<lambda>m s. s\<lparr>xdDepMap := (xdDepMap s)(m \<mapsto> p)\<rparr>) ms s) = (\<lambda>m. if m \<in> set ms then Some p else xdDepMap s m)"
  "xdContents (fold (\<lambda>m s. s\<lparr>xdDepMap := (xdDepMap s)(m \<mapsto> p)\<rparr>) ms s) = xdContents s"
  "xdEvaluated (fold (\<lambda>m s. s\<lparr>xdDepMap := (xdDepMap s)(m \<mapsto> p)\<rparr>) ms s) = xdEvaluated s"
  by (induction ms arbitrary: s) auto

lemma tables_inFlight [simp]: "tables (s\<lparr>xdInFlight := f\<rparr>) = tables s"
  by (simp add: tables_def)

lemma fold_inFlight [simp]: "tables (fold (\<lambda>m s. s\<lparr>xdInFlight := (xdInFlight s)(m \<mapsto> b)\<rparr>) ms s) = tables s"
  by (induction ms arbitrary: s) simp_all

lemma tables_ok_packageLoaded:
  assumes "tables_ok s"
  shows "tables_ok (snd (packageLoaded capable hostName uri_of now deps s))"
proof (cases "deps = []")
  case False
  obtain r s1 where d: "package_deps capable hostName uri_of now deps [] [] [] s = (r, s1)"
    by (cases "package_deps capable hostName uri_of now deps [] [] [] s")
  have s1: "tables s1 = tables s" using tables_deps [OF d] .
  then have ok: "tables_ok s1" using assms tables_ok_cong by blast
  show ?thesis
  proof (cases r)
    case (Inl e)
    then show ?thesis using ok d False by (simp add: packageLoaded_def)
  next
    case (Inr x)
    obtain ps rs as where x: "x = (ps, rs, as)" by (cases x)
    let ?p = "\<lparr>pkg_requires = map (\<lambda>r. name_of (Some r)) rs, pkg_requiresAfter = map (\<lambda>r. name_of (Some r)) as, contentIndex = length (xdContents s1)\<rparr>"
    let ?s = "fold (\<lambda>m s. s\<lparr>xdDepMap := (xdDepMap s)(m \<mapsto> ?p)\<rparr>) ps (s1\<lparr>xdContents := xdContents s1 @ [False]\<rparr>)"
    have "dom (xdDepMap ?s) \<subseteq> dom (xdDepMap s1) \<union> set ps" by (auto split: if_splits)
    then have "finite (dom (xdDepMap ?s))" using ok finite_subset by (auto simp: tables_ok_def)
    moreover have "deps_ok (xdDepMap ?s) (length (xdContents ?s))" using ok by (auto simp: tables_ok_def deps_ok_def less_Suc_eq)
    moreover have "same_pkg (xdDepMap ?s)" using ok by (fastforce simp: tables_ok_def deps_ok_def same_pkg_def split: if_splits)
    ultimately have "tables_ok ?s" using ok by (simp add: tables_ok_def)
    moreover have "tables (snd (packageLoaded capable hostName uri_of now deps s)) = tables ?s"
      using d Inr x False by (simp add: packageLoaded_def Let_def)
    ultimately show ?thesis using tables_ok_cong by blast
  qed
qed (use assms in \<open>simp add: packageLoaded_def\<close>)

lemma tables_ok_events: "tables_ok s \<Longrightarrow> tables_ok (fold (xd_happens capable hostName uri_of) es s)"
proof (induction es arbitrary: s)
  case (Cons e es)
  have "tables_ok (xd_happens capable hostName uri_of e s)"
    using Cons.prems tables_ok_packageLoaded tables_ok_cong [OF tables_require] by (cases e) simp_all
  then show ?case using Cons.IH by simp
qed simp

lemma tables_ok_init: "tables_ok xd_init"
  by (simp add: tables_ok_def xd_init_def deps_ok_def same_pkg_def)

section \<open>The end of loading\<close>

lemma dep_map_shrinks:
  "xdEvalReqs n s = Some s' \<Longrightarrow> xdDepMap s m = None \<Longrightarrow> xdDepMap s' m = None"
  "xdTraceReqs reqs n s = Some s' \<Longrightarrow> xdDepMap s m = None \<Longrightarrow> xdDepMap s' m = None"
proof (induction n s and reqs n s arbitrary: s' and s' rule: xdEvalReqs_xdTraceReqs.induct)
  case (2 n s)
  show ?case
  proof (cases "reqChain s")
    case (Cons req chain)
    show ?thesis
    proof (cases "xdDepMap s req")
      case None
      then show ?thesis using 2 Cons by auto
    next
      case (Some p)
      then show ?thesis using 2 Cons by (fastforce simp: Let_def bind_eq_Some_conv)
    qed
  qed (use 2 in auto)
qed (auto simp: bind_eq_Some_conv split: if_splits)

lemma walk_ok_restart:
  assumes "walk_ok D c (s\<lparr>reqChain := [], chainMarks := []\<rparr>)"
  shows "walk_ok D c (s\<lparr>reqChain := [req], chainMarks := [req]\<rparr>)"
  using assms by (auto simp: walk_ok_def)

lemma walk_ok_stop:
  assumes "walk_ok D c s"
  shows "walk_ok D c (s\<lparr>reqChain := [], chainMarks := []\<rparr>)"
  using assms by (auto simp: walk_ok_def)

lemma walk_done:
  assumes "finite (xd_names D)" "deps_ok D c" "2 * card (xd_names D) + 1 < n"
  shows "walk_ok D c (s\<lparr>reqChain := [], chainMarks := []\<rparr>) \<Longrightarrow>
    \<exists>s'. walk_loop n reqs s = Some s' \<and> walk_ok D c (s'\<lparr>reqChain := [], chainMarks := []\<rparr>)
      \<and> (\<forall>m. xdDepMap s m = None \<or> m \<in> set reqs \<longrightarrow> xdDepMap s' m = None)"
proof (induction reqs arbitrary: s)
  case (Cons req reqs)
  show ?case
  proof (cases "xdDepMap s req")
    case None
    then show ?thesis using Cons.IH [OF Cons.prems] by auto
  next
    case (Some p)
    let ?s = "s\<lparr>reqChain := [req], chainMarks := [req]\<rparr>"
    have "card (xd_names D - {req}) \<le> card (xd_names D)" using assms(1) by (intro card_mono) auto
    then have "potential D ?s < n" using assms(3) by (simp add: potential_def)
    then obtain s1 where s1: "xdEvalReqs n ?s = Some s1" "walk_ok D c s1" "reqChain s1 = []" "req \<in> set (chainMarks s1)"
      using xdEvalReqs_done [OF assms(1,2) walk_ok_restart [OF Cons.prems]] by (auto simp: eval_done_def)
    have "xdDepMap s1 req = None" using s1(2-4) by (auto simp: walk_ok_def)
    moreover have "xdDepMap s m = None \<Longrightarrow> xdDepMap s1 m = None" for m using dep_map_shrinks(1) [OF s1(1), of m] by simp
    moreover obtain s' where "walk_loop n reqs s1 = Some s'" "walk_ok D c (s'\<lparr>reqChain := [], chainMarks := []\<rparr>)"
      "\<forall>m. xdDepMap s1 m = None \<or> m \<in> set reqs \<longrightarrow> xdDepMap s' m = None"
      using Cons.IH [OF walk_ok_stop [OF s1(2)]] by auto
    ultimately show ?thesis using Some s1(1) by auto
  qed
qed simp

lemma walk_ok_start: "tables_ok s \<Longrightarrow> walk_ok (xdDepMap s) (length (xdContents s)) (s\<lparr>reqChain := [], chainMarks := []\<rparr>)"
  by (auto simp: tables_ok_def walk_ok_def xd_ordered_def list_all_length)

lemma xdWalkReqs_done:
  assumes "tables_ok s" "2 * card (xd_names (xdDepMap s)) + 1 < n"
  shows "\<exists>s'. xdWalkReqs n s = Some s' \<and> walk_ok (xdDepMap s) (length (xdContents s)) (s'\<lparr>reqChain := [], chainMarks := []\<rparr>)
    \<and> (\<forall>m \<in> set (xdOrderedReqs s). xdDepMap s' m = None)"
proof -
  have "finite (xd_names (xdDepMap s))" "deps_ok (xdDepMap s) (length (xdContents s))" using assms(1) finite_xd_names by (auto simp: tables_ok_def)
  then show ?thesis using walk_done [OF _ _ assms(2) walk_ok_start [OF assms(1)]] unfolding xdWalkReqs_def by blast
qed

text \<open>
  Claim C38. The table of dependencies is well formed after all requests and arrivals: each entry refers to contents that are there, which were not evaluated, and two names that refer
  to the same contents have the same requirements.
\<close>

theorem xd_tables_well_formed:
  assumes "s = fold (xd_happens capable hostName uri_of) es xd_init" "xdDepMap s m = Some p"
  shows "contentIndex p < length (xdContents s) \<and> \<not> xdContents s ! contentIndex p
    \<and> (\<forall>m' p'. xdDepMap s m' = Some p' \<and> contentIndex p' = contentIndex p \<longrightarrow> p' = p)"
proof -
  have "tables_ok s" unfolding assms(1) by (rule tables_ok_events [OF tables_ok_init])
  then have "contentIndex p < length (xdContents s)" "same_pkg (xdDepMap s)" "list_all Not (xdContents s)"
    using assms(2) by (auto simp: tables_ok_def deps_ok_def)
  then show ?thesis using assms(2) unfolding same_pkg_def by (auto simp: list_all_length)
qed

text \<open>
  Claim C13. Whatever was requested and whatever packages have arrived in whatever order, the walk through the requirements ends, evaluates no package twice and
  evaluates every package that has registered under a name in the list of requests (a package file, requested as \<open>a.*\<close>, is listed there as \<open>a\<close>; when it registers only as \<open>a.*\<close> and
  no other package requires it, the walk leaves it to the end of the round). When a package is evaluated, all its requirements whose packages have arrived, other than those to be met
  after it, were evaluated before, except those that require the package themselves, directly or not. Twice the number of names in the tables bounds the nesting of the calls.
\<close>

theorem xd_walk_in_order:
  assumes "s = fold (xd_happens capable hostName uri_of) es xd_init" "2 * card (xd_names (xdDepMap s)) + 1 < n"
  shows "\<exists>s'. xdWalkReqs n s = Some s' \<and> distinct (xdEvaluated s')
    \<and> (\<forall>m \<in> set (xdOrderedReqs s). \<forall>p. xdDepMap s m = Some p \<longrightarrow> contentIndex p \<in> set (xdEvaluated s'))
    \<and> xd_ordered (xdDepMap s) (xdEvaluated s')"
proof -
  have "tables_ok s" unfolding assms(1) by (rule tables_ok_events [OF tables_ok_init])
  from xdWalkReqs_done [OF this assms(2)]
  obtain s' where "xdWalkReqs n s = Some s'" "walk_ok (xdDepMap s) (length (xdContents s)) (s'\<lparr>reqChain := [], chainMarks := []\<rparr>)"
    "\<forall>m \<in> set (xdOrderedReqs s). xdDepMap s' m = None"
    by blast
  then show ?thesis by (auto simp: walk_ok_def)
qed

text \<open>
  Claim C31. When nothing is in flight and the time is not over, the function of the timer finishes the round: every package that has arrived was evaluated exactly
  once, those that nothing required at the end, and the tables, the timer and the count of requests are reset.
\<close>

theorem xd_watch_evaluates_all:
  assumes "s = fold (xd_happens capable hostName uri_of) es xd_init" "2 * card (xd_names (xdDepMap s)) + 1 < n"
    and "\<forall>m. xdInFlight s m \<noteq> Some True" "now \<le> xdStartTime s + 30000"
  shows "\<exists>s'. watchInFlightXDomain forced None order now n s = Some (Inr True, s')
    \<and> distinct (xdEvaluated s') \<and> set (xdEvaluated s') = {..<length (xdContents s)}
    \<and> \<not> xdTimer s' \<and> xdInFlightCount s' = 0 \<and> xdContents s' = [] \<and> xdOrderedReqs s' = []"
proof -
  have ok: "tables_ok s" unfolding assms(1) by (rule tables_ok_events [OF tables_ok_init])
  have "tables (clearXdInterval s) = tables s" by (simp add: tables_def clearXdInterval_def)
  then have cok: "tables_ok (clearXdInterval s)" using ok tables_ok_cong by blast
  have "xdDepMap (clearXdInterval s) = xdDepMap s" "xdContents (clearXdInterval s) = xdContents s" by (simp_all add: clearXdInterval_def)
  with xdWalkReqs_done [OF cok] assms(2)
  obtain t where t: "xdWalkReqs n (clearXdInterval s) = Some t" "walk_ok (xdDepMap s) (length (xdContents s)) (t\<lparr>reqChain := [], chainMarks := []\<rparr>)"
    by auto
  have evald: "distinct (xdEvaluated (eval_rest t))" "set (xdEvaluated (eval_rest t)) = {..<length (xdContents s)}"
    using t(2) by (auto simp: walk_ok_def eval_rest_def)
  moreover have "watchInFlightXDomain forced None order now n s = Some (Inr True, (resetXd forced (eval_rest t))\<lparr>xdInFlightCount := 0\<rparr>)"
    using assms(3,4) t(1) by (simp add: watchInFlightXDomain_def Let_def)
  ultimately show ?thesis by (simp add: resetXd_def)
qed

section \<open>Functions that are not defined\<close>

definition undefined_entries :: "string set" where
  "undefined_entries = {''requireAll'', ''requireAfter'', ''conditionalRequire'', ''hostenv.moduleLoaded'', ''hostenv.conditionalLoadModule''}"

lemma inFlight_require: "xdInFlight s m = Some True \<Longrightarrow> xdInFlight (xd_require uri_of now q s) m = Some True"
  by (simp add: xd_require_def xd_loadUri_def Let_def)

lemma inFlight_requires: "xdInFlight s m = Some True \<Longrightarrow> xdInFlight (fold (\<lambda>v. xd_require uri_of now (f v)) qs s) m = Some True"
  by (induction qs arbitrary: s) (simp_all add: inFlight_require)

lemma inFlight_call: "xdInFlight s m = Some True \<Longrightarrow> xdInFlight (snd (call_entry capable hostName uri_of now dep s)) m = Some True"
  by (simp add: call_entry_def xd_provide_def inFlight_require inFlight_requires split: list.split xd_val.split sum.split option.split)

lemma errors_are_type_errors:
  "xd_holds capable c = Inl e \<Longrightarrow> e = TypeError" "compound hostName v = Inl e \<Longrightarrow> e = TypeError"
  "unpackXdDependency capable hostName dep = Inl e \<Longrightarrow> e = TypeError"
  "call_entry capable hostName uri_of now dep s = (Inl e, s') \<Longrightarrow> e = TypeError"
proof -
  show h: "xd_holds capable c = Inl e \<Longrightarrow> e = TypeError" for c by (auto simp: xd_holds_def split: option.splits xd_val.splits)
  show m: "compound hostName v = Inl e \<Longrightarrow> e = TypeError" for v by (auto simp: compound_def Let_def split: option.splits xd_val.splits)
  show "unpackXdDependency capable hostName dep = Inl e \<Longrightarrow> e = TypeError"
    using h m by (auto simp: unpackXdDependency_def rbind_def Let_def split: list.splits xd_val.splits if_splits sum.splits)
  show "call_entry capable hostName uri_of now dep s = (Inl e, s') \<Longrightarrow> e = TypeError"
    using h m by (auto simp: call_entry_def split: list.splits xd_val.splits if_splits sum.splits option.splits)
qed

text \<open>The entry of \<open>requireAll\<close> does not start with a name any more when its function is called; the others name functions that are not there.\<close>

lemma undefined_entry_raises:
  assumes "f \<in> undefined_entries"
  shows "dep_at (VStr f # args) 0 = Some (VStr ''hostenv.moduleLoaded'') \<or>
    (\<exists>rs as dep. unpackXdDependency capable hostName (VStr f # args) = Inr ((rs, as), dep) \<and> call_entry capable hostName uri_of now dep s = (Inl TypeError, s))
    \<or> unpackXdDependency capable hostName (VStr f # args) = Inl TypeError"
proof (cases "f = ''requireAll''")
  case True
  have "call_entry capable hostName uri_of now (flattenRequireArray args) s = (Inl TypeError, s)"
    by (cases args) (simp_all add: call_entry_def flattenRequireArray_def)
  then show ?thesis using True by (auto simp: unpackXdDependency_def Let_def)
next
  case False
  then have "call_entry capable hostName uri_of now (VStr f # args) s = (Inl TypeError, s)"
    using assms by (auto simp: call_entry_def undefined_entries_def)
  moreover have "dep_at (VStr f # args) 0 = Some (VStr f)" by (simp add: dep_at_def)
  moreover have "f \<noteq> ''hostenv.moduleLoaded'' \<Longrightarrow>
    (\<exists>rs as. unpackXdDependency capable hostName (VStr f # args) = Inr ((rs, as), VStr f # args)) \<or> unpackXdDependency capable hostName (VStr f # args) = Inl TypeError"
    using assms False errors_are_type_errors(1,2)
    by (auto simp: undefined_entries_def unpackXdDependency_def rbind_def split: sum.splits)
  ultimately show ?thesis by auto
qed

lemma package_deps_undefined:
  assumes "VStr f # args \<in> set deps" "f \<in> undefined_entries" "xdInFlight s m = Some True"
  shows "\<exists>s'. package_deps capable hostName uri_of now deps ps rs as s = (Inl TypeError, s') \<and> xdInFlight s' m = Some True"
  using assms(1,3)
proof (induction deps arbitrary: ps rs as s)
  case (Cons d deps)
  define u where "u = (if dep_at d 0 \<in> {Some (VStr ''provide''), Some (VStr ''hostenv.moduleLoaded'')}
     then Inr (ps @ [name_of (dep_at d 1)], rs, as, d)
     else rbind (unpackXdDependency capable hostName d) (\<lambda>((rs', as'), d). Inr (ps, rs @ rs', as @ as', d)))"
  show ?case
  proof (cases u)
    case (Inl e)
    then have "e = TypeError" using errors_are_type_errors(3) [of capable hostName d] by (auto simp: u_def rbind_def split: if_splits sum.splits prod.splits)
    then show ?thesis using Inl Cons.prems(2) unfolding package_deps.simps u_def [symmetric] by simp
  next
    case (Inr x)
    obtain ps' rs' as' d' where x: "x = (ps', rs', as', d')" by (cases x)
    obtain r t where c: "call_entry capable hostName uri_of now d' s = (r, t)" by (cases "call_entry capable hostName uri_of now d' s")
    have t: "xdInFlight t m = Some True" using inFlight_call [OF Cons.prems(2), of capable hostName uri_of now d'] c by simp
    show ?thesis
    proof (cases r)
      case Inl': (Inl e)
      then have "e = TypeError" using errors_are_type_errors(4) c by blast
      then show ?thesis using Inr x c Inl' t unfolding package_deps.simps u_def [symmetric] by simp
    next
      case Inr': (Inr y)
      have "VStr f # args \<noteq> d"
      proof
        assume d: "VStr f # args = d"
        have "call_entry capable hostName uri_of now d s = (Inl TypeError, s)" if "f = ''hostenv.moduleLoaded''"
          using that unfolding d [symmetric] by (simp add: call_entry_def)
        then have "call_entry capable hostName uri_of now d' s = (Inl TypeError, s)"
          using undefined_entry_raises [OF assms(2), of args capable hostName uri_of now s] Inr x assms(2) unfolding d u_def
          by (auto simp: rbind_def undefined_entries_def dep_at_def d [symmetric] split: if_splits sum.splits)
        then show False using c Inr' by simp
      qed
      then have "VStr f # args \<in> set deps" using Cons.prems(1) by simp
      from Cons.IH [OF this t] show ?thesis using Inr x c Inr' unfolding package_deps.simps u_def [symmetric] by simp
    qed
  qed
qed simp

text \<open>
  Claim C40. A package with an entry for \<open>requireAll\<close>, \<open>requireAfter\<close>, \<open>conditionalRequire\<close>, \<open>hostenv.moduleLoaded\<close> or \<open>hostenv.conditionalLoadModule\<close> can not be loaded across
  domains, although the loader looks for these entries and unpacks them: \<open>packageLoaded\<close> raises a \<open>TypeError\<close>, nothing is entered into the tables, and a package that is in flight
  stays in flight, so that loading does not finish and fails when the time is over.
\<close>

theorem xd_undefined_entries_fail:
  assumes "VStr f # args \<in> set deps" "f \<in> undefined_entries" "xdInFlight s m = Some True" "m \<in> set order"
  shows "\<exists>s'. packageLoaded capable hostName uri_of now deps s = (Inl TypeError, s')
    \<and> xdInFlight s' m = Some True \<and> xdDepMap s' = xdDepMap s \<and> xdContents s' = xdContents s
    \<and> (\<exists>r. watchInFlightXDomain forced w order later n s' = Some r \<and> fst r \<noteq> Inr True)"
proof -
  obtain s' where s': "package_deps capable hostName uri_of now deps [] [] [] s = (Inl TypeError, s')" "xdInFlight s' m = Some True"
    using package_deps_undefined [OF assms(1-3)] by blast
  moreover have "filter (\<lambda>m. xdInFlight s' m = Some True) order \<noteq> []" using s'(2) assms(4) by (auto simp: filter_empty_conv)
  then have "\<exists>r. watchInFlightXDomain forced w order later n s' = Some r \<and> fst r \<noteq> Inr True" by (simp add: watchInFlightXDomain_def Let_def)
  moreover have "deps \<noteq> []" using assms(1) by auto
  ultimately show ?thesis using tables_deps [OF s'(1)] by (simp add: packageLoaded_def tables_def)
qed

section \<open>Examples\<close>

definition page_events :: "xd_event list" where
  "page_events = [Requested ''a'' 0, Arrived [[VStr ''provide'', VStr ''a''], [VStr ''require'', VStr ''b'']] 1, Arrived [[VStr ''provide'', VStr ''b'']] 2]"

definition page_state :: xd_loader where
  "page_state = fold (xd_happens (\<lambda>_. True) ''browser'' (\<lambda>m. m @ ''.js'')) page_events xd_init"

lemma page_state_eq:
  "xdDepMap page_state = [''a'' \<mapsto> \<lparr>pkg_requires = [''b''], pkg_requiresAfter = [], contentIndex = 0\<rparr>,
     ''b'' \<mapsto> \<lparr>pkg_requires = [], pkg_requiresAfter = [], contentIndex = 1\<rparr>]"
  "xdOrderedReqs page_state = [''a'', ''b'']" "xdContents page_state = [False, False]" "xdStartTime page_state = 1"
  "xdInFlight page_state = [''a'' \<mapsto> False, ''b'' \<mapsto> False]"
  by (simp_all add: page_state_def page_events_def xd_init_def xd_require_def xd_loadUri_def packageLoaded_def unpackXdDependency_def call_entry_def xd_provide_def
      strip_star_def dep_at_def name_of_def Let_def js_indexOf.simps)

lemma page_names: "card (xd_names (xdDepMap page_state)) \<le> 1"
proof -
  have "xd_names (xdDepMap page_state) \<subseteq> {''b''}" by (auto simp: xd_names_def page_state_eq pkg_names_def ran_def split: if_splits)
  then show ?thesis using card_mono [of "{''b''}"] by force
qed

theorem xd_tables_well_formed_witness:
  "contentIndex (the (xdDepMap page_state ''b'')) < length (xdContents page_state)"
  using xd_tables_well_formed [OF page_state_def, of "''b''"] by (simp add: page_state_eq)

theorem xd_walk_in_order_witness:
  "\<exists>s'. xdWalkReqs 4 page_state = Some s' \<and> distinct (xdEvaluated s') \<and> {0, 1} \<subseteq> set (xdEvaluated s')"
proof -
  have "2 * card (xd_names (xdDepMap page_state)) + 1 < 4" using page_names by linarith
  from xd_walk_in_order [OF page_state_def this] show ?thesis by (auto simp: page_state_eq)
qed

theorem xd_watch_evaluates_all_witness:
  "\<exists>s'. watchInFlightXDomain False None [''a'', ''b''] 100 4 page_state = Some (Inr True, s') \<and> set (xdEvaluated s') = {..<2}"
proof -
  have "2 * card (xd_names (xdDepMap page_state)) + 1 < 4" using page_names by linarith
  moreover have "\<forall>m. xdInFlight page_state m \<noteq> Some True" "(100 :: int) \<le> xdStartTime page_state + 30000" by (simp_all add: page_state_eq)
  ultimately show ?thesis using xd_watch_evaluates_all [OF page_state_def, of 4 100 False "[''a'', ''b'']"] by (auto simp: page_state_eq)
qed

theorem xd_undefined_entries_fail_witness:
  "\<exists>s'. packageLoaded (\<lambda>_. True) ''browser'' (\<lambda>m. m) 1 [[VStr ''provide'', VStr ''a''], [VStr ''requireAll'', VStr ''b'']] (xd_require (\<lambda>m. m) 0 ''a'' xd_init) = (Inl TypeError, s')
    \<and> xdInFlight s' ''a'' = Some True"
  using xd_undefined_entries_fail [of "''requireAll''" "[VStr ''b'']" "[[VStr ''provide'', VStr ''a''], [VStr ''requireAll'', VStr ''b'']]"
      "xd_require (\<lambda>m. m) 0 ''a'' xd_init" "''a''" "[''a'']"]
  by (fastforce simp: xd_init_def xd_require_def xd_loadUri_def undefined_entries_def strip_star_def Let_def js_indexOf.simps)

end
