(* ===== verification/Logging.thy ===== *)
theory Logging
  imports Collections String_Extras "HOL-Library.AList"
begin

text \<open>
  \<open>src/logging/Logger.js\<close>: loggers with filters and handlers. Messages and their arguments are strings, the time is an argument, and what the host
  prints is left out. The only parent of a logger is the logger \<open>dojo.logging.log\<close>.
\<close>

section \<open>Records, filters and handlers\<close>

text \<open>The level is \<^term>\<open>None\<close> for \<open>null\<close>, which compares like zero.\<close>

record log_rec =
  rec_level :: "int option"
  rec_message :: string
  rec_msgArgs :: "string list"
  rec_time :: int

datatype log_msg = Text string | Items "string list"

definition new_record :: "int option \<Rightarrow> log_msg \<Rightarrow> int \<Rightarrow> log_rec" where
  "new_record logLevel msg now =
     (case msg of
        Text m \<Rightarrow> \<lparr>rec_level = logLevel, rec_message = m, rec_msgArgs = [], rec_time = now\<rparr>
      | Items [] \<Rightarrow> \<lparr>rec_level = logLevel, rec_message = [], rec_msgArgs = [], rec_time = now\<rparr>
      | Items (m # ms) \<Rightarrow> \<lparr>rec_level = logLevel, rec_message = m, rec_msgArgs = ms, rec_time = now\<rparr>)"

text \<open>A filter object, known by a number, with its method if it has one. A deleted filter leaves a hole.\<close>

record log_filter =
  flt_id :: nat
  flt_fun :: "(log_rec \<Rightarrow> bool) option"

type_synonym filters = "log_filter option list"

record log_handler =
  h_cutOffLevel :: int
  h_filters :: filters
  h_data :: "log_rec list"
  h_numRecords :: int

text \<open>A handler that keeps records in memory, or one of the base class.\<close>

datatype handler = Memory log_handler | Base log_handler

record logger =
  l_cutOffLevel :: int
  l_propagate :: bool
  l_parent :: bool
  l_filters :: filters
  l_handlers :: "handler list"

definition new_logger :: logger where
  "new_logger = \<lparr>l_cutOffLevel = 0, l_propagate = True, l_parent = False, l_filters = [], l_handlers = []\<rparr>"

definition new_memory :: "int option \<Rightarrow> int option \<Rightarrow> int option \<Rightarrow> log_handler" where
  "new_memory loggingNumRecords level recordsToKeep =
     \<lparr>h_cutOffLevel = (case level of Some l \<Rightarrow> l | None \<Rightarrow> 0), h_filters = [], h_data = [],
      h_numRecords =
        (case loggingNumRecords of
           Some n \<Rightarrow> n
         | None \<Rightarrow> (case recordsToKeep of Some k \<Rightarrow> if k \<noteq> 0 then k else - 1 | None \<Rightarrow> - 1))\<rparr>"

section \<open>Operations on filters\<close>

definition below :: "log_rec \<Rightarrow> int \<Rightarrow> bool" where
  "below r cutOff \<longleftrightarrow> (case rec_level r of Some l \<Rightarrow> l | None \<Rightarrow> 0) < cutOff"

definition isEnabledFor :: "int \<Rightarrow> logger \<Rightarrow> bool" where
  "isEnabledFor lvl lg \<longleftrightarrow> lvl \<ge> l_cutOffLevel lg"

definition setLevel :: "int \<Rightarrow> logger \<Rightarrow> logger" where
  "setLevel lvl lg = lg\<lparr>l_cutOffLevel := lvl\<rparr>"

definition getEffectiveLevel :: "logger \<Rightarrow> logger \<Rightarrow> int" where
  "getEffectiveLevel root lg = (if l_cutOffLevel lg = 0 \<and> l_parent lg then l_cutOffLevel root else l_cutOffLevel lg)"

definition addFilter :: "log_filter \<Rightarrow> filters \<Rightarrow> nat \<times> filters" where
  "addFilter flt fs = (length fs, fs @ [Some flt])"

definition removeFilterByIndex :: "nat \<Rightarrow> filters \<Rightarrow> bool \<times> filters" where
  "removeFilterByIndex i fs = (if i < length fs \<and> fs ! i \<noteq> None then (True, fs[i := None]) else (False, fs))"

fun removeFilter :: "nat \<Rightarrow> filters \<Rightarrow> bool \<times> filters" where
  "removeFilter fltRef [] = (False, [])"
| "removeFilter fltRef (f # fs) =
     (if map_option flt_id f = Some fltRef then (True, None # fs)
      else case removeFilter fltRef fs of (b, fs') \<Rightarrow> (b, f # fs'))"

definition removeAllFilters :: "filters \<Rightarrow> filters" where
  "removeAllFilters fs = []"

text \<open>The method \<open>filter\<close>, shared by loggers and handlers: the loop over the filters, which raises at a hole.\<close>

fun run_filters :: "int \<Rightarrow> filters \<Rightarrow> log_rec \<Rightarrow> bool result" where
  "run_filters cutOff [] r = Inr True"
| "run_filters cutOff (None # fs) r = Inl TypeError"
| "run_filters cutOff (Some f # fs) r =
     (if (case flt_fun f of Some g \<Rightarrow> \<not> g r | None \<Rightarrow> False) \<or> below r cutOff then Inr False
      else run_filters cutOff fs r)"

section \<open>Handling records\<close>

text \<open>\<open>while(this.data.length>this.numRecords){ this.data.shift(); }\<close>, which does not end for a negative number: \<^term>\<open>None\<close>.\<close>

definition trim_data :: "int \<Rightarrow> log_rec list \<Rightarrow> log_rec list option" where
  "trim_data numRecords data = (if numRecords < 0 then None else Some (drop (length data - nat numRecords) data))"

definition memory_emit :: "bool \<Rightarrow> log_rec \<Rightarrow> log_handler \<Rightarrow> log_handler option" where
  "memory_emit isDebug r h =
     (if \<not> isDebug then Some h
      else let data = h_data h @ [r]
           in if h_numRecords h \<noteq> - 1 then map_option (\<lambda>d. h\<lparr>h_data := d\<rparr>) (trim_data (h_numRecords h) data)
              else Some (h\<lparr>h_data := data\<rparr>))"

definition unimplemented_emit :: js_error where
  "unimplemented_emit = Raised ([CHR 0x27] @ ''emit'' @ [CHR 0x27] @ '' not implemented'')"

definition handler_handle :: "bool \<Rightarrow> log_rec \<Rightarrow> handler \<Rightarrow> (unit result \<times> handler) option" where
  "handler_handle isDebug r hdlr =
     (let h = (case hdlr of Memory h \<Rightarrow> h | Base h \<Rightarrow> h)
      in case run_filters (h_cutOffLevel h) (h_filters h) r of
           Inl e \<Rightarrow> Some (Inl e, hdlr)
         | Inr ok \<Rightarrow>
             if ok \<and> \<not> below r (h_cutOffLevel h)
             then (case hdlr of
                     Base _ \<Rightarrow> Some (Inl unimplemented_emit, hdlr)
                   | Memory _ \<Rightarrow> map_option (\<lambda>h. (Inr (), Memory h)) (memory_emit isDebug r h))
             else Some (Inr (), hdlr))"

fun handle_loop :: "bool \<Rightarrow> log_rec \<Rightarrow> handler list \<Rightarrow> (unit result \<times> handler list) option" where
  "handle_loop isDebug r [] = Some (Inr (), [])"
| "handle_loop isDebug r (hdlr # hdlrs) =
     Option.bind (handler_handle isDebug r hdlr) (\<lambda>(x, hdlr).
       case x of
         Inl e \<Rightarrow> Some (Inl e, hdlr # hdlrs)
       | Inr _ \<Rightarrow> map_option (\<lambda>(x, hdlrs). (x, hdlr # hdlrs)) (handle_loop isDebug r hdlrs))"

definition handle :: "bool \<Rightarrow> log_rec \<Rightarrow> logger \<Rightarrow> (bool result \<times> logger) option" where
  "handle isDebug r lg =
     (case run_filters (l_cutOffLevel lg) (l_filters lg) r of
        Inl e \<Rightarrow> Some (Inl e, lg)
      | Inr ok \<Rightarrow>
          if \<not> ok \<or> below r (l_cutOffLevel lg) then Some (Inr False, lg)
          else map_option (\<lambda>(x, hds). (rbind x (\<lambda>_. Inr True), lg\<lparr>l_handlers := hds\<rparr>)) (handle_loop isDebug r (l_handlers lg)))"

text \<open>The property \<open>rec\<close> of the parent, whose level is read, does not exist.\<close>

definition logger_log :: "bool \<Rightarrow> int option \<Rightarrow> log_msg \<Rightarrow> int \<Rightarrow> logger \<Rightarrow> (bool result \<times> logger) option" where
  "logger_log isDebug lvl msg now lg =
     (if l_propagate lg \<and> l_parent lg then Some (Inl TypeError, lg)
      else map_option (\<lambda>(x, lg). (rbind x (\<lambda>_. Inr True), lg)) (handle isDebug (new_record lvl msg now) lg))"

definition addHandler :: "handler \<Rightarrow> logger \<Rightarrow> nat \<times> logger" where
  "addHandler hdlr lg = (length (l_handlers lg), lg\<lparr>l_handlers := l_handlers lg @ [hdlr]\<rparr>)"

text \<open>The logger \<open>dojo.logging.log\<close> as it is set up, with a handler that keeps fifty records unless the configuration says otherwise.\<close>

definition root_logger :: "int option \<Rightarrow> logger" where
  "root_logger loggingNumRecords = snd (addHandler (Memory (new_memory loggingNumRecords (Some 0) (Some 50))) new_logger)"

section \<open>Levels and named loggers\<close>

definition levels :: "(string \<times> int) list" where
  "levels = [(''DEBUG'', 1), (''INFO'', 2), (''WARNING'', 3), (''ERROR'', 4), (''CRITICAL'', 5)]"

fun level_name_loop :: "(string \<times> int) list \<Rightarrow> int \<Rightarrow> string option" where
  "level_name_loop [] lvl = None"
| "level_name_loop ((n, l) # ls) lvl = (if l = lvl then Some n else level_name_loop ls lvl)"

definition getLevelName :: "int \<Rightarrow> string option" where
  "getLevelName lvl = level_name_loop levels lvl"

fun level_loop :: "(string \<times> int) list \<Rightarrow> string \<Rightarrow> int option" where
  "level_loop [] name = None"
| "level_loop ((n, l) # ls) name = (if map upper_char n = map upper_char name then Some l else level_loop ls name)"

definition getLevel :: "string \<Rightarrow> int option" where
  "getLevel name = level_loop levels name"

definition logType :: "bool \<Rightarrow> string \<Rightarrow> log_msg \<Rightarrow> int \<Rightarrow> logger \<Rightarrow> (bool result \<times> logger) option" where
  "logType isDebug type args now lg = logger_log isDebug (getLevel type) args now lg"

text \<open>\<open>debug\<close>, \<open>info\<close>, \<open>warning\<close>, \<open>error\<close> and \<open>critical\<close>, with the arguments of the call.\<close>

definition log_at :: "string \<Rightarrow> bool \<Rightarrow> string list \<Rightarrow> int \<Rightarrow> logger \<Rightarrow> (bool result \<times> logger) option" where
  "log_at type isDebug args now lg = logType isDebug type (Items args) now lg"

text \<open>The text that \<open>exception\<close> appends, for an error with a name, a message and perhaps a file and a line.\<close>

record js_exception =
  e_name :: string
  e_message :: string
  e_file :: "(string \<times> string) option"

definition exception_text :: "js_exception \<Rightarrow> string" where
  "exception_text e =
     '' '' @ e_name e @ '' : '' @ e_message e @ (case e_file e of Some (f, l) \<Rightarrow> '' : '' @ f @ '' : '' @ ''line '' @ l | None \<Rightarrow> [])"

text \<open>The first component tells whether the error is thrown again.\<close>

definition exception :: "bool \<Rightarrow> string \<Rightarrow> js_exception option \<Rightarrow> bool \<Rightarrow> int \<Rightarrow> logger \<Rightarrow> (bool result \<times> logger) option" where
  "exception isDebug msg e squelch now lg =
     map_option (\<lambda>(x, lg). (rbind x (\<lambda>_. Inr (\<not> squelch)), lg))
       (logType isDebug ''ERROR'' (Text (case e of Some e \<Rightarrow> msg @ exception_text e | None \<Rightarrow> msg)) now lg)"

text \<open>The table of named loggers, for names that objects do not inherit.\<close>

definition getLogger :: "string \<Rightarrow> (string \<times> logger) list \<Rightarrow> logger \<times> (string \<times> logger) list" where
  "getLogger name loggers =
     (case map_of loggers name of
        Some lg \<Rightarrow> (lg, loggers)
      | None \<Rightarrow> let lg = new_logger\<lparr>l_parent := True\<rparr> in (lg, AList.update name lg loggers))"

section \<open>What a handler remembers\<close>


text \<open>A record passes when it reaches the level and all filters accept it.\<close>

definition passes :: "int \<Rightarrow> filters \<Rightarrow> log_rec \<Rightarrow> bool" where
  "passes cutOff fs r \<longleftrightarrow> \<not> below r cutOff \<and> (\<forall>f g. Some f \<in> set fs \<and> flt_fun f = Some g \<longrightarrow> g r)"


lemma run_filters_hole: "None \<in> set fs \<Longrightarrow> passes cutOff fs r \<Longrightarrow> run_filters cutOff fs r = Inl TypeError"
proof (induction cutOff fs r rule: run_filters.induct)
  case (3 cutOff f fs r)
  have "passes cutOff fs r" "\<not> below r cutOff" "flt_fun f = Some g \<Longrightarrow> g r" for g using 3(3) by (auto simp: passes_def)
  then show ?case using 3(1,2) by (cases "flt_fun f") simp_all
qed simp_all

definition last_of :: "nat \<Rightarrow> 'a list \<Rightarrow> 'a list" where
  "last_of n xs = drop (length xs - n) xs"

lemma length_last_of [simp]: "length (last_of n xs) = min n (length xs)"
  by (simp add: last_of_def)








text \<open>
  A logger obtained by name can not log anything: every message raises a \<open>TypeError\<close>, because the level that is compared belongs to a property of the parent that does not exist.
\<close>

theorem named_logger_raises:
  assumes "map_of loggers name = None"
  shows "log_at type isDebug args now (fst (getLogger name loggers)) = Some (Inl TypeError, fst (getLogger name loggers))
    \<and> fst (getLogger name (snd (getLogger name loggers))) = fst (getLogger name loggers)"
  using assms by (simp add: getLogger_def new_logger_def log_at_def logType_def logger_log_def Let_def update_conv')

text \<open>
  A logger from which a filter was removed fails: removal leaves a hole, and every message that the other filters accept and that reaches the level raises a \<open>TypeError\<close>.
\<close>

theorem removed_filter_raises:
  assumes "\<not> l_parent lg" "i < length (l_filters lg)" "l_filters lg ! i \<noteq> None" "passes (l_cutOffLevel lg) (l_filters lg) (new_record lvl msg now)"
  defines "lg' \<equiv> lg\<lparr>l_filters := snd (removeFilterByIndex i (l_filters lg))\<rparr>"
  shows "logger_log isDebug lvl msg now lg' = Some (Inl TypeError, lg')"
proof -
  let ?fs = "(l_filters lg)[i := None]"
  have "None \<in> set ?fs" using assms(2) by (simp add: set_update_memI)
  moreover have "passes (l_cutOffLevel lg) ?fs (new_record lvl msg now)"
    using assms(4) set_update_subset_insert [of "l_filters lg" i None] unfolding passes_def by blast
  ultimately have "run_filters (l_cutOffLevel lg) ?fs (new_record lvl msg now) = Inl TypeError" by (rule run_filters_hole)
  then show ?thesis using assms(1-3) by (simp add: lg'_def removeFilterByIndex_def logger_log_def handle_def)
qed

section \<open>Examples\<close>



theorem named_logger_raises_witness: "fst (the (log_at ''INFO'' True [''x''] 0 (fst (getLogger ''app'' [])))) = Inl TypeError"
  using named_logger_raises [of "[]" "''app''"] by simp

theorem removed_filter_raises_witness:
  "fst (the (logger_log True (Some 1) (Text ''x'') 0 (new_logger\<lparr>l_filters := snd (removeFilterByIndex 0 [Some \<lparr>flt_id = 0, flt_fun = None\<rparr>])\<rparr>))) = Inl TypeError"
  using removed_filter_raises [of "new_logger\<lparr>l_filters := [Some \<lparr>flt_id = 0, flt_fun = None\<rparr>]\<rparr>" 0 "Some 1" "Text ''x''" 0 True]
  by (simp add: new_logger_def below_def new_record_def passes_def)

end
