(* ===== verification/Graph.thy ===== *)
theory Graph
  imports Dictionaries
begin

text \<open>
  \<open>src/collections/Graph.js\<close>: nodes in a dictionary, each with a list of edges to other nodes. Nodes are objects that edges and the dictionary share; they
  live in a heap and are known by their addresses. The fields \<open>nodes\<close> and \<open>count\<close> are those of the source; \<open>count\<close> is \<^term>\<open>None\<close> when it is not a number.
\<close>

section \<open>Operations\<close>

text \<open>The end of an edge is a node, or a function when a key was looked up that every object inherits.\<close>

datatype target = NodeAt nat | FunctionNamed string

record 'd gnode =
  n_key :: string
  n_data :: 'd
  n_neighbors :: "(target \<times> int) list"

record 'd graph =
  g_heap :: "'d gnode list"
  g_nodes :: "nat dictionary"
  g_count :: "int option"

text \<open>The node list has no \<open>count\<close>, so that the count of a new graph is \<open>undefined\<close>.\<close>

definition Graph_new :: "'d graph" where
  "Graph_new = \<lparr>g_heap = [], g_nodes = Dictionary_new None, g_count = None\<rparr>"

definition graph_clear :: "'d graph \<Rightarrow> 'd graph" where
  "graph_clear g = g\<lparr>g_nodes := dict_clear (g_nodes g), g_count := Some 0\<rparr>"

definition graph_containsKey :: "string \<Rightarrow> 'd graph \<Rightarrow> bool" where
  "graph_containsKey k g \<longleftrightarrow> dict_containsKey k (g_nodes g)"

definition graph_contains :: "nat \<Rightarrow> 'd graph \<Rightarrow> bool" where
  "graph_contains n g \<longleftrightarrow> dict_containsKey (n_key (g_heap g ! n)) (g_nodes g)"

definition addNode_object :: "nat \<Rightarrow> 'd graph \<Rightarrow> 'd graph" where
  "addNode_object n g =
     (if \<not> graph_contains n g
      then g\<lparr>g_nodes := dict_add (n_key (g_heap g ! n)) n (g_nodes g), g_count := map_option (\<lambda>c. c + 1) (g_count g)\<rparr>
      else g)"

definition addNode :: "string \<Rightarrow> 'd \<Rightarrow> 'd graph \<Rightarrow> 'd graph" where
  "addNode k d g =
     addNode_object (length (g_heap g)) (g\<lparr>g_heap := g_heap g @ [\<lparr>n_key = k, n_data = d, n_neighbors = []\<rparr>]\<rparr>)"

definition removeNode :: "nat \<Rightarrow> 'd graph \<Rightarrow> 'd graph" where
  "removeNode n g = g\<lparr>g_nodes := fst (dict_remove (n_key (g_heap g ! n)) (g_nodes g))\<rparr>"

text \<open>\<open>addDirected\<close> of a node.\<close>

definition addDirected :: "nat \<Rightarrow> target \<Rightarrow> int \<Rightarrow> 'd graph \<Rightarrow> 'd graph" where
  "addDirected u t c g =
     g\<lparr>g_heap := (g_heap g)[u := (g_heap g ! u)\<lparr>n_neighbors := n_neighbors (g_heap g ! u) @ [(t, c)]\<rparr>]\<rparr>"

definition target_of :: "nat prop_value \<Rightarrow> target result" where
  "target_of v = (case v of Undefined \<Rightarrow> Inl TypeError | Inherited f \<Rightarrow> Inr (FunctionNamed f) | Own a \<Rightarrow> Inr (NodeAt a))"

definition addDirectedEdge :: "string \<Rightarrow> string \<Rightarrow> int option \<Rightarrow> 'd graph \<Rightarrow> unit result \<times> 'd graph" where
  "addDirectedEdge uKey vKey cost g =
     (let c = (case cost of Some c \<Rightarrow> c | None \<Rightarrow> 0)
      in case dict_item uKey (g_nodes g) of
           Own u \<Rightarrow> (case target_of (dict_item vKey (g_nodes g)) of Inl e \<Rightarrow> (Inl e, g) | Inr t \<Rightarrow> (Inr (), addDirected u t c g))
         | _ \<Rightarrow> (Inl TypeError, g))"

definition addUndirectedEdge :: "string \<Rightarrow> string \<Rightarrow> int option \<Rightarrow> 'd graph \<Rightarrow> unit result \<times> 'd graph" where
  "addUndirectedEdge uKey vKey cost g =
     (let c = (case cost of Some c \<Rightarrow> c | None \<Rightarrow> 0)
      in case dict_item uKey (g_nodes g) of
           Own u \<Rightarrow>
             (case target_of (dict_item vKey (g_nodes g)) of
                Inl e \<Rightarrow> (Inl e, g)
              | Inr t \<Rightarrow>
                  let g = addDirected u t c g
                  in (case t of NodeAt v \<Rightarrow> (Inr (), addDirected v (NodeAt u) c g) | FunctionNamed f \<Rightarrow> (Inl TypeError, g)))
         | _ \<Rightarrow> (Inl TypeError, g))"

section \<open>A graph is a map of nodes with a list of edges\<close>

datatype 'd graph_op = AddNode string 'd | AddDirected string string "int option" | AddUndirected string string "int option"

fun graph_step :: "'d graph_op \<Rightarrow> 'd graph \<Rightarrow> 'd graph" where
  "graph_step (AddNode k d) g = addNode k d g"
| "graph_step (AddDirected u v c) g = snd (addDirectedEdge u v c g)"
| "graph_step (AddUndirected u v c) g = snd (addUndirectedEdge u v c g)"

definition cost_of :: "int option \<Rightarrow> int" where
  "cost_of c = (case c of Some c \<Rightarrow> c | None \<Rightarrow> 0)"

type_synonym 'd spec_graph = "(string \<rightharpoonup> 'd) \<times> (string \<times> string \<times> int) list"

fun spec_step :: "'d graph_op \<Rightarrow> 'd spec_graph \<Rightarrow> 'd spec_graph" where
  "spec_step (AddNode k d) (N, E) = (if k \<in> dom N then (N, E) else (N(k \<mapsto> d), E))"
| "spec_step (AddDirected u v c) (N, E) = (if u \<in> dom N \<and> v \<in> dom N then (N, E @ [(u, v, cost_of c)]) else (N, E))"
| "spec_step (AddUndirected u v c) (N, E) =
     (if u \<in> dom N \<and> v \<in> dom N then (N, E @ [(u, v, cost_of c), (v, u, cost_of c)]) else (N, E))"

fun op_ok :: "'d graph_op \<Rightarrow> bool" where
  "op_ok (AddNode k d) = (\<not> inherited k)"
| "op_ok (AddDirected u v c) = (\<not> inherited u \<and> \<not> inherited v)"
| "op_ok (AddUndirected u v c) = (\<not> inherited u \<and> \<not> inherited v)"

text \<open>The edges of a node, with the keys of their ends.\<close>

definition target_key :: "'d graph \<Rightarrow> target \<Rightarrow> string" where
  "target_key g t = (case t of NodeAt b \<Rightarrow> n_key (g_heap g ! b) | FunctionNamed f \<Rightarrow> f)"

definition edge_keys :: "'d graph \<Rightarrow> nat \<Rightarrow> (string \<times> int) list" where
  "edge_keys g a = map (\<lambda>(t, c). (target_key g t, c)) (n_neighbors (g_heap g ! a))"

definition implements :: "'d graph \<Rightarrow> 'd spec_graph \<Rightarrow> bool" where
  "implements g S \<longleftrightarrow>
     dom (dict_lookup (g_nodes g)) = dom (fst S)
     \<and> (\<forall>k a. dict_lookup (g_nodes g) k = Some a \<longrightarrow>
          a < length (g_heap g) \<and> n_key (g_heap g ! a) = k \<and> fst S k = Some (n_data (g_heap g ! a))
          \<and> edge_keys g a = map snd (filter (\<lambda>e. fst e = k) (snd S)))
     \<and> (\<forall>a < length (g_heap g). \<forall>(t, c) \<in> set (n_neighbors (g_heap g ! a)). \<exists>b < length (g_heap g). t = NodeAt b)"

lemma dict_item_lookup: "\<not> inherited k \<Longrightarrow> dict_item k d = (case dict_lookup d k of Some a \<Rightarrow> Own a | None \<Rightarrow> Undefined)"
  by (simp add: dict_lookup_def dict_item_def obj_in_def obj_get_def split: option.splits)

lemma contains_lookup: "\<not> inherited k \<Longrightarrow> dict_containsKey k d = (dict_lookup d k \<noteq> None)"
  by (auto simp: dict_containsKey_def dict_lookup_eq obj_get_def split: option.splits)

lemma implements_new: "implements Graph_new (Map.empty, [])"
  by (simp add: implements_def Graph_new_def Dictionary_new_def Dictionary_empty_def dict_lookup_eq)

lemma implements_node:
  assumes "implements g (N, E)" "\<not> inherited k" "\<forall>(u, v, c) \<in> set E. u \<in> dom N"
  shows "implements (addNode k d g) (spec_step (AddNode k d) (N, E))"
proof -
  let ?h = "g_heap g @ [\<lparr>n_key = k, n_data = d, n_neighbors = []\<rparr>]"
  have key: "graph_contains (length (g_heap g)) (g\<lparr>g_heap := ?h\<rparr>) = (k \<in> dom N)"
    using assms(1,2) by (auto simp: graph_contains_def contains_lookup implements_def)
  have edges: "edge_keys (g\<lparr>g_heap := ?h, g_nodes := x, g_count := y\<rparr>) a = edge_keys g a" if "a < length (g_heap g)" for a x y
  proof -
    have "\<forall>(t, c) \<in> set (n_neighbors (g_heap g ! a)). \<exists>b < length (g_heap g). t = NodeAt b" using assms(1) that by (simp add: implements_def)
    then show ?thesis using that by (fastforce simp: edge_keys_def target_key_def nth_append)
  qed
  have nb: "\<forall>(t, c) \<in> set (n_neighbors (?h ! a)). \<exists>b < length ?h. t = NodeAt b" if "a < length ?h" for a
  proof (cases "a < length (g_heap g)")
    case True
    then have "\<forall>(t, c) \<in> set (n_neighbors (g_heap g ! a)). \<exists>b < length (g_heap g). t = NodeAt b" using assms(1) by (simp add: implements_def)
    then show ?thesis using True by (fastforce simp: nth_append)
  qed (use that in \<open>auto simp: nth_append\<close>)
  have old: "a < length (g_heap g) \<and> n_key (g_heap g ! a) = k' \<and> N k' = Some (n_data (g_heap g ! a)) \<and> edge_keys g a = map snd (filter (\<lambda>e. fst e = k') E)"
    if "dict_lookup (g_nodes g) k' = Some a" for k' a
    using assms(1) that by (simp add: implements_def)
  have dom: "dom (dict_lookup (g_nodes g)) = dom N" using assms(1) by (simp add: implements_def)
  show ?thesis
  proof (cases "k \<in> dom N")
    case True
    then have g': "addNode k d g = g\<lparr>g_heap := ?h, g_nodes := g_nodes g, g_count := g_count g\<rparr>" using key by (simp add: addNode_def addNode_object_def)
    have new: "\<forall>a < length ?h. \<forall>(t, c) \<in> set (n_neighbors (?h ! a)). \<exists>b < length ?h. t = NodeAt b" using nb by blast
    have "a < length ?h \<and> n_key (?h ! a) = k' \<and> N k' = Some (n_data (?h ! a)) \<and> edge_keys (addNode k d g) a = map snd (filter (\<lambda>e. fst e = k') E)"
      if "dict_lookup (g_nodes g) k' = Some a" for k' a
      using old [OF that] edges [where a = a and x = "g_nodes g" and y = "g_count g"] unfolding g' by (simp add: nth_append)
    then show ?thesis using dom new True unfolding implements_def by (simp add: g')
  next
    case False
    let ?n = "length (g_heap g)"
    have g': "addNode k d g = g\<lparr>g_heap := ?h, g_nodes := dict_add k ?n (g_nodes g), g_count := map_option (\<lambda>c. c + 1) (g_count g)\<rparr>"
      using key False by (simp add: addNode_def addNode_object_def)
    have new: "\<forall>a < length ?h. \<forall>(t, c) \<in> set (n_neighbors (?h ! a)). \<exists>b < length ?h. t = NodeAt b" using nb by blast
    have none: "filter (\<lambda>e. fst e = k) E = []" using assms(3) False by (fastforce simp: filter_empty_conv)
    have "a < length ?h \<and> n_key (?h ! a) = k' \<and> (N(k \<mapsto> d)) k' = Some (n_data (?h ! a)) \<and> edge_keys (addNode k d g) a = map snd (filter (\<lambda>e. fst e = k') E)"
      if "((dict_lookup (g_nodes g))(k \<mapsto> ?n)) k' = Some a" for k' a
    proof (cases "k' = k")
      case True
      then show ?thesis using that none by (auto simp: g' edge_keys_def)
    next
      case False
      then show ?thesis using that old [of k' a] edges [of a] by (simp add: g' nth_append)
    qed
    then show ?thesis using dom new False unfolding implements_def by (simp add: g' dict_lookup_add)
  qed
qed

lemma implements_edge:
  assumes "implements g (N, E)" "dict_lookup (g_nodes g) u = Some a" "dict_lookup (g_nodes g) v = Some b"
  shows "implements (addDirected a (NodeAt b) c g) (N, E @ [(u, v, c)])"
proof -
  let ?g = "addDirected a (NodeAt b) c g"
  have ab: "a < length (g_heap g)" "n_key (g_heap g ! a) = u" "b < length (g_heap g)" "n_key (g_heap g ! b) = v"
    using assms by (auto simp: implements_def)
  have keep: "length (g_heap ?g) = length (g_heap g)" "g_nodes ?g = g_nodes g"
    "n_key (g_heap ?g ! i) = n_key (g_heap g ! i)" "n_data (g_heap ?g ! i) = n_data (g_heap g ! i)" for i
    using ab(1) by (auto simp: addDirected_def nth_list_update)
  have nb: "n_neighbors (g_heap ?g ! i) = n_neighbors (g_heap g ! i) @ (if i = a then [(NodeAt b, c)] else [])" for i
    using ab(1) by (auto simp: addDirected_def nth_list_update)
  have edges: "edge_keys ?g i = edge_keys g i @ (if i = a then [(v, c)] else [])" for i
  proof -
    have "target_key ?g = target_key g" by (auto simp: target_key_def keep split: target.split)
    moreover have "target_key g (NodeAt b) = v" using ab(4) by (simp add: target_key_def)
    ultimately show ?thesis by (simp add: edge_keys_def nb)
  qed
  have same: "dict_lookup (g_nodes g) k = Some i \<Longrightarrow> (i = a) = (k = u)" for k i
    using assms(1,2) ab(2) unfolding implements_def by (metis option.inject)
  show ?thesis unfolding implements_def keep fst_conv snd_conv
  proof (intro conjI allI impI)
    show "dom (dict_lookup (g_nodes g)) = dom N" using assms(1) by (simp add: implements_def)
  next
    fix k i assume i: "dict_lookup (g_nodes g) k = Some i"
    have old: "i < length (g_heap g)" "n_key (g_heap g ! i) = k" "N k = Some (n_data (g_heap g ! i))" "edge_keys g i = map snd (filter (\<lambda>e. fst e = k) E)"
      using assms(1) i by (simp_all add: implements_def)
    show "i < length (g_heap g)" "n_key (g_heap g ! i) = k" "N k = Some (n_data (g_heap g ! i))" by (fact old)+
    show "edge_keys ?g i = map snd (filter (\<lambda>e. fst e = k) (E @ [(u, v, c)]))" using old(4) same [OF i] by (simp add: edges)
  next
    fix i assume i: "i < length (g_heap g)"
    then have "\<forall>(t, c) \<in> set (n_neighbors (g_heap g ! i)). \<exists>b < length (g_heap g). t = NodeAt b" using assms(1) by (simp add: implements_def)
    then show "\<forall>(t, c) \<in> set (n_neighbors (g_heap ?g ! i)). \<exists>b < length (g_heap g). t = NodeAt b" using ab(3) by (auto simp: nb)
  qed
qed

definition sources_known :: "'d spec_graph \<Rightarrow> bool" where
  "sources_known S \<longleftrightarrow> (\<forall>(u, v, c) \<in> set (snd S). u \<in> dom (fst S))"

lemma sources_known_step: "sources_known S \<Longrightarrow> sources_known (spec_step p S)"
  by (cases "(p, S)" rule: spec_step.cases) (auto simp: sources_known_def)

lemma addDirected_nodes [simp]: "g_nodes (addDirected a t c g) = g_nodes g"
  by (simp add: addDirected_def)

lemma implements_step:
  assumes "implements g S" "op_ok p" "sources_known S"
  shows "implements (graph_step p g) (spec_step p S)"
proof (cases S)
  case (Pair N E)
  have dom: "(dict_lookup (g_nodes g) k = None) = (k \<notin> dom N)" for k using assms(1) Pair by (auto simp: implements_def)
  show ?thesis
  proof (cases p)
    case (AddNode k d)
    then show ?thesis using implements_node [of g N E k d] assms Pair by (simp add: sources_known_def)
  next
    case (AddDirected u v c)
    then show ?thesis using assms Pair dom [of u] dom [of v] implements_edge [of g N E u _ v _ "cost_of c"]
      by (auto simp: addDirectedEdge_def dict_item_lookup target_of_def cost_of_def Let_def split: option.splits)
  next
    case (AddUndirected u v c)
    show ?thesis
    proof (cases "u \<in> dom N \<and> v \<in> dom N")
      case True
      then obtain a b where ab: "dict_lookup (g_nodes g) u = Some a" "dict_lookup (g_nodes g) v = Some b" using dom [of u] dom [of v] by auto
      have "implements (addDirected a (NodeAt b) (cost_of c) g) (N, E @ [(u, v, cost_of c)])" using implements_edge ab assms(1) Pair by blast
      then have "implements (addDirected b (NodeAt a) (cost_of c) (addDirected a (NodeAt b) (cost_of c) g)) (N, (E @ [(u, v, cost_of c)]) @ [(v, u, cost_of c)])"
        by (rule implements_edge) (use ab in simp_all)
      then show ?thesis using True ab assms(2) Pair AddUndirected
        by (simp add: addUndirectedEdge_def dict_item_lookup target_of_def cost_of_def Let_def)
    next
      case False
      then show ?thesis using assms Pair AddUndirected dom [of u] dom [of v]
        by (auto simp: addUndirectedEdge_def dict_item_lookup target_of_def Let_def split: option.splits)
    qed
  qed
qed

lemma implements_steps:
  "implements g S \<Longrightarrow> sources_known S \<Longrightarrow> list_all op_ok ps \<Longrightarrow> implements (fold graph_step ps g) (fold spec_step ps S)"
  by (induction ps arbitrary: g S) (simp_all add: implements_step sources_known_step)

text \<open>
  Claim C25. A graph implements a finite map from keys to data with a list of weighted edges: after any additions of nodes and of directed and undirected edges, whose keys objects do not
  inherit, the keys are those of the map, every node has its data, and its adjacency list consists of its edges in the order of their addition. Edges between unknown nodes are refused.
\<close>

theorem graph_is_map_with_edges:
  assumes "list_all op_ok ps"
  defines "g \<equiv> fold graph_step ps (Graph_new :: 'd graph)"
  shows "case fold spec_step ps (Map.empty, []) of (N, E) \<Rightarrow>
    dom (dict_lookup (g_nodes g)) = dom N
    \<and> (\<forall>k a. dict_lookup (g_nodes g) k = Some a \<longrightarrow> N k = Some (n_data (g_heap g ! a)) \<and> edge_keys g a = map snd (filter (\<lambda>e. fst e = k) E))"
proof -
  have "implements g (fold spec_step ps (Map.empty, []))"
    unfolding g_def by (rule implements_steps [OF implements_new _ assms(1)]) (simp add: sources_known_def)
  then show ?thesis by (auto simp: implements_def split: prod.splits)
qed

text \<open>The count of a graph is never a number unless the graph is cleared.\<close>

theorem graph_count_undefined: "g_count (fold graph_step ps (Graph_new :: 'd graph)) = None"
proof -
  have "g_count (graph_step p g) = None" if "g_count g = None" for p :: "'d graph_op" and g
    using that by (cases p) (auto simp: addNode_def addNode_object_def addDirectedEdge_def addUndirectedEdge_def addDirected_def Let_def
        split: prop_value.splits sum.splits target.splits)
  then have "g_count (fold graph_step ps g) = None" if "g_count g = None" for g using that by (induction ps arbitrary: g) simp_all
  then show ?thesis by (simp add: Graph_new_def)
qed

theorem graph_is_map_with_edges_witness:
  "edge_keys (fold graph_step [AddNode ''a'' (1 :: nat), AddNode ''b'' 2, AddUndirected ''a'' ''b'' (Some 7)] Graph_new) 1 = [(''a'', 7)]"
proof -
  let ?ps = "[AddNode ''a'' (1 :: nat), AddNode ''b'' 2, AddUndirected ''a'' ''b'' (Some 7)]"
  let ?g = "fold graph_step ?ps Graph_new"
  have "list_all op_ok ?ps" by (simp add: inherited_def proto_names_def)
  from graph_is_map_with_edges [OF this]
  have "dict_lookup (g_nodes ?g) ''b'' = Some 1 \<Longrightarrow> edge_keys ?g 1 = [(''a'', 7)]" by (auto simp: cost_of_def)
  moreover have "dict_lookup (g_nodes ?g) ''b'' = Some 1" by code_simp
  ultimately show ?thesis by blast
qed

end
