(* ===== verification/Lang_Array.thy ===== *)
theory Lang_Array
  imports Collections
begin

text \<open>
  \<open>src/lang/array.js\<close> and \<open>find\<close> of \<open>src/lang/common.js\<close>. A callback is a function on an element and a state, so that the calls that
  are made, and their order, show in the state. Arrays do not change while they are iterated, and the context of a callback is part of it.
\<close>

section \<open>Iteration\<close>

type_synonym ('a, 's, 'b) callback = "'a \<Rightarrow> 's \<Rightarrow> 'b \<times> 's"

fun lang_map :: "('a, 's, 'b) callback \<Rightarrow> 'a list \<Rightarrow> 's \<Rightarrow> 'b list \<times> 's" where
  "lang_map f [] s = ([], s)"
| "lang_map f (x # xs) s = (case f x s of (y, s) \<Rightarrow> case lang_map f xs s of (ys, s) \<Rightarrow> (y # ys, s))"

fun forEach :: "('a, 's, unit) callback \<Rightarrow> 'a list \<Rightarrow> 's \<Rightarrow> 's" where
  "forEach f [] s = s"
| "forEach f (x # xs) s = forEach f xs (snd (f x s))"

fun everyOrSome :: "bool \<Rightarrow> ('a, 's, bool) callback \<Rightarrow> 'a list \<Rightarrow> 's \<Rightarrow> bool \<times> 's" where
  "everyOrSome every f [] s = (every, s)"
| "everyOrSome every f (x # xs) s =
     (case f x s of (r, s) \<Rightarrow>
        if every \<and> \<not> r then (False, s)
        else if \<not> every \<and> r then (True, s)
        else everyOrSome every f xs s)"

definition lang_every :: "('a, 's, bool) callback \<Rightarrow> 'a list \<Rightarrow> 's \<Rightarrow> bool \<times> 's" where
  "lang_every f xs s = everyOrSome True f xs s"

definition lang_some :: "('a, 's, bool) callback \<Rightarrow> 'a list \<Rightarrow> 's \<Rightarrow> bool \<times> 's" where
  "lang_some f xs s = everyOrSome False f xs s"

fun lang_filter :: "('a, 's, bool) callback \<Rightarrow> 'a list \<Rightarrow> 's \<Rightarrow> 'a list \<times> 's" where
  "lang_filter f [] s = ([], s)"
| "lang_filter f (x # xs) s =
     (case f x s of (r, s) \<Rightarrow> case lang_filter f xs s of (ys, s) \<Rightarrow> (if r then x # ys else ys, s))"

text \<open>
  \<open>reduce\<close> with an initial value, and without one, when the first element is shifted out of the array of the caller. The result is \<^term>\<open>None\<close> for \<open>undefined\<close>;
  the second component is the array afterwards.
\<close>

definition reduce_from :: "('b \<Rightarrow> 'a \<Rightarrow> 'b) \<Rightarrow> 'b \<Rightarrow> 'a list \<Rightarrow> 'b" where
  "reduce_from f initialValue arr = snd (lang_map (\<lambda>x reducedValue. ((), f reducedValue x)) arr initialValue)"

definition reduce :: "('a \<Rightarrow> 'a \<Rightarrow> 'a) \<Rightarrow> 'a list \<Rightarrow> 'a option \<times> 'a list" where
  "reduce f arr = (case arr of [] \<Rightarrow> (None, []) | x # xs \<Rightarrow> (Some (reduce_from f x xs), xs))"

definition toArray :: "'a list \<Rightarrow> nat \<Rightarrow> 'a list" where
  "toArray arrayLike startOffset = map (\<lambda>i. arrayLike ! i) [startOffset..<length arrayLike]"

text \<open>Arguments that are arrays of arguments or other values.\<close>

datatype 'a nest = Leaf 'a | Nest "'a nest list"

fun unnest :: "'a nest list \<Rightarrow> 'a list" where
  "unnest [] = []"
| "unnest (Nest ns # args) = unnest ns @ unnest args"
| "unnest (Leaf x # args) = x # unnest args"

text \<open>\<open>isEmpty\<close> of an object with its enumerable properties, or of a string.\<close>

definition isEmpty_object :: "('v \<Rightarrow> bool) \<Rightarrow> (string \<times> 'v) list \<Rightarrow> bool" where
  "isEmpty_object truthy props \<longleftrightarrow> list_all (\<lambda>(x, v). \<not> (truthy v \<and> \<not> inherited x)) props"

definition isEmpty_string :: "string \<Rightarrow> bool" where
  "isEmpty_string s \<longleftrightarrow> length s = 0"

section \<open>Searching\<close>

fun find_up :: "('a \<Rightarrow> 'a \<Rightarrow> bool) \<Rightarrow> 'a \<Rightarrow> 'a list \<Rightarrow> nat \<Rightarrow> int" where
  "find_up eq v [] i = - 1"
| "find_up eq v (x # xs) i = (if eq x v then int i else find_up eq v xs (i + 1))"

fun find_down :: "('a \<Rightarrow> 'a \<Rightarrow> bool) \<Rightarrow> 'a \<Rightarrow> 'a list \<Rightarrow> nat \<Rightarrow> int" where
  "find_down eq v xs 0 = - 1"
| "find_down eq v xs (Suc i) = (if eq (xs ! i) v then int i else find_down eq v xs i)"

definition lang_find :: "('a \<Rightarrow> 'a \<Rightarrow> bool) \<Rightarrow> bool \<Rightarrow> 'a list \<Rightarrow> 'a \<Rightarrow> int" where
  "lang_find eq findLast arr v = (if findLast then find_down eq v arr (length arr) else find_up eq v arr 0)"

definition inArray :: "('a \<Rightarrow> 'a \<Rightarrow> bool) \<Rightarrow> 'a list \<Rightarrow> 'a \<Rightarrow> bool" where
  "inArray eq arr v \<longleftrightarrow> lang_find eq False arr v > - 1"

section \<open>Properties\<close>

lemma lang_map_pure: "lang_map (\<lambda>x s. (f x, s)) xs s = (map f xs, s)"
  by (induction xs arbitrary: s) auto

lemma lang_filter_pure: "lang_filter (\<lambda>x s. (P x, s)) xs s = (filter P xs, s)"
  by (induction xs arbitrary: s) auto

text \<open>The elements for which a callback that records its arguments is called.\<close>

lemma everyOrSome_calls:
  "everyOrSome every (\<lambda>x l. (P x, l @ [x])) xs l
     = (if every then list_all P xs else list_ex P xs,
        l @ (let ys = takeWhile (\<lambda>x. P x = every) xs in take (Suc (length ys)) xs))"
  by (induction xs arbitrary: l) (auto simp: Let_def)

lemma reduce_from_foldl: "reduce_from f v xs = foldl f v xs"
proof -
  have "snd (lang_map (\<lambda>x r. ((), f r x)) xs v) = foldl f v xs" by (induction xs arbitrary: v) (auto split: prod.splits, metis snd_conv)
  then show ?thesis by (simp add: reduce_from_def)
qed

lemma toArray_drop: "toArray xs n = drop n xs"
  by (rule nth_equalityI) (auto simp: toArray_def)

lemma unnest_append: "unnest (ms @ ns) = unnest ms @ unnest ns"
  by (induction ms rule: unnest.induct) auto

lemma unnest_leaves: "unnest (map Leaf xs) = xs"
  by (induction xs) auto

lemma find_up_first:
  "find_up eq v xs i = (if list_ex (\<lambda>x. eq x v) xs then int (i + length (takeWhile (\<lambda>x. \<not> eq x v) xs)) else - 1)"
  by (induction xs arbitrary: i) auto

lemma find_down_last:
  "n \<le> length xs \<Longrightarrow> find_down eq v xs n = (if \<exists>i < n. eq (xs ! i) v then int (Max {i. i < n \<and> eq (xs ! i) v}) else - 1)"
proof (induction n)
  case (Suc n)
  show ?case
  proof (cases "eq (xs ! n) v")
    case True
    then have "Max {i. i < Suc n \<and> eq (xs ! i) v} = n" by (intro Max_eqI) auto
    then show ?thesis using True by auto
  next
    case False
    then have "{i. i < Suc n \<and> eq (xs ! i) v} = {i. i < n \<and> eq (xs ! i) v}" by (auto simp: less_Suc_eq)
    then show ?thesis using Suc False by (auto simp: less_Suc_eq)
  qed
qed simp

text \<open>
  The functions that stop early call the callback up to the first element that decides, and no further: the state records exactly these elements, in order.
\<close>

theorem every_some_calls:
  "lang_every (\<lambda>x l. (P x, l @ [x])) xs [] = (list_all P xs, take (Suc (length (takeWhile P xs))) xs)
   \<and> lang_some (\<lambda>x l. (P x, l @ [x])) xs [] = (list_ex P xs, take (Suc (length (takeWhile (\<lambda>x. \<not> P x) xs))) xs)"
  by (simp add: lang_every_def lang_some_def everyOrSome_calls Let_def)

text \<open>
  \<open>find\<close> returns the first or the last index of an equal element, and \<open>inArray\<close> tells whether there is one.
\<close>

theorem lang_find_index:
  "lang_find eq False xs v = (if list_ex (\<lambda>x. eq x v) xs then int (length (takeWhile (\<lambda>x. \<not> eq x v) xs)) else - 1)
   \<and> lang_find eq True xs v = (if list_ex (\<lambda>x. eq x v) xs then int (Max {i. i < length xs \<and> eq (xs ! i) v}) else - 1)
   \<and> inArray eq xs v = list_ex (\<lambda>x. eq x v) xs"
  using find_up_first [of eq v xs 0] find_down_last [of "length xs" xs eq v]
  by (auto simp: lang_find_def inArray_def list_ex_length)

text \<open>
  \<open>reduce\<close> without an initial value computes the fold of the elements and removes the first of them from the array of the caller.
\<close>

theorem reduce_removes_first:
  "reduce f (x # xs) = (Some (foldl f x xs), xs) \<and> reduce_from f x xs = foldl f x xs"
  by (simp add: reduce_def reduce_from_foldl)

end
