(* ===== verification/String_Builder.thy ===== *)
theory String_Builder
  imports Lang_Array JS_Strings
begin

text \<open>
  \<open>src/string/Builder.js\<close>: a buffer that is a string, or on one browser an array of strings that is joined when it is read. Arguments are strings and
  arrays of strings. Indices are natural numbers, except that of \<open>insert\<close>.
\<close>

section \<open>Operations\<close>

record builder =
  arrConcat :: bool
  buf_a :: "string list"
  buf_b :: string
  buf_length :: nat

definition builder_toString :: "builder \<Rightarrow> string" where
  "builder_toString t = (if arrConcat t then concat (buf_a t) else buf_b t)"

text \<open>The loop of \<open>append\<close> calls it again for an argument that is an array.\<close>

fun builder_append :: "string nest list \<Rightarrow> builder \<Rightarrow> builder" where
  "builder_append [] t = t"
| "builder_append (Nest ns # args) t = builder_append args (builder_append ns t)"
| "builder_append (Leaf s # args) t =
     builder_append args
       (let t = (if arrConcat t then t\<lparr>buf_a := buf_a t @ [s]\<rparr> else t\<lparr>buf_b := buf_b t @ s\<rparr>)
        in t\<lparr>buf_length := buf_length t + length s\<rparr>)"

text \<open>The constructor appends its arguments to an empty buffer.\<close>

definition Builder :: "bool \<Rightarrow> string nest list \<Rightarrow> builder" where
  "Builder ie args = builder_append args \<lparr>arrConcat = ie, buf_a = [], buf_b = [], buf_length = 0\<rparr>"

definition builder_clear :: "builder \<Rightarrow> builder" where
  "builder_clear t = t\<lparr>buf_a := [], buf_b := [], buf_length := 0\<rparr>"

text \<open>What \<open>remove\<close>, \<open>replace\<close> and \<open>insert\<close> share: the buffer becomes a string, is changed, and becomes an array again if it was one.\<close>

definition rebuild :: "(string \<Rightarrow> string) \<Rightarrow> builder \<Rightarrow> builder" where
  "rebuild f t =
     (let b = f (if arrConcat t then concat (buf_a t) else buf_b t);
          t = t\<lparr>buf_a := [], buf_b := b, buf_length := length b\<rparr>
      in if arrConcat t then t\<lparr>buf_a := [b], buf_b := []\<rparr> else t)"

definition remove_text :: "nat \<Rightarrow> nat \<Rightarrow> string \<Rightarrow> string" where
  "remove_text f l b = (if f > 0 then take (f - 1) b else []) @ drop (f + l) b"

definition builder_remove :: "nat \<Rightarrow> nat \<Rightarrow> builder \<Rightarrow> builder" where
  "builder_remove f l t = rebuild (remove_text f l) t"

text \<open>
  \<open>replace\<close> with a string replaces its first occurrence. In the replacement a dollar sign stands for itself, for the match or for the text around it, by the
  character that follows.
\<close>

fun expand_dollar :: "string \<Rightarrow> string \<Rightarrow> string \<Rightarrow> string \<Rightarrow> string" where
  "expand_dollar pre m post (CHR ''$'' # c # cs) =
     (if c = CHR ''$'' then CHR ''$'' # expand_dollar pre m post cs
      else if c = CHR ''&'' then m @ expand_dollar pre m post cs
      else if c = CHR 0x60 then pre @ expand_dollar pre m post cs
      else if c = CHR 0x27 then post @ expand_dollar pre m post cs
      else CHR ''$'' # expand_dollar pre m post (c # cs))"
| "expand_dollar pre m post (c # cs) = c # expand_dollar pre m post cs"
| "expand_dollar pre m post [] = []"

fun replace_first :: "string \<Rightarrow> string \<Rightarrow> string \<Rightarrow> string \<Rightarrow> string" where
  "replace_first o' n pre s =
     (if take (length o') s = o' then pre @ expand_dollar pre o' (drop (length o') s) n @ drop (length o') s
      else case s of [] \<Rightarrow> pre | c # cs \<Rightarrow> replace_first o' n (pre @ [c]) cs)"

declare replace_first.simps [simp del]

definition builder_replace :: "string \<Rightarrow> string \<Rightarrow> builder \<Rightarrow> builder" where
  "builder_replace o' n t = rebuild (replace_first o' n []) t"

definition insert_text :: "int \<Rightarrow> string \<Rightarrow> string \<Rightarrow> string" where
  "insert_text idx s b = (if idx = 0 then s @ b else concat (js_splice (map (\<lambda>c. [c]) b) idx 0 [s]))"

definition builder_insert :: "int \<Rightarrow> string \<Rightarrow> builder \<Rightarrow> builder" where
  "builder_insert idx s t = rebuild (insert_text idx s) t"

section \<open>Both representations\<close>

text \<open>A builder is good when its length is that of its text.\<close>

definition builder_ok :: "builder \<Rightarrow> bool" where
  "builder_ok t \<longleftrightarrow> buf_length t = length (builder_toString t)"

datatype builder_op = Append "string nest list" | Clear | Remove nat nat | Replace string string | Insert int string

fun builder_step :: "builder_op \<Rightarrow> builder \<Rightarrow> builder" where
  "builder_step (Append args) t = builder_append args t"
| "builder_step Clear t = builder_clear t"
| "builder_step (Remove f l) t = builder_remove f l t"
| "builder_step (Replace o' n) t = builder_replace o' n t"
| "builder_step (Insert i s) t = builder_insert i s t"

text \<open>The operations on the text.\<close>

fun text_step :: "builder_op \<Rightarrow> string \<Rightarrow> string" where
  "text_step (Append args) b = b @ concat (unnest args)"
| "text_step Clear b = []"
| "text_step (Remove f l) b = remove_text f l b"
| "text_step (Replace o' n) b = replace_first o' n [] b"
| "text_step (Insert i s) b = insert_text i s b"

lemma append_text:
  "builder_ok t \<Longrightarrow> builder_ok (builder_append args t) \<and> arrConcat (builder_append args t) = arrConcat t
    \<and> builder_toString (builder_append args t) = builder_toString t @ concat (unnest args)"
proof (induction args t rule: builder_append.induct)
  case (3 s args t)
  let ?t = "(let t = (if arrConcat t then t\<lparr>buf_a := buf_a t @ [s]\<rparr> else t\<lparr>buf_b := buf_b t @ s\<rparr>) in t\<lparr>buf_length := buf_length t + length s\<rparr>)"
  have "builder_ok ?t \<and> arrConcat ?t = arrConcat t \<and> builder_toString ?t = builder_toString t @ s"
    using 3(2) by (simp add: builder_ok_def builder_toString_def Let_def)
  then show ?case using 3(1) by simp
qed simp_all

lemma rebuild_text: "builder_ok (rebuild f t) \<and> arrConcat (rebuild f t) = arrConcat t \<and> builder_toString (rebuild f t) = f (builder_toString t)"
  by (simp add: rebuild_def builder_ok_def builder_toString_def Let_def)

lemma clear_text: "builder_ok (builder_clear t) \<and> arrConcat (builder_clear t) = arrConcat t \<and> builder_toString (builder_clear t) = []"
  by (simp add: builder_clear_def builder_ok_def builder_toString_def)

lemma builder_step_text:
  assumes "builder_ok t"
  shows "builder_ok (builder_step p t) \<and> arrConcat (builder_step p t) = arrConcat t \<and> builder_toString (builder_step p t) = text_step p (builder_toString t)"
  using append_text [OF assms] rebuild_text clear_text
  by (cases p) (simp_all add: builder_remove_def builder_replace_def builder_insert_def)

lemma builder_steps_text:
  "builder_ok t \<Longrightarrow> builder_ok (fold builder_step ps t) \<and> builder_toString (fold builder_step ps t) = fold text_step ps (builder_toString t)"
proof (induction ps arbitrary: t)
  case (Cons p ps)
  then show ?case using builder_step_text [of t p] by simp
qed simp

text \<open>
  Both representations of a builder implement the same operations on a text: after any operations the builder that collects an array and the one that appends to a string
  give the text that the operations make of the arguments of the constructor, and their length is the length of that text.
\<close>

theorem builder_representations_agree:
  "builder_toString (fold builder_step ps (Builder ie args)) = fold text_step ps (concat (unnest args))
   \<and> buf_length (fold builder_step ps (Builder ie args)) = length (fold text_step ps (concat (unnest args)))"
proof -
  let ?t = "\<lparr>arrConcat = ie, buf_a = [], buf_b = [], buf_length = 0\<rparr>"
  have "builder_ok ?t" "builder_toString ?t = []" by (simp_all add: builder_ok_def builder_toString_def)
  then have "builder_ok (Builder ie args)" "builder_toString (Builder ie args) = concat (unnest args)"
    using append_text [of ?t args] by (simp_all add: Builder_def)
  then show ?thesis using builder_steps_text [of "Builder ie args" ps] by (simp add: builder_ok_def)
qed

lemma concat_single: "concat (map (\<lambda>c. [c]) xs) = xs"
  by (induction xs) auto

text \<open>
  Insertion is right; removal of \<open>l\<close> characters from a later position also removes the character before them.
\<close>

theorem builder_insert_remove:
  "i \<le> length b \<Longrightarrow> insert_text (int i) s b = take i b @ s @ drop i b"
  "0 < f \<Longrightarrow> f + l \<le> length b \<Longrightarrow> length (remove_text f l b) = length b - (l + 1)"
  "remove_text 0 l b = drop l b"
proof -
  assume "i \<le> length b"
  then show "insert_text (int i) s b = take i b @ s @ drop i b"
    by (cases "i = 0") (simp_all add: insert_text_def js_splice_def Let_def concat_single take_map drop_map)
qed (auto simp: remove_text_def)

end
