(* ===== verification/Undo_Browser.thy ===== *)
theory Undo_Browser
  imports JS_Strings
begin

text \<open>
  \<open>src/undo/browser.js\<close>: the back and forward buttons of the browser. The module keeps two stacks of states and finds out from the address, or from the
  address of a hidden frame, which button was pressed. The address, its fragment and the timeouts that will change them are part of the state, and so are the objects that the application
  gave: their callbacks are wrapped in place on one browser. The functions of the application are not known; their calls are recorded. Reads and writes of the document
  other than its address (the hidden frame and anchor) are left out.
\<close>

section \<open>State\<close>

text \<open>The field \<open>changeUrl\<close>: absent, true, or a name for the fragment.\<close>

datatype change_url = NoChange | UniqueNumber | Named string

text \<open>A callback: the function of the application, or one of the two interceptors around another callback, with the fragment it restores.\<close>

datatype hist_cb = Own | Tcb string hist_cb | Tfw string hist_cb

record hist_args =
  kw_changeUrl :: change_url
  kw_back :: "hist_cb option"
  kw_backButton :: "hist_cb option"
  kw_forward :: "hist_cb option"
  kw_forwardButton :: "hist_cb option"
  kw_handle :: "hist_cb option"

text \<open>A state refers to the object that was given by its address.\<close>

record hist_state =
  st_url :: "string option"
  st_kwArgs :: nat
  st_urlHash :: "string option"

text \<open>A call of a function of the application: the object, the property and the argument, if it is defined.\<close>

type_synonym hist_call = "nat \<times> string \<times> string option"

record undo_browser =
  initialHref :: string
  initialHash :: string
  initialState :: "hist_state option"
  moveForward :: bool
  historyStack :: "hist_state list"
  forwardStack :: "hist_state list"
  changingUrl :: bool
  locationTimer :: bool
  win_page :: string
  win_href :: string
  win_hash :: string
  timeouts :: "(string \<times> bool) list"
  hist_objs :: "nat \<Rightarrow> hist_args"
  hist_calls :: "hist_call list"

record browser_kind =
  is_ie :: bool
  is_moz :: bool
  is_opera :: bool

section \<open>Operations\<close>

definition createState :: "string option \<Rightarrow> nat \<Rightarrow> string option \<Rightarrow> hist_state" where
  "createState url args hash = \<lparr>st_url = url, st_kwArgs = args, st_urlHash = hash\<rparr>"

definition setInitialState :: "nat \<Rightarrow> undo_browser \<Rightarrow> undo_browser" where
  "setInitialState args b = b\<lparr>initialState := Some (createState (Some (initialHref b)) args (Some (initialHash b)))\<rparr>"

definition getUrlQuery :: "string \<Rightarrow> string option" where
  "getUrlQuery url = (let segments = split_on CHR ''?'' url in if length segments < 2 then None else Some (segments ! 1))"

definition loadIframeHistory :: "string \<Rightarrow> nat \<Rightarrow> undo_browser \<Rightarrow> string \<times> undo_browser" where
  "loadIframeHistory base now b = (base @ ''iframe_history.html?'' @ to_dec now, b\<lparr>moveForward := True\<rparr>)"

definition hash_of :: "nat \<Rightarrow> change_url \<Rightarrow> string option" where
  "hash_of now c =
     (case c of NoChange \<Rightarrow> None | UniqueNumber \<Rightarrow> Some (''#'' @ to_dec now) | Named s \<Rightarrow> if s = [] then None else Some (''#'' @ s))"

text \<open>The assignment of a fragment to the address of the window, and a timeout that makes it; the timeout that \<open>addToHistory\<close> sets also ends the change.\<close>

definition set_location :: "string \<Rightarrow> undo_browser \<Rightarrow> undo_browser" where
  "set_location h b = b\<lparr>win_hash := h, win_href := win_page b @ h\<rparr>"

definition run_timeout :: "undo_browser \<Rightarrow> undo_browser" where
  "run_timeout b =
     (case timeouts b of
        [] \<Rightarrow> b
      | (h, ends) # rest \<Rightarrow> (set_location h b)\<lparr>timeouts := rest, changingUrl := changingUrl b \<and> \<not> ends\<rparr>)"

text \<open>The interceptors are put at the first property that has a callback.\<close>

definition install_back :: "string \<Rightarrow> hist_args \<Rightarrow> hist_args" where
  "install_back hash a =
     (case (kw_back a, kw_backButton a, kw_handle a) of
        (Some oldCB, _) \<Rightarrow> a\<lparr>kw_back := Some (Tcb hash oldCB)\<rparr>
      | (None, Some oldCB, _) \<Rightarrow> a\<lparr>kw_backButton := Some (Tcb hash oldCB)\<rparr>
      | (None, None, Some oldCB) \<Rightarrow> a\<lparr>kw_handle := Some (Tcb hash oldCB)\<rparr>
      | (None, None, None) \<Rightarrow> a)"

definition install_forward :: "string \<Rightarrow> hist_args \<Rightarrow> hist_args" where
  "install_forward hash a =
     (case (kw_forward a, kw_forwardButton a, kw_handle a) of
        (Some oldFW, _) \<Rightarrow> a\<lparr>kw_forward := Some (Tfw hash oldFW)\<rparr>
      | (None, Some oldFW, _) \<Rightarrow> a\<lparr>kw_forwardButton := Some (Tfw hash oldFW)\<rparr>
      | (None, None, Some oldFW) \<Rightarrow> a\<lparr>kw_handle := Some (Tfw hash oldFW)\<rparr>
      | (None, None, None) \<Rightarrow> a)"

text \<open>An unset initial state raises when its fragment is read.\<close>

definition addToHistory :: "browser_kind \<Rightarrow> string \<Rightarrow> nat \<Rightarrow> nat \<Rightarrow> undo_browser \<Rightarrow> unit result \<times> undo_browser" where
  "addToHistory kd base now args b =
     (let b = b\<lparr>forwardStack := []\<rparr>
      in case hash_of now (kw_changeUrl (hist_objs b args)) of
           None \<Rightarrow>
             (case loadIframeHistory base now b of
                (url, b) \<Rightarrow> (Inr (), b\<lparr>historyStack := historyStack b @ [createState (Some url) args None]\<rparr>))
         | Some hash \<Rightarrow>
             if historyStack b = [] \<and> initialState b = None then (Inl TypeError, b)
             else if historyStack b = [] \<and> st_urlHash (the (initialState b)) = Some hash
             then (Inr (), b\<lparr>initialState := Some (createState None args (Some hash))\<rparr>)
             else if historyStack b \<noteq> [] \<and> st_urlHash (last (historyStack b)) = Some hash
             then (Inr (), b\<lparr>historyStack := butlast (historyStack b) @ [createState None args (Some hash)]\<rparr>)
             else let b = b\<lparr>changingUrl := True, timeouts := timeouts b @ [(hash, True)]\<rparr>;
                      (url, b) =
                        (if is_ie kd
                         then (case loadIframeHistory base now b of
                                 (u, b) \<Rightarrow> (Some u, b\<lparr>hist_objs := (hist_objs b)(args := install_forward hash (install_back hash (hist_objs b args)))\<rparr>))
                         else (None, if is_moz kd then b\<lparr>locationTimer := True\<rparr> else b))
                  in (Inr (), b\<lparr>historyStack := historyStack b @ [createState url args (Some hash)]\<rparr>))"

text \<open>
  The call of a callback of an object. The interceptors restore the fragment when there is one, the first by a timeout and the second at once, and go on with the callback they are around.
\<close>

fun call_cb :: "nat \<Rightarrow> string \<Rightarrow> string option \<Rightarrow> hist_cb \<Rightarrow> undo_browser \<Rightarrow> undo_browser" where
  "call_cb args pr handleName Own b = b\<lparr>hist_calls := hist_calls b @ [(args, pr, handleName)]\<rparr>"
| "call_cb args pr handleName (Tcb hash oldCB) b =
     call_cb args pr handleName oldCB (if win_hash b \<noteq> [] then b\<lparr>timeouts := timeouts b @ [(hash, False)]\<rparr> else b)"
| "call_cb args pr handleName (Tfw hash oldFW) b =
     call_cb args pr handleName oldFW (if win_hash b \<noteq> [] then set_location hash b else b)"

definition back_callback :: "nat \<Rightarrow> undo_browser \<Rightarrow> undo_browser" where
  "back_callback args b =
     (let kw = hist_objs b args
      in case (kw_back kw, kw_backButton kw, kw_handle kw) of
           (Some c, _) \<Rightarrow> call_cb args ''back'' None c b
         | (None, Some c, _) \<Rightarrow> call_cb args ''backButton'' None c b
         | (None, None, Some c) \<Rightarrow> call_cb args ''handle'' (Some ''back'') c b
         | (None, None, None) \<Rightarrow> b)"

definition forward_callback :: "nat \<Rightarrow> undo_browser \<Rightarrow> undo_browser" where
  "forward_callback args b =
     (let kw = hist_objs b args
      in case (kw_forward kw, kw_forwardButton kw, kw_handle kw) of
           (Some c, _) \<Rightarrow> call_cb args ''forward'' None c b
         | (None, Some c, _) \<Rightarrow> call_cb args ''forwardButton'' None c b
         | (None, None, Some c) \<Rightarrow> call_cb args ''handle'' (Some ''forward'') c b
         | (None, None, None) \<Rightarrow> b)"

definition handleBackButton :: "undo_browser \<Rightarrow> undo_browser" where
  "handleBackButton b =
     (if historyStack b = [] then b
      else let current = last (historyStack b);
               rest = butlast (historyStack b);
               lst = (if rest = [] then initialState b else Some (last rest));
               b = b\<lparr>historyStack := rest\<rparr>;
               b = (case lst of Some l \<Rightarrow> back_callback (st_kwArgs l) b | None \<Rightarrow> b)
           in b\<lparr>forwardStack := forwardStack b @ [current]\<rparr>)"

definition handleForwardButton :: "undo_browser \<Rightarrow> undo_browser" where
  "handleForwardButton b =
     (if forwardStack b = [] then b
      else let lst = last (forwardStack b);
               b = b\<lparr>forwardStack := butlast (forwardStack b)\<rparr>;
               b = forward_callback (st_kwArgs lst) b
           in b\<lparr>historyStack := historyStack b @ [lst]\<rparr>)"

definition checkLocation :: "undo_browser \<Rightarrow> undo_browser" where
  "checkLocation b =
     (if \<not> changingUrl b
      then let hsl = length (historyStack b)
           in if (win_hash b = initialHash b \<or> win_href b = initialHref b) \<and> hsl = 1 then handleBackButton b
              else if forwardStack b \<noteq> [] \<and> st_urlHash (last (forwardStack b)) = Some (win_hash b) then handleForwardButton b
              else if hsl \<ge> 2 \<and> st_urlHash (historyStack b ! (hsl - 2)) = Some (win_hash b) then handleBackButton b
              else b
      else b)"

text \<open>A state without an address raises when its query is looked for.\<close>

definition query_of :: "hist_state \<Rightarrow> string option result" where
  "query_of st = (case st_url st of Some u \<Rightarrow> Inr (getUrlQuery u) | None \<Rightarrow> Inl TypeError)"

definition iframeLoaded :: "browser_kind \<Rightarrow> string \<Rightarrow> undo_browser \<Rightarrow> unit result \<times> undo_browser" where
  "iframeLoaded kd href b =
     (if is_opera kd then (Inr (), b)
      else case getUrlQuery href of
             None \<Rightarrow> (Inr (), if length (historyStack b) = 1 then handleBackButton b else b)
           | Some query \<Rightarrow>
               if moveForward b then (Inr (), b\<lparr>moveForward := False\<rparr>)
               else let hsl = length (historyStack b);
                        back = (if hsl \<ge> 2 then rbind (query_of (historyStack b ! (hsl - 2))) (\<lambda>q. Inr (q = Some query)) else Inr False)
                    in case back of
                         Inl e \<Rightarrow> (Inl e, b)
                       | Inr True \<Rightarrow> (Inr (), handleBackButton b)
                       | Inr False \<Rightarrow>
                           if forwardStack b = [] then (Inr (), b)
                           else (case query_of (last (forwardStack b)) of
                                   Inl e \<Rightarrow> (Inl e, b)
                                 | Inr q \<Rightarrow> (Inr (), if q = Some query then handleForwardButton b else b)))"

section \<open>A session\<close>

text \<open>
  What happens: the application visits a new state, the user presses a button, and the timer ticks. The browser keeps the fragments that were visited after the first
  page and the position among them, and shows the address of the position. A button only moves the browser; the module finds out when the timer ticks.
\<close>

datatype nav = Visit nat nat | Back | Forward | Tick

type_synonym session = "string list \<times> nat"

definition show_position :: "session \<Rightarrow> undo_browser \<Rightarrow> undo_browser" where
  "show_position se b =
     (case se of (hs, p) \<Rightarrow> if p = 0 then b\<lparr>win_hash := initialHash b, win_href := initialHref b\<rparr> else set_location (hs ! (p - 1)) b)"

fun session_step :: "string \<Rightarrow> nav \<Rightarrow> session \<times> undo_browser \<Rightarrow> session \<times> undo_browser" where
  "session_step base (Visit now args) ((hs, p), b) =
     (let b = snd (addToHistory \<lparr>is_ie = False, is_moz = True, is_opera = False\<rparr> base now args b)
      in ((case timeouts b of (h, _) # _ \<Rightarrow> (take p hs @ [h], p + 1) | [] \<Rightarrow> (hs, p)), run_timeout b))"
| "session_step base Back ((hs, p), b) = (let se = (hs, p - 1) in (se, show_position se b))"
| "session_step base Forward ((hs, p), b) = (let se = (hs, if p < length hs then p + 1 else p) in (se, show_position se b))"
| "session_step base Tick ((hs, p), b) = ((hs, p), checkLocation b)"

text \<open>
  The timer sees every button: after each press it ticks before anything else happens. The source supports one step at a time only.
\<close>

fun polled :: "nav list \<Rightarrow> bool" where
  "polled [] = True"
| "polled (Visit now args # ns) = polled ns"
| "polled (Tick # ns) = polled ns"
| "polled (Back # Tick # ns) = polled ns"
| "polled (Forward # Tick # ns) = polled ns"
| "polled _ = False"

text \<open>
  The specification: the visited entries, the position, and the functions of the objects of the application that are to be called, by object and property. With what
  arguments they are called is left open.
\<close>

type_synonym called = "nat \<times> string"

type_synonym spec_session = "(nat \<times> string) list \<times> nat \<times> called list"

definition called_of :: "hist_call \<Rightarrow> called" where
  "called_of c = (fst c, fst (snd c))"

definition expected_call :: "nat \<Rightarrow> string \<Rightarrow> hist_cb option \<Rightarrow> hist_cb option \<Rightarrow> hist_cb option \<Rightarrow> called list" where
  "expected_call i dir c c_button c_handle =
     (if c \<noteq> None then [(i, dir)] else if c_button \<noteq> None then [(i, dir @ ''Button'')] else if c_handle \<noteq> None then [(i, ''handle'')] else [])"

definition back_calls :: "(nat \<Rightarrow> hist_args) \<Rightarrow> nat \<Rightarrow> called list" where
  "back_calls os i = expected_call i ''back'' (kw_back (os i)) (kw_backButton (os i)) (kw_handle (os i))"

definition forward_calls :: "(nat \<Rightarrow> hist_args) \<Rightarrow> nat \<Rightarrow> called list" where
  "forward_calls os i = expected_call i ''forward'' (kw_forward (os i)) (kw_forwardButton (os i)) (kw_handle (os i))"

fun spec_nav :: "(nat \<Rightarrow> hist_args) \<Rightarrow> nat \<Rightarrow> nav \<Rightarrow> spec_session \<Rightarrow> spec_session" where
  "spec_nav os init (Visit now args) (es, p, cs) = (take p es @ [(args, the (hash_of now (kw_changeUrl (os args))))], p + 1, cs)"
| "spec_nav os init Back (es, p, cs) =
     (es, p - 1, if p = 0 then cs else cs @ back_calls os (if p = 1 then init else fst (es ! (p - 2))))"
| "spec_nav os init Forward (es, p, cs) =
     (if p < length es then (es, p + 1, cs @ forward_calls os (fst (es ! p))) else (es, p, cs))"
| "spec_nav os init Tick (es, p, cs) = (es, p, cs)"

text \<open>Visited states have fragments that are new on the way to them, and do not lead back to the first page.\<close>

fun visit_ok :: "(nat \<Rightarrow> hist_args) \<Rightarrow> string \<Rightarrow> string \<Rightarrow> string \<Rightarrow> nav \<Rightarrow> spec_session \<Rightarrow> bool" where
  "visit_ok os hash0 href0 page (Visit now args) (es, p, cs) =
     (case hash_of now (kw_changeUrl (os args)) of
        None \<Rightarrow> False
      | Some h \<Rightarrow> h \<noteq> hash0 \<and> h \<notin> set (map snd (take p es)) \<and> page @ h \<noteq> href0)"
| "visit_ok os hash0 href0 page n S = True"

fun visits_ok :: "(nat \<Rightarrow> hist_args) \<Rightarrow> string \<Rightarrow> string \<Rightarrow> string \<Rightarrow> nat \<Rightarrow> nav list \<Rightarrow> spec_session \<Rightarrow> bool" where
  "visits_ok os hash0 href0 page init [] S = True"
| "visits_ok os hash0 href0 page init (n # ns) S =
     (visit_ok os hash0 href0 page n S \<and> visits_ok os hash0 href0 page init ns (spec_nav os init n S))"

text \<open>The objects as the application made them.\<close>

definition own_args :: "hist_args \<Rightarrow> bool" where
  "own_args a \<longleftrightarrow> {kw_back a, kw_backButton a, kw_forward a, kw_forwardButton a, kw_handle a} \<subseteq> {None, Some Own}"

lemma calls_of_cb [simp]: "hist_calls (call_cb i pr nm c b) = hist_calls b @ [(i, pr, nm)]"
  by (induction i pr nm c b rule: call_cb.induct) (simp_all add: set_location_def)

lemma stacks_of_cb [simp]: "historyStack (call_cb i pr nm c b) = historyStack b" "forwardStack (call_cb i pr nm c b) = forwardStack b"
  by (induction i pr nm c b rule: call_cb.induct) (simp_all add: set_location_def)

text \<open>Whatever interceptors are around them, the functions of the application are called as expected, and the stacks are kept.\<close>

abbreviation calls_made :: "undo_browser \<Rightarrow> called list" where
  "calls_made b \<equiv> map called_of (hist_calls b)"

lemma calls_of_back [simp]: "calls_made (back_callback i b) = calls_made b @ back_calls (hist_objs b) i"
  by (auto simp: back_callback_def back_calls_def expected_call_def called_of_def Let_def split: option.split)

lemma calls_of_forward [simp]: "calls_made (forward_callback i b) = calls_made b @ forward_calls (hist_objs b) i"
  by (auto simp: forward_callback_def forward_calls_def expected_call_def called_of_def Let_def split: option.split)

lemma stacks_of_calls [simp]:
  "historyStack (back_callback i b) = historyStack b" "forwardStack (back_callback i b) = forwardStack b"
  "historyStack (forward_callback i b) = historyStack b" "forwardStack (forward_callback i b) = forwardStack b"
  by (simp_all add: back_callback_def forward_callback_def Let_def split: option.split)

lemma call_own: "\<exists>cs. call_cb i pr nm Own b = b\<lparr>hist_calls := cs\<rparr>" "\<exists>cs. b = b\<lparr>hist_calls := cs\<rparr>"
proof -
  show "\<exists>cs. call_cb i pr nm Own b = b\<lparr>hist_calls := cs\<rparr>" by (rule exI) (rule call_cb.simps(1))
  show "\<exists>cs. b = b\<lparr>hist_calls := cs\<rparr>" by (rule exI [of _ "hist_calls b"]) simp
qed

lemma own_call_back:
  assumes "own_args (hist_objs b i)"
  shows "\<exists>cs. back_callback i b = b\<lparr>hist_calls := cs\<rparr>"
proof -
  have "kw_back (hist_objs b i) \<in> {None, Some Own}" "kw_backButton (hist_objs b i) \<in> {None, Some Own}" "kw_handle (hist_objs b i) \<in> {None, Some Own}"
    using assms by (simp_all add: own_args_def)
  then show ?thesis unfolding back_callback_def Let_def by (elim insertE emptyE) (simp_all add: call_own del: call_cb.simps)
qed

lemma own_call_forward:
  assumes "own_args (hist_objs b i)"
  shows "\<exists>cs. forward_callback i b = b\<lparr>hist_calls := cs\<rparr>"
proof -
  have "kw_forward (hist_objs b i) \<in> {None, Some Own}" "kw_forwardButton (hist_objs b i) \<in> {None, Some Own}" "kw_handle (hist_objs b i) \<in> {None, Some Own}"
    using assms by (simp_all add: own_args_def)
  then show ?thesis unfolding forward_callback_def Let_def by (elim insertE emptyE) (simp_all add: call_own del: call_cb.simps)
qed

definition entry_state :: "nat \<times> string \<Rightarrow> hist_state" where
  "entry_state e = createState None (fst e) (Some (snd e))"

lemma entry_simps [simp]: "st_urlHash (entry_state e) = Some (snd e)" "st_kwArgs (entry_state e) = fst e"
  by (simp_all add: entry_state_def createState_def)

lemma last_take: "0 < p \<Longrightarrow> p \<le> length es \<Longrightarrow> last (take p es) = es ! (p - 1)"
  by (subst last_conv_nth) auto

lemma butlast_take_pos: "0 < p \<Longrightarrow> p \<le> length es \<Longrightarrow> butlast (take p es) = take (p - 1) es"
  by (simp add: butlast_conv_take)

lemma last_rev_drop: "p < length es \<Longrightarrow> last (rev (drop p es)) = es ! p \<and> butlast (rev (drop p es)) = rev (drop (Suc p) es)"
  by (simp add: Cons_nth_drop_Suc [symmetric])

lemma distinct_positions: "distinct (h0 # hs) \<Longrightarrow> i \<le> length hs \<Longrightarrow> j \<le> length hs \<Longrightarrow> (h0 # hs) ! i = (h0 # hs) ! j \<longleftrightarrow> i = j"
  by (rule nth_eq_iff_index_eq) auto

text \<open>The stacks at a position, and what the check does when the address is that of a position next to it.\<close>

definition stacks_at :: "(nat \<times> string) list \<Rightarrow> nat \<Rightarrow> undo_browser \<Rightarrow> bool" where
  "stacks_at es p b \<longleftrightarrow> historyStack b = map entry_state (take p es) \<and> forwardStack b = map entry_state (rev (drop p es))"

lemma checkLocation_at:
  assumes "stacks_at es p b" "p \<le> length es" "q \<le> length es" "distinct (initialHash b # map snd es)" "\<not> changingUrl b"
    and "win_hash b = (initialHash b # map snd es) ! q" "win_href b = initialHref b \<longleftrightarrow> q = 0"
  shows "checkLocation b =
    (if q = 0 \<and> p = 1 then handleBackButton b
     else if p < length es \<and> q = p + 1 then handleForwardButton b
     else if p \<ge> 2 \<and> q = p - 1 then handleBackButton b else b)"
proof -
  note same = distinct_positions [OF assms(4)]
  have c1: "(win_hash b = initialHash b \<or> win_href b = initialHref b) = (q = 0)" using assms(3,6,7) same [of q 0] by auto
  have len: "length (historyStack b) = p" using assms(1,2) by (simp add: stacks_at_def)
  have c2: "(forwardStack b \<noteq> [] \<and> st_urlHash (last (forwardStack b)) = Some (win_hash b)) = (p < length es \<and> q = p + 1)"
  proof (cases "p < length es")
    case True
    then have "last (forwardStack b) = entry_state (es ! p)" "forwardStack b \<noteq> []"
      using assms(1) last_rev_drop [OF True] by (auto simp: stacks_at_def last_map)
    moreover have "(initialHash b # map snd es) ! (p + 1) = snd (es ! p)" using True by simp
    ultimately show ?thesis using same [of "p + 1" q] assms(3,6) True by auto
  qed (use assms(1) in \<open>simp add: stacks_at_def\<close>)
  have c3: "(p \<ge> 2 \<and> st_urlHash (historyStack b ! (p - 2)) = Some (win_hash b)) = (p \<ge> 2 \<and> q = p - 1)"
  proof (cases "p \<ge> 2")
    case True
    then have "historyStack b ! (p - 2) = entry_state (es ! (p - 2))" using assms(1,2) by (simp add: stacks_at_def)
    moreover have "(initialHash b # map snd es) ! (p - 1) = snd (es ! (p - 2))" using True assms(2) by (simp add: nth_Cons' numeral_2_eq_2)
    ultimately show ?thesis using same [of "p - 1" q] assms(2,3,6) True by auto
  qed simp
  show ?thesis using assms(5) unfolding checkLocation_def Let_def len c1 c2 c3 by simp
qed

lemma back_at:
  assumes "stacks_at es p b" "0 < p" "p \<le> length es" "initialState b = Some st0"
  shows "stacks_at es (p - 1) (handleBackButton b)
    \<and> calls_made (handleBackButton b) = calls_made b @ back_calls (hist_objs b) (if p = 1 then st_kwArgs st0 else fst (es ! (p - 2)))"
proof -
  have h: "historyStack b = map entry_state (take p es)" "historyStack b \<noteq> []" using assms(1-3) by (auto simp: stacks_at_def)
  have cur: "last (historyStack b) = entry_state (es ! (p - 1))" "butlast (historyStack b) = map entry_state (take (p - 1) es)"
    using h last_take [OF assms(2,3)] butlast_take_pos [OF assms(2,3)] by (simp_all add: last_map map_butlast [symmetric])
  have "drop (p - 1) es = es ! (p - 1) # drop p es" using assms(2,3) Cons_nth_drop_Suc [of "p - 1" es] by simp
  then have "rev (drop (p - 1) es) = rev (drop p es) @ [es ! (p - 1)]" by simp
  moreover have "p \<noteq> 1 \<Longrightarrow> last (map entry_state (take (p - 1) es)) = entry_state (es ! (p - 2))"
    using assms(2,3) last_take [of "p - 1" es] by (subst last_map) (auto simp: numeral_2_eq_2)
  moreover have "(take (p - 1) es = []) = (p = 1)" using assms(2,3) by auto
  ultimately show ?thesis using assms(1,4) h(2) cur by (simp add: handleBackButton_def stacks_at_def Let_def)
qed

lemma forward_at:
  assumes "stacks_at es p b" "p < length es"
  shows "stacks_at es (p + 1) (handleForwardButton b) \<and> calls_made (handleForwardButton b) = calls_made b @ forward_calls (hist_objs b) (fst (es ! p))"
proof -
  have f: "forwardStack b = map entry_state (rev (drop p es))" "forwardStack b \<noteq> []" using assms by (auto simp: stacks_at_def)
  have "last (forwardStack b) = entry_state (es ! p)" "butlast (forwardStack b) = map entry_state (rev (drop (p + 1) es))"
    using f last_rev_drop [OF assms(2)] by (simp_all add: last_map map_butlast [symmetric])
  then show ?thesis using assms f(2) by (simp add: handleForwardButton_def stacks_at_def Let_def take_Suc_conv_app_nth)
qed

text \<open>The buttons touch no other fields, as long as the callbacks are those of the application.\<close>

definition other_fields :: "undo_browser \<Rightarrow> string \<times> string \<times> hist_state option \<times> bool \<times> string \<times> string \<times> string \<times> (string \<times> bool) list \<times> (nat \<Rightarrow> hist_args)" where
  "other_fields b = (initialHref b, initialHash b, initialState b, changingUrl b, win_page b, win_href b, win_hash b, timeouts b, hist_objs b)"

lemma other_back:
  assumes "\<forall>i. own_args (hist_objs b i)"
  shows "other_fields (handleBackButton b) = other_fields b"
proof -
  have "other_fields ((back_callback i (b\<lparr>historyStack := h\<rparr>))\<lparr>forwardStack := f\<rparr>) = other_fields b" for i h f
    using own_call_back [of "b\<lparr>historyStack := h\<rparr>" i] assms by (auto simp: other_fields_def)
  moreover have "other_fields (b\<lparr>historyStack := h, forwardStack := f\<rparr>) = other_fields b" for h f by (simp add: other_fields_def)
  ultimately show ?thesis by (simp add: handleBackButton_def Let_def split: option.split)
qed

lemma other_forward:
  assumes "\<forall>i. own_args (hist_objs b i)"
  shows "other_fields (handleForwardButton b) = other_fields b"
proof -
  have "other_fields ((forward_callback i (b\<lparr>forwardStack := f\<rparr>))\<lparr>historyStack := h\<rparr>) = other_fields b" for i h f
    using own_call_forward [of "b\<lparr>forwardStack := f\<rparr>" i] assms by (auto simp: other_fields_def)
  then show ?thesis by (simp add: handleForwardButton_def Let_def)
qed

text \<open>The address belongs to the position, and the fragments tell the positions apart.\<close>

definition address_ok :: "(nat \<Rightarrow> hist_args) \<Rightarrow> string \<Rightarrow> nat \<Rightarrow> (nat \<times> string) list \<Rightarrow> nat \<Rightarrow> undo_browser \<Rightarrow> bool" where
  "address_ok os page init es p b \<longleftrightarrow>
     p \<le> length es \<and> distinct (initialHash b # map snd es) \<and> (\<forall>h \<in> set (map snd es). page @ h \<noteq> initialHref b)
     \<and> hist_objs b = os \<and> win_page b = page
     \<and> initialState b = Some (createState (Some (initialHref b)) init (Some (initialHash b))) \<and> \<not> changingUrl b \<and> timeouts b = []
     \<and> win_hash b = (initialHash b # map snd es) ! p \<and> (win_href b = initialHref b \<longleftrightarrow> p = 0)"

lemma address_ok_cong: "other_fields b = other_fields b' \<Longrightarrow> address_ok os page init es p b = address_ok os page init es p b'"
  by (simp add: address_ok_def other_fields_def)

definition tracks :: "(nat \<Rightarrow> hist_args) \<Rightarrow> string \<Rightarrow> nat \<Rightarrow> session \<times> undo_browser \<Rightarrow> spec_session \<Rightarrow> bool" where
  "tracks os page init sb S \<longleftrightarrow>
     (case (sb, S) of (((hs, q), b), (es, p, cs)) \<Rightarrow>
        q = p \<and> hs = map snd es \<and> stacks_at es p b \<and> calls_made b = cs \<and> address_ok os page init es p b)"

lemma tracks_iff:
  "tracks os page init ((hs, q), b) (es, p, cs) \<longleftrightarrow>
     q = p \<and> hs = map snd es \<and> stacks_at es p b \<and> calls_made b = cs \<and> address_ok os page init es p b"
  by (simp add: tracks_def)

lemma show_position_ok:
  assumes "address_ok os page init es p b" "q \<le> length es"
  shows "address_ok os page init es q (show_position (map snd es, q) b)" "stacks_at es p (show_position (map snd es, q) b) = stacks_at es p b"
    "calls_made (show_position (map snd es, q) b) = calls_made b"
  using assms by (auto simp: address_ok_def show_position_def set_location_def stacks_at_def)

lemma check_moves:
  assumes "stacks_at es p b" "p \<le> length es" "address_ok os page init es q b" "q = p \<or> Suc q = p \<or> q = Suc p" "\<forall>i. own_args (os i)"
  shows "stacks_at es q (checkLocation b) \<and> address_ok os page init es q (checkLocation b)
    \<and> calls_made (checkLocation b) = calls_made b @
        (if Suc q = p then back_calls os (if p = 1 then init else fst (es ! (p - 2))) else if q = Suc p then forward_calls os (fst (es ! p)) else [])"
proof -
  have q: "q \<le> length es" "initialState b = Some (createState (Some (initialHref b)) init (Some (initialHash b)))" "hist_objs b = os"
    using assms(3) by (simp_all add: address_ok_def)
  have own: "\<forall>i. own_args (hist_objs b i)" using assms(5) q(3) by simp
  have check: "checkLocation b =
    (if q = 0 \<and> p = 1 then handleBackButton b
     else if p < length es \<and> q = p + 1 then handleForwardButton b
     else if p \<ge> 2 \<and> q = p - 1 then handleBackButton b else b)"
    using assms(3) by (intro checkLocation_at [OF assms(1,2) q(1)]) (simp_all add: address_ok_def)
  from assms(4) consider "q = p" | "Suc q = p" | "q = Suc p" by blast
  then show ?thesis
  proof cases
    case 1
    then have "checkLocation b = b" using check by auto
    then show ?thesis using 1 assms(1,3) by simp
  next
    case 2
    then have "checkLocation b = handleBackButton b" using check by auto
    then show ?thesis
      using 2 back_at [OF assms(1) _ assms(2) q(2)] assms(3) address_ok_cong [OF other_back [OF own]] q(3) by (auto simp: createState_def)
  next
    case 3
    then have "checkLocation b = handleForwardButton b" using check q(1) by auto
    then show ?thesis using 3 forward_at [OF assms(1)] q(1,3) assms(3) address_ok_cong [OF other_forward [OF own]] by auto
  qed
qed

lemma tracks_visit:
  assumes "tracks os page init ((hs, p), b) (es, p, cs)" "visit_ok os (initialHash b) (initialHref b) page (Visit now args) (es, p, cs)"
  shows "tracks os page init (session_step base (Visit now args) ((hs, p), b)) (spec_nav os init (Visit now args) (es, p, cs))"
proof -
  obtain h where h: "hash_of now (kw_changeUrl (os args)) = Some h" "h \<noteq> initialHash b" "h \<notin> set (map snd (take p es))" "page @ h \<noteq> initialHref b"
    using assms(2) by (auto split: option.splits)
  have t: "hs = map snd es" "stacks_at es p b" "calls_made b = cs" "address_ok os page init es p b" "hist_objs b = os" "timeouts b = []"
    using assms(1) by (simp_all add: tracks_iff address_ok_def)
  let ?kd = "\<lparr>is_ie = False, is_moz = True, is_opera = False\<rparr>"
  let ?b = "b\<lparr>forwardStack := [], changingUrl := True, timeouts := [(h, True)], locationTimer := True,
    historyStack := historyStack b @ [entry_state (args, h)]\<rparr>"
  have top: "historyStack b \<noteq> [] \<Longrightarrow> st_urlHash (last (historyStack b)) \<noteq> Some h"
  proof -
    assume ne: "historyStack b \<noteq> []"
    then have "take p es \<noteq> []" "st_urlHash (last (historyStack b)) = Some (snd (last (take p es)))" using t(2) by (auto simp: stacks_at_def last_map)
    then show ?thesis using h(3) last_in_set [of "take p es"] by (auto simp del: last_in_set)
  qed
  have "snd (addToHistory ?kd base now args b) = ?b"
    using h(1,2) top t(4-6) by (auto simp: addToHistory_def address_ok_def Let_def createState_def entry_state_def)
  moreover have "stacks_at (take p es @ [(args, h)]) (p + 1) (run_timeout ?b)"
    using t(2,4) by (simp add: stacks_at_def run_timeout_def set_location_def address_ok_def)
  moreover have "distinct (map snd (take p es))" using t(4) by (simp add: address_ok_def take_map [symmetric])
  then have "address_ok os page init (take p es @ [(args, h)]) (p + 1) (run_timeout ?b)"
    using t(4) h by (auto simp: address_ok_def run_timeout_def set_location_def nth_append dest: in_set_takeD)
  moreover have "calls_made (run_timeout ?b) = cs" using t(3) by (simp add: run_timeout_def set_location_def)
  ultimately show ?thesis using t(1,4) h(1) by (simp add: tracks_iff take_map Let_def)
qed

lemma tracks_moves:
  assumes "tracks os page init sb S" "\<forall>i. own_args (os i)"
  shows "tracks os page init (session_step base Tick sb) (spec_nav os init Tick S)"
    and "tracks os page init (session_step base Tick (session_step base Back sb)) (spec_nav os init Back S)"
    and "tracks os page init (session_step base Tick (session_step base Forward sb)) (spec_nav os init Forward S)"
proof -
  obtain hs q b es p cs where sb: "sb = ((hs, q), b)" "S = (es, p, cs)" by (cases sb; cases S) auto
  have t: "q = p" "hs = map snd es" "stacks_at es p b" "calls_made b = cs" "address_ok os page init es p b" "p \<le> length es"
    using assms(1) by (auto simp: sb tracks_iff address_ok_def)
  note pos = show_position_ok [OF t(5)]
  show "tracks os page init (session_step base Tick sb) (spec_nav os init Tick S)"
    using check_moves [OF t(3,6,5) _ assms(2)] t by (simp add: sb tracks_iff)
  have bk: "p - 1 \<le> length es" using t(6) by simp
  show "tracks os page init (session_step base Tick (session_step base Back sb)) (spec_nav os init Back S)"
    using check_moves [OF _ t(6) pos(1) [OF bk] _ assms(2)] pos(2,3) [OF bk] t by (cases "p = 0") (auto simp: sb tracks_iff Let_def)
  let ?q = "if p < length es then p + 1 else p"
  have fwd: "?q \<le> length es" by (simp add: t(6))
  show "tracks os page init (session_step base Tick (session_step base Forward sb)) (spec_nav os init Forward S)"
    using check_moves [OF _ t(6) pos(1) [OF fwd] _ assms(2)] pos(2,3) [OF fwd] t by (auto simp: sb tracks_iff Let_def)
qed

lemma initial_of_cb [simp]: "initialHash (call_cb i pr nm c b) = initialHash b" "initialHref (call_cb i pr nm c b) = initialHref b"
  by (induction i pr nm c b rule: call_cb.induct) (simp_all add: set_location_def)

lemma initial_kept [simp]:
  "initialHash (snd (session_step base n sb)) = initialHash (snd sb)" "initialHref (snd (session_step base n sb)) = initialHref (snd sb)"
proof -
  have [simp]: "initialHash (back_callback i b) = initialHash b" "initialHref (back_callback i b) = initialHref b"
    "initialHash (forward_callback i b) = initialHash b" "initialHref (forward_callback i b) = initialHref b" for i b
    by (simp_all add: back_callback_def forward_callback_def Let_def split: option.split)
  have [simp]: "initialHash (checkLocation b) = initialHash b" "initialHref (checkLocation b) = initialHref b" for b
    by (simp_all add: checkLocation_def handleBackButton_def handleForwardButton_def Let_def split: option.split)
  have [simp]: "initialHash (show_position se b) = initialHash b" "initialHref (show_position se b) = initialHref b" for se b
    by (simp_all add: show_position_def set_location_def split: prod.split)
  have [simp]: "initialHash (run_timeout b) = initialHash b" "initialHref (run_timeout b) = initialHref b" for b
    by (simp_all add: run_timeout_def set_location_def split: list.split prod.split)
  have [simp]: "initialHash (snd (addToHistory kd base now args b)) = initialHash b" "initialHref (snd (addToHistory kd base now args b)) = initialHref b" for kd now args b
    by (simp_all add: addToHistory_def loadIframeHistory_def Let_def split: option.split)
  show "initialHash (snd (session_step base n sb)) = initialHash (snd sb)" "initialHref (snd (session_step base n sb)) = initialHref (snd sb)"
    by (cases "(base, n, sb)" rule: session_step.cases; simp add: Let_def)+
qed

lemma spec_tick [simp]: "spec_nav os init Tick S = S"
  by (cases S) simp

lemma tracks_steps:
  assumes "\<forall>i. own_args (os i)"
  shows "tracks os page init sb S \<Longrightarrow> visits_ok os (initialHash (snd sb)) (initialHref (snd sb)) page init ns S \<Longrightarrow> polled ns
    \<Longrightarrow> tracks os page init (fold (session_step base) ns sb) (fold (spec_nav os init) ns S)"
proof (induction ns arbitrary: sb S rule: polled.induct)
  case (2 now args ns)
  obtain hs q b es p cs where sb: "sb = ((hs, q), b)" "S = (es, p, cs)" by (cases sb; cases S) auto
  then have "q = p" using 2(2) by (simp add: tracks_iff)
  then show ?case using 2 tracks_visit [of os page init hs p b es cs now args base] sb by (simp del: session_step.simps spec_nav.simps)
next
  case (3 ns)
  then show ?case using tracks_moves(1) [OF 3(2) assms] by (simp del: session_step.simps spec_nav.simps)
next
  case (4 ns)
  then show ?case using tracks_moves(2) [OF 4(2) assms] by (simp del: session_step.simps spec_nav.simps)
next
  case (5 ns)
  then show ?case using tracks_moves(3) [OF 5(2) assms] by (simp del: session_step.simps spec_nav.simps)
qed simp_all

definition fresh_browser :: "string \<Rightarrow> string \<Rightarrow> string \<Rightarrow> (nat \<Rightarrow> hist_args) \<Rightarrow> undo_browser" where
  "fresh_browser page href0 hash0 os =
     \<lparr>initialHref = href0, initialHash = hash0, initialState = None, moveForward = False, historyStack = [], forwardStack = [], changingUrl = False,
      locationTimer = False, win_page = page, win_href = href0, win_hash = hash0, timeouts = [], hist_objs = os, hist_calls = []\<rparr>"

text \<open>
  Claim C16. In a browser whose address changes with the states, the stacks follow the session, as long as the timer ticks after each press of a button before anything else happens:
  after any visits of new states, any use of the back and forward buttons and any further ticks in between, the history stack holds the states up to the current position, the
  forward stack those after it, and the callbacks that were called are exactly those for the moves, each of the object of the state that was reached.
\<close>

theorem undo_browser_follows_session:
  assumes "visits_ok os hash0 href0 page init ns ([], 0, [])" "\<forall>i. own_args (os i)" "polled ns"
  shows "case fold (session_step base) ns (([], 0), setInitialState init (fresh_browser page href0 hash0 os)) of ((hs, q), b) \<Rightarrow>
    case fold (spec_nav os init) ns ([], 0, []) of (es, p, cs) \<Rightarrow>
      q = p \<and> historyStack b = map entry_state (take p es) \<and> forwardStack b = map entry_state (rev (drop p es)) \<and> map called_of (hist_calls b) = cs"
proof -
  let ?b = "setInitialState init (fresh_browser page href0 hash0 os)"
  have "tracks os page init (([], 0), ?b) ([], 0, [])"
    by (simp add: tracks_iff stacks_at_def address_ok_def setInitialState_def fresh_browser_def)
  moreover have "initialHash ?b = hash0" "initialHref ?b = href0" by (simp_all add: setInitialState_def fresh_browser_def)
  ultimately have "tracks os page init (fold (session_step base) ns (([], 0), ?b)) (fold (spec_nav os init) ns ([], 0, []))"
    using tracks_steps [OF assms(2), of page init "(([], 0), ?b)"] assms(1,3) by simp
  then show ?thesis by (auto simp: tracks_def stacks_at_def split: prod.splits)
qed

text \<open>
  A state with a fragment can not be added before the initial state was set: the call raises a \<open>TypeError\<close>, after the forward stack was emptied.
\<close>

theorem add_without_initial_state_raises:
  assumes "historyStack b = []" "initialState b = None" "hash_of now (kw_changeUrl (hist_objs b args)) \<noteq> None"
  shows "addToHistory kd base now args b = (Inl TypeError, b\<lparr>forwardStack := []\<rparr>)"
  using assms by (auto simp: addToHistory_def)

text \<open>
  Wrapping is transparent to the application: after the interceptors were installed for any number of fragments, a button calls the same functions with the same arguments.
\<close>

lemma installed_back [simp]:
  "(kw_back (install_back h a) = None) = (kw_back a = None)" "(kw_backButton (install_back h a) = None) = (kw_backButton a = None)"
  "(kw_handle (install_back h a) = None) = (kw_handle a = None)" "kw_forward (install_back h a) = kw_forward a"
  "kw_forwardButton (install_back h a) = kw_forwardButton a"
  by (simp_all add: install_back_def split: option.split)

lemma installed_forward [simp]:
  "(kw_forward (install_forward h a) = None) = (kw_forward a = None)" "(kw_forwardButton (install_forward h a) = None) = (kw_forwardButton a = None)"
  "(kw_handle (install_forward h a) = None) = (kw_handle a = None)" "kw_back (install_forward h a) = kw_back a"
  "kw_backButton (install_forward h a) = kw_backButton a"
  by (simp_all add: install_forward_def split: option.split)

lemma installed_calls:
  "back_calls (os(i := install_forward h (install_back h (os i)))) j = back_calls os j"
  "forward_calls (os(i := install_forward h (install_back h (os i)))) j = forward_calls os j"
  by (cases "i = j"; simp add: back_calls_def forward_calls_def expected_call_def)+

section \<open>Examples\<close>

definition page_args :: "nat \<Rightarrow> hist_args" where
  "page_args i =
     \<lparr>kw_changeUrl = Named (replicate i CHR ''p''), kw_back = Some Own, kw_backButton = None, kw_forward = None, kw_forwardButton = None, kw_handle = Some Own\<rparr>"

theorem undo_browser_follows_session_witness:
  "map called_of (hist_calls (snd (fold (session_step ''/dojo/'') [Visit 1 1, Visit 2 2, Back, Tick, Tick, Back, Tick, Forward, Tick]
     (([], 0), setInitialState 0 (fresh_browser ''http://a/'' ''http://a/'' [] page_args)))))
   = [(1, ''back''), (0, ''back''), (1, ''handle'')]"
proof -
  define ns where "ns = [Visit 1 1, Visit 2 2, Back, Tick, Tick, Back, Tick, Forward, Tick]"
  note spec = page_args_def hash_of_def back_calls_def forward_calls_def expected_call_def numeral_2_eq_2
  have "visits_ok page_args [] ''http://a/'' ''http://a/'' 0 ns ([], 0, [])" by (simp add: ns_def spec)
  moreover have "\<forall>i. own_args (page_args i)" by (simp add: page_args_def own_args_def)
  moreover have "polled ns" by (simp add: ns_def)
  moreover have "snd (snd (fold (spec_nav page_args 0) ns ([], 0, []))) = [(1, ''back''), (0, ''back''), (1, ''handle'')]"
    by (simp add: ns_def spec)
  ultimately show ?thesis
    using undo_browser_follows_session [of page_args "[]" "''http://a/''" "''http://a/''" 0 ns "''/dojo/''"] unfolding ns_def [symmetric]
    by (simp split: prod.splits)
qed

theorem add_without_initial_state_raises_witness:
  "fst (addToHistory \<lparr>is_ie = False, is_moz = True, is_opera = False\<rparr> [] 1 1 (fresh_browser [] [] [] page_args)) = Inl TypeError"
  using add_without_initial_state_raises [of "fresh_browser [] [] [] page_args" 1 1] by (simp add: fresh_browser_def page_args_def hash_of_def)

end
