(* ===== verification/Js_Math.thy ===== *)
theory Js_Math
  imports JS_Prelude Complex_Main
begin

text \<open>
  \<open>src/math.js\<close>: the functions on integers. Numbers that the code treats as integers are integers, as long as they are not divided; a division by zero gives the special numbers.
  Functions on floating-point numbers are not modelled.
\<close>

section \<open>Definitions\<close>

text \<open>The result of a division of integers.\<close>

datatype js_number = Ratio rat | Infinity | Minus_infinity | Not_a_number

definition js_divide :: "int \<Rightarrow> int \<Rightarrow> js_number" where
  "js_divide a b = (if b \<noteq> 0 then Ratio (of_int a / of_int b) else if a = 0 then Not_a_number else if 0 < a then Infinity else Minus_infinity)"

function factorial_loop :: "int \<Rightarrow> int \<Rightarrow> int \<Rightarrow> int" where
  "factorial_loop n i retVal = (if i \<le> n then factorial_loop n (i + 1) (retVal * i) else retVal)"
  by auto
termination by (relation "measure (\<lambda>(n, i, r). nat (n - i + 1))") auto

definition factorial :: "int \<Rightarrow> int" where
  "factorial n = (if n < 1 then 0 else factorial_loop n 1 1)"

definition permutations_num :: "int \<Rightarrow> int \<Rightarrow> js_number" where
  "permutations_num n k = (if n = 0 \<or> k = 0 then Ratio 1 else js_divide (factorial n) (factorial (n - k)))"

definition combinations_num :: "int \<Rightarrow> int \<Rightarrow> js_number" where
  "combinations_num n r = (if n = 0 \<or> r = 0 then Ratio 1 else js_divide (factorial n) (factorial (n - r) * factorial r))"

function range_up :: "int \<Rightarrow> int \<Rightarrow> int \<Rightarrow> int list" where
  "range_up i b step = (if 0 < step \<and> i < b then i # range_up (i + step) b step else [])"
  by auto
termination by (relation "measure (\<lambda>(i, b, s). nat (b - i))") auto

function range_down :: "int \<Rightarrow> int \<Rightarrow> int \<Rightarrow> int list" where
  "range_down i b step = (if step < 0 \<and> b < i then i # range_down (i + step) b step else [])"
  by auto
termination by (relation "measure (\<lambda>(i, b, s). nat (i - b))") auto

text \<open>Arguments that are not given are \<^term>\<open>None\<close>.\<close>

definition math_range :: "int \<Rightarrow> int option \<Rightarrow> int option \<Rightarrow> int list result" where
  "math_range a b step =
     (let (a, b) = (case b of None \<Rightarrow> (0, a) | Some b \<Rightarrow> (a, b));
          step = (case step of None \<Rightarrow> 1 | Some s \<Rightarrow> s)
      in if 0 < step then Inr (range_up a b step)
         else if step < 0 then Inr (range_down a b step)
         else Inl (Raised ''dojo.math.range: step must be non-zero''))"

declare factorial_loop.simps [simp del] range_up.simps [simp del] range_down.simps [simp del]

section \<open>Properties\<close>

lemma factorial_loop_fact: "0 < i \<Longrightarrow> i \<le> n + 1 \<Longrightarrow> factorial_loop n i r * fact (nat (i - 1)) = r * fact (nat n)"
proof (induction n i r rule: factorial_loop.induct)
  case (1 n i r)
  show ?case
  proof (cases "i \<le> n")
    case True
    have "fact (nat i) = (i * fact (nat (i - 1)) :: int)" using 1(2) by (subst fact_reduce) (auto simp: nat_diff_distrib)
    moreover have "factorial_loop n (i + 1) (r * i) * fact (nat i) = r * i * fact (nat n)" using 1 True by simp
    ultimately have "i * (factorial_loop n (i + 1) (r * i) * fact (nat (i - 1))) = i * (r * fact (nat n))" by (simp add: algebra_simps)
    then show ?thesis using 1(2) True by (subst factorial_loop.simps) simp
  next
    case False
    then have "i - 1 = n" using 1(3) by simp
    then show ?thesis using False by (subst factorial_loop.simps) simp
  qed
qed

lemma factorial_fact: "factorial n = (if n < 1 then 0 else fact (nat n))"
  using factorial_loop_fact [of 1 n 1] by (simp add: factorial_def)

text \<open>
  Between one and all elements the functions count arrangements and subsets; for all elements the code divides by the factorial of zero, which it takes to be zero.
\<close>

theorem combinations_count:
  assumes "0 < r" "r < n"
  shows "combinations_num (int n) (int r) = Ratio (of_nat (n choose r)) \<and> permutations_num (int n) (int r) = Ratio (of_nat (fact n) / of_nat (fact (n - r)))
    \<and> combinations_num (int n) (int n) = Infinity \<and> permutations_num (int n) (int n) = Infinity"
proof -
  have d: "factorial (int n - int r) = int (fact (n - r))" using assms by (simp add: factorial_fact flip: of_nat_diff)
  have f: "factorial (int n) = int (fact n)" "factorial (int r) = int (fact r)" "factorial 0 = 0" using assms by (simp_all add: factorial_fact)
  have "(of_nat (n choose r) :: rat) = of_nat (fact n) / (of_nat (fact (n - r)) * of_nat (fact r))"
    using binomial_fact [of r n, where 'a = rat] assms by (simp add: mult.commute)
  then show ?thesis using assms d f by (simp add: combinations_num_def permutations_num_def js_divide_def)
qed

text \<open>With steps of one, the range is that of the integers between the bounds, without the second.\<close>

lemma range_up_1: "range_up a b 1 = [a..b - 1]"
  by (induction a b "1::int" rule: range_up.induct) (subst range_up.simps, auto simp: upto.simps)

lemma range_down_1: "range_down a b (- 1) = rev [b + 1..a]"
proof (induction a b "- 1 :: int" rule: range_down.induct)
  case (1 i b)
  have "b < i \<Longrightarrow> [b + 1..i] = [b + 1..i - 1] @ [i]" using upto_rec2 [of "b + 1" i] by simp
  then show ?case using 1 by (subst range_down.simps) auto
qed

end
