(* ===== verification/Selection.thy ===== *)
theory Selection
  imports Lang_Array Js_Math
begin

text \<open>
  \<open>src/selection/Selection.js\<close>: a selection among a list of items, with the pivots from which it grows. Items are objects, so that they are not false and are compared by
  identity; \<^term>\<open>None\<close> stands for \<open>null\<close> and \<open>undefined\<close>. The methods that users of the class override, and the order in which the engine enumerates the numeric
  properties of an object, are an argument of the operations. The events are recorded.
\<close>

section \<open>State\<close>

datatype 'a sel_event = OnSelect 'a | OnDeselect 'a | OnSelectChange 'a bool

record 'a sel_object =
  sel_items :: "'a list"
  sel_selection :: "'a list"
  lastSelected :: "'a option"
  allowImplicit :: bool
  sel_length :: nat
  isGrowable :: bool
  pivotItems :: "'a list"
  pivotItem :: "'a option"
  sel_events :: "'a sel_event list"

record 'a sel_env =
  isSelectable :: "'a \<Rightarrow> bool"
  selectFilter :: "'a option \<Rightarrow> 'a list \<Rightarrow> bool \<Rightarrow> bool \<Rightarrow> bool"
  for_in :: "int list \<Rightarrow> int list"

definition default_env :: "'a sel_env" where
  "default_env = \<lparr>isSelectable = (\<lambda>_. True), selectFilter = (\<lambda>_ _ _ _. True), for_in = sort\<rparr>"

section \<open>Finding items\<close>

definition find_item :: "'a list \<Rightarrow> 'a option \<Rightarrow> int" where
  "find_item xs item = (case item of None \<Rightarrow> - 1 | Some x \<Rightarrow> lang_find (=) False xs x)"

definition sel_find :: "'a option \<Rightarrow> bool \<Rightarrow> 'a sel_object \<Rightarrow> int" where
  "sel_find item inSelection s = (if inSelection then find_item (sel_selection s) item else find_item (sel_items s) item)"

definition isItem :: "'a option \<Rightarrow> 'a sel_object \<Rightarrow> bool" where
  "isItem item s \<longleftrightarrow> sel_find item False s > - 1"

definition isSelected :: "'a option \<Rightarrow> 'a sel_object \<Rightarrow> bool" where
  "isSelected item s \<longleftrightarrow> sel_find item True s > - 1"

section \<open>Pivots\<close>

definition addPivot :: "'a \<Rightarrow> bool \<Rightarrow> 'a sel_object \<Rightarrow> 'a sel_object" where
  "addPivot item andClear s = s\<lparr>pivotItem := Some item, pivotItems := (if andClear then [item] else pivotItems s @ [item])\<rparr>"

definition updatePivot :: "'a sel_object \<Rightarrow> 'a sel_object" where
  "updatePivot s = (if length (pivotItems s) = 0 then (case lastSelected s of Some l \<Rightarrow> addPivot l False s | None \<Rightarrow> s) else s)"

definition removePivot :: "'a \<Rightarrow> 'a sel_object \<Rightarrow> 'a sel_object" where
  "removePivot item s =
     (let i = find_item (pivotItems s) (Some item);
          s = (if i > - 1
               then let ps = js_splice (pivotItems s) i 1 [] in s\<lparr>pivotItems := ps, pivotItem := js_at ps (int (length ps) - 1)\<rparr>
               else s)
      in updatePivot s)"

section \<open>Selecting\<close>

definition select :: "'a sel_env \<Rightarrow> 'a option \<Rightarrow> bool \<Rightarrow> 'a sel_object \<Rightarrow> bool \<times> 'a sel_object" where
  "select env item noPivot s =
     (case item of
        None \<Rightarrow> (False, s)
      | Some x \<Rightarrow>
          if isItem item s \<and> \<not> isSelected item s \<and> isSelectable env x
          then let s = s\<lparr>sel_selection := sel_selection s @ [x], lastSelected := Some x,
                          sel_events := sel_events s @ [OnSelect x, OnSelectChange x True]\<rparr>;
                   s = (if noPivot then s else addPivot x False s)
               in (True, s\<lparr>sel_length := length (sel_selection s)\<rparr>)
          else (False, s))"

definition deselect :: "'a option \<Rightarrow> 'a sel_object \<Rightarrow> bool \<times> 'a sel_object" where
  "deselect item s =
     (let idx = sel_find item True s
      in case item of
           None \<Rightarrow> (False, s)
         | Some x \<Rightarrow>
             if idx > - 1
             then let s = s\<lparr>sel_selection := js_splice (sel_selection s) idx 1 [], sel_events := sel_events s @ [OnDeselect x, OnSelectChange x False]\<rparr>;
                      s = (if lastSelected s = Some x then s\<lparr>lastSelected := None\<rparr> else s);
                      s = removePivot x s
                  in (True, s\<lparr>sel_length := length (sel_selection s)\<rparr>)
             else (False, s))"

definition toggleSelected :: "'a sel_env \<Rightarrow> 'a option \<Rightarrow> bool \<Rightarrow> 'a sel_object \<Rightarrow> int \<times> 'a sel_object" where
  "toggleSelected env item noPivot s =
     (if isItem item s
      then (case select env item noPivot s of
              (True, s) \<Rightarrow> (1, s)
            | (False, s) \<Rightarrow> (case deselect item s of (True, s) \<Rightarrow> (- 1, s) | (False, s) \<Rightarrow> (0, s)))
      else (0, s))"

lemma find_item_None [simp]: "find_item xs None = - 1"
  by (simp add: find_item_def)

lemma find_item_Some: "find_item xs (Some x) = (if x \<in> set xs then int (length (takeWhile (\<lambda>y. y \<noteq> x) xs)) else - 1)"
  by (auto simp: find_item_def lang_find_def find_up_first list_ex_iff)

lemma find_item_pos [simp]: "- 1 < find_item xs (Some x) \<longleftrightarrow> x \<in> set xs"
  by (simp add: find_item_Some)

lemma isItem_Some [simp]: "isItem (Some x) s \<longleftrightarrow> x \<in> set (sel_items s)" "\<not> isItem None s"
  by (simp_all add: isItem_def sel_find_def)

lemma isSelected_Some [simp]: "isSelected (Some x) s \<longleftrightarrow> x \<in> set (sel_selection s)" "\<not> isSelected None s"
  by (simp_all add: isSelected_def sel_find_def)

lemma index_bound: "x \<in> set xs \<Longrightarrow> length (takeWhile (\<lambda>y. y \<noteq> x) xs) < length xs"
  by (induction xs) auto

text \<open>Removing the element that was found is removing its first occurrence.\<close>

lemma splice_found: "x \<in> set xs \<Longrightarrow> js_splice xs (find_item xs (Some x)) 1 [] = remove1 x xs"
proof (induction xs)
  case (Cons y xs)
  show ?case
  proof (cases "y = x")
    case False
    then have "x \<in> set xs" using Cons.prems by auto
    moreover from this have "length (takeWhile (\<lambda>y. y \<noteq> x) xs) < length xs" by (rule index_bound)
    ultimately show ?thesis using Cons.IH False js_splice_delete [of "Suc (length (takeWhile (\<lambda>y. y \<noteq> x) xs))" "y # xs"]
        js_splice_delete [of "length (takeWhile (\<lambda>y. y \<noteq> x) xs)" xs] by (simp add: find_item_Some)
  qed (simp add: find_item_Some js_splice_def)
qed simp

text \<open>The operations on pivots do not touch the rest.\<close>

lemma pivots_keep [simp]:
  "sel_items (addPivot x c s) = sel_items s" "sel_selection (addPivot x c s) = sel_selection s" "lastSelected (addPivot x c s) = lastSelected s"
  "sel_events (addPivot x c s) = sel_events s" "isGrowable (addPivot x c s) = isGrowable s" "allowImplicit (addPivot x c s) = allowImplicit s"
  "sel_length (addPivot x c s) = sel_length s"
  "sel_items (updatePivot s) = sel_items s" "sel_selection (updatePivot s) = sel_selection s" "lastSelected (updatePivot s) = lastSelected s"
  "sel_events (updatePivot s) = sel_events s" "isGrowable (updatePivot s) = isGrowable s" "allowImplicit (updatePivot s) = allowImplicit s"
  "sel_length (updatePivot s) = sel_length s"
  "sel_items (removePivot x s) = sel_items s" "sel_selection (removePivot x s) = sel_selection s" "lastSelected (removePivot x s) = lastSelected s"
  "sel_events (removePivot x s) = sel_events s" "isGrowable (removePivot x s) = isGrowable s" "allowImplicit (removePivot x s) = allowImplicit s"
  "sel_length (removePivot x s) = sel_length s"
  by (simp_all add: addPivot_def updatePivot_def removePivot_def Let_def split: option.split)

lemma select_keep [simp]:
  "sel_items (snd (select env item np s)) = sel_items s" "isGrowable (snd (select env item np s)) = isGrowable s"
  "allowImplicit (snd (select env item np s)) = allowImplicit s"
  by (simp_all add: select_def Let_def split: option.split)

lemma deselect_keep [simp]:
  "sel_items (snd (deselect item s)) = sel_items s" "isGrowable (snd (deselect item s)) = isGrowable s"
  "allowImplicit (snd (deselect item s)) = allowImplicit s"
  by (simp_all add: deselect_def Let_def split: option.split)

lemma deselect_selection: "sel_selection (snd (deselect item s)) = (case item of None \<Rightarrow> sel_selection s | Some x \<Rightarrow> remove1 x (sel_selection s))"
  by (auto simp: deselect_def sel_find_def splice_found remove1_idem Let_def split: option.split)

function deselectAll :: "'a sel_object \<Rightarrow> 'a sel_object" where
  "deselectAll s = (case sel_selection s of [] \<Rightarrow> s | x # _ \<Rightarrow> deselectAll (snd (deselect (Some x) s)))"
  by auto
termination by (relation "measure (\<lambda>s. length (sel_selection s))") (auto simp: deselect_selection)

declare deselectAll.simps [simp del]

fun selectAll_loop :: "'a sel_env \<Rightarrow> 'a list \<Rightarrow> 'a sel_object \<Rightarrow> 'a sel_object" where
  "selectAll_loop env [] s = s"
| "selectAll_loop env (x # xs) s = selectAll_loop env xs (snd (select env (Some x) False s))"

definition selectAll :: "'a sel_env \<Rightarrow> 'a sel_object \<Rightarrow> 'a sel_object" where
  "selectAll env s = selectAll_loop env (sel_items s) s"

section \<open>Items\<close>

definition clearItems :: "'a sel_object \<Rightarrow> 'a sel_object" where
  "clearItems s = deselectAll (s\<lparr>sel_items := []\<rparr>)"

definition addItems :: "'a nest list \<Rightarrow> 'a sel_object \<Rightarrow> 'a sel_object" where
  "addItems args s = s\<lparr>sel_items := sel_items s @ unnest args\<rparr>"

text \<open>\<open>setItems\<close> passes its arguments on as one array.\<close>

definition setItems :: "'a nest list \<Rightarrow> 'a sel_object \<Rightarrow> 'a sel_object" where
  "setItems args s = addItems [Nest args] (clearItems s)"

definition setItemsCollection :: "'a list \<Rightarrow> 'a sel_object \<Rightarrow> 'a sel_object" where
  "setItemsCollection collection s = s\<lparr>sel_items := collection\<rparr>"

text \<open>The place of \<open>addItemsAt\<close> is given by an item or by its index.\<close>

datatype 'a item_ref = Item 'a | Position int

fun insert_loop :: "'a list \<Rightarrow> int \<Rightarrow> 'a sel_object \<Rightarrow> 'a sel_object" where
  "insert_loop [] idx s = s"
| "insert_loop (a # args) idx s =
     (if \<not> isItem (Some a) s then insert_loop args (idx + 1) (s\<lparr>sel_items := js_splice (sel_items s) idx 0 [a]\<rparr>) else insert_loop args idx s)"

definition addItemsAt :: "'a item_ref \<Rightarrow> bool \<Rightarrow> 'a list \<Rightarrow> 'a sel_object \<Rightarrow> 'a sel_object result" where
  "addItemsAt item before args s =
     (if length (sel_items s) = 0 then Inr (addItems [Nest (map Leaf args)] s)
      else let it = (case item of Item x \<Rightarrow> if isItem (Some x) s then Some x else None | Position i \<Rightarrow> js_at (sel_items s) i)
           in if it = None then Inl (Raised ''addItemsAt: item doesn't exist'')
              else let idx = sel_find it False s;
                       idx = (if 0 < idx \<and> before then idx - 1 else idx)
                   in Inr (insert_loop args idx s))"

definition removeItem :: "'a \<Rightarrow> 'a sel_object \<Rightarrow> 'a sel_object" where
  "removeItem item s =
     (let idx = sel_find (Some item) False s;
          s = (if idx > - 1 then s\<lparr>sel_items := js_splice (sel_items s) idx 1 []\<rparr> else s);
          idx = sel_find (Some item) True s
      in if idx > - 1 then s\<lparr>sel_selection := js_splice (sel_selection s) idx 1 []\<rparr> else s)"

function updateSelected_loop :: "nat \<Rightarrow> 'a sel_object \<Rightarrow> 'a sel_object" where
  "updateSelected_loop i s =
     (if i < length (sel_selection s)
      then let x = sel_selection s ! i
           in updateSelected_loop (i + 1)
                (if sel_find (Some x) False s < 0 then removePivot x (s\<lparr>sel_selection := js_splice (sel_selection s) (int i) 1 []\<rparr>) else s)
      else s)"
  by auto
termination
  by (relation "measure (\<lambda>(i, s). length (sel_selection s) - i)") (auto simp: js_splice_delete)

declare updateSelected_loop.simps [simp del]

definition updateSelected :: "'a sel_object \<Rightarrow> 'a sel_object" where
  "updateSelected s = (let s = updateSelected_loop 0 s in s\<lparr>sel_length := length (sel_selection s)\<rparr>)"

datatype 'a sel_arg = No_items | Some_items "'a nest" | Items_collection "'a list"

definition new_selection :: "'a sel_arg \<Rightarrow> 'a sel_object" where
  "new_selection arg =
     (let s = clearItems \<lparr>sel_items = [], sel_selection = [], lastSelected = None, allowImplicit = True, sel_length = 0, isGrowable = True,
                          pivotItems = [], pivotItem = None, sel_events = []\<rparr>
      in case arg of No_items \<Rightarrow> s | Some_items n \<Rightarrow> setItems [n] s | Items_collection c \<Rightarrow> setItemsCollection c s)"

definition sel_sorted :: "'a sel_object \<Rightarrow> 'a list" where
  "sel_sorted s = sort_key (\<lambda>a. sel_find (Some a) False s) (sel_selection s)"

section \<open>Growing\<close>

text \<open>
  The loops of \<open>grow\<close>: the first selects the items of a range, given from its end, and takes their indexes out of the object of those to deselect; the second deselects the items of the rest.
\<close>

fun grow_loop :: "'a sel_env \<Rightarrow> bool \<Rightarrow> int list \<Rightarrow> int list \<times> 'a sel_object \<Rightarrow> int list \<times> 'a sel_object" where
  "grow_loop env shrink [] (toDeselect, s) = (toDeselect, s)"
| "grow_loop env shrink (i # is) (toDeselect, s) =
     grow_loop env shrink is
       (let item = js_at (sel_items s) i
        in if selectFilter env item (sel_selection s) False True
           then (case select env item True s of (r, s) \<Rightarrow> (filter (\<lambda>j. j \<noteq> i) toDeselect, if r \<or> shrink then s\<lparr>lastSelected := item\<rparr> else s))
           else (toDeselect, s))"

fun deselect_loop :: "int list \<Rightarrow> 'a sel_object \<Rightarrow> 'a sel_object" where
  "deselect_loop [] s = s"
| "deselect_loop (i # is) s = deselect_loop is (snd (deselect (js_at (sel_items s) i) s))"

text \<open>The ranges of \<open>grow\<close> have steps of one, so that \<open>dojo.math.range\<close> does not raise.\<close>

definition step_range :: "int \<Rightarrow> int \<Rightarrow> int \<Rightarrow> int list" where
  "step_range a b step = (case math_range a (Some b) (Some step) of Inr r \<Rightarrow> r | Inl _ \<Rightarrow> [])"

text \<open>The second argument is \<^term>\<open>None\<close> when it is not given. The result, \<open>false\<close> or \<open>undefined\<close>, is left out.\<close>

definition grow :: "'a sel_env \<Rightarrow> 'a option \<Rightarrow> 'a option option \<Rightarrow> 'a sel_object \<Rightarrow> 'a sel_object" where
  "grow env toItem fromArg s =
     (if \<not> isGrowable s then s
      else let fromItem = (case fromArg of
                 Some f \<Rightarrow> f
               | None \<Rightarrow> if pivotItem s = None \<and> allowImplicit s then js_at (sel_items s) 0 else pivotItem s)
           in if toItem = None \<or> fromItem = None then s
              else let fromIdx = sel_find fromItem False s;
                       lastIdx = (if lastSelected s \<noteq> None then sel_find (lastSelected s) False s else - 1);
                       toDeselect = (if lastSelected s \<noteq> None then step_range lastIdx fromIdx (if fromIdx < lastIdx then - 1 else 1) else []);
                       toIdx = sel_find toItem False s;
                       step = (if fromIdx < toIdx then - 1 else 1);
                       shrink = (if lastIdx \<ge> 0 \<and> step = 1 then lastIdx < toIdx else lastIdx > toIdx);
                       range = step_range toIdx fromIdx step;
                       (toDeselect, s) = (if range \<noteq> [] then grow_loop env shrink (rev range) (toDeselect, s)
                                          else (toDeselect, s\<lparr>lastSelected := fromItem\<rparr>))
                   in updatePivot (deselect_loop (for_in env toDeselect) s))"

fun growUp_loop :: "'a sel_env \<Rightarrow> nat \<Rightarrow> 'a sel_object \<Rightarrow> 'a sel_object" where
  "growUp_loop env 0 s = s"
| "growUp_loop env (Suc idx) s =
     (if selectFilter env (js_at (sel_items s) (int idx)) (sel_selection s) False True then grow env (js_at (sel_items s) (int idx)) None s
      else growUp_loop env idx s)"

definition growUp :: "'a sel_env \<Rightarrow> 'a sel_object \<Rightarrow> 'a sel_object" where
  "growUp env s = (if \<not> isGrowable s then s else growUp_loop env (nat (sel_find (lastSelected s) False s)) s)"

function growDown_loop :: "'a sel_env \<Rightarrow> nat \<Rightarrow> 'a sel_object \<Rightarrow> 'a sel_object" where
  "growDown_loop env idx s =
     (if 0 < idx \<and> idx < length (sel_items s)
      then if selectFilter env (js_at (sel_items s) (int idx)) (sel_selection s) False True then grow env (js_at (sel_items s) (int idx)) None s
           else growDown_loop env (idx + 1) s
      else s)"
  by auto
termination by (relation "measure (\<lambda>(env, idx, s). length (sel_items s) - idx)") auto

declare growDown_loop.simps [simp del]

definition growDown :: "'a sel_env \<Rightarrow> 'a sel_object \<Rightarrow> 'a sel_object" where
  "growDown env s =
     (if \<not> isGrowable s then s
      else let idx = sel_find (lastSelected s) False s;
               (idx, s) = (if idx < 0 \<and> allowImplicit s then (0, snd (select env (js_at (sel_items s) 0) False s)) else (idx, s))
           in growDown_loop env (nat (idx + 1)) s)"

section \<open>Clicks and keys\<close>

definition update :: "'a sel_env \<Rightarrow> 'a option \<Rightarrow> bool \<Rightarrow> bool \<Rightarrow> bool \<Rightarrow> 'a sel_object \<Rightarrow> bool \<times> 'a sel_object" where
  "update env item add gr noToggle s =
     (if \<not> isItem item s then (False, s)
      else let s =
        (if isGrowable s \<and> gr
         then if \<not> isSelected item s \<and> selectFilter env item (sel_selection s) False True
              then (grow env item None s)\<lparr>lastSelected := item\<rparr> else s
         else if add
         then if selectFilter env item (sel_selection s) True False
              then if noToggle
                   then (case select env item False s of (r, s) \<Rightarrow> if r then s\<lparr>lastSelected := item\<rparr> else s)
                   else (case toggleSelected env item False s of (r, s) \<Rightarrow> if r \<noteq> 0 then s\<lparr>lastSelected := item\<rparr> else s)
              else s
         else snd (select env item False (deselectAll s)))
      in (True, s\<lparr>sel_length := length (sel_selection s)\<rparr>))"

function selectNext_loop :: "'a sel_env \<Rightarrow> nat \<Rightarrow> 'a sel_object \<Rightarrow> bool \<times> 'a sel_object" where
  "selectNext_loop env idx s =
     (if idx < length (sel_items s)
      then if isSelectable env (sel_items s ! idx) then (True, snd (select env (Some (sel_items s ! idx)) False (deselectAll s)))
           else selectNext_loop env (idx + 1) s
      else (False, s))"
  by auto
termination by (relation "measure (\<lambda>(env, idx, s). length (sel_items s) - idx)") auto

declare selectNext_loop.simps [simp del]

definition selectNext :: "'a sel_env \<Rightarrow> 'a sel_object \<Rightarrow> bool \<times> 'a sel_object" where
  "selectNext env s = (let idx = sel_find (lastSelected s) False s in if idx > - 1 then selectNext_loop env (nat (idx + 1)) s else (False, s))"

fun selectPrevious_loop :: "'a sel_env \<Rightarrow> nat \<Rightarrow> 'a sel_object \<Rightarrow> bool \<times> 'a sel_object" where
  "selectPrevious_loop env 0 s = (False, s)"
| "selectPrevious_loop env (Suc idx) s =
     (if isSelectable env (sel_items s ! idx) then (True, snd (select env (Some (sel_items s ! idx)) False (deselectAll s)))
      else selectPrevious_loop env idx s)"

definition selectPrevious :: "'a sel_env \<Rightarrow> 'a sel_object \<Rightarrow> bool \<times> 'a sel_object" where
  "selectPrevious env s = selectPrevious_loop env (nat (sel_find (lastSelected s) False s)) s"

function selectFirst_loop :: "'a sel_env \<Rightarrow> nat \<Rightarrow> 'a sel_object \<Rightarrow> bool \<times> 'a sel_object" where
  "selectFirst_loop env idx s =
     (if idx < length (sel_items s)
      then (case select env (Some (sel_items s ! idx)) False s of (r, t) \<Rightarrow> if r then (True, t) else selectFirst_loop env (idx + 1) t)
      else (False, s))"
  by auto
termination
  by (relation "measure (\<lambda>(env, idx, s). length (sel_items s) - idx)") (auto, metis diff_less_mono2 lessI select_keep(1) snd_conv)

declare selectFirst_loop.simps [simp del]

definition selectFirst :: "'a sel_env \<Rightarrow> 'a sel_object \<Rightarrow> bool \<times> 'a sel_object" where
  "selectFirst env s = selectFirst_loop env 0 (deselectAll s)"

fun selectLast_loop :: "'a sel_env \<Rightarrow> nat \<Rightarrow> 'a sel_object \<Rightarrow> bool \<times> 'a sel_object" where
  "selectLast_loop env 0 s = (False, s)"
| "selectLast_loop env (Suc idx) s =
     (case select env (Some (sel_items s ! idx)) False s of (r, t) \<Rightarrow> if r then (True, t) else selectLast_loop env idx t)"

definition selectLast :: "'a sel_env \<Rightarrow> 'a sel_object \<Rightarrow> bool \<times> 'a sel_object" where
  "selectLast env s = (let s = deselectAll s in selectLast_loop env (length (sel_items s)) s)"

end
