(* ===== verification/Selection_Proofs.thy ===== *)
theory Selection_Proofs
  imports Selection
begin

text \<open>
  Properties of \<open>Selection\<close>: what all operations keep, so that an observer of the events knows the selection; and the segment that clicks and the shift key select.
\<close>

section \<open>What the operations keep\<close>

text \<open>
  A condition on selections that selecting and deselecting keep, and that does not depend on the pivots and the last item, is kept by everything that is built from them.
\<close>

locale selection_contract =
  fixes env :: "'a sel_env" and ok :: "'a sel_object \<Rightarrow> bool"
  assumes ok_select: "ok s \<Longrightarrow> ok (snd (select env item noPivot s))"
    and ok_deselect: "ok s \<Longrightarrow> ok (snd (deselect item s))"
    and ok_last: "ok s \<Longrightarrow> ok (s\<lparr>lastSelected := l\<rparr>)"
    and ok_updatePivot: "ok s \<Longrightarrow> ok (updatePivot s)"
    and ok_length: "ok s \<Longrightarrow> ok (s\<lparr>sel_length := length (sel_selection s)\<rparr>)"
begin

lemma ok_deselectAll: "ok s \<Longrightarrow> ok (deselectAll s)"
proof (induction s rule: deselectAll.induct)
  case (1 s)
  then show ?case by (subst deselectAll.simps) (auto simp: ok_deselect split: list.split)
qed

lemma ok_if: "ok s \<Longrightarrow> ok t \<Longrightarrow> ok (if c then s else t)"
  by simp

lemma ok_selectAll_loop: "ok s \<Longrightarrow> ok (selectAll_loop env xs s)"
  by (induction xs arbitrary: s) (simp_all add: ok_select)

lemma ok_grow_loop: "ok (snd ts) \<Longrightarrow> ok (snd (grow_loop env shrink is ts))"
proof (induction "is" arbitrary: ts)
  case Nil
  then show ?case by (cases ts) simp
next
  case (Cons i "is")
  obtain td s where ts: "ts = (td, s)" by (cases ts)
  have sel: "ok (snd (select env item True s))" for item using ok_select Cons.prems ts by simp
  show ?case unfolding ts grow_loop.simps Let_def case_prod_beta
    by (rule Cons.IH) (use sel Cons.prems in \<open>simp add: ts ok_last\<close>)
qed

lemma ok_deselect_loop: "ok s \<Longrightarrow> ok (deselect_loop is s)"
  by (induction "is" s rule: deselect_loop.induct) (simp_all add: ok_deselect)

lemma ok_grow:
  assumes "ok s"
  shows "ok (grow env toItem fromArg s)"
proof -
  have "ok (snd (if c then grow_loop env shrink is (td, s) else (td, s\<lparr>lastSelected := l\<rparr>)))" for c shrink "is" td l
    using ok_grow_loop [of "(td, s)"] assms by (simp add: ok_last)
  then show ?thesis unfolding grow_def Let_def case_prod_beta by (intro ok_if assms ok_updatePivot ok_deselect_loop)
qed

lemma ok_growUp: "ok s \<Longrightarrow> ok (growUp env s)"
proof -
  have "ok s \<Longrightarrow> ok (growUp_loop env n s)" for n by (induction n) (simp_all add: ok_grow)
  then show "ok s \<Longrightarrow> ok (growUp env s)" by (simp add: growUp_def)
qed

lemma ok_growDown_loop: "ok s \<Longrightarrow> ok (growDown_loop env n s)"
proof (induction "length (sel_items s) - n" arbitrary: n rule: less_induct)
  case less
  then show ?case by (subst growDown_loop.simps) (auto simp: ok_grow)
qed

lemma ok_growDown: "ok s \<Longrightarrow> ok (growDown env s)"
  by (auto simp: growDown_def Let_def intro!: ok_growDown_loop ok_select)

lemma ok_toggle: "ok s \<Longrightarrow> ok (snd (toggleSelected env item noPivot s))"
  by (auto simp: toggleSelected_def split: prod.split bool.split) (metis ok_select ok_deselect snd_conv)+

lemma ok_update:
  assumes "ok s"
  shows "ok (snd (update env item add gr noToggle s))"
proof -
  note kept = ok_select [OF assms, of item False] ok_toggle [OF assms, of item False] ok_select [OF ok_deselectAll [OF assms]] ok_last [OF ok_grow [OF assms]]
  show ?thesis unfolding update_def Let_def case_prod_beta
    by (simp only: if_distrib [of snd] snd_conv, intro ok_if ok_length assms kept)
      (use kept ok_last assms in auto)
qed

lemma ok_selectNext: "ok s \<Longrightarrow> ok (snd (selectNext env s))"
proof -
  have "ok s \<Longrightarrow> ok (snd (selectNext_loop env n s))" for n
  proof (induction "length (sel_items s) - n" arbitrary: n rule: less_induct)
    case less
    then show ?case by (subst selectNext_loop.simps) (auto simp: ok_select ok_deselectAll)
  qed
  then show "ok s \<Longrightarrow> ok (snd (selectNext env s))" by (simp add: selectNext_def Let_def)
qed

lemma ok_selectPrevious: "ok s \<Longrightarrow> ok (snd (selectPrevious env s))"
proof -
  have "ok s \<Longrightarrow> ok (snd (selectPrevious_loop env n s))" for n by (induction n) (simp_all add: ok_select ok_deselectAll)
  then show "ok s \<Longrightarrow> ok (snd (selectPrevious env s))" by (simp add: selectPrevious_def)
qed

lemma ok_selectFirst_loop: "ok s \<Longrightarrow> ok (snd (selectFirst_loop env n s))"
proof (induction "length (sel_items s) - n" arbitrary: n s rule: less_induct)
  case less
  have "ok (snd (select env item False s))" "sel_items (snd (select env item False s)) = sel_items s" for item using ok_select less.prems by simp_all
  then show ?case using less by (subst selectFirst_loop.simps) (auto simp: case_prod_beta)
qed

lemma ok_selectLast_loop: "ok s \<Longrightarrow> ok (snd (selectLast_loop env n s))"
  by (induction n arbitrary: s) (auto simp: case_prod_beta ok_select)

end

section \<open>Observers\<close>

text \<open>What an observer of the changes takes for the selected items.\<close>

fun observed :: "'a sel_event list \<Rightarrow> 'a set \<Rightarrow> 'a set" where
  "observed [] X = X"
| "observed (OnSelectChange x sel # es) X = observed es (if sel then insert x X else X - {x})"
| "observed (_ # es) X = observed es X"

lemma observed_append [simp]: "observed (es @ fs) X = observed fs (observed es X)"
  by (induction es X rule: observed.induct) simp_all

definition sel_in_step :: "'a sel_object \<Rightarrow> bool" where
  "sel_in_step s \<longleftrightarrow> distinct (sel_selection s) \<and> sel_length s = length (sel_selection s) \<and> observed (sel_events s) {} = set (sel_selection s)"

definition sel_ok :: "'a sel_env \<Rightarrow> 'a sel_object \<Rightarrow> bool" where
  "sel_ok env s \<longleftrightarrow> sel_in_step s \<and> set (sel_selection s) \<subseteq> {x \<in> set (sel_items s). isSelectable env x}"

lemma in_step_select: "sel_in_step s \<Longrightarrow> sel_in_step (snd (select env item noPivot s))"
  by (auto simp: sel_in_step_def select_def Let_def split: option.split)

lemma in_step_deselect: "sel_in_step s \<Longrightarrow> sel_in_step (snd (deselect item s))"
  by (auto simp: sel_in_step_def deselect_def sel_find_def splice_found Let_def split: option.split)

lemma selected_by_select:
  "set (sel_selection (snd (select env item noPivot s))) \<subseteq> set (sel_selection s) \<union> {x \<in> set (sel_items s). isSelectable env x}"
  by (auto simp: select_def Let_def split: option.splits if_splits)

lemma selected_by_deselect: "set (sel_selection (snd (deselect item s))) \<subseteq> set (sel_selection s)"
  by (auto simp: deselect_selection split: option.split dest: set_remove1_subset [THEN subsetD])

lemma in_step_field [simp]:
  "sel_in_step (s\<lparr>lastSelected := l\<rparr>) = sel_in_step s" "sel_in_step (updatePivot s) = sel_in_step s" "sel_in_step (s\<lparr>sel_items := xs\<rparr>) = sel_in_step s"
  "sel_in_step s \<Longrightarrow> sel_in_step (s\<lparr>sel_length := length (sel_selection s)\<rparr>)"
  by (simp_all add: sel_in_step_def)

interpretation in_step: selection_contract env sel_in_step for env
  by unfold_locales (simp_all add: in_step_select in_step_deselect)

interpretation sel: selection_contract env "sel_ok env" for env
proof unfold_locales
  fix s :: "'a sel_object" and item noPivot
  assume s: "sel_ok env s"
  show "sel_ok env (snd (select env item noPivot s))"
    using s selected_by_select [of env item noPivot s] in_step_select [of s env item noPivot] unfolding sel_ok_def select_keep by blast
  show "sel_ok env (snd (deselect item s))"
    using s selected_by_deselect [of item s] in_step_deselect [of s item] unfolding sel_ok_def deselect_keep by blast
qed (simp_all add: sel_ok_def)

lemma deselectAll_empty [simp]: "sel_selection (deselectAll s) = []" and deselectAll_items [simp]: "sel_items (deselectAll s) = sel_items s"
proof (induction s rule: deselectAll.induct)
  case (1 s)
  case 1 show ?case using \<open>\<And>x xs. sel_selection s = x # xs \<Longrightarrow> sel_selection (deselectAll (snd (deselect (Some x) s))) = []\<close>
    by (subst deselectAll.simps) (auto split: list.split)
  case 2 show ?case using \<open>\<And>x xs. sel_selection s = x # xs \<Longrightarrow> sel_items (deselectAll (snd (deselect (Some x) s))) = sel_items (snd (deselect (Some x) s))\<close>
    by (subst deselectAll.simps) (auto split: list.split)
qed

lemma clearItems_ok: "sel_in_step s \<Longrightarrow> sel_ok env (clearItems s)"
  using in_step.ok_deselectAll [of "s\<lparr>sel_items := []\<rparr>"] by (simp add: clearItems_def sel_ok_def)

lemma more_items_ok: "sel_ok env s \<Longrightarrow> set (sel_items s) \<subseteq> set xs \<Longrightarrow> sel_ok env (s\<lparr>sel_items := xs\<rparr>)"
  by (auto simp: sel_ok_def)

lemma addItems_ok: "sel_ok env s \<Longrightarrow> sel_ok env (addItems args s)"
  by (simp add: addItems_def more_items_ok)

lemma setItems_ok: "sel_in_step s \<Longrightarrow> sel_ok env (setItems args s)"
  by (simp add: setItems_def addItems_ok clearItems_ok)

lemma insert_loop_ok: "sel_ok env s \<Longrightarrow> 0 \<le> idx \<Longrightarrow> sel_ok env (insert_loop args idx s)"
proof (induction args arbitrary: idx s)
  case (Cons a args)
  have "set (sel_items s) \<subseteq> set (js_splice (sel_items s) idx 0 [a])"
    using set_append [of "take n (sel_items s)" "drop n (sel_items s)" for n] Cons.prems(2) by (auto simp: js_splice_def Let_def)
  from more_items_ok [OF Cons.prems(1) this] show ?case using Cons by simp
qed simp

lemma addItemsAt_ok: "sel_ok env s \<Longrightarrow> addItemsAt item before args s = Inr t \<Longrightarrow> sel_ok env t"
proof -
  have pos: "0 \<le> find_item xs (Some x)" if "x \<in> set xs" for x :: 'a and xs using that by (simp add: find_item_Some)
  assume s: "sel_ok env s" "addItemsAt item before args s = Inr t"
  show "sel_ok env t"
  proof (cases "sel_items s = []")
    case False
    define it where "it = (case item of Item x \<Rightarrow> if isItem (Some x) s then Some x else None | Position i \<Rightarrow> js_at (sel_items s) i)"
    have "it \<noteq> None" using s(2) False by (auto simp: addItemsAt_def it_def Let_def split: if_splits)
    then obtain x where x: "it = Some x" "x \<in> set (sel_items s)" by (auto simp: it_def js_at_def split: item_ref.splits if_splits)
    define idx where "idx = (let i = find_item (sel_items s) it in if 0 < i \<and> before then i - 1 else i)"
    have "t = insert_loop args idx s"
      using s(2) False unfolding addItemsAt_def it_def [symmetric] by (simp add: x(1) Let_def idx_def sel_find_def)
    moreover have "0 \<le> idx" using pos [OF x(2)] by (simp add: idx_def x(1) Let_def)
    ultimately show ?thesis using insert_loop_ok s(1) by blast
  qed (use s addItems_ok in \<open>auto simp: addItemsAt_def\<close>)
qed

text \<open>The operations, except for those that exchange the list of items or take items away.\<close>

datatype 'a sel_op =
    Update "'a option" bool bool bool | Grow "'a option" "'a option option" | GrowUp | GrowDown | Toggle "'a option" bool
  | Select "'a option" bool | Deselect "'a option" | SelectAll | DeselectAll | SelectNext | SelectPrevious | SelectFirst | SelectLast
  | AddItems "'a nest list" | SetItems "'a nest list" | AddItemsAt "'a item_ref" bool "'a list" | ClearItems

fun run_op :: "'a sel_env \<Rightarrow> 'a sel_op \<Rightarrow> 'a sel_object \<Rightarrow> 'a sel_object" where
  "run_op env (Update item add gr noToggle) s = snd (update env item add gr noToggle s)"
| "run_op env (Grow toItem fromArg) s = grow env toItem fromArg s"
| "run_op env GrowUp s = growUp env s"
| "run_op env GrowDown s = growDown env s"
| "run_op env (Toggle item noPivot) s = snd (toggleSelected env item noPivot s)"
| "run_op env (Select item noPivot) s = snd (select env item noPivot s)"
| "run_op env (Deselect item) s = snd (deselect item s)"
| "run_op env SelectAll s = selectAll env s"
| "run_op env DeselectAll s = deselectAll s"
| "run_op env SelectNext s = snd (selectNext env s)"
| "run_op env SelectPrevious s = snd (selectPrevious env s)"
| "run_op env SelectFirst s = snd (selectFirst env s)"
| "run_op env SelectLast s = snd (selectLast env s)"
| "run_op env (AddItems args) s = addItems args s"
| "run_op env (SetItems args) s = setItems args s"
| "run_op env (AddItemsAt item before args) s = (case addItemsAt item before args s of Inr t \<Rightarrow> t | Inl _ \<Rightarrow> s)"
| "run_op env ClearItems s = clearItems s"

lemma run_op_ok: "sel_ok env s \<Longrightarrow> sel_ok env (run_op env p s)"
proof -
  assume s: "sel_ok env s"
  then have "sel_in_step s" by (simp add: sel_ok_def)
  note kept = sel.ok_update sel.ok_grow sel.ok_growUp sel.ok_growDown sel.ok_toggle sel.ok_select sel.ok_deselect sel.ok_selectAll_loop
    sel.ok_deselectAll sel.ok_selectNext sel.ok_selectPrevious sel.ok_selectFirst_loop sel.ok_selectLast_loop addItems_ok
  show "sel_ok env (run_op env p s)"
    using s \<open>sel_in_step s\<close>
    by (cases p) (auto simp: kept setItems_ok clearItems_ok selectAll_def selectFirst_def selectLast_def Let_def 
        intro: addItemsAt_ok split: sum.split)
qed

lemma new_selection_ok: "sel_ok env (new_selection arg)"
proof -
  have c: "sel_ok env (clearItems \<lparr>sel_items = [], sel_selection = [], lastSelected = None, allowImplicit = True, sel_length = 0, isGrowable = True,
                          pivotItems = [], pivotItem = None, sel_events = []\<rparr>)" (is "sel_ok env ?s")
    by (intro clearItems_ok) (simp add: sel_in_step_def)
  moreover have "sel_in_step ?s" using c by (simp add: sel_ok_def)
  moreover have "sel_items ?s = []" by (simp add: clearItems_def)
  ultimately show ?thesis
    by (auto simp: new_selection_def setItemsCollection_def setItems_ok Let_def intro: more_items_ok split: sel_arg.split)
qed

text \<open>
  Claim C18. Whatever is done with a new selection, other than exchanging or taking away items, the selected items are different selectable items of the list, the number of them is right,
  and an observer of the events has exactly the selected items.
\<close>

theorem selection_observed:
  "let s = fold (run_op env) ops (new_selection arg)
   in distinct (sel_selection s) \<and> set (sel_selection s) \<subseteq> {x \<in> set (sel_items s). isSelectable env x}
      \<and> sel_length s = length (sel_selection s) \<and> observed (sel_events s) {} = set (sel_selection s)"
proof -
  have "sel_ok env s \<Longrightarrow> sel_ok env (fold (run_op env) ops s)" for s by (induction ops arbitrary: s) (simp_all add: run_op_ok)
  from this [OF new_selection_ok] show ?thesis by (auto simp: Let_def sel_ok_def sel_in_step_def)
qed

section \<open>Items that are gone\<close>

text \<open>\<open>updateSelected\<close> looks at every selected item but those that follow one it took out.\<close>

fun skipping_filter :: "('a \<Rightarrow> bool) \<Rightarrow> 'a list \<Rightarrow> 'a list" where
  "skipping_filter P [] = []"
| "skipping_filter P [x] = (if P x then [x] else [])"
| "skipping_filter P (x # y # xs) = (if P x then x # skipping_filter P (y # xs) else y # skipping_filter P xs)"

lemma skipping_filter_Cons: "P x \<Longrightarrow> skipping_filter P (x # xs) = x # skipping_filter P xs"
  by (cases xs) simp_all

lemma updateSelected_loop_skips:
  "i \<le> length (sel_selection s) \<Longrightarrow>
   sel_selection (updateSelected_loop i s) = take i (sel_selection s) @ skipping_filter (\<lambda>x. x \<in> set (sel_items s)) (drop i (sel_selection s))"
proof (induction "length (sel_selection s) - i" arbitrary: i s rule: less_induct)
  case less
  let ?sel = "sel_selection s"
  let ?P = "\<lambda>x. x \<in> set (sel_items s)"
  show ?case
  proof (cases "i < length ?sel")
    case False
    then show ?thesis using less.prems by (subst updateSelected_loop.simps) simp
  next
    case True
    then have d: "drop i ?sel = ?sel ! i # drop (Suc i) ?sel" by (simp add: Cons_nth_drop_Suc)
    show ?thesis
    proof (cases "?P (?sel ! i)")
      case P: True
      have "sel_selection (updateSelected_loop (Suc i) s) = take (Suc i) ?sel @ skipping_filter ?P (drop (Suc i) ?sel)"
        using less.hyps [of s "Suc i"] True by simp
      then show ?thesis using True P d
        by (subst updateSelected_loop.simps) (simp add: sel_find_def find_item_Some skipping_filter_Cons take_Suc_conv_app_nth)
    next
      case P: False
      let ?s = "removePivot (?sel ! i) (s\<lparr>sel_selection := take i ?sel @ drop (Suc i) ?sel\<rparr>)"
      have step: "updateSelected_loop i s = updateSelected_loop (Suc i) ?s"
        using True P by (subst updateSelected_loop.simps) (simp add: sel_find_def find_item_Some js_splice_delete)
      show ?thesis
      proof (cases "drop (Suc i) ?sel")
        case Nil
        then show ?thesis using True P unfolding step d by (subst updateSelected_loop.simps) simp
      next
        case (Cons y ys)
        then have "Suc i < length ?sel" by (metis drop_all list.distinct(1) not_less)
        moreover have "length ys < length ?sel - i" using arg_cong [OF Cons, of length] by simp
        ultimately show ?thesis using less.hyps [of ?s "Suc i"] True P Cons unfolding step d by (simp add: min_def)
      qed
    qed
  qed
qed

text \<open>
  When neighbours in the selection are both gone from the list of items, the second of them stays selected.
\<close>

theorem update_selected_skips:
  assumes "sel_selection s = xs @ a # b # ys" "set xs \<subseteq> set (sel_items s)" "a \<notin> set (sel_items s)"
  shows "b \<in> set (sel_selection (updateSelected s))"
proof -
  have "skipping_filter P (xs @ a # b # ys) = xs @ b # skipping_filter P ys" if "\<forall>x \<in> set xs. P x" "\<not> P a" for P
    using that by (induction xs) (auto simp: skipping_filter_Cons)
  from this [of "\<lambda>x. x \<in> set (sel_items s)"] show ?thesis
    using assms updateSelected_loop_skips [of 0 s] by (simp add: updateSelected_def Let_def subset_iff)
qed

end
