(* ===== verification/Selection_Segments.thy ===== *)
theory Selection_Segments
  imports Selection_Proofs
begin

text \<open>
  The segment that clicks and the shift key select in \<open>src/selection/Selection.js\<close>, as a refinement of a pivot and an end.
\<close>

section \<open>Segments\<close>

text \<open>
  What clicks and the arrow keys do, with and without the shift key. The specification keeps two positions: the pivot and the item reached last.
\<close>

datatype 'a sel_input = Click 'a | Shift_click 'a | Shift_up | Shift_down

fun run_input :: "'a sel_env \<Rightarrow> 'a sel_input \<Rightarrow> 'a sel_object \<Rightarrow> 'a sel_object" where
  "run_input env (Click x) s = snd (update env (Some x) False False False s)"
| "run_input env (Shift_click x) s = snd (update env (Some x) False True False s)"
| "run_input env Shift_up s = growUp env s"
| "run_input env Shift_down s = growDown env s"

definition between :: "nat \<Rightarrow> nat \<Rightarrow> nat set" where
  "between a t = {i. a < i \<and> i \<le> t \<or> t \<le> i \<and> i < a}"

definition segment :: "nat \<Rightarrow> nat \<Rightarrow> nat set" where
  "segment a t = {min a t..max a t}"

definition index_of :: "'a list \<Rightarrow> 'a \<Rightarrow> nat" where
  "index_of xs x = length (takeWhile (\<lambda>y. y \<noteq> x) xs)"

fun spec_input :: "'a list \<Rightarrow> 'a sel_input \<Rightarrow> nat \<times> nat \<Rightarrow> nat \<times> nat" where
  "spec_input xs (Click x) (a, t) = (if x \<in> set xs then (index_of xs x, index_of xs x) else (a, t))"
| "spec_input xs (Shift_click x) (a, t) = (if x \<in> set xs \<and> index_of xs x \<notin> segment a t then (a, index_of xs x) else (a, t))"
| "spec_input xs Shift_up (a, t) = (a, t - 1)"
| "spec_input xs Shift_down (a, t) = (a, if t + 1 < length xs then t + 1 else t)"

lemma segment_between: "segment a t = insert a (between a t)" "a \<notin> between a t"
  by (auto simp: segment_def between_def min_def max_def)

lemma index_of_nth [simp]: "distinct xs \<Longrightarrow> i < length xs \<Longrightarrow> index_of xs (xs ! i) = i"
proof (induction xs arbitrary: i)
  case (Cons x xs)
  then show ?case by (cases i) (auto simp: index_of_def)
qed simp

lemma nth_index_of [simp]: "x \<in> set xs \<Longrightarrow> xs ! index_of xs x = x" "x \<in> set xs \<Longrightarrow> index_of xs x < length xs"
  by (induction xs) (auto simp: index_of_def)

lemma find_index: "find_item xs (Some x) = (if x \<in> set xs then int (index_of xs x) else - 1)"
  by (simp add: find_item_Some index_of_def)

text \<open>The methods of the class as they are, with any order of enumeration.\<close>

definition plain_env :: "'a sel_env \<Rightarrow> bool" where
  "plain_env env \<longleftrightarrow> (\<forall>x. isSelectable env x) \<and> (\<forall>x xs a g. selectFilter env x xs a g) \<and> (\<forall>ks. set (for_in env ks) = set ks)"

text \<open>The state that belongs to a pivot and an end.\<close>

definition segment_state :: "'a list \<Rightarrow> nat \<Rightarrow> nat \<Rightarrow> 'a sel_object \<Rightarrow> bool" where
  "segment_state xs a t s \<longleftrightarrow>
     a < length xs \<and> t < length xs \<and> sel_items s = xs \<and> isGrowable s \<and> distinct (sel_selection s) \<and> set (sel_selection s) = (!) xs ` segment a t
     \<and> lastSelected s = Some (xs ! t) \<and> pivotItem s = Some (xs ! a) \<and> pivotItems s = [xs ! a]"

lemma set_step_range:
  "a \<noteq> t \<Longrightarrow> step_range (int t) (int a) (if int a < int t then - 1 else 1) \<noteq> []"
  "set (step_range (int t) (int a) (if int a < int t then - 1 else 1)) = int ` between a t"
  "distinct (step_range (int t) (int a) (if int a < int t then - 1 else 1))"
  "a \<noteq> t \<Longrightarrow> hd (step_range (int t) (int a) (if int a < int t then - 1 else 1)) = int t"
proof -
  have ints: "i \<in> int ` between a t \<longleftrightarrow> int a < i \<and> i \<le> int t \<or> int t \<le> i \<and> i < int a" for i
    by (cases i rule: int_cases2) (auto simp: between_def image_iff)
  have up: "[t..b] = t # [t + 1..b]" if "t \<le> b" for t b :: int using that by (simp add: upto_rec1)
  have down: "[b..t] = [b..t - 1] @ [t]" if "b \<le> t" for t b :: int using that by (simp add: upto_rec2)
  show "a \<noteq> t \<Longrightarrow> step_range (int t) (int a) (if int a < int t then - 1 else 1) \<noteq> []"
    "distinct (step_range (int t) (int a) (if int a < int t then - 1 else 1))"
    by (auto simp: step_range_def math_range_def range_up_1 range_down_1)
  show "set (step_range (int t) (int a) (if int a < int t then - 1 else 1)) = int ` between a t"
    by (rule set_eqI, subst ints) (auto simp: step_range_def math_range_def range_up_1 range_down_1)
  show "a \<noteq> t \<Longrightarrow> hd (step_range (int t) (int a) (if int a < int t then - 1 else 1)) = int t"
    using up [of "int t" "int a - 1"] down [of "int a + 1" "int t"] by (auto simp: step_range_def math_range_def range_up_1 range_down_1)
qed

section \<open>The loops of growing\<close>

text \<open>The fields that the loops leave alone.\<close>

definition pivots_of :: "'a sel_object \<Rightarrow> 'a list \<times> 'a list \<times> 'a option \<times> bool" where
  "pivots_of s = (sel_items s, pivotItems s, pivotItem s, isGrowable s)"

lemma select_no_pivot: "pivots_of (snd (select env item True s)) = pivots_of s"
  by (simp add: pivots_of_def select_def Let_def split: option.split)

lemma select_plain:
  assumes "plain_env env" "x \<in> set (sel_items s)"
  shows "fst (select env (Some x) np s) = (x \<notin> set (sel_selection s))"
    "set (sel_selection (snd (select env (Some x) np s))) = insert x (set (sel_selection s))"
    "distinct (sel_selection s) \<Longrightarrow> distinct (sel_selection (snd (select env (Some x) np s)))"
  using assms by (auto simp: select_def plain_env_def Let_def)

lemma grow_loop_plain:
  assumes "plain_env env" "\<forall>i \<in> set is. 0 \<le> i \<and> i < int (length (sel_items s))" "distinct (sel_selection s)" "distinct (sel_items s)" "distinct is"
  shows "case grow_loop env shrink is (td, s) of (td', s') \<Rightarrow>
    td' = filter (\<lambda>j. j \<notin> set is) td \<and> pivots_of s' = pivots_of s \<and> distinct (sel_selection s')
    \<and> set (sel_selection s') = set (sel_selection s) \<union> (\<lambda>i. sel_items s ! nat i) ` set is
    \<and> (is \<noteq> [] \<longrightarrow> shrink \<or> sel_items s ! nat (last is) \<notin> set (sel_selection s) \<longrightarrow> lastSelected s' = Some (sel_items s ! nat (last is)))"
  using assms(2-5)
proof (induction "is" arbitrary: td s)
  case (Cons i "is")
  let ?x = "sel_items s ! nat i"
  have i: "0 \<le> i" "nat i < length (sel_items s)" "?x \<in> set (sel_items s)" using Cons.prems(1) by auto
  have at: "js_at (sel_items s) i = Some ?x" using i by (simp add: js_at_def)
  note sel = select_plain [OF assms(1) i(3)]
  define s1 where "s1 = (let p = select env (Some ?x) True s in if fst p \<or> shrink then (snd p)\<lparr>lastSelected := Some ?x\<rparr> else snd p)"
  have s1: "pivots_of s1 = pivots_of s" "sel_items s1 = sel_items s" "set (sel_selection s1) = insert ?x (set (sel_selection s))"
    "distinct (sel_selection s1)" "shrink \<or> ?x \<notin> set (sel_selection s) \<Longrightarrow> lastSelected s1 = Some ?x"
    using sel Cons.prems(2) select_no_pivot [of env "Some ?x" s] by (auto simp: s1_def Let_def pivots_of_def)
  have step: "grow_loop env shrink (i # is) (td, s) = grow_loop env shrink is (filter (\<lambda>j. j \<noteq> i) td, s1)"
    using assms(1) by (simp add: at plain_env_def s1_def Let_def case_prod_beta)
  have other: "is \<noteq> [] \<Longrightarrow> sel_items s ! nat (last is) \<noteq> ?x"
  proof -
    assume "is \<noteq> []"
    then have "last is \<in> set is" by simp
    then have "last is \<noteq> i" "0 \<le> last is" "nat (last is) < length (sel_items s)" using Cons.prems by auto
    then show ?thesis using i Cons.prems(3) by (simp add: nth_eq_iff_index_eq)
  qed
  show ?case
    using Cons.IH [of s1 "filter (\<lambda>j. j \<noteq> i) td"] Cons.prems other s1 unfolding step by (auto simp: case_prod_beta conj_commute)
qed simp

lemma deselect_loop_plain:
  assumes "distinct (sel_selection s)" "pivotItems s = [p]" "lastSelected s = Some l" "\<forall>i \<in> set is. js_at (sel_items s) i \<notin> {None, Some p, Some l}"
  shows "pivots_of (deselect_loop is s) = pivots_of s \<and> lastSelected (deselect_loop is s) = Some l \<and> distinct (sel_selection (deselect_loop is s))
    \<and> set (sel_selection (deselect_loop is s)) = set (sel_selection s) - (\<lambda>i. the (js_at (sel_items s) i)) ` set is"
  using assms
proof (induction "is" arbitrary: s)
  case (Cons i "is")
  obtain x where x: "js_at (sel_items s) i = Some x" "x \<noteq> p" "x \<noteq> l" using Cons.prems(4) by auto
  let ?s = "snd (deselect (Some x) s)"
  have "pivots_of ?s = pivots_of s" "lastSelected ?s = Some l"
    using Cons.prems(2,3) x(2,3) by (auto simp: deselect_def removePivot_def updatePivot_def pivots_of_def find_item_Some Let_def)
  moreover have "sel_selection ?s = remove1 x (sel_selection s)" by (simp add: deselect_selection)
  ultimately show ?case using Cons.IH [of ?s] Cons.prems x(1) by (auto simp: pivots_of_def)
qed simp

lemma segment_images:
  assumes "distinct xs" "a < length xs" "t < length xs" "u < length xs"
  shows "((!) xs ` segment a t \<union> (!) xs ` between a u) - (!) xs ` (between a t - between a u) = (!) xs ` segment a u"
proof -
  have sub: "segment a t \<union> between a u \<subseteq> {..<length xs}" "between a t - between a u \<subseteq> {..<length xs}"
    using assms(2-4) by (auto simp: segment_between between_def)
  have "inj_on ((!) xs) {..<length xs}" using assms(1) by (simp add: inj_on_nth)
  then have "(!) xs ` (segment a t \<union> between a u - (between a t - between a u))
    = (!) xs ` (segment a t \<union> between a u) - (!) xs ` (between a t - between a u)"
    using sub by (intro inj_on_image_set_diff) auto
  moreover have "segment a t \<union> between a u - (between a t - between a u) = segment a u" by (auto simp: segment_between)
  ultimately show ?thesis by (simp add: image_Un)
qed

lemma not_at_ends:
  assumes "distinct xs" "a < length xs" "u < length xs" "t < length xs" "i \<in> int ` (between a t - between a u)"
  shows "js_at xs i \<notin> {None, Some (xs ! a), Some (xs ! u)}"
proof -
  obtain n where n: "i = int n" "n \<in> between a t" "n \<notin> between a u" using assms(5) by auto
  then have "n < length xs" "n \<noteq> a" "n \<noteq> u" using assms(2,4) by (auto simp: between_def)
  then show ?thesis using assms(1-3) n(1) by (simp add: nth_eq_iff_index_eq)
qed

lemma images_at: "K \<subseteq> {..<length xs} \<Longrightarrow> (\<lambda>i. the (js_at xs i)) ` int ` K = (!) xs ` K" "(\<lambda>i. xs ! nat i) ` int ` K = (!) xs ` K"
  by (auto simp: image_image intro!: image_cong)

text \<open>The deselecting loop leads from the larger set to the segment.\<close>

lemma deselect_segment:
  assumes "distinct xs" "a < length xs" "t < length xs" "u < length xs" "sel_items s = xs" "isGrowable s" "pivotItem s = Some (xs ! a)" "pivotItems s = [xs ! a]"
    and "lastSelected s = Some (xs ! u)" "distinct (sel_selection s)" "set (sel_selection s) = (!) xs ` segment a t \<union> (!) xs ` between a u"
    and "set ks = int ` (between a t - between a u)"
  shows "segment_state xs a u (updatePivot (deselect_loop ks s))"
proof -
  have ends: "\<forall>i \<in> set ks. js_at (sel_items s) i \<notin> {None, Some (xs ! a), Some (xs ! u)}"
    using not_at_ends [OF assms(1,2,4,3)] assms(5,12) by simp
  have "between a t - between a u \<subseteq> {..<length xs}" using assms(2,3) by (auto simp: between_def)
  then have "set (sel_selection (deselect_loop ks s)) = (!) xs ` segment a u"
    using deselect_loop_plain [OF assms(10,8,9) ends] segment_images [OF assms(1-4)] assms(5,11,12) by (simp add: images_at)
  moreover have "updatePivot (deselect_loop ks s) = deselect_loop ks s"
    using deselect_loop_plain [OF assms(10,8,9) ends] assms(8) by (simp add: pivots_of_def updatePivot_def)
  ultimately show ?thesis
    using deselect_loop_plain [OF assms(10,8,9) ends] assms(2,4-8) by (simp add: segment_state_def pivots_of_def)
qed

lemma grow_segment:
  assumes "plain_env env" "distinct xs" "segment_state xs a t s" "u < length xs"
    and "u \<notin> segment a t \<or> a < t \<and> u + 1 = t \<or> t < a \<and> u = t + 1"
  shows "segment_state xs a u (grow env (Some (xs ! u)) None s)"
proof -
  note st = assms(3) [unfolded segment_state_def]
  have idx: "sel_find (Some (xs ! i)) False s = int i" if "i < length xs" for i using that st assms(2) by (simp add: sel_find_def find_index)
  let ?td = "step_range (int t) (int a) (if int a < int t then - 1 else 1)"
  let ?step = "if int a < int u then - 1 else 1 :: int"
  let ?shrink = "if int t \<ge> 0 \<and> ?step = 1 then int t < int u else int t > int u"
  let ?range = "step_range (int u) (int a) ?step"
  let ?r = "if ?range \<noteq> [] then grow_loop env ?shrink (rev ?range) (?td, s) else (?td, s\<lparr>lastSelected := Some (xs ! a)\<rparr>)"
  have grow: "grow env (Some (xs ! u)) None s = updatePivot (deselect_loop (for_in env (fst ?r)) (snd ?r))"
    using st assms(4) by (simp add: grow_def idx case_prod_beta Let_def)
  have order: "set (for_in env ks) = set ks" for ks using assms(1) by (simp add: plain_env_def)
  show ?thesis
  proof (cases "u = a")
    case True
    then have "?r = (?td, s\<lparr>lastSelected := Some (xs ! a)\<rparr>)" "between a u = {}" by (auto simp: step_range_def math_range_def range_up_1 between_def)
    then show ?thesis unfolding grow using st True order set_step_range(2) [of t a] assms(2) by (intro deselect_segment [where t = t]) simp_all
  next
    case False
    note range = set_step_range [where a = a and t = u]
    have valid: "\<forall>i \<in> set (rev ?range). 0 \<le> i \<and> i < int (length (sel_items s))" using range(2) st assms(4) by (auto simp: between_def)
    have loop: "case grow_loop env ?shrink (rev ?range) (?td, s) of (td', s') \<Rightarrow>
      td' = filter (\<lambda>j. j \<notin> int ` between a u) ?td \<and> pivots_of s' = pivots_of s \<and> distinct (sel_selection s')
      \<and> set (sel_selection s') = set (sel_selection s) \<union> (\<lambda>i. xs ! nat i) ` int ` between a u
      \<and> (?shrink \<or> xs ! u \<notin> set (sel_selection s) \<longrightarrow> lastSelected s' = Some (xs ! u))"
      using grow_loop_plain [OF assms(1) valid, where shrink = ?shrink and td = ?td] range False st assms(2) by (simp add: last_rev)
    have last: "?shrink \<or> xs ! u \<notin> set (sel_selection s)"
    proof (cases "u \<in> segment a t")
      case True
      then show ?thesis using assms(5) False by (auto simp: segment_def)
    next
      case False
      then have "xs ! u \<notin> (!) xs ` segment a t"
        using assms(2,4) st by (auto simp: segment_def nth_eq_iff_index_eq)
      then show ?thesis using st by simp
    qed
    have "between a u \<subseteq> {..<length xs}" using st assms(4) by (auto simp: between_def)
    then show ?thesis unfolding grow
      using loop last range(1) False st assms(2,4) order set_step_range(2) [of t a]
      by (intro deselect_segment [where t = t]) (auto simp: case_prod_beta pivots_of_def images_at)
  qed
qed

section \<open>Clicks and keys\<close>

text \<open>Pivots and the last item are selected; then nothing is left of them when all items are deselected.\<close>

definition pivots_selected :: "'a sel_object \<Rightarrow> bool" where
  "pivots_selected s \<longleftrightarrow> distinct (sel_selection s) \<and> distinct (pivotItems s) \<and> set (pivotItems s) \<subseteq> set (sel_selection s)
     \<and> lastSelected s \<in> insert None (Some ` set (sel_selection s))"

lemma pivots_selected_deselect:
  assumes "pivots_selected s"
  shows "pivots_selected (snd (deselect (Some x) s))"
proof (cases "x \<in> set (sel_selection s)")
  case True
  have "js_splice (pivotItems s) (find_item (pivotItems s) (Some x)) 1 [] = remove1 x (pivotItems s)" if "x \<in> set (pivotItems s)"
    using splice_found [OF that] .
  then show ?thesis using assms True
    by (auto simp: pivots_selected_def deselect_def sel_find_def splice_found removePivot_def updatePivot_def addPivot_def Let_def split: option.split)
qed (use assms in \<open>simp add: deselect_def sel_find_def\<close>)

lemma deselectAll_pivots:
  "pivots_selected s \<Longrightarrow> pivotItems (deselectAll s) = [] \<and> lastSelected (deselectAll s) = None \<and> isGrowable (deselectAll s) = isGrowable s"
proof (induction s rule: deselectAll.induct)
  case (1 s)
  show ?case
  proof (cases "sel_selection s")
    case Nil
    then show ?thesis using 1(2) by (subst (1 2 3) deselectAll.simps) (auto simp: pivots_selected_def)
  next
    case (Cons x xs)
    then show ?thesis using 1(1) [OF Cons] pivots_selected_deselect [OF 1(2)] by (subst (1 2 3) deselectAll.simps) simp
  qed
qed

lemma click_segment:
  assumes "plain_env env" "sel_items s = xs" "isGrowable s" "pivots_selected s" "x \<in> set xs"
  shows "segment_state xs (index_of xs x) (index_of xs x) (run_input env (Click x) s)"
  using assms deselectAll_pivots [OF assms(4)]
  by (simp add: update_def select_def addPivot_def segment_state_def segment_def plain_env_def Let_def)

lemma segment_pivots_selected: "segment_state xs a t s \<Longrightarrow> pivots_selected s"
  by (auto simp: segment_state_def pivots_selected_def segment_def)

lemma segment_step:
  assumes "plain_env env" "distinct xs" "segment_state xs a t s" "spec_input xs inp (a, t) = (a', t')"
  shows "segment_state xs a' t' (run_input env inp s)"
proof -
  note st = assms(3) [unfolded segment_state_def]
  have filter: "selectFilter env x ys b c" for x ys b c using assms(1) by (simp add: plain_env_def)
  have last: "sel_find (lastSelected s) False s = int t" using st assms(2) by (simp add: sel_find_def find_index)
  note grow = grow_segment [OF assms(1-3)]
  show ?thesis
  proof (cases inp)
    case (Click x)
    show ?thesis
    proof (cases "x \<in> set xs")
      case True
      then show ?thesis using click_segment [OF assms(1) _ _ segment_pivots_selected [OF assms(3)]] st assms(4) Click by auto
    next
      case False
      then show ?thesis using assms(3,4) st Click by (simp add: update_def)
    qed
  next
    case (Shift_click x)
    have sel: "x \<in> set (sel_selection s) \<longleftrightarrow> index_of xs x \<in> segment a t" if "x \<in> set xs"
    proof -
      have "index_of xs (xs ! i) = i" if "i \<in> segment a t" for i using that st assms(2) by (auto simp: segment_def)
      then have "x \<in> (!) xs ` segment a t \<longleftrightarrow> index_of xs x \<in> segment a t" using that by (auto intro!: image_eqI [of x "(!) xs" "index_of xs x"])
      then show ?thesis using st by simp
    qed
    show ?thesis
    proof (cases "x \<in> set xs \<and> index_of xs x \<notin> segment a t")
      case True
      then have "segment_state xs a (index_of xs x) (grow env (Some x) None s)" using grow [of "index_of xs x"] by simp
      then show ?thesis using True st sel assms(4) filter by (auto simp: Shift_click update_def segment_state_def)
    next
      case False
      then show ?thesis using st sel assms(3,4) by (auto simp: Shift_click update_def segment_state_def)
    qed
  next
    case Shift_up
    have "segment_state xs a (t - 1) (growUp_loop env t s)"
    proof (cases t)
      case (Suc n)
      then have "n \<notin> segment a t \<or> a < t" by (auto simp: segment_def min_def)
      then show ?thesis using grow [of n] st filter Suc by auto
    qed (use assms(3) in simp)
    then show ?thesis using st assms(4) last by (simp add: Shift_up growUp_def)
  next
    case Shift_down
    have "t + 1 \<notin> segment a t \<or> t < a" by (auto simp: segment_def max_def split: if_splits)
    then have "segment_state xs a (if t + 1 < length xs then t + 1 else t) (growDown_loop env (t + 1) s)"
      using grow [of "t + 1"] st filter assms(3) by (subst growDown_loop.simps) (auto simp del: of_nat_add of_nat_Suc)
    then show ?thesis using st assms(4) last by (simp add: Shift_down growDown_def nat_add_distrib split: if_splits)
  qed
qed

lemma segment_steps:
  assumes "plain_env env" "distinct xs"
  shows "segment_state xs a t s \<Longrightarrow> case fold (spec_input xs) inps (a, t) of (a', t') \<Rightarrow> segment_state xs a' t' (fold (run_input env) inps s)"
proof (induction inps arbitrary: a t s)
  case (Cons inp inps)
  obtain a' t' where "spec_input xs inp (a, t) = (a', t')" by fastforce
  then show ?case using Cons segment_step [OF assms Cons.prems] by simp
qed simp

lemma new_selection_start:
  "sel_items (new_selection (Some_items (Nest (map Leaf xs)))) = xs \<and> isGrowable (new_selection (Some_items (Nest (map Leaf xs))))
   \<and> pivots_selected (new_selection (Some_items (Nest (map Leaf xs))))"
proof -
  have empty: "deselectAll s = s" if "sel_selection s = []" for s :: "'a sel_object" using that by (subst deselectAll.simps) simp
  show ?thesis by (simp add: new_selection_def setItems_def clearItems_def addItems_def empty unnest_leaves pivots_selected_def)
qed

text \<open>
  Claim C17. After a click on an item of a new selection, and any clicks, clicks with the shift key and arrow keys with the shift key after it, exactly the items from the pivot to the
  end are selected, in either direction, and the pivot and the end are as specified: a click moves both, a click with the shift key outside of the segment moves the end, and the arrows
  move the end by one item, which extends or shrinks the segment.
\<close>

theorem selection_is_segment:
  assumes "plain_env env" "distinct xs" "x \<in> set xs"
  shows "case fold (spec_input xs) inps (index_of xs x, index_of xs x) of (a, t) \<Rightarrow>
    let s = fold (run_input env) (Click x # inps) (new_selection (Some_items (Nest (map Leaf xs))))
    in distinct (sel_selection s) \<and> set (sel_selection s) = (!) xs ` {min a t..max a t} \<and> pivotItem s = Some (xs ! a) \<and> lastSelected s = Some (xs ! t)"
proof -
  let ?s = "new_selection (Some_items (Nest (map Leaf xs)))"
  have "segment_state xs (index_of xs x) (index_of xs x) (run_input env (Click x) ?s)"
    using new_selection_start [of xs] click_segment [OF assms(1), of ?s] assms(3) by blast
  from segment_steps [OF assms(1,2) this, of inps] show ?thesis
    by (simp add: segment_state_def segment_def case_prod_beta Let_def del: run_input.simps)
qed

theorem selection_is_segment_witness:
  "let s = fold (run_input default_env) [Click (3::nat), Shift_click 6, Shift_up, Shift_click 1, Shift_down]
             (new_selection (Some_items (Nest (map Leaf [0, 1, 2, 3, 4, 5, 6]))))
   in set (sel_selection s) = {2, 3} \<and> lastSelected s = Some 2"
proof -
  have "plain_env (default_env :: nat sel_env)" by (simp add: plain_env_def default_env_def)
  moreover have "distinct [0, 1, 2, 3, 4, 5, 6 :: nat]" "3 \<in> set [0, 1, 2, 3, 4, 5, 6 :: nat]" by simp_all
  moreover define inps where "inps = [Shift_click (6::nat), Shift_up, Shift_click 1, Shift_down]"
  moreover have "fold (spec_input [0, 1, 2, 3, 4, 5, 6]) inps (index_of [0, 1, 2, 3, 4, 5, 6] (3::nat), index_of [0, 1, 2, 3, 4, 5, 6] (3::nat)) = (3, 2)"
    by (simp add: inps_def index_of_def segment_def)
  moreover have "{min 3 2..max 3 2} = {2, 3 :: nat}" by auto
  ultimately show ?thesis
    using selection_is_segment [of default_env "[0, 1, 2, 3, 4, 5, 6]" 3 inps] unfolding inps_def [symmetric] by (simp add: Let_def del: run_input.simps)
qed

end
