(* ===== verification/Spec2Isabelle.thy ===== *)
theory Spec2Isabelle
  imports Uuid_Generators Crypto_SHA1 Blowfish Dictionaries Binary_Tree Data_Store Deferred Undo_Manager String_Extras Json Localization_Proofs Events_Proofs Event_Arguments Csv_Proofs Uri_Proofs Xd_Proofs Logging Graph String_Builder Undo_Browser Selection_Segments
begin

text \<open>
  A verification development for the JavaScript of the nsdci repository: the parts of the Dojo 0.4
  toolkit (under \<open>src/pages/stats/dojo/src/\<close>, the directory meant by \<open>src/\<close> below) that compute,
  as opposed to those that drive a browser.

  \<^bold>\<open>Parts of the program and their theories.\<close>

  \<^item> \<open>JS_Prelude\<close> and \<open>JS_Strings\<close> model what the code uses of the language: errors as the left side
    of a sum (\<open>result\<close>, \<open>rbind\<close>), the 32-bit operators on numbers (\<open>js_and\<close>, \<open>js_shl\<close>, ... with their
    meaning on \<open>32 word\<close>), array reads and \<open>splice\<close>, hexadecimal and decimal numerals, \<open>parseInt\<close>,
    \<open>split\<close>, \<open>join\<close>, \<open>substring\<close>. The collections of simplification rules \<open>js_word\<close> and \<open>js_range\<close>
    carry the proofs about words.
  \<^item> \<open>Uuid\<close>, \<open>Uuid_Arith\<close> and \<open>Uuid_Generators\<close>: \<open>src/uuid/\<close>. A UUID object with its caches and
    accessors; 64-bit arithmetic on arrays of four 16-bit numbers; the time-based, lightweight and
    nil generators. The state of the time-based generator is a record; the clock and the random
    numbers are inputs. Shown: accessors agree with the text whatever is cached, the constructor
    normalises, the array arithmetic is exact modulo \<open>2^64\<close>, generated UUIDs are valid, return the
    node and time they were made with, and increase strictly.
  \<^item> \<open>Crypto_Words\<close>, \<open>Crypto_MD5\<close>, \<open>Crypto_SHA1\<close>, \<open>Blowfish_Boxes\<close> and \<open>Blowfish\<close>: \<open>src/crypto/\<close>. A word
    array represents a byte string; through this abstraction MD5 and its keyed form are RFC 1321 and
    RFC 2104, the core of SHA-1 is FIPS 180-1 on its blocks (but its padding makes strings collide),
    and Blowfish decryption inverts encryption for the operands that its \<open>xor\<close> handles rightly, with
    raw output and any boxes; the default output type loses bytes.
    The locale \<open>word_digest\<close> states what a keyed hash needs of a digest.
  \<^item> \<open>Collections\<close>, \<open>Array_Collections\<close>, \<open>Dictionaries\<close>, \<open>Binary_Tree\<close> and \<open>Data_Store\<close>:
    \<open>src/collections/\<close>. Iterators; \<open>ArrayList\<close>, \<open>Queue\<close>, \<open>Stack\<close>, \<open>Set\<close>; \<open>Dictionary\<close> and \<open>SortedList\<close>
    over plain objects, with the names that objects inherit; \<open>BinaryTree\<close>; \<open>Store\<close>. Each object is a
    record with the fields of the source and each method a function on it. The locales \<open>counted\<close>,
    \<open>fifo\<close>, \<open>lifo\<close> and \<open>keyed_store\<close> are the contracts that the collections share. Shown: a dictionary
    is a finite map, the index of a sorted list is sorted and agrees with its table until \<open>replace\<close> is
    used, a tree is the set of its numbers, and which subtrees a deletion loses.
  \<^item> \<open>Deferred\<close>: \<open>src/Deferred.js\<close>, \<open>src/DeferredList.js\<close> and \<open>hitch\<close> of \<open>src/lang/func.js\<close>. Deferred
    objects live in a store and refer to each other by address. Shown: callbacks run in order and as
    the comment of the source specifies, waiting for another deferred is transparent, every firing
    ends, a list fires with its last member, and a deferred fires once. The locale \<open>good_firing\<close> is the
    contract between \<open>_fire\<close> and the operations that call it.
  \<^item> \<open>Undo_Manager\<close>: \<open>src/undo/Manager.js\<close>. Managers in a store, with the state of the application that
    the undo and redo functions change. Shown: a transaction is undone and redone as one item, all
    actions can be undone and redone, and a nested transaction makes \<open>undo\<close> loop.
  \<^item> \<open>String_Extras\<close>: \<open>src/string/common.js\<close> and \<open>src/string/extras.js\<close>. Shown: escaping and splitting
    are inverted by reading and joining, prefix and suffix tests are right, and what the conversion
    of line ends does.
  \<^item> \<open>Adapter_Registry\<close> and \<open>Json\<close>: \<open>src/AdapterRegistry.js\<close> and \<open>src/json.js\<close>. Adapters are tried by priority; evaluating
    what \<open>serialize\<close> wrote gives the data back. The evaluator of the host is a parameter, the locale
    \<open>literal_evaluator\<close> says what is needed of it, and a reader of literals is an instance.
  \<^item> \<open>Loader\<close> and \<open>Loader_Proofs\<close>: \<open>src/loader.js\<close>. The state of \<open>dojo.hostenv\<close> is a record, the files of the host are a
    function to scripts, and evaluating a script may load others. Shown: a requirement ends, loads exactly what
    is reachable and each file once, and hides errors of the files. The locale \<open>loading\<close> is the contract of evaluators that
    \<open>loadModule\<close> needs to end, and \<open>step_relation\<close> that of relations which every step of the loader respects.
  \<^item> \<open>Localization\<close> and \<open>Localization_Proofs\<close>: the rest of \<open>src/loader.js\<close> and \<open>src/i18n/common.js\<close>. A bundle is an object with a prototype. Shown: each name
    gets the translation of the most specific file for locales of at most two parts without built bundles, and what goes wrong for locales of three parts.
  \<^item> \<open>Events\<close>, \<open>Event_Arguments\<close> and \<open>Events_Proofs\<close>: \<open>src/event/common.js\<close> and \<open>src/event/topic.js\<close>. Join points, connections, invocations, timers and topics are
    one record; what the functions of an application do is a parameter. Shown: topics implement lists of subscribers, advice runs in the specified
    order, around advice nests, and what the squelch flag, rates and positional arguments do. The locale \<open>advice_lists\<close> is the contract of
    connecting and disconnecting.
  \<^item> \<open>Remote_Store\<close>, \<open>Remote_Store_Proofs\<close>, \<open>Csv_Store\<close> and \<open>Csv_Proofs\<close>: \<open>src/data/core/RemoteStore.js\<close> and \<open>src/data/CsvStore.js\<close>. The tables of a store
    are a record, what the server answers is an argument of the functions that handle it, and a sequence of requests is a list. Shown: saving commits what
    a reader sees, reverting discards it, the cache of queries is consistent until something is saved, a table is read back from its text and
    becomes visible through the store, and which values, changes and deletions go wrong.
  \<^item> \<open>Uri\<close> and \<open>Uri_Proofs\<close>: \<open>src/uri/Uri.js\<close>. A regular expression is the list of its matches in the order in which they are tried. Shown: taking apart
    and putting together are inverse, references are resolved as RFC 2396 says, merged paths are in normal form, and what happens to logins and bare hosts.
  \<^item> \<open>Xd_Loader\<close> and \<open>Xd_Proofs\<close>: \<open>src/loader_xd.js\<close>. A record of the tables, one function per operation, and sequences of requests and arrivals. Shown: the tables are well
    formed, the walk through the requirements ends and evaluates each package once and after its requirements, a round of loading finishes, and
    packages whose entries lead to undefined functions or values fail. Requests of package files (\<open>.*\<close>) are not walked.

  \<^item> \<open>Logging\<close>: \<open>src/logging/Logger.js\<close>. Loggers, filters and handlers are records. Shown: a handler remembers the last records that pass when debugging is on and nothing otherwise, and how named loggers and removed filters fail.
  \<^item> \<open>Graph\<close>: \<open>src/collections/Graph.js\<close>. Nodes are objects in a heap, found through a dictionary. Shown: a graph is a map of nodes with a list of edges.
  \<^item> \<open>Undo_Browser\<close>: \<open>src/undo/browser.js\<close>. The two stacks, the address and its timeouts, and the objects with callbacks are one record. Shown: the stacks and the calls follow the
    session of a browser that shows fragments, as long as the timer looks at the address after each press of a button; the interceptors installed on the objects are transparent; a state with a fragment can not be added before the initial state was set.
  \<^item> \<open>Selection\<close>, \<open>Selection_Proofs\<close>, \<open>Selection_Segments\<close> and \<open>Js_Math\<close>: \<open>src/selection/Selection.js\<close> and the integer functions of \<open>src/math.js\<close>. A selection is a record with its items, the pivots from which
    it grows and the events it raised; the methods that users override and the order of enumeration of the engine are arguments. The locale \<open>selection_contract\<close> says what a condition needs
    so that all operations keep it. Shown: the selection is a set of selectable items that an observer of the events knows exactly; clicks and the shift key select the segment from the
    pivot to the item reached last; the factorial of zero spoils the counting functions.
  \<^item> \<open>Lang_Array\<close> and \<open>String_Builder\<close>: \<open>src/lang/array.js\<close>, \<open>find\<close> of \<open>src/lang/common.js\<close> and \<open>src/string/Builder.js\<close>. Callbacks have a state, so that their calls show. Shown: which
    calls are made, what is found, and that both representations of a builder agree.

  \<^bold>\<open>How the parts interact.\<close> The collections use each other (a clone goes through an iterator, \<open>Set\<close>
  through \<open>ArrayList\<close>, both tables through \<open>DictionaryIterator\<close>) and the theories import each other in
  the same way. The digests share the word arrays, and keyed hashing and the UUID generators share the
  operators of the prelude. A \<open>DeferredList\<close> is a deferred whose members call back into it. \<open>json\<close> uses an adapter registry and the
  escapes of \<open>string/extras\<close>; the localization keeps its bundles in the registry of the loader; a topic is an object whose
  method has join points, so that publishing is a call of that method. The store of comma-separated values
  hands what it has read to the handler of the remote store.

  \<^bold>\<open>Bounds and fuel.\<close> Most functions are total and terminate by their recursion. \<open>fire\<close> of \<open>Deferred\<close>
  takes a bound on nested calls and loop steps; \<open>deferred_returns\<close> shows that twice the work in the
  store plus six is always enough. The operations of \<open>Undo_Manager\<close> take such a bound too; the
  properties give enough of it for what they call, and \<open>nested_transaction_hangs\<close> shows a call for
  which none is enough. The busy waiting of the time-based generator is bounded by the readings of the
  clock it is given. \<open>dj_eval\<close> of the loader takes a bound on nested evaluations: by \<open>require_ends\<close> the number of files not yet loaded is enough. \<open>xdEvalReqs\<close> takes such a
  bound as well: twice the number of required names plus two is enough.
  \<open>serialize\<close> takes a bound on the depth of the data, \<open>call_method\<close> of \<open>Events\<close> one on nested calls: two for methods with advice before and after,
  two more for each around function. Numbers that the code treats as integers are integers; strings have characters
  below 256.

  \<^bold>\<open>Not modelled.\<close> Everything that rests on the browser or on other hosts: widgets, the document,
  graphics, events of nodes, input and output, storage, animation. Dates, validation and regular
  expressions, which hand the work to host objects. Generated builds of the toolkit, stubs
  (\<open>Rijndael\<close>, \<open>SHA256\<close>), tests, and the C and Tcl code of the servers. Of the modelled files:
  \<open>getFromHtml\<close> of \<open>Store.js\<close>, the event hooks with empty bodies, \<open>curry\<close> and other functions of
  \<open>lang/func.js\<close>, and callbacks that operate on the object that is calling them.
  Of the loader across domains: the conversion of local files to packages and the localization of bundles. Of the remote store: the requests and their callbacks.
\<close>

end
